(* ===== verification/Prelude.thy ===== *)
theory Prelude
  imports Main "HOL-Library.Word" "HOL-Library.Sublist" "HOL-Library.Multiset"
begin

text \<open>
  Shared vocabulary of the development: how C data is represented, the functions of the C
  library the sources call (strings, number conversion, bounded copies), and the generic
  lemmas the components share.

  Conventions. A C string is the list of its characters without the terminating NUL. A byte
  buffer is the list of all its bytes. \<open>size_t\<close> lengths of objects are \<open>nat\<close>: an object is
  never larger than \<open>PTRDIFF_MAX\<close>, so sums of two lengths do not wrap. Signed integers
  (\<open>int\<close>, \<open>int64_t\<close>, \<open>pid_t\<close>) are \<open>int\<close>, because signed overflow has no defined result; where a
  sum could leave the type's range a lemma bounds it. Unsigned counters that may wrap are words.
\<close>

named_theorems cstr_simps \<open>evaluation of the C string functions\<close>
named_theorems emit_rules \<open>what each JSON builder call writes\<close>
named_theorems inv_rules \<open>preservation of component invariants\<close>

section \<open>Machine integers\<close>

abbreviation INT32_MAX :: int where "INT32_MAX \<equiv> 2147483647"
abbreviation INT64_MAX :: int where "INT64_MAX \<equiv> 9223372036854775807"
abbreviation INT64_MIN :: int where "INT64_MIN \<equiv> - 9223372036854775808"

definition in_int64 :: "int \<Rightarrow> bool" where
  "in_int64 i \<longleftrightarrow> INT64_MIN \<le> i \<and> i \<le> INT64_MAX"

text \<open>The conversion \<open>(int)x\<close> of a wider integer keeps the low 32 bits.\<close>

definition to_int32 :: "int \<Rightarrow> int" where
  "to_int32 i = (i + 2147483648) mod 4294967296 - 2147483648"

lemma to_int32_id: "- 2147483648 \<le> i \<Longrightarrow> i \<le> INT32_MAX \<Longrightarrow> to_int32 i = i"
  by (simp add: to_int32_def)

lemma to_int32_range: "- 2147483648 \<le> to_int32 i \<and> to_int32 i \<le> INT32_MAX"
  using pos_mod_bound[of 4294967296 "i + 2147483648"] pos_mod_sign[of 4294967296 "i + 2147483648"]
  by (auto simp: to_int32_def)

text \<open>C division of signed integers truncates towards zero.\<close>

definition tdiv :: "int \<Rightarrow> int \<Rightarrow> int" where
  "tdiv a b = sgn a * sgn b * (\<bar>a\<bar> div \<bar>b\<bar>)"

lemma tdiv_nonneg: "0 \<le> a \<Longrightarrow> 0 < b \<Longrightarrow> tdiv a b = a div b"
  by (cases "a = 0") (simp_all add: tdiv_def)

definition trem :: "int \<Rightarrow> int \<Rightarrow> int" where
  "trem a b = sgn a * (\<bar>a\<bar> mod \<bar>b\<bar>)"

lemma trem_nonneg: "0 \<le> a \<Longrightarrow> 0 < b \<Longrightarrow> trem a b = a mod b"
  by (cases "a = 0") (simp_all add: trem_def)

section \<open>Characters\<close>

abbreviation NUL :: char where "NUL \<equiv> CHR 0x00"
abbreviation LF :: char where "LF \<equiv> CHR 0x0A"
abbreviation CR :: char where "CR \<equiv> CHR 0x0D"

definition isspace :: "char \<Rightarrow> bool" where
  "isspace c \<longleftrightarrow> (let n = (of_char c :: nat) in n = 32 \<or> (9 \<le> n \<and> n \<le> 13))"

definition isdigit :: "char \<Rightarrow> bool" where
  "isdigit c \<longleftrightarrow> (let n = (of_char c :: nat) in 48 \<le> n \<and> n \<le> 57)"

definition isalnum :: "char \<Rightarrow> bool" where
  "isalnum c \<longleftrightarrow> (let n = (of_char c :: nat) in
     isdigit c \<or> (65 \<le> n \<and> n \<le> 90) \<or> (97 \<le> n \<and> n \<le> 122))"

definition digit_char :: "nat \<Rightarrow> char" where
  "digit_char n = char_of (48 + n)"

definition digit_val :: "char \<Rightarrow> nat" where
  "digit_val c = of_char c - 48"

lemma digit_char_literals [simp]:
  "digit_char 0 = CHR ''0''" "digit_char (Suc 0) = CHR ''1''" "digit_char 1 = CHR ''1''"
  "digit_char 2 = CHR ''2''" "digit_char 3 = CHR ''3''" "digit_char 4 = CHR ''4''"
  "digit_char 5 = CHR ''5''" "digit_char 6 = CHR ''6''" "digit_char 7 = CHR ''7''"
  "digit_char 8 = CHR ''8''" "digit_char 9 = CHR ''9''"
  by code_simp+

lemma isdigit_digit_char [simp]: "n < 10 \<Longrightarrow> isdigit (digit_char n)"
  by (simp add: isdigit_def digit_char_def Let_def)

lemma digit_val_digit_char [simp]: "n < 10 \<Longrightarrow> digit_val (digit_char n) = n"
  by (simp add: digit_val_def digit_char_def)

lemma isdigit_not_isspace: "isdigit c \<Longrightarrow> \<not> isspace c"
  by (auto simp: isdigit_def isspace_def Let_def)

lemma isdigit_not_sign: "isdigit c \<Longrightarrow> c \<noteq> CHR ''-'' \<and> c \<noteq> CHR ''+''"
  by (auto simp: isdigit_def Let_def)

section \<open>C strings\<close>

text \<open>What a string function sees of a buffer: the bytes before the first NUL.\<close>

definition cstr :: "string \<Rightarrow> string" where
  "cstr s = takeWhile (\<lambda>c. c \<noteq> NUL) s"

lemma cstr_no_nul [simp]: "NUL \<notin> set (cstr s)"
  by (auto simp: cstr_def dest: set_takeWhileD)

lemma cstr_id [simp]: "NUL \<notin> set s \<Longrightarrow> cstr s = s"
  by (auto simp: cstr_def takeWhile_eq_all_conv)

lemma cstr_append_nul [simp]: "NUL \<notin> set s \<Longrightarrow> cstr (s @ NUL # r) = s"
  by (auto simp: cstr_def takeWhile_tail)

lemma length_cstr: "length (cstr s) \<le> length s"
  by (simp add: cstr_def length_takeWhile_le)

text \<open>\<open>strchr\<close> and \<open>strstr\<close> return the suffix their result pointer denotes.\<close>

fun strchr :: "char \<Rightarrow> string \<Rightarrow> string option" where
  "strchr c [] = None"
| "strchr c (x # xs) = (if x = c then Some (x # xs) else strchr c xs)"

text \<open>\<open>strncmp(s, p, strlen(p)) == 0\<close>.\<close>

fun starts_with :: "string \<Rightarrow> string \<Rightarrow> bool" where
  "starts_with [] s = True"
| "starts_with (p # ps) [] = False"
| "starts_with (p # ps) (x # xs) = (p = x \<and> starts_with ps xs)"

fun strstr :: "string \<Rightarrow> string \<Rightarrow> string option" where
  "strstr n [] = (if n = [] then Some [] else None)"
| "strstr n (x # xs) = (if starts_with n (x # xs) then Some (x # xs) else strstr n xs)"

lemma strchr_append: "c \<notin> set a \<Longrightarrow> strchr c (a @ c # b) = Some (c # b)"
  by (induction a) auto

lemma strchr_None: "strchr c s = None \<longleftrightarrow> c \<notin> set s"
  by (induction s) auto

lemma strchr_Some: "strchr c s = Some r \<Longrightarrow> \<exists>a. s = a @ r \<and> c \<notin> set a \<and> (\<exists>b. r = c # b)"
  by (induction s) (auto split: if_splits intro: exI[of _ "_ # _"])

lemma strchr_length: "strchr c s = Some r \<Longrightarrow> length r \<le> length s"
  using strchr_Some by fastforce

lemma starts_with_iff: "starts_with p s \<longleftrightarrow> prefix p s"
  by (induction p s rule: starts_with.induct) auto

lemma starts_with_append [simp]: "starts_with p (p @ r)"
  by (simp add: starts_with_iff)

lemma strstr_None: "strstr n s = None \<longleftrightarrow> \<not> sublist n s"
  by (induction n s rule: strstr.induct) (auto simp: starts_with_iff sublist_Cons_right)

lemma strstr_Some: "strstr n s = Some r \<Longrightarrow> suffix r s \<and> prefix n r"
  by (induction n s rule: strstr.induct)
    (auto simp: starts_with_iff suffix_def split: if_splits)

text \<open>
  \<open>strncpy(dst, src, sizeof(dst) - 1)\<close> into an array whose last byte is NUL, and
  \<open>snprintf(dst, sizeof(dst), "%s", src)\<close>: at most \<open>n - 1\<close> characters are kept.
\<close>

definition bounded_copy :: "nat \<Rightarrow> string \<Rightarrow> string" where
  "bounded_copy n s = take (n - 1) s"

lemma length_bounded_copy: "0 < n \<Longrightarrow> length (bounded_copy n s) < n"
  by (auto simp: bounded_copy_def)

lemma bounded_copy_fits: "length s < n \<Longrightarrow> bounded_copy n s = s"
  by (auto simp: bounded_copy_def)

lemma bounded_copy_no_nul: "NUL \<notin> set s \<Longrightarrow> NUL \<notin> set (bounded_copy n s)"
  by (auto simp: bounded_copy_def dest: in_set_takeD)

text \<open>
  The loop \<open>while (*line) { ...; line = strchr(line, '\n'); if (!line) break; line++; }\<close> visits
  the suffixes of the text that start a line.
\<close>

function line_suffixes :: "string \<Rightarrow> string list" where
  "line_suffixes s = (if s = [] then [] else
     s # (case strchr LF s of None \<Rightarrow> [] | Some r \<Rightarrow> line_suffixes (tl r)))"
  by pat_completeness auto
termination
  by (relation "measure length") (auto dest!: strchr_Some)

declare line_suffixes.simps [simp del]

lemma line_suffixes_Nil [simp]: "line_suffixes [] = []"
  by (simp add: line_suffixes.simps)

lemma line_suffixes_line:
  "LF \<notin> set l \<Longrightarrow> line_suffixes (l @ LF # r) = (l @ LF # r) # line_suffixes r"
  by (subst line_suffixes.simps) (simp add: strchr_append)

lemma line_suffixes_last:
  "LF \<notin> set l \<Longrightarrow> l \<noteq> [] \<Longrightarrow> line_suffixes l = [l]"
  by (subst line_suffixes.simps) (simp add: strchr_None[THEN iffD2])

section \<open>Decimal numbers\<close>

fun nat_str :: "nat \<Rightarrow> string" where
  "nat_str n = (if n < 10 then [digit_char n] else nat_str (n div 10) @ [digit_char (n mod 10)])"

declare nat_str.simps [simp del]

text \<open>\<open>printf("%ld")\<close>.\<close>

definition int_str :: "int \<Rightarrow> string" where
  "int_str i = (if i < 0 then CHR ''-'' # nat_str (nat (- i)) else nat_str (nat i))"

fun digits_val :: "nat \<Rightarrow> string \<Rightarrow> nat" where
  "digits_val acc [] = acc"
| "digits_val acc (c # cs) = digits_val (10 * acc + digit_val c) cs"

text \<open>\<open>strtol\<close> and \<open>strtoll\<close> in base 10: leading white space, a sign, digits; saturating.\<close>

definition clamp64 :: "int \<Rightarrow> int" where
  "clamp64 i = max INT64_MIN (min INT64_MAX i)"

definition strtoll :: "string \<Rightarrow> int" where
  "strtoll s = (let t = dropWhile isspace s;
                    neg = (t \<noteq> [] \<and> hd t = CHR ''-'');
                    u = (if t \<noteq> [] \<and> (hd t = CHR ''-'' \<or> hd t = CHR ''+'') then tl t else t);
                    v = int (digits_val 0 (takeWhile isdigit u))
                in clamp64 (if neg then - v else v))"

text \<open>\<open>atoi(s)\<close> is \<open>(int)strtol(s, NULL, 10)\<close>.\<close>

definition atoi :: "string \<Rightarrow> int" where
  "atoi s = to_int32 (strtoll s)"

lemma nat_str_nonempty [simp]: "nat_str n \<noteq> []"
  by (subst nat_str.simps) simp

lemma nat_str_digits: "c \<in> set (nat_str n) \<Longrightarrow> isdigit c"
proof (induction n rule: nat_str.induct)
  case (1 n)
  then show ?case by (subst (asm) (2) nat_str.simps) (auto split: if_splits)
qed

lemma nat_str_length: "n < 10 ^ k \<Longrightarrow> 0 < k \<Longrightarrow> length (nat_str n) \<le> k"
proof (induction k arbitrary: n)
  case (Suc k)
  show ?case
  proof (cases "n < 10")
    case True
    then show ?thesis by (subst nat_str.simps) simp
  next
    case False
    then have "0 < k" using Suc.prems by (cases k) auto
    moreover have "n div 10 < 10 ^ k" using Suc.prems by (simp add: less_mult_imp_div_less)
    ultimately show ?thesis using Suc.IH[of "n div 10"] False by (subst nat_str.simps) simp
  qed
qed simp

lemma digits_val_append: "digits_val a (xs @ ys) = digits_val (digits_val a xs) ys"
  by (induction a xs rule: digits_val.induct) auto

lemma digits_val_nat_str: "digits_val 0 (nat_str n) = n"
proof (induction n rule: nat_str.induct)
  case (1 n)
  then show ?case by (subst nat_str.simps) (auto simp: digits_val_append)
qed

lemma takeWhile_nat_str:
  "(r \<noteq> [] \<longrightarrow> \<not> isdigit (hd r)) \<Longrightarrow> takeWhile isdigit (nat_str n @ r) = nat_str n"
  by (cases r) (auto simp: takeWhile_append2 nat_str_digits)

lemma nat_str_hd: "\<exists>c cs. nat_str n = c # cs \<and> isdigit c"
  by (metis list.exhaust list.set_intros(1) nat_str_digits nat_str_nonempty)

lemma strtoll_int_str:
  assumes "in_int64 i" and "r \<noteq> [] \<longrightarrow> \<not> isdigit (hd r)"
  shows "strtoll (int_str i @ r) = i"
proof (cases "i < 0")
  case True
  then show ?thesis using assms
    by (simp add: strtoll_def int_str_def Let_def takeWhile_nat_str digits_val_nat_str
        isspace_def clamp64_def in_int64_def)
next
  case False
  obtain c cs where c: "nat_str (nat i) = c # cs" "isdigit c" using nat_str_hd by blast
  then have "strtoll (int_str i @ r)
      = clamp64 (int (digits_val 0 (takeWhile isdigit (nat_str (nat i) @ r))))"
    using False isdigit_not_isspace isdigit_not_sign
    by (simp add: strtoll_def int_str_def Let_def)
  then show ?thesis using assms False
    by (simp add: takeWhile_nat_str digits_val_nat_str clamp64_def in_int64_def)
qed

lemma strtoll_spaces: "\<forall>c \<in> set ws. isspace c \<Longrightarrow> strtoll (ws @ s) = strtoll s"
  by (simp add: strtoll_def dropWhile_append2)

lemma strtoll_nat:
  "int n \<le> INT64_MAX \<Longrightarrow> (r \<noteq> [] \<longrightarrow> \<not> isdigit (hd r)) \<Longrightarrow> strtoll (nat_str n @ r) = int n"
  using strtoll_int_str[of "int n" r] by (simp add: in_int64_def int_str_def)

lemma strtoll_space_nat:
  "int n \<le> INT64_MAX \<Longrightarrow> (r \<noteq> [] \<longrightarrow> \<not> isdigit (hd r)) \<Longrightarrow> strtoll (CHR '' '' # nat_str n @ r) = int n"
  using strtoll_spaces[of "'' ''" "nat_str n @ r"] strtoll_nat[of n r] by (simp add: isspace_def)

lemma strtoll_range: "in_int64 (strtoll s)"
  by (simp add: strtoll_def Let_def clamp64_def in_int64_def)

end
