(* ===== verification/Json.thy ===== *)
theory Json
  imports Prelude
begin

text \<open>
  The JSON builder (\<open>src/common/json.c\<close>, \<open>json.h\<close>): an append-only writer into a caller's
  buffer, with a sticky overflow flag and automatic commas. The model keeps the whole buffer,
  so that the bytes a call may write are visible; \<open>jb_out\<close> is the text produced so far.
\<close>

section \<open>The builder and its calls\<close>

record json_builder =
  jb_buf :: string
  jb_size :: nat
  jb_pos :: nat
  jb_depth :: int
  jb_comma :: bool
  jb_error :: bool

text \<open>\<open>memcpy(buf + p, s, len)\<close>; a copy past the end would make the list longer.\<close>

definition mem_write :: "string \<Rightarrow> nat \<Rightarrow> string \<Rightarrow> string" where
  "mem_write b p s = take p b @ s @ drop (p + length s) b"

definition json_write :: "string \<Rightarrow> json_builder \<Rightarrow> json_builder" where
  "json_write s j =
     (if jb_error j then j
      else if jb_pos j + length s \<ge> jb_size j then j\<lparr>jb_error := True\<rparr>
      else let b = mem_write (jb_buf j) (jb_pos j) s;
               p = jb_pos j + length s
           in j\<lparr>jb_buf := mem_write b p [NUL], jb_pos := p\<rparr>)"

definition json_comma_if_needed :: "json_builder \<Rightarrow> json_builder" where
  "json_comma_if_needed j =
     (let j' = (if jb_comma j then json_write '','' j else j) in j'\<lparr>jb_comma := False\<rparr>)"

definition json_init :: "string \<Rightarrow> nat \<Rightarrow> json_builder" where
  "json_init buf sz =
     \<lparr>jb_buf = (if sz > 0 then mem_write buf 0 [NUL] else buf), jb_size = sz, jb_pos = 0,
      jb_depth = 0, jb_comma = False, jb_error = False\<rparr>"

definition json_object_start :: "json_builder \<Rightarrow> json_builder" where
  "json_object_start j =
     (let j1 = json_write ''{'' (json_comma_if_needed j)
      in j1\<lparr>jb_depth := jb_depth j1 + 1, jb_comma := False\<rparr>)"

definition json_object_end :: "json_builder \<Rightarrow> json_builder" where
  "json_object_end j =
     (let j1 = json_write ''}'' j in j1\<lparr>jb_depth := jb_depth j1 - 1, jb_comma := True\<rparr>)"

definition json_array_start :: "json_builder \<Rightarrow> json_builder" where
  "json_array_start j =
     (let j1 = json_write ''['' (json_comma_if_needed j)
      in j1\<lparr>jb_depth := jb_depth j1 + 1, jb_comma := False\<rparr>)"

definition json_array_end :: "json_builder \<Rightarrow> json_builder" where
  "json_array_end j =
     (let j1 = json_write '']'' j in j1\<lparr>jb_depth := jb_depth j1 - 1, jb_comma := True\<rparr>)"

text \<open>The two escaping switches: \<open>json_key\<close> has no case for other control characters.\<close>

abbreviation DQ :: char where "DQ \<equiv> CHR 0x22"
abbreviation BSL :: char where "BSL \<equiv> CHR 0x5C"
abbreviation TAB :: char where "TAB \<equiv> CHR 0x09"

definition key_char :: "char \<Rightarrow> string" where
  "key_char c = (if c = DQ then [BSL, DQ]
     else if c = BSL then [BSL, BSL]
     else if c = LF then [BSL, CHR ''n'']
     else if c = CR then [BSL, CHR ''r'']
     else if c = TAB then [BSL, CHR ''t'']
     else [c])"

definition hex_digit :: "nat \<Rightarrow> char" where
  "hex_digit n = (if n < 10 then char_of (48 + n) else char_of (87 + n))"

text \<open>\<open>snprintf(esc, 8, "\u%04x", c)\<close> for a character below 0x20.\<close>

definition u_escape :: "char \<Rightarrow> string" where
  "u_escape c = [BSL, CHR ''u'', CHR ''0'', CHR ''0'',
     hex_digit (of_char c div 16), hex_digit (of_char c mod 16)]"

definition value_char :: "char \<Rightarrow> string" where
  "value_char c = (if c = DQ then [BSL, DQ]
     else if c = BSL then [BSL, BSL]
     else if c = LF then [BSL, CHR ''n'']
     else if c = CR then [BSL, CHR ''r'']
     else if c = TAB then [BSL, CHR ''t'']
     else if (of_char c :: nat) < 32 then u_escape c
     else [c])"

definition json_key :: "string \<Rightarrow> json_builder \<Rightarrow> json_builder" where
  "json_key k j = json_write [DQ, CHR '':'']
     (fold (\<lambda>c. json_write (key_char c)) k (json_write [DQ] (json_comma_if_needed j)))"

definition json_string :: "string option \<Rightarrow> json_builder \<Rightarrow> json_builder" where
  "json_string v j =
     (let j1 = json_comma_if_needed j in
      case v of
        None \<Rightarrow> (json_write ''null'' j1)\<lparr>jb_comma := True\<rparr>
      | Some s \<Rightarrow> (json_write [DQ] (fold (\<lambda>c. json_write (value_char c)) s
                     (json_write [DQ] j1)))\<lparr>jb_comma := True\<rparr>)"

text \<open>The scalar calls all write one token after the comma.\<close>

definition json_int :: "int \<Rightarrow> json_builder \<Rightarrow> json_builder" where
  "json_int v j = (json_write (int_str v) (json_comma_if_needed j))\<lparr>jb_comma := True\<rparr>"

definition json_uint :: "64 word \<Rightarrow> json_builder \<Rightarrow> json_builder" where
  "json_uint v j = (json_write (nat_str (unat v)) (json_comma_if_needed j))\<lparr>jb_comma := True\<rparr>"

text \<open>\<open>fmt_g\<close> is \<open>snprintf("%.6g")\<close> on the type of doubles.\<close>

definition json_double :: "('d \<Rightarrow> string) \<Rightarrow> 'd \<Rightarrow> json_builder \<Rightarrow> json_builder" where
  "json_double fmt_g v j = (json_write (fmt_g v) (json_comma_if_needed j))\<lparr>jb_comma := True\<rparr>"

definition json_bool :: "bool \<Rightarrow> json_builder \<Rightarrow> json_builder" where
  "json_bool v j =
     (json_write (if v then ''true'' else ''false'') (json_comma_if_needed j))\<lparr>jb_comma := True\<rparr>"

definition json_null :: "json_builder \<Rightarrow> json_builder" where
  "json_null j = (json_write ''null'' (json_comma_if_needed j))\<lparr>jb_comma := True\<rparr>"

definition json_kv_string :: "string \<Rightarrow> string option \<Rightarrow> json_builder \<Rightarrow> json_builder" where
  "json_kv_string k v j = json_string v ((json_key k j)\<lparr>jb_comma := False\<rparr>)"

definition json_kv_int :: "string \<Rightarrow> int \<Rightarrow> json_builder \<Rightarrow> json_builder" where
  "json_kv_int k v j = json_int v ((json_key k j)\<lparr>jb_comma := False\<rparr>)"

definition json_kv_uint :: "string \<Rightarrow> 64 word \<Rightarrow> json_builder \<Rightarrow> json_builder" where
  "json_kv_uint k v j = json_uint v ((json_key k j)\<lparr>jb_comma := False\<rparr>)"

definition json_kv_double ::
    "('d \<Rightarrow> string) \<Rightarrow> string \<Rightarrow> 'd \<Rightarrow> json_builder \<Rightarrow> json_builder" where
  "json_kv_double fmt_g k v j = json_double fmt_g v ((json_key k j)\<lparr>jb_comma := False\<rparr>)"

definition json_kv_bool :: "string \<Rightarrow> bool \<Rightarrow> json_builder \<Rightarrow> json_builder" where
  "json_kv_bool k v j = json_bool v ((json_key k j)\<lparr>jb_comma := False\<rparr>)"

definition json_length :: "json_builder \<Rightarrow> nat" where
  "json_length j = jb_pos j"

definition json_error :: "json_builder \<Rightarrow> bool" where
  "json_error j = jb_error j"

text \<open>A sequence of statements on one builder.\<close>

definition jseq :: "(json_builder \<Rightarrow> json_builder) list \<Rightarrow> json_builder \<Rightarrow> json_builder" where
  "jseq fs j = fold (\<lambda>f. f) fs j"

text \<open>The text written so far, and what a reader of the buffer as a C string sees.\<close>

definition jb_out :: "json_builder \<Rightarrow> string" where
  "jb_out j = take (jb_pos j) (jb_buf j)"

section \<open>Memory safety\<close>

text \<open>
  The invariant of a builder over a buffer of at least \<open>size\<close> bytes: the position stays
  inside, and the byte at the position is the terminator.
\<close>

definition jb_inv :: "json_builder \<Rightarrow> bool" where
  "jb_inv j \<longleftrightarrow> jb_size j \<le> length (jb_buf j) \<and>
     (0 < jb_size j \<longrightarrow> jb_pos j < jb_size j \<and> jb_buf j ! jb_pos j = NUL) \<and>
     (jb_size j = 0 \<longrightarrow> jb_pos j = 0)"

text \<open>What a call must leave alone: the extent of the buffer, the bytes from \<open>size\<close> on.\<close>

definition jb_frame :: "json_builder \<Rightarrow> json_builder \<Rightarrow> bool" where
  "jb_frame j j' \<longleftrightarrow> jb_size j' = jb_size j \<and> length (jb_buf j') = length (jb_buf j) \<and>
     drop (jb_size j) (jb_buf j') = drop (jb_size j) (jb_buf j)"

definition jb_safe :: "(json_builder \<Rightarrow> json_builder) \<Rightarrow> bool" where
  "jb_safe f \<longleftrightarrow> (\<forall>j. jb_inv j \<longrightarrow> jb_inv (f j) \<and> jb_frame j (f j))"

lemma length_mem_write: "p + length s \<le> length b \<Longrightarrow> length (mem_write b p s) = length b"
  by (simp add: mem_write_def)

lemma take_mem_write: "p + length s \<le> length b \<Longrightarrow> take (p + length s) (mem_write b p s) = take p b @ s"
  by (simp add: mem_write_def)

lemma take_mem_write_before:
  "q \<le> p \<Longrightarrow> p \<le> length b \<Longrightarrow> take q (mem_write b p s) = take q b"
  by (simp add: mem_write_def min_def)

lemma drop_mem_write:
  "p + length s \<le> n \<Longrightarrow> n \<le> length b \<Longrightarrow> drop n (mem_write b p s) = drop n b"
proof -
  assume "p + length s \<le> n" and "n \<le> length b"
  then obtain k where "n = p + length s + k" and "p \<le> length b"
    by (auto simp: le_iff_add)
  then show ?thesis by (simp add: mem_write_def drop_append min_def add.commute)
qed

lemma nth_mem_write_nul: "p < length b \<Longrightarrow> mem_write b p [NUL] ! p = NUL"
  by (simp add: mem_write_def nth_append)

lemmas mem_write_simps =
  length_mem_write take_mem_write take_mem_write_before drop_mem_write nth_mem_write_nul

lemma jb_inv_upd [simp]:
  "jb_inv (j\<lparr>jb_comma := b\<rparr>) = jb_inv j" "jb_inv (j\<lparr>jb_depth := d\<rparr>) = jb_inv j"
  "jb_inv (j\<lparr>jb_error := b\<rparr>) = jb_inv j"
  by (simp_all add: jb_inv_def)

lemma jb_frame_upd [simp]:
  "jb_frame i (j\<lparr>jb_comma := b\<rparr>) = jb_frame i j" "jb_frame i (j\<lparr>jb_depth := d\<rparr>) = jb_frame i j"
  "jb_frame i (j\<lparr>jb_error := b\<rparr>) = jb_frame i j"
  by (simp_all add: jb_frame_def)

lemma jb_frame_refl [simp]: "jb_frame j j"
  by (simp add: jb_frame_def)

lemma jb_frame_trans: "jb_frame a b \<Longrightarrow> jb_frame b c \<Longrightarrow> jb_frame a c"
  by (simp add: jb_frame_def)

lemma jb_write_ok:
  assumes "jb_inv j" and "\<not> jb_error j" and "jb_pos j + length s < jb_size j"
  shows "jb_inv (json_write s j)" and "jb_frame j (json_write s j)"
    and "jb_out (json_write s j) = jb_out j @ s" and "\<not> jb_error (json_write s j)"
    and "jb_pos (json_write s j) = jb_pos j + length s"
proof -
  have le: "jb_pos j + length s < length (jb_buf j)"
    using assms by (auto simp: jb_inv_def)
  show "jb_inv (json_write s j)" and "jb_frame j (json_write s j)"
    and "jb_out (json_write s j) = jb_out j @ s" and "\<not> jb_error (json_write s j)"
    and "jb_pos (json_write s j) = jb_pos j + length s"
    using assms le
    by (simp_all add: json_write_def Let_def jb_inv_def jb_frame_def jb_out_def mem_write_simps)
qed

lemma jb_write_overflow:
  "\<not> jb_error j \<Longrightarrow> jb_size j \<le> jb_pos j + length s \<Longrightarrow> json_write s j = j\<lparr>jb_error := True\<rparr>"
  by (simp add: json_write_def)

lemma jb_write_error: "jb_error j \<Longrightarrow> json_write s j = j"
  by (simp add: json_write_def)

lemma jb_safe_write [inv_rules]: "jb_safe (json_write s)"
  unfolding jb_safe_def
proof (intro allI impI)
  fix j
  assume "jb_inv j"
  then show "jb_inv (json_write s j) \<and> jb_frame j (json_write s j)"
    by (cases "jb_error j"; cases "jb_pos j + length s < jb_size j")
      (simp_all add: jb_write_error jb_write_ok jb_write_overflow)
qed

lemma jb_safe_id [inv_rules]: "jb_safe (\<lambda>j. j)"
  by (simp add: jb_safe_def)

lemma jb_safe_comp: "jb_safe f \<Longrightarrow> jb_safe g \<Longrightarrow> jb_safe (\<lambda>j. g (f j))"
  unfolding jb_safe_def by (blast intro: jb_frame_trans)

lemma jb_safe_comma_upd: "jb_safe f \<Longrightarrow> jb_safe (\<lambda>j. (f j)\<lparr>jb_comma := b\<rparr>)"
  unfolding jb_safe_def by simp

lemma jb_safe_depth_upd:
  "jb_safe f \<Longrightarrow> jb_safe (\<lambda>j. (f j)\<lparr>jb_depth := h (f j), jb_comma := b\<rparr>)"
  unfolding jb_safe_def by simp

lemma jb_safe_fold: "(\<And>x. jb_safe (g x)) \<Longrightarrow> jb_safe (fold g xs)"
proof (induction xs)
  case Nil
  then show ?case by (simp add: jb_safe_def)
next
  case (Cons x xs)
  then show ?case using jb_safe_comp[of "g x" "fold g xs"] by (simp add: comp_def)
qed

lemma jb_safe_fold_app: "jb_safe f \<Longrightarrow> (\<And>x. jb_safe (g x)) \<Longrightarrow> jb_safe (\<lambda>j. fold g xs (f j))"
  by (rule jb_safe_comp, assumption, rule jb_safe_fold)

lemma jb_safe_comma [inv_rules]: "jb_safe json_comma_if_needed"
  using jb_safe_write[of "'',''"]
  by (simp add: jb_safe_def json_comma_if_needed_def Let_def)

lemma jb_safe_brackets [inv_rules]:
  "jb_safe json_object_start" "jb_safe json_object_end"
  "jb_safe json_array_start" "jb_safe json_array_end"
  using jb_safe_comp[OF jb_safe_comma jb_safe_write] jb_safe_write
  by (simp_all add: jb_safe_def json_object_start_def json_object_end_def json_array_start_def
      json_array_end_def Let_def)

lemma jb_safe_key [inv_rules]: "jb_safe (json_key k)"
  unfolding json_key_def
  by (intro jb_safe_comp[OF _ jb_safe_write] jb_safe_fold_app jb_safe_comma jb_safe_write)

lemma jb_safe_string [inv_rules]: "jb_safe (json_string v)"
proof (cases v)
  case None
  then show ?thesis
    unfolding json_string_def
    by (simp add: Let_def) (intro jb_safe_comma_upd jb_safe_comp[OF _ jb_safe_write] jb_safe_comma)
next
  case (Some s)
  then show ?thesis
    unfolding json_string_def
    by (simp add: Let_def)
      (intro jb_safe_comma_upd jb_safe_comp[OF _ jb_safe_write] jb_safe_fold_app jb_safe_comma
        jb_safe_write)
qed

lemma jb_safe_scalars [inv_rules]:
  "jb_safe (json_int i)" "jb_safe (json_uint u)" "jb_safe (json_double fmt d)"
  "jb_safe (json_bool b)" "jb_safe json_null"
  unfolding json_int_def json_uint_def json_double_def json_bool_def json_null_def
  by (intro jb_safe_comma_upd jb_safe_comp[OF _ jb_safe_write] jb_safe_comma)+

lemma jb_safe_kv_of: "jb_safe g \<Longrightarrow> jb_safe (\<lambda>j. g ((json_key k j)\<lparr>jb_comma := False\<rparr>))"
  by (rule jb_safe_comp[OF jb_safe_comma_upd[OF jb_safe_key]])

lemma jb_safe_kv [inv_rules]:
  "jb_safe (json_kv_string k v)" "jb_safe (json_kv_int k i)" "jb_safe (json_kv_uint k u)"
  "jb_safe (json_kv_double fmt k d)" "jb_safe (json_kv_bool k b)"
  unfolding json_kv_string_def json_kv_int_def json_kv_uint_def json_kv_double_def json_kv_bool_def
  by (rule jb_safe_kv_of[OF jb_safe_string] jb_safe_kv_of[OF jb_safe_scalars(1)]
      jb_safe_kv_of[OF jb_safe_scalars(2)] jb_safe_kv_of[OF jb_safe_scalars(3)]
      jb_safe_kv_of[OF jb_safe_scalars(4)])+

lemma jseq_Nil [simp]: "jseq [] j = j"
  by (simp add: jseq_def)

lemma jseq_Cons [simp]: "jseq (f # fs) j = jseq fs (f j)"
  by (simp add: jseq_def)

lemma jseq_append [simp]: "jseq (fs @ gs) j = jseq gs (jseq fs j)"
  by (simp add: jseq_def)

lemma jb_safe_jseq: "(\<And>f. f \<in> set fs \<Longrightarrow> jb_safe f) \<Longrightarrow> jb_safe (jseq fs)"
proof (induction fs)
  case Nil
  then show ?case by (simp add: jseq_def jb_safe_def)
next
  case (Cons f fs)
  then have "jb_safe (\<lambda>j. jseq fs (f j))" by (intro jb_safe_comp[of f "jseq fs"]) auto
  then show ?case by (simp add: jb_safe_def)
qed

lemma jb_inv_init: "sz \<le> length buf \<Longrightarrow> jb_inv (json_init buf sz)"
  by (cases "sz = 0") (auto simp: jb_inv_def json_init_def mem_write_def)

end
