(* ===== verification/JsonText.thy ===== *)
theory JsonText
  imports Json
begin

text \<open>
  What the builder's calls write: a specification of the produced text. A JSON tree
  (\<open>jval\<close>) has one rendering; a piece of builder code \<^emph>\<open>denotes\<close> a text transformer, which
  maps the pending-comma flag to the text written and the new flag. The rules compose
  along \<open>jseq\<close>, so that the text of a whole snapshot is computed from its calls.
\<close>

section \<open>JSON trees and their text\<close>

datatype jval = JNull | JBool bool | JNum string | JStr string
  | JArr "jval list" | JObj "(string \<times> jval) list"

abbreviation JInt :: "int \<Rightarrow> jval" where "JInt i \<equiv> JNum (int_str i)"
abbreviation JUint :: "64 word \<Rightarrow> jval" where "JUint u \<equiv> JNum (nat_str (unat u))"

fun join_comma :: "string list \<Rightarrow> string" where
  "join_comma [] = []"
| "join_comma [x] = x"
| "join_comma (x # y # ys) = x @ '','' @ join_comma (y # ys)"

definition key_text :: "string \<Rightarrow> string" where
  "key_text k = DQ # concat (map key_char k) @ [DQ, CHR '':'']"

definition str_text :: "string \<Rightarrow> string" where
  "str_text s = DQ # concat (map value_char s) @ [DQ]"

fun render :: "jval \<Rightarrow> string" where
  "render JNull = ''null''"
| "render (JBool b) = (if b then ''true'' else ''false'')"
| "render (JNum t) = t"
| "render (JStr s) = str_text s"
| "render (JArr vs) = ''['' @ join_comma (map render vs) @ '']''"
| "render (JObj kvs) = ''{'' @ join_comma (map (\<lambda>kv. key_text (fst kv) @ render (snd kv)) kvs) @ ''}''"

lemma join_comma_Cons:
  "join_comma (x # xs) = x @ (if xs = [] then [] else '','' @ join_comma xs)"
  by (cases xs) auto

lemma join_comma_append:
  "xs \<noteq> [] \<Longrightarrow> ys \<noteq> [] \<Longrightarrow> join_comma (xs @ ys) = join_comma xs @ '','' @ join_comma ys"
proof (induction xs)
  case (Cons x xs)
  then show ?case by (cases "xs = []") (simp_all add: join_comma_Cons)
qed simp

section \<open>Text transformers\<close>

type_synonym jtext = "bool \<Rightarrow> string \<times> bool"

definition comma_text :: "bool \<Rightarrow> string" where
  "comma_text c = (if c then '','' else [])"

definition W_seq :: "jtext \<Rightarrow> jtext \<Rightarrow> jtext" where
  "W_seq W V c = (fst (W c) @ fst (V (snd (W c))), snd (V (snd (W c))))"

definition W_raw :: "string \<Rightarrow> jtext" where "W_raw t c = (t, c)"
definition W_val :: "string \<Rightarrow> jtext" where "W_val t c = (comma_text c @ t, True)"
definition W_open :: "string \<Rightarrow> jtext" where "W_open t c = (comma_text c @ t, False)"
definition W_close :: "string \<Rightarrow> jtext" where "W_close t c = (t, True)"

definition W_elts :: "string list \<Rightarrow> jtext" where
  "W_elts ts c = (if ts = [] then ([], c) else (comma_text c @ join_comma ts, True))"

lemmas W_defs = W_seq_def W_raw_def W_val_def W_open_def W_close_def W_elts_def comma_text_def

lemma W_elts_Cons: "W_elts (t # ts) = W_seq (W_val t) (W_elts ts)"
  by (rule ext) (auto simp: W_defs join_comma_Cons)

lemma W_elts_append: "W_elts (xs @ ys) = W_seq (W_elts xs) (W_elts ys)"
  by (rule ext) (auto simp: W_defs join_comma_append)

lemma W_seq_assoc: "W_seq (W_seq A B) C = W_seq A (W_seq B C)"
  by (rule ext) (simp add: W_seq_def)

section \<open>What builder code writes\<close>

text \<open>
  One step of the builder: either the whole text \<open>s\<close> fits and is appended, or the error flag
  is set and a prefix of \<open>s\<close> has been written; a builder already in error keeps its text.
\<close>

definition jb_step :: "json_builder \<Rightarrow> json_builder \<Rightarrow> string \<Rightarrow> bool" where
  "jb_step j j' s \<longleftrightarrow> jb_inv j' \<and> jb_frame j j' \<and>
     (if jb_error j then jb_error j' \<and> jb_out j' = jb_out j
      else if jb_pos j + length s < jb_size j
      then \<not> jb_error j' \<and> jb_out j' = jb_out j @ s \<and> jb_pos j' = jb_pos j + length s
      else jb_error j' \<and> (\<exists>p. prefix p s \<and> jb_out j' = jb_out j @ p))"

definition denotes :: "(json_builder \<Rightarrow> json_builder) \<Rightarrow> jtext \<Rightarrow> int \<Rightarrow> bool" where
  "denotes f W d \<longleftrightarrow> (\<forall>j. jb_inv j \<and> 0 < jb_size j \<longrightarrow>
     jb_step j (f j) (fst (W (jb_comma j))) \<and> jb_comma (f j) = snd (W (jb_comma j)) \<and>
     jb_depth (f j) = jb_depth j + d)"

text \<open>A call that writes one complete value, whatever precedes it, with balanced brackets.\<close>

definition emits_val :: "(json_builder \<Rightarrow> json_builder) \<Rightarrow> jval \<Rightarrow> bool" where
  "emits_val f v \<longleftrightarrow> denotes f (W_val (render v)) 0"

lemma jb_step_trans:
  assumes 1: "jb_step j j1 s" and 2: "jb_step j1 j2 t"
  shows "jb_step j j2 (s @ t)"
proof -
  have inv: "jb_inv j2" "jb_frame j j2" "jb_size j1 = jb_size j"
    using assms jb_frame_trans by (auto simp: jb_step_def jb_frame_def)
  consider (err) "jb_error j" | (over1) "\<not> jb_error j" "\<not> jb_pos j + length s < jb_size j"
    | (fit1) "\<not> jb_error j" "jb_pos j + length s < jb_size j" by blast
  then show ?thesis
  proof cases
    case err
    then show ?thesis using assms inv by (simp add: jb_step_def)
  next
    case over1
    then obtain p where "prefix p s" "jb_out j1 = jb_out j @ p" "jb_error j1"
      using 1 by (auto simp: jb_step_def)
    then show ?thesis using 2 inv over1 by (auto simp: jb_step_def intro: prefix_prefix)
  next
    case fit1
    then have j1: "\<not> jb_error j1" "jb_out j1 = jb_out j @ s" "jb_pos j1 = jb_pos j + length s"
      using 1 by (simp_all add: jb_step_def)
    then show ?thesis using 2 inv fit1
      by (auto simp: jb_step_def add.assoc split: if_splits)
  qed
qed

lemma denotesI:
  assumes "\<And>j. jb_inv j \<Longrightarrow> 0 < jb_size j \<Longrightarrow> jb_step j (f j) (fst (W (jb_comma j)))"
    and "\<And>j. jb_comma (f j) = snd (W (jb_comma j))"
    and "\<And>j. jb_depth (f j) = jb_depth j + d"
  shows "denotes f W d"
  using assms by (simp add: denotes_def)

lemma denotes_comp:
  assumes "denotes f W d" and "denotes g V e"
  shows "denotes (\<lambda>j. g (f j)) (W_seq W V) (d + e)"
  unfolding denotes_def
proof (intro allI impI)
  fix j
  assume j: "jb_inv j \<and> 0 < jb_size j"
  then have 1: "jb_step j (f j) (fst (W (jb_comma j)))" "jb_comma (f j) = snd (W (jb_comma j))"
    "jb_depth (f j) = jb_depth j + d" using assms(1) by (auto simp: denotes_def)
  then have "jb_inv (f j) \<and> 0 < jb_size (f j)" using j by (auto simp: jb_step_def jb_frame_def)
  then have 2: "jb_step (f j) (g (f j)) (fst (V (jb_comma (f j))))"
    "jb_comma (g (f j)) = snd (V (jb_comma (f j)))" "jb_depth (g (f j)) = jb_depth (f j) + e"
    using assms(2) by (auto simp: denotes_def)
  show "jb_step j (g (f j)) (fst (W_seq W V (jb_comma j))) \<and>
    jb_comma (g (f j)) = snd (W_seq W V (jb_comma j)) \<and> jb_depth (g (f j)) = jb_depth j + (d + e)"
    using jb_step_trans[OF 1(1) 2(1)] 1 2 by (simp add: W_seq_def)
qed

lemma jb_out_upd [simp]:
  "jb_out (j\<lparr>jb_comma := b\<rparr>) = jb_out j" "jb_out (j\<lparr>jb_depth := d\<rparr>) = jb_out j"
  "jb_out (j\<lparr>jb_error := b\<rparr>) = jb_out j"
  by (simp_all add: jb_out_def)

lemma jb_step_write: "jb_inv j \<Longrightarrow> 0 < jb_size j \<Longrightarrow> jb_step j (json_write s j) s"
  by (cases "jb_error j"; cases "jb_pos j + length s < jb_size j")
    (auto simp: jb_step_def jb_write_error jb_write_ok jb_write_overflow)

lemma json_write_fields [simp]:
  "jb_comma (json_write s j) = jb_comma j" "jb_depth (json_write s j) = jb_depth j"
  by (simp_all add: json_write_def Let_def)

lemma jb_step_upd [simp]:
  "jb_step i (j\<lparr>jb_comma := b\<rparr>) s = jb_step i j s" "jb_step i (j\<lparr>jb_depth := d\<rparr>) s = jb_step i j s"
  by (simp_all add: jb_step_def)

lemma denotes_write: "denotes (json_write s) (W_raw s) 0"
  by (rule denotesI) (simp_all add: W_raw_def jb_step_write)

lemma denotes_id: "denotes (\<lambda>j. j) (W_raw []) 0"
  by (rule denotesI) (auto simp: W_raw_def jb_step_def jb_inv_def)

lemma denotes_set_comma: "denotes f W d \<Longrightarrow> denotes (\<lambda>j. (f j)\<lparr>jb_comma := b\<rparr>) (\<lambda>c. (fst (W c), b)) d"
  by (simp add: denotes_def)

lemma denotes_comma: "denotes json_comma_if_needed (W_open []) 0"
  using jb_step_write[of _ "'',''"] denotes_id
  by (auto simp: denotes_def json_comma_if_needed_def Let_def W_defs)

lemma denotes_cong: "denotes f W d \<Longrightarrow> W = V \<Longrightarrow> d = e \<Longrightarrow> denotes f V e"
  by simp

lemma denotes_open_write: "denotes (\<lambda>j. json_write t (json_comma_if_needed j)) (W_open t) 0"
  by (rule denotes_cong[OF denotes_comp[OF denotes_comma denotes_write]])
    (auto simp: W_defs)

lemma denotes_brackets [emit_rules]:
  "denotes json_object_start (W_open ''{'') 1" "denotes json_object_end (W_close ''}'') (- 1)"
  "denotes json_array_start (W_open ''['') 1" "denotes json_array_end (W_close '']'') (- 1)"
  using denotes_open_write denotes_write
  by (auto simp: denotes_def json_object_start_def json_object_end_def json_array_start_def
      json_array_end_def Let_def W_defs)

lemma denotes_fold_writes: "denotes (fold (\<lambda>c. json_write (g c)) s) (W_raw (concat (map g s))) 0"
proof (induction s)
  case Nil
  have "fold (\<lambda>c. json_write (g c)) [] = (\<lambda>j. j)" by auto
  with denotes_id show ?case by simp
next
  case (Cons c s)
  have "fold (\<lambda>c. json_write (g c)) (c # s) = (\<lambda>j. fold (\<lambda>c. json_write (g c)) s (json_write (g c) j))"
    by (simp add: comp_def)
  with denotes_comp[OF denotes_write[of "g c"] Cons.IH] show ?case
    by (simp add: W_defs[abs_def])
qed

lemma denotes_key [emit_rules]: "denotes (json_key k) (W_open (key_text k)) 0"
  unfolding json_key_def
  by (rule denotes_cong[OF denotes_comp[OF denotes_comp[OF denotes_open_write denotes_fold_writes]
      denotes_write]]) (auto simp: W_defs key_text_def)

lemma denotes_value_write:
  "denotes (\<lambda>j. (json_write t (json_comma_if_needed j))\<lparr>jb_comma := True\<rparr>) (W_val t) 0"
  by (rule denotes_cong[OF denotes_set_comma[OF denotes_open_write]]) (auto simp: W_defs)

lemma emits_scalars [emit_rules]:
  "emits_val (json_int i) (JInt i)" "emits_val (json_uint u) (JUint u)"
  "emits_val (json_double fmt d) (JNum (fmt d))" "emits_val (json_bool b) (JBool b)"
  "emits_val json_null JNull"
  using denotes_value_write
  unfolding emits_val_def json_int_def json_uint_def json_double_def json_bool_def json_null_def
  by simp_all

lemma emits_string [emit_rules]: "emits_val (json_string (Some s)) (JStr s)"
proof -
  have "denotes (\<lambda>j. json_write [DQ] (fold (\<lambda>c. json_write (value_char c)) s
      (json_write [DQ] (json_comma_if_needed j)))) (W_open (str_text s)) 0"
    by (rule denotes_cong[OF denotes_comp[OF denotes_comp[OF denotes_open_write
      denotes_fold_writes] denotes_write]]) (auto simp: W_defs str_text_def)
  from denotes_set_comma[OF this, of True] show ?thesis
    by (simp add: emits_val_def denotes_def json_string_def Let_def W_defs)
qed

lemma emits_string_null [emit_rules]: "emits_val (json_string None) JNull"
  using denotes_value_write[of "''null''"]
  by (simp add: emits_val_def denotes_def json_string_def Let_def)

lemma denotes_key_value:
  assumes "emits_val g v"
  shows "denotes (\<lambda>j. g ((json_key k j)\<lparr>jb_comma := False\<rparr>)) (W_val (key_text k @ render v)) 0"
  by (rule denotes_cong[OF denotes_comp[OF denotes_set_comma[OF denotes_key]
        assms[unfolded emits_val_def]]]) (auto simp: W_defs)

lemma denotes_kv [emit_rules]:
  "denotes (json_kv_string k (Some s)) (W_val (key_text k @ render (JStr s))) 0"
  "denotes (json_kv_int k i) (W_val (key_text k @ render (JInt i))) 0"
  "denotes (json_kv_uint k u) (W_val (key_text k @ render (JUint u))) 0"
  "denotes (json_kv_double fmt k d) (W_val (key_text k @ render (JNum (fmt d)))) 0"
  "denotes (json_kv_bool k b) (W_val (key_text k @ render (JBool b))) 0"
  unfolding json_kv_string_def json_kv_int_def json_kv_uint_def json_kv_double_def json_kv_bool_def
  by (rule denotes_key_value[OF emits_string] denotes_key_value[OF emits_scalars(1)]
      denotes_key_value[OF emits_scalars(2)] denotes_key_value[OF emits_scalars(3)]
      denotes_key_value[OF emits_scalars(4)])+

section \<open>Sequences, branches and loops of calls\<close>

lemma denotes_jseq_Nil [emit_rules]: "denotes (jseq []) (W_raw []) 0"
  using denotes_id by (simp add: denotes_def)

lemma denotes_jseq [emit_rules]:
  "denotes f W d \<Longrightarrow> denotes (jseq fs) V e \<Longrightarrow> denotes (jseq (f # fs)) (W_seq W V) (d + e)"
  using denotes_comp[of f W d "jseq fs" V e] by (simp add: denotes_def)

lemma denotes_jseq_cong: "(\<And>j. f j = jseq fs j) \<Longrightarrow> denotes (jseq fs) W d \<Longrightarrow> denotes f W d"
  by (simp add: denotes_def)

lemma denotes_if [emit_rules]:
  "denotes f W d \<Longrightarrow> denotes g V d \<Longrightarrow>
   denotes (if b then f else g) (if b then W else V) d"
  by simp

lemma denotes_emits: "emits_val f v \<Longrightarrow> denotes f (W_val (render v)) 0"
  by (simp add: emits_val_def)

lemma denotes_each:
  assumes "\<And>x. x \<in> set xs \<Longrightarrow> emits_val (g x) (h x)"
  shows "denotes (fold g xs) (W_elts (map (\<lambda>x. render (h x)) xs)) 0"
  using assms
proof (induction xs)
  case Nil
  have "fold g [] = (\<lambda>j. j)" by auto
  with denotes_id show ?case by (simp add: W_defs[abs_def])
next
  case (Cons x xs)
  have "denotes (\<lambda>j. fold g xs (g x j))
      (W_seq (W_val (render (h x))) (W_elts (map (\<lambda>x. render (h x)) xs))) (0 + 0)"
    using Cons by (intro denotes_comp) (auto simp: emits_val_def)
  then show ?case by (simp add: comp_def W_elts_Cons)
qed

text \<open>The texts of whole arrays and objects, for the results of the rules above.\<close>

lemma W_array: "W_seq (W_open ''['') (W_seq (W_elts (map (\<lambda>x. render (h x)) xs)) (W_close '']''))
    = W_val (render (JArr (map h xs)))"
  by (rule ext) (auto simp: W_defs comp_def)

lemma emits_valI:
  "denotes f W d \<Longrightarrow> d = 0 \<Longrightarrow> (\<And>c. W c = W_val (render v) c) \<Longrightarrow> emits_val f v"
  unfolding emits_val_def by (metis ext)

section \<open>The result of a complete rendering\<close>

text \<open>
  Writing one value into a fresh builder yields exactly its rendering when it fits with its
  terminator, and otherwise an error and a prefix of it.
\<close>

lemma emits_val_init:
  assumes "emits_val f v" and "0 < sz" and "sz \<le> length buf"
  shows "json_error (f (json_init buf sz)) = (\<not> length (render v) < sz)"
    and "\<not> json_error (f (json_init buf sz)) \<Longrightarrow> jb_out (f (json_init buf sz)) = render v"
    and "prefix (jb_out (f (json_init buf sz))) (render v)"
    and "jb_inv (f (json_init buf sz))" and "jb_depth (f (json_init buf sz)) = 0"
    and "json_length (f (json_init buf sz)) = length (jb_out (f (json_init buf sz)))"
proof -
  let ?j = "json_init buf sz"
  have i: "jb_inv ?j" "0 < jb_size ?j" "\<not> jb_comma ?j" "\<not> jb_error ?j" "jb_pos ?j = 0"
    "jb_size ?j = sz" "jb_out ?j = []" "jb_depth ?j = 0"
    using assms jb_inv_init[of sz buf] by (auto simp: json_init_def jb_out_def)
  then have st: "jb_step ?j (f ?j) (render v)" and d: "jb_depth (f ?j) = 0"
    using assms(1) by (auto simp: emits_val_def denotes_def W_defs)
  show "json_error (f ?j) = (\<not> length (render v) < sz)"
    and "\<not> json_error (f ?j) \<Longrightarrow> jb_out (f ?j) = render v"
    and "prefix (jb_out (f ?j)) (render v)" and "jb_inv (f ?j)" and "jb_depth (f ?j) = 0"
    using st d i by (auto simp: jb_step_def json_error_def split: if_splits)
  have "jb_pos (f ?j) \<le> length (jb_buf (f ?j))"
    using st i by (auto simp: jb_step_def jb_inv_def jb_frame_def)
  then show "json_length (f ?j) = length (jb_out (f ?j))"
    by (simp add: json_length_def jb_out_def)
qed

end
