(* ===== verification/JsonParse.thy ===== *)
theory JsonParse
  imports JsonText
begin

text \<open>
  A strict JSON reader, used as the specification of what the builder must produce: it
  refuses raw control characters in strings and anything but the standard escapes. Reading
  a rendering gives the tree back, so the builder's text is well formed and unambiguous.
\<close>

section \<open>The reader\<close>

definition hex_val :: "char \<Rightarrow> nat option" where
  "hex_val c = (let n = (of_char c :: nat) in
     if 48 \<le> n \<and> n \<le> 57 then Some (n - 48)
     else if 97 \<le> n \<and> n \<le> 102 then Some (n - 87)
     else if 65 \<le> n \<and> n \<le> 70 then Some (n - 55) else None)"

definition unescape_char :: "char \<Rightarrow> char option" where
  "unescape_char e =
     (if e = DQ then Some DQ else if e = BSL then Some BSL
      else if e = CHR ''/'' then Some CHR ''/''
      else if e = CHR ''n'' then Some LF else if e = CHR ''r'' then Some CR
      else if e = CHR ''t'' then Some TAB else None)"

text \<open>The body of a string literal, after its opening quote; the rest after the closing one.\<close>

fun parse_str :: "string \<Rightarrow> (string \<times> string) option" where
  "parse_str [] = None"
| "parse_str (c # cs) =
     (if c = DQ then Some ([], cs)
      else if c = BSL then
        (case cs of
           [] \<Rightarrow> None
         | e # es \<Rightarrow>
             if e = CHR ''u'' then
               (case es of
                  h1 # h2 # h3 # h4 # r \<Rightarrow>
                    (case (hex_val h1, hex_val h2, hex_val h3, hex_val h4) of
                       (Some 0, Some 0, Some a, Some b) \<Rightarrow>
                         map_option (apfst ((#) (char_of (16 * a + b)))) (parse_str r)
                     | _ \<Rightarrow> None)
                | _ \<Rightarrow> None)
             else (case unescape_char e of
                     None \<Rightarrow> None
                   | Some d \<Rightarrow> map_option (apfst ((#) d)) (parse_str es)))
      else if (of_char c :: nat) < 32 then None
      else map_option (apfst ((#) c)) (parse_str cs))"

definition num_char :: "char \<Rightarrow> bool" where
  "num_char c \<longleftrightarrow> isdigit c \<or> c \<in> set ''-+.e''"

fun parse_val :: "nat \<Rightarrow> string \<Rightarrow> (jval \<times> string) option"
and parse_elts :: "nat \<Rightarrow> string \<Rightarrow> (jval list \<times> string) option"
and parse_members :: "nat \<Rightarrow> string \<Rightarrow> ((string \<times> jval) list \<times> string) option" where
  "parse_val 0 s = None"
| "parse_val (Suc n) s =
     (case s of
        [] \<Rightarrow> None
      | c # cs \<Rightarrow>
          if c = DQ then map_option (apfst JStr) (parse_str cs)
          else if c = CHR ''['' then
            (if starts_with '']'' cs then Some (JArr [], tl cs)
             else map_option (apfst JArr) (parse_elts n cs))
          else if c = CHR ''{'' then
            (if starts_with ''}'' cs then Some (JObj [], tl cs)
             else map_option (apfst JObj) (parse_members n cs))
          else if starts_with ''true'' s then Some (JBool True, drop 4 s)
          else if starts_with ''false'' s then Some (JBool False, drop 5 s)
          else if starts_with ''null'' s then Some (JNull, drop 4 s)
          else if num_char c then Some (JNum (takeWhile num_char s), dropWhile num_char s)
          else None)"
| "parse_elts 0 s = None"
| "parse_elts (Suc n) s =
     (case parse_val n s of
        Some (v, c # r) \<Rightarrow>
          if c = CHR '']'' then Some ([v], r)
          else if c = CHR '','' then map_option (apfst ((#) v)) (parse_elts n r)
          else None
      | _ \<Rightarrow> None)"
| "parse_members 0 s = None"
| "parse_members (Suc n) s =
     (case s of
        c # cs \<Rightarrow>
          if c = DQ then
            (case parse_str cs of
               Some (k, c2 # r2) \<Rightarrow>
                 if c2 = CHR '':'' then
                   (case parse_val n r2 of
                      Some (v, c3 # r) \<Rightarrow>
                        if c3 = CHR ''}'' then Some ([(k, v)], r)
                        else if c3 = CHR '','' then map_option (apfst ((#) (k, v))) (parse_members n r)
                        else None
                    | _ \<Rightarrow> None)
                 else None
             | _ \<Rightarrow> None)
          else None
      | [] \<Rightarrow> None)"

definition json_parse :: "string \<Rightarrow> jval option" where
  "json_parse s = (case parse_val (Suc (length s)) s of
     Some (v, []) \<Rightarrow> Some v | _ \<Rightarrow> None)"

section \<open>Trees the builder's texts can stand for\<close>

text \<open>Number tokens as \<open>printf\<close> writes them, and keys with no control character but LF, CR, TAB.\<close>

definition num_ok :: "string \<Rightarrow> bool" where
  "num_ok t \<longleftrightarrow> t \<noteq> [] \<and> (\<forall>c \<in> set t. num_char c)"

definition key_ok :: "string \<Rightarrow> bool" where
  "key_ok k \<longleftrightarrow> (\<forall>c \<in> set k. 32 \<le> (of_char c :: nat) \<or> c = LF \<or> c = CR \<or> c = TAB)"

fun jval_ok :: "jval \<Rightarrow> bool" where
  "jval_ok (JNum t) = num_ok t"
| "jval_ok (JArr vs) = (\<forall>v \<in> set vs. jval_ok v)"
| "jval_ok (JObj kvs) = (\<forall>kv \<in> set kvs. key_ok (fst kv) \<and> jval_ok (snd kv))"
| "jval_ok v = True"

lemma num_ok_int [simp]: "num_ok (int_str i)"
  using nat_str_digits by (auto simp: num_ok_def int_str_def num_char_def)

lemma num_ok_nat [simp]: "num_ok (nat_str n)"
  using nat_str_digits by (auto simp: num_ok_def num_char_def)

section \<open>Reading strings back\<close>

lemma hex_val_hex_digit: "n < 16 \<Longrightarrow> hex_val (hex_digit n) = Some n"
  by (auto simp: hex_val_def hex_digit_def Let_def)

lemma hex_digits_char: "(16::nat) * (of_char c div 16) + of_char c mod 16 = of_char c"
  by simp

lemma parse_str_u_escape:
  assumes "(of_char c :: nat) < 32"
  shows "parse_str (u_escape c @ r) = map_option (apfst ((#) c)) (parse_str r)"
proof -
  have "(of_char c :: nat) div 16 < 16" "(of_char c :: nat) mod 16 < 16"
    using assms by (simp_all add: div_less_iff_less_mult)
  moreover have "hex_val CHR ''0'' = Some 0" by (simp add: hex_val_def)
  moreover have "char_of ((16::nat) * (of_char c div 16) + of_char c mod 16) = c"
    by (simp only: hex_digits_char char_of_char)
  ultimately show ?thesis by (simp add: u_escape_def hex_val_hex_digit)
qed

lemma parse_str_value_char:
  "parse_str (value_char c @ r) = map_option (apfst ((#) c)) (parse_str r)"
proof (cases "(of_char c :: nat) < 32 \<and> c \<noteq> LF \<and> c \<noteq> CR \<and> c \<noteq> TAB")
  case True
  then have "value_char c = u_escape c" by (auto simp: value_char_def)
  with True parse_str_u_escape show ?thesis by simp
next
  case False
  then show ?thesis by (auto simp: value_char_def unescape_char_def)
qed

lemma parse_str_key_char:
  "32 \<le> (of_char c :: nat) \<or> c = LF \<or> c = CR \<or> c = TAB \<Longrightarrow>
   parse_str (key_char c @ r) = map_option (apfst ((#) c)) (parse_str r)"
  by (auto simp: key_char_def unescape_char_def)

lemma parse_str_value: "parse_str (concat (map value_char s) @ DQ # r) = Some (s, r)"
  by (induction s) (simp_all del: parse_str.simps add: parse_str_value_char, simp)

lemma parse_str_key:
  "key_ok k \<Longrightarrow> parse_str (concat (map key_char k) @ DQ # r) = Some (k, r)"
proof (induction k)
  case Nil
  then show ?case by simp
next
  case (Cons c k)
  then have "parse_str (concat (map key_char k) @ DQ # r) = Some (k, r)"
    and c: "32 \<le> (of_char c :: nat) \<or> c = LF \<or> c = CR \<or> c = TAB"
    by (auto simp: key_ok_def)
  then show ?case by (simp del: parse_str.simps add: parse_str_key_char)
qed

section \<open>Reading trees back\<close>

text \<open>What may follow a value in its context: nothing that continues a number token.\<close>

definition val_end :: "string \<Rightarrow> bool" where
  "val_end r \<longleftrightarrow> (case r of [] \<Rightarrow> True | c # _ \<Rightarrow> \<not> num_char c)"

lemma val_end_simps [simp]:
  "val_end []" "val_end (CHR '','' # r)" "val_end (CHR '']'' # r)" "val_end (CHR ''}'' # r)"
  by (simp_all add: val_end_def num_char_def isdigit_def)

lemma takeWhile_num: "num_ok t \<Longrightarrow> val_end r \<Longrightarrow>
  takeWhile num_char (t @ r) = t \<and> dropWhile num_char (t @ r) = r"
  by (cases r) (auto simp: num_ok_def val_end_def takeWhile_append2 dropWhile_append2)

lemma num_char_simps [simp]:
  "\<not> num_char DQ" "\<not> num_char CHR ''[''" "\<not> num_char CHR ''{''" "\<not> num_char CHR ''t''"
  "\<not> num_char CHR ''f''" "\<not> num_char CHR ''n''"
  by (simp_all add: num_char_def isdigit_def)

lemma render_hd: "jval_ok v \<Longrightarrow> \<exists>c cs. render v = c # cs \<and> c \<noteq> CHR '']'' \<and> c \<noteq> CHR ''}''"
proof (cases v)
  case (JNum t)
  moreover assume "jval_ok v"
  ultimately show ?thesis
    by (cases t) (auto simp: num_ok_def num_char_def isdigit_def)
qed (auto simp: str_text_def)

lemma parse_val_num:
  assumes "num_ok t" and "val_end r"
  shows "parse_val (Suc n) (t @ r) = Some (JNum t, r)"
proof -
  obtain c cs where t: "t = c # cs" and c: "num_char c"
    using assms(1) by (cases t) (auto simp: num_ok_def)
  have "c \<noteq> DQ" "c \<noteq> CHR ''[''" "c \<noteq> CHR ''{''" "c \<noteq> CHR ''t''" "c \<noteq> CHR ''f''" "c \<noteq> CHR ''n''"
    using c by auto
  then show ?thesis using takeWhile_num[OF assms] t c by simp
qed

lemma parse_val_str: "parse_val (Suc n) (str_text s @ r) = Some (JStr s, r)"
  by (simp add: str_text_def parse_str_value del: parse_str.simps)

lemma parse_elts_render:
  assumes "vs \<noteq> []"
    and "\<And>m v r. v \<in> set vs \<Longrightarrow> length (render v) < m \<Longrightarrow> val_end r \<Longrightarrow>
       parse_val m (render v @ r) = Some (v, r)"
    and "length (join_comma (map render vs)) < m"
  shows "parse_elts (Suc m) (join_comma (map render vs) @ '']'' @ r) = Some (vs, r)"
  using assms
proof (induction vs arbitrary: m)
  case (Cons v vs)
  have len: "length (render v) < m" using Cons.prems by (simp add: join_comma_Cons)
  have v: "parse_val m (render v @ q) = Some (v, q)" if "val_end q" for q
    using Cons.prems(2) len that by simp
  show ?case
  proof (cases "vs = []")
    case True
    then show ?thesis using v[of "'']'' @ r"] by simp
  next
    case False
    let ?t = "join_comma (map render vs)"
    obtain m' where m': "m = Suc m'" using len by (cases m) auto
    have "length ?t < m'" using Cons.prems(3) False m' by (simp add: join_comma_Cons)
    then have "parse_elts (Suc m') (?t @ '']'' @ r) = Some (vs, r)"
      using Cons.prems(2) False by (intro Cons.IH) auto
    then show ?thesis using v[of "'','' @ ?t @ '']'' @ r"] False m'
      by (simp add: join_comma_Cons)
  qed
qed simp

definition member_text :: "string \<times> jval \<Rightarrow> string" where
  "member_text kv = key_text (fst kv) @ render (snd kv)"

lemma parse_members_one:
  assumes "key_ok k" and "parse_val n (render v @ c # r) = Some (v, c # r)"
  shows "parse_members (Suc n) (member_text (k, v) @ c # r) =
    (if c = CHR ''}'' then Some ([(k, v)], r)
     else if c = CHR '','' then map_option (apfst ((#) (k, v))) (parse_members n r) else None)"
  using parse_str_key[OF assms(1), of "CHR '':'' # render v @ c # r"] assms(2)
  by (simp add: member_text_def key_text_def del: parse_str.simps)

lemma parse_members_render:
  assumes "kvs \<noteq> []" and "\<forall>kv \<in> set kvs. key_ok (fst kv)"
    and "\<And>m kv r. kv \<in> set kvs \<Longrightarrow> length (render (snd kv)) < m \<Longrightarrow> val_end r \<Longrightarrow>
       parse_val m (render (snd kv) @ r) = Some (snd kv, r)"
    and "length (join_comma (map member_text kvs)) < m"
  shows "parse_members (Suc m) (join_comma (map member_text kvs) @ ''}'' @ r) = Some (kvs, r)"
  using assms
proof (induction kvs arbitrary: m)
  case (Cons kv kvs)
  obtain k v where kv: "kv = (k, v)" by (cases kv)
  have len: "length (render v) < m"
    using Cons.prems(4) kv by (simp add: join_comma_Cons member_text_def)
  have k: "key_ok k" using Cons.prems(2) kv by simp
  have v: "parse_val m (render v @ q) = Some (v, q)" if "val_end q" for q
    using Cons.prems(3)[of "(k, v)"] kv len that by simp
  show ?case
  proof (cases "kvs = []")
    case True
    then show ?thesis using parse_members_one[OF k v, of "CHR ''}''" r] kv by simp
  next
    case False
    let ?t = "join_comma (map member_text kvs)"
    obtain m' where m': "m = Suc m'" using len by (cases m) auto
    have "length ?t < m'" using Cons.prems(4) False m' by (simp add: join_comma_Cons)
    then have "parse_members (Suc m') (?t @ ''}'' @ r) = Some (kvs, r)"
      using Cons.prems False by (intro Cons.IH) auto
    then show ?thesis
      using parse_members_one[OF k v, of "CHR '',''" "?t @ ''}'' @ r"] False kv m'
      by (simp add: join_comma_Cons)
  qed
qed simp

lemma join_comma_hd:
  "(\<And>x. x \<in> set xs \<Longrightarrow> \<exists>c cs. x = c # cs \<and> P c) \<Longrightarrow> xs \<noteq> [] \<Longrightarrow>
   \<exists>c cs. join_comma xs = c # cs \<and> P c"
  by (cases xs) (force simp: join_comma_Cons)+

lemma render_JObj: "render (JObj kvs) = ''{'' @ join_comma (map member_text kvs) @ ''}''"
  by (simp add: member_text_def[abs_def])

lemma parse_val_array:
  assumes "vs \<noteq> []" and "\<forall>v \<in> set vs. jval_ok v"
    and "parse_elts n (join_comma (map render vs) @ '']'' @ r) = Some (vs, r)"
  shows "parse_val (Suc n) (render (JArr vs) @ r) = Some (JArr vs, r)"
proof -
  have "\<exists>c cs. x = c # cs \<and> c \<noteq> CHR '']''" if "x \<in> set (map render vs)" for x
    using that render_hd assms(2) by (metis (no_types, lifting) imageE list.set_map)
  from join_comma_hd[of "map render vs" "\<lambda>c. c \<noteq> CHR '']''", OF this] assms(1)
  obtain c cs where "join_comma (map render vs) = c # cs" "c \<noteq> CHR '']''" by auto
  with assms(3) show ?thesis by (simp del: parse_elts.simps)
qed

lemma parse_val_object:
  assumes "kvs \<noteq> []"
    and "parse_members n (join_comma (map member_text kvs) @ ''}'' @ r) = Some (kvs, r)"
  shows "parse_val (Suc n) (render (JObj kvs) @ r) = Some (JObj kvs, r)"
proof -
  have "\<exists>c cs. x = c # cs \<and> c \<noteq> CHR ''}''" if "x \<in> set (map member_text kvs)" for x
    using that by (auto simp: member_text_def key_text_def)
  from join_comma_hd[of "map member_text kvs" "\<lambda>c. c \<noteq> CHR ''}''", OF this] assms(1)
  obtain c cs where "join_comma (map member_text kvs) = c # cs" "c \<noteq> CHR ''}''" by auto
  with assms(2) show ?thesis by (simp add: render_JObj del: render.simps parse_members.simps)
qed

lemma parse_val_render:
  "jval_ok v \<Longrightarrow> length (render v) < n \<Longrightarrow> val_end r \<Longrightarrow> parse_val n (render v @ r) = Some (v, r)"
proof (induction v arbitrary: n r)
  case (JNum t)
  then show ?case using parse_val_num[of t r "n - 1"] by (cases n) auto
next
  case (JStr s)
  then show ?case using parse_val_str[of "n - 1" s r] by (cases n) auto
next
  case (JArr vs)
  obtain m where n: "n = Suc (Suc m)" and m: "length (join_comma (map render vs)) < m"
    using JArr.prems(2) by (cases n; cases "n - 1") auto
  show ?case
  proof (cases "vs = []")
    case False
    have "parse_elts (Suc m) (join_comma (map render vs) @ '']'' @ r) = Some (vs, r)"
      using False m JArr by (intro parse_elts_render) auto
    then show ?thesis using parse_val_array False JArr.prems(1) n by simp
  qed (simp add: n)
next
  case (JObj kvs)
  obtain m where n: "n = Suc (Suc m)" and m: "length (join_comma (map member_text kvs)) < m"
    using JObj.prems(2) by (cases n; cases "n - 1") (auto simp: render_JObj simp del: render.simps)
  show ?case
  proof (cases "kvs = []")
    case False
    have "parse_members (Suc m) (join_comma (map member_text kvs) @ ''}'' @ r) = Some (kvs, r)"
      using False m JObj by (intro parse_members_render) (auto simp: snds.simps)
    then show ?thesis using parse_val_object False n by simp
  qed (simp add: n)
next
  case (JBool b)
  then show ?case by (cases n) auto
next
  case JNull
  then show ?case by (cases n) auto
qed

lemma json_parse_render: "jval_ok v \<Longrightarrow> json_parse (render v) = Some v"
  using parse_val_render[of v "Suc (length (render v))" "[]"] by (simp add: json_parse_def)

section \<open>Texts are C strings\<close>

lemma num_char_not_nul: "num_ok t \<Longrightarrow> NUL \<notin> set t"
  by (auto simp: num_ok_def num_char_def isdigit_def)

lemma hex_digit_not_nul: "n < 16 \<Longrightarrow> hex_digit n \<noteq> NUL"
proof
  assume "n < 16" "hex_digit n = NUL"
  then have "(of_char (hex_digit n) :: nat) = 0" by simp
  then show False using \<open>n < 16\<close> by (simp add: hex_digit_def split: if_splits)
qed

lemma value_char_not_nul: "NUL \<notin> set (value_char c)"
proof -
  have "hex_digit (of_char c div 16) \<noteq> NUL" "hex_digit (of_char c mod 16) \<noteq> NUL" if "(of_char c :: nat) < 32"
    using that by (intro hex_digit_not_nul; simp)+
  then show ?thesis by (auto simp: value_char_def u_escape_def)
qed

lemma key_char_not_nul: "key_ok k \<Longrightarrow> c \<in> set k \<Longrightarrow> NUL \<notin> set (key_char c)"
  by (auto simp: key_char_def key_ok_def)

lemma join_comma_not_nul: "(\<And>t. t \<in> set ts \<Longrightarrow> NUL \<notin> set t) \<Longrightarrow> NUL \<notin> set (join_comma ts)"
  by (induction ts rule: join_comma.induct) auto

lemma render_not_nul: "jval_ok v \<Longrightarrow> NUL \<notin> set (render v)"
proof (induction v rule: render.induct)
  case (4 s)
  then show ?case using value_char_not_nul by (auto simp: str_text_def)
next
  case (5 vs)
  then have "NUL \<notin> set (join_comma (map render vs))" by (intro join_comma_not_nul) auto
  then show ?case by simp
next
  case (6 kvs)
  have "NUL \<notin> set (join_comma (map (\<lambda>kv. key_text (fst kv) @ render (snd kv)) kvs))"
  proof (rule join_comma_not_nul)
    fix t assume "t \<in> set (map (\<lambda>kv. key_text (fst kv) @ render (snd kv)) kvs)"
    then obtain kv where kv: "kv \<in> set kvs" "t = key_text (fst kv) @ render (snd kv)" by auto
    then have "NUL \<notin> set (render (snd kv))" "NUL \<notin> set (key_text (fst kv))"
      using 6 key_char_not_nul by (auto simp: key_text_def)
    then show "NUL \<notin> set t" using kv by simp
  qed
  then show ?case by simp
qed (auto simp: num_char_not_nul)

end
