(* ===== verification/JsonProps.thy ===== *)
theory JsonProps
  imports JsonParse
begin

text \<open>
  The builder's contract: memory safety of arbitrary call sequences, the sticky overflow flag,
  and the refinement of JSON trees: driving the builder over a tree writes the tree's text, which
  the strict reader of \<open>JsonParse\<close> maps back to the tree.
\<close>

section \<open>Arbitrary clients\<close>

text \<open>One constructor per function of \<open>json.h\<close> that takes the builder.\<close>

datatype 'd json_call = ObjectStart | ObjectEnd | ArrayStart | ArrayEnd | Key string
  | StringV "string option" | IntV int | UintV "64 word" | DoubleV 'd | BoolV bool | NullV
  | KvString string "string option" | KvInt string int | KvUint string "64 word"
  | KvDouble string 'd | KvBool string bool

fun json_exec :: "('d \<Rightarrow> string) \<Rightarrow> 'd json_call \<Rightarrow> json_builder \<Rightarrow> json_builder" where
  "json_exec fmt ObjectStart = json_object_start"
| "json_exec fmt ObjectEnd = json_object_end"
| "json_exec fmt ArrayStart = json_array_start"
| "json_exec fmt ArrayEnd = json_array_end"
| "json_exec fmt (Key k) = json_key k"
| "json_exec fmt (StringV s) = json_string s"
| "json_exec fmt (IntV i) = json_int i"
| "json_exec fmt (UintV u) = json_uint u"
| "json_exec fmt (DoubleV d) = json_double fmt d"
| "json_exec fmt (BoolV b) = json_bool b"
| "json_exec fmt NullV = json_null"
| "json_exec fmt (KvString k s) = json_kv_string k s"
| "json_exec fmt (KvInt k i) = json_kv_int k i"
| "json_exec fmt (KvUint k u) = json_kv_uint k u"
| "json_exec fmt (KvDouble k d) = json_kv_double fmt k d"
| "json_exec fmt (KvBool k b) = json_kv_bool k b"

definition json_run :: "('d \<Rightarrow> string) \<Rightarrow> 'd json_call list \<Rightarrow> json_builder \<Rightarrow> json_builder" where
  "json_run fmt cs = fold (json_exec fmt) cs"

lemma jb_safe_call: "jb_safe (json_exec fmt c)"
  by (cases c) (simp_all add: inv_rules)

lemma jb_safe_run: "jb_safe (json_run fmt cs)"
  unfolding json_run_def by (rule jb_safe_fold[OF jb_safe_call])

text \<open>
  C21 (memory safety). Whatever calls a client makes, in whatever order, a builder over a region of
  at least \<open>size\<close> bytes never writes outside the first \<open>size\<close> of them, and, when \<open>size\<close> is positive, the
  buffer is NUL-terminated at the write position, which stays below \<open>size\<close>.
\<close>

theorem json_memory_safe:
  assumes "sz \<le> length buf"
  shows "let j = json_run fmt cs (json_init buf sz) in
    length (jb_buf j) = length buf \<and> drop sz (jb_buf j) = drop sz buf \<and>
    (0 < sz \<longrightarrow> json_length j < sz \<and> jb_buf j ! json_length j = NUL)"
proof -
  have "jb_frame (json_init buf sz) (json_run fmt cs (json_init buf sz))"
    and "jb_inv (json_run fmt cs (json_init buf sz))"
    using jb_safe_run[of fmt cs] jb_inv_init[OF assms] by (simp_all add: jb_safe_def)
  moreover have "length (jb_buf (json_init buf sz)) = length buf"
    "drop sz (jb_buf (json_init buf sz)) = drop sz buf" "jb_size (json_init buf sz) = sz"
    using assms by (auto simp: json_init_def mem_write_simps)
  ultimately show ?thesis
    by (auto simp: Let_def jb_frame_def jb_inv_def json_length_def)
qed

theorem json_memory_safe_witness:
  "let j = json_run (\<lambda>d. d) [ObjectStart, KvInt ''n'' 42, ObjectEnd]
             (json_init (replicate 12 (CHR ''x'')) 10) in
    length (jb_buf j) = 12 \<and> drop 10 (jb_buf j) = replicate 2 (CHR ''x'') \<and> json_length j < 10 \<and>
    jb_buf j ! json_length j = NUL"
  using json_memory_safe[of 10 "replicate 12 (CHR ''x'')" "\<lambda>d. d"
      "[ObjectStart, KvInt ''n'' 42, ObjectEnd]"]
  by (auto simp: Let_def)

section \<open>The overflow flag is sticky\<close>

definition jb_frozen :: "(json_builder \<Rightarrow> json_builder) \<Rightarrow> bool" where
  "jb_frozen f \<longleftrightarrow> (\<forall>j. jb_error j \<longrightarrow>
     jb_error (f j) \<and> jb_buf (f j) = jb_buf j \<and> jb_pos (f j) = jb_pos j)"

lemma jb_frozen_write: "jb_frozen (json_write s)"
  by (simp add: jb_frozen_def jb_write_error)

lemma jb_frozen_comp: "jb_frozen f \<Longrightarrow> jb_frozen g \<Longrightarrow> jb_frozen (\<lambda>j. g (f j))"
  by (simp add: jb_frozen_def)

lemma jb_frozen_comma: "jb_frozen json_comma_if_needed"
  by (simp add: jb_frozen_def json_comma_if_needed_def Let_def jb_write_error)

lemma jb_frozen_fold: "(\<And>x. jb_frozen (g x)) \<Longrightarrow> jb_frozen (fold g xs)"
proof (induction xs)
  case (Cons x xs)
  then show ?case using jb_frozen_comp[of "g x" "fold g xs"] by (simp add: comp_def)
qed (simp add: jb_frozen_def)

lemma jb_frozen_key: "jb_frozen (json_key k)"
  using jb_frozen_fold[of "\<lambda>c. json_write (key_char c)" k, OF jb_frozen_write] jb_frozen_comma
  by (simp add: jb_frozen_def json_key_def jb_write_error)

lemma jb_frozen_string: "jb_frozen (json_string v)"
  using jb_frozen_fold[of "\<lambda>c. json_write (value_char c)" "the v", OF jb_frozen_write]
    jb_frozen_comma
  by (cases v) (simp_all add: jb_frozen_def json_string_def Let_def jb_write_error)

lemma jb_frozen_call: "jb_frozen (json_exec fmt c)"
  using jb_frozen_key jb_frozen_string jb_frozen_comma
  by (cases c) (simp_all add: jb_frozen_def jb_write_error Let_def json_object_start_def
      json_object_end_def json_array_start_def json_array_end_def json_int_def json_uint_def
      json_double_def json_bool_def json_null_def json_kv_string_def json_kv_int_def
      json_kv_uint_def json_kv_double_def json_kv_bool_def)

text \<open>
  C39 (overflow). After the first write that does not fit, no later call changes the buffer or the
  length, and the error stays visible to \<open>json_error\<close>.
\<close>

theorem json_error_sticky:
  assumes "json_error j"
  shows "json_error (json_run fmt cs j) \<and>
    jb_buf (json_run fmt cs j) = jb_buf j \<and> json_length (json_run fmt cs j) = json_length j"
  using assms jb_frozen_fold[of "json_exec fmt" cs, OF jb_frozen_call]
  by (simp_all add: jb_frozen_def json_run_def json_error_def json_length_def)

theorem json_error_sticky_witness:
  "json_error (json_run (\<lambda>d. d) [IntV 7] (json_run (\<lambda>d. d) [StringV (Some ''xy'')] (json_init ''abc'' 3)))"
  using json_error_sticky[of "json_run (\<lambda>d. d) [StringV (Some ''xy'')] (json_init ''abc'' 3)"
      "\<lambda>d. d" "[IntV 7]"]
  by (simp add: json_run_def json_string_def json_init_def json_comma_if_needed_def json_write_def
      mem_write_def json_error_def value_char_def Let_def)

section \<open>Driving the builder over a tree\<close>

fun build :: "jval \<Rightarrow> json_builder \<Rightarrow> json_builder" where
  "build JNull = json_null"
| "build (JBool b) = json_bool b"
| "build (JNum t) = json_double (\<lambda>x. x) t"
| "build (JStr s) = json_string (Some s)"
| "build (JArr vs) = (\<lambda>j. json_array_end (fold (\<lambda>v. build v) vs (json_array_start j)))"
| "build (JObj kvs) = (\<lambda>j. json_object_end
     (fold (\<lambda>kv j. build (snd kv) ((json_key (fst kv) j)\<lparr>jb_comma := False\<rparr>)) kvs
       (json_object_start j)))"

lemma W_elts_close: "W_seq (W_open t) (W_seq (W_elts ts) (W_close u)) = W_val (t @ join_comma ts @ u)"
  by (rule ext) (auto simp: W_defs)

lemma denotes_members:
  assumes "\<And>kv. kv \<in> set kvs \<Longrightarrow> emits_val (g kv) (snd kv)"
  shows "denotes (fold (\<lambda>kv j. g kv ((json_key (fst kv) j)\<lparr>jb_comma := False\<rparr>)) kvs)
    (W_elts (map member_text kvs)) 0"
  using assms
proof (induction kvs)
  case Nil
  have "fold h [] = (\<lambda>j. j)" for h :: "'b \<Rightarrow> json_builder \<Rightarrow> json_builder" by auto
  with denotes_id show ?case by (simp add: W_defs[abs_def])
next
  case (Cons kv kvs)
  let ?h = "\<lambda>kv j. g kv ((json_key (fst kv) j)\<lparr>jb_comma := False\<rparr>)"
  have "denotes (\<lambda>j. fold ?h kvs (?h kv j))
      (W_seq (W_val (member_text kv)) (W_elts (map member_text kvs))) (0 + 0)"
    using Cons denotes_key_value[of "g kv" "snd kv" "fst kv"]
    by (intro denotes_comp) (auto simp: member_text_def)
  then show ?case by (simp add: comp_def W_elts_Cons)
qed

lemma denotes_bracketed:
  assumes "denotes f (W_elts ts) 0"
  shows "denotes (\<lambda>j. json_array_end (f (json_array_start j))) (W_val (''['' @ join_comma ts @ '']'')) 0"
    and "denotes (\<lambda>j. json_object_end (f (json_object_start j))) (W_val (''{'' @ join_comma ts @ ''}'')) 0"
  using denotes_comp[OF denotes_comp[OF denotes_brackets(3) assms] denotes_brackets(4)]
    denotes_comp[OF denotes_comp[OF denotes_brackets(1) assms] denotes_brackets(2)]
  by (simp_all add: W_seq_assoc W_elts_close)

lemma emits_build: "emits_val (build v) v"
proof (induction v)
  case (JArr vs)
  then have "denotes (fold (\<lambda>v. build v) vs) (W_elts (map (\<lambda>v. render v) vs)) 0"
    by (intro denotes_each) auto
  from denotes_bracketed(1)[OF this] show ?case by (simp add: emits_val_def)
next
  case (JObj kvs)
  then have "denotes (fold (\<lambda>kv j. build (snd kv) ((json_key (fst kv) j)\<lparr>jb_comma := False\<rparr>)) kvs)
      (W_elts (map member_text kvs)) 0"
    by (intro denotes_members) (auto simp: snds.simps)
  from denotes_bracketed(2)[OF this] show ?case
    by (simp add: emits_val_def render_JObj del: render.simps(6))
qed (use emits_scalars(3)[of "\<lambda>x. x"] emits_scalars emits_string in auto)

text \<open>
  C2 (refinement and round trip). Building a tree into a buffer of \<open>size\<close> bytes succeeds exactly when
  its text and the terminator fit; then the buffer holds the text, and a strict JSON reader
  recovers the tree from it. Otherwise the error flag is set and a prefix of the text remains.
\<close>

theorem json_build_roundtrip:
  assumes "jval_ok v" and "0 < sz" and "sz \<le> length buf"
  defines "j \<equiv> build v (json_init buf sz)"
  shows "if length (render v) < sz
    then \<not> json_error j \<and> json_parse (jb_out j) = Some v \<and> json_length j = length (render v)
    else json_error j \<and> prefix (jb_out j) (render v)"
  using emits_val_init[OF emits_build assms(2,3), of v] assms(1)
  by (auto simp: j_def json_parse_render)

theorem json_build_roundtrip_witness:
  "json_parse (jb_out (build (JObj [(''k'', JArr [JInt 1, JStr [DQ, CHR 0x01]])])
      (json_init (replicate 40 NUL) 40)))
    = Some (JObj [(''k'', JArr [JInt 1, JStr [DQ, CHR 0x01]])])"
proof -
  let ?v = "JObj [(''k'', JArr [JInt 1, JStr [DQ, CHR 0x01]])]"
  have "jval_ok ?v" by (simp add: key_ok_def)
  moreover have "length (render ?v) < 40"
    by (simp add: key_text_def str_text_def key_char_def value_char_def u_escape_def
        int_str_def nat_str.simps)
  ultimately show ?thesis using json_build_roundtrip[of ?v 40 "replicate 40 NUL"] by simp
qed

text \<open>
  Also (escaping). Every C string, whatever bytes it holds, is written by \<open>json_string\<close> so that a strict
  JSON reader gives the same string back.
\<close>

theorem json_string_roundtrip:
  assumes "length (str_text s) < sz" and "sz \<le> length buf"
  shows "json_parse (jb_out (json_string (Some s) (json_init buf sz))) = Some (JStr s)"
  using emits_val_init[OF emits_string, of sz buf s] assms json_parse_render[of "JStr s"]
  by auto

theorem json_string_roundtrip_witness:
  "json_parse (jb_out (json_string (Some [DQ, BSL, LF, CHR 0x02]) (json_init (replicate 20 NUL) 20)))
    = Some (JStr [DQ, BSL, LF, CHR 0x02])"
  by (rule json_string_roundtrip)
    (simp_all add: str_text_def value_char_def u_escape_def)

text \<open>
  Also (keys). \<open>json_key\<close> does not escape the other control characters: a key that holds one is written raw,
  and no strict JSON reader accepts the object.
\<close>

theorem json_key_raw_control:
  "json_parse (jb_out (jseq [json_object_start, json_kv_int [CHR 0x01] 1, json_object_end]
      (json_init (replicate 20 NUL) 20))) = None"
proof -
  let ?f = "jseq [json_object_start, json_kv_int [CHR 0x01] 1, json_object_end]"
  let ?v = "JObj [([CHR 0x01], JInt 1)]"
  have e: "emits_val ?f ?v"
    by (rule emits_valI, (rule emit_rules)+) (simp_all add: W_defs)
  have l: "length (render ?v) < 20"
    by (simp add: key_text_def key_char_def int_str_def nat_str.simps)
  have "jb_out (?f (json_init (replicate 20 NUL) 20)) = render ?v"
    by (rule emits_val_init(2)[OF e]) (use emits_val_init(1)[OF e, of 20 "replicate 20 NUL"] l in auto)
  then show ?thesis
    by (simp add: json_parse_def key_text_def key_char_def int_str_def nat_str.simps digit_char_def
        del: jseq_Cons)
qed

end
