(* ===== verification/ProcUtils.thy ===== *)
theory ProcUtils
  imports Prelude
begin

text \<open>
  Reading \<open>/proc\<close> (\<open>src/common/proc_utils.c\<close>). The kernel is a parameter: a file system maps a path
  to the bytes behind it and to a schedule of what successive \<open>read\<close> calls do (interruptions,
  errors, short reads); a directory is the list of the names \<open>readdir\<close> returns.
\<close>

section \<open>Reading a file\<close>

datatype read_ev = Eintr | Eio | Upto nat  \<comment> \<open>a read of at most \<open>n + 1\<close> bytes\<close>

type_synonym proc_fs = "string \<Rightarrow> (string \<times> read_ev list) option"

text \<open>\<open>size - 1\<close> on \<open>size_t\<close>.\<close>

definition size_minus_1 :: "nat \<Rightarrow> nat" where
  "size_minus_1 sz = (if sz = 0 then 2 ^ 64 - 1 else sz - 1)"

function read_loop :: "read_ev list \<Rightarrow> string \<Rightarrow> string \<Rightarrow> nat \<Rightarrow> string option" where
  "read_loop evs rest buf lim =
     (if length buf < lim then
        (case evs of
           Eintr # es \<Rightarrow> read_loop es rest buf lim
         | Eio # es \<Rightarrow> None
         | Upto k # es \<Rightarrow>
             (let n = min (Suc k) (min (lim - length buf) (length rest)) in
              if n = 0 then Some buf else read_loop es (drop n rest) (buf @ take n rest) lim)
         | [] \<Rightarrow>
             (let n = min (lim - length buf) (length rest) in
              if n = 0 then Some buf else read_loop [] (drop n rest) (buf @ take n rest) lim))
      else Some buf)"
  by pat_completeness auto
termination
  by (relation "measures [\<lambda>(evs, rest, buf, lim). length evs, \<lambda>(evs, rest, buf, lim). length rest]") auto

declare read_loop.simps [simp del]

text \<open>The bytes placed in the buffer before the terminator; \<open>None\<close> is the result -1.\<close>

definition proc_read_file :: "proc_fs \<Rightarrow> string \<Rightarrow> nat \<Rightarrow> string option" where
  "proc_read_file fs path sz =
     (case fs path of
        None \<Rightarrow> None
      | Some (content, evs) \<Rightarrow> read_loop evs content [] (size_minus_1 sz))"

lemma read_loop_take:
  "Eio \<notin> set evs \<Longrightarrow> read_loop evs rest buf lim = Some (buf @ take (lim - length buf) rest)"
proof (induction evs rest buf lim rule: read_loop.induct)
  case (1 evs rest buf lim)
  show ?case
  proof (cases "length buf < lim")
    case False
    then show ?thesis by (subst read_loop.simps) simp
  next
    case lt: True
    show ?thesis
    proof (cases evs)
      case Nil
      show ?thesis
        using lt Nil by (subst read_loop.simps)
          (simp add: "1.IH"(1)[OF lt Nil] Let_def min_def split: if_splits)
    next
      case (Cons e es)
      with "1.prems" have noeio: "Eio \<notin> set es" "e \<noteq> Eio" by auto
      show ?thesis
      proof (cases e)
        case Eintr
        then show ?thesis using lt Cons noeio "1.IH"(2)[OF lt] by (subst read_loop.simps) simp
      next
        case Eio
        then show ?thesis using noeio by simp
      next
        case (Upto k)
        let ?n = "min (Suc k) (min (lim - length buf) (length rest))"
        show ?thesis
        proof (cases "?n = 0")
          case True
          then have "rest = []" using lt by (auto simp: min_def split: if_splits)
          then show ?thesis using lt Cons Upto by (subst read_loop.simps) simp
        next
          case False
          have "read_loop es (drop ?n rest) (buf @ take ?n rest) lim
              = Some ((buf @ take ?n rest) @ take (lim - length (buf @ take ?n rest)) (drop ?n rest))"
            using "1.IH"(3)[OF lt _ _ refl False] Cons Upto noeio by simp
          also have "(buf @ take ?n rest) @ take (lim - length (buf @ take ?n rest)) (drop ?n rest)
              = buf @ take (lim - length buf) rest"
          proof -
            define n where "n = ?n"
            have "n \<le> lim - length buf" "n \<le> length rest" by (simp_all add: n_def)
            then have "n + (lim - length (buf @ take n rest)) = lim - length buf"
              by (simp add: min_absorb2)
            then show ?thesis unfolding n_def[symmetric]
              by (simp only: append_assoc append.assoc take_add[symmetric])
          qed
          finally have "read_loop es (drop ?n rest) (buf @ take ?n rest) lim
              = Some (buf @ take (lim - length buf) rest)" .
          moreover have "read_loop evs rest buf lim = read_loop es (drop ?n rest) (buf @ take ?n rest) lim"
            using lt Cons Upto False by (subst read_loop.simps) (simp only: Let_def if_True if_False list.case read_ev.case)
          ultimately show ?thesis by simp
        qed
      qed
    qed
  qed
qed

lemma proc_read_file_take:
  "fs path = Some (content, evs) \<Longrightarrow> Eio \<notin> set evs \<Longrightarrow> 0 < sz \<Longrightarrow>
   proc_read_file fs path sz = Some (take (sz - 1) content)"
  by (simp add: proc_read_file_def read_loop_take size_minus_1_def)

text \<open>
  Also (reading is independent of the schedule). However the kernel splits the reads and however often
  it interrupts them, \<open>proc_read_file\<close> returns the first \<open>size - 1\<close> bytes of the file.
\<close>

theorem proc_read_file_content:
  assumes "fs path = Some (content, evs)" and "Eio \<notin> set evs" and "0 < sz"
  shows "proc_read_file fs path sz = Some (take (sz - 1) content)"
  using assms by (rule proc_read_file_take)

theorem proc_read_file_content_witness:
  "proc_read_file [''/proc/x'' \<mapsto> (''abcdef'', [Upto 0, Eintr, Upto 1])] ''/proc/x'' 5 = Some ''abcd''"
  using proc_read_file_content[of "[''/proc/x'' \<mapsto> (''abcdef'', [Upto 0, Eintr, Upto 1])]" "''/proc/x''"
      "''abcdef''" "[Upto 0, Eintr, Upto 1]" 5] by simp

lemma proc_read_file_bound:
  "proc_read_file fs path sz = Some bs \<Longrightarrow> 0 < sz \<Longrightarrow> length bs < sz"
proof -
  have "read_loop evs rest buf lim = Some bs \<Longrightarrow> length buf \<le> lim \<Longrightarrow> length bs \<le> lim" for evs rest buf lim
  proof (induction evs rest buf lim rule: read_loop.induct)
    case (1 evs rest buf lim)
    show ?case
    proof (cases "length buf < lim")
      case lt: True
      let ?n = "\<lambda>k. min (Suc k) (min (lim - length buf) (length rest))"
      let ?m = "min (lim - length buf) (length rest)"
      consider es where "evs = Eintr # es" | es where "evs = Eio # es"
        | k es where "evs = Upto k # es" | "evs = []"
        by (metis list.exhaust read_ev.exhaust)
      then show ?thesis
      proof cases
        case 1
        then show ?thesis using lt "1.IH"(2)[OF lt 1 refl] "1.prems" by (subst (asm) read_loop.simps) simp
      next
        case 2
        then show ?thesis using lt "1.prems" by (subst (asm) read_loop.simps) simp
      next
        case (3 k es)
        then show ?thesis using lt "1.prems" "1.IH"(3)[OF lt 3 refl refl]
          by (subst (asm) read_loop.simps) (simp add: Let_def split: if_splits)
      next
        case 4
        then show ?thesis using lt "1.prems" "1.IH"(1)[OF lt 4 refl]
          by (subst (asm) read_loop.simps) (simp add: Let_def split: if_splits)
      qed
    next
      case False
      with "1.prems" show ?thesis by (subst (asm) read_loop.simps) simp
    qed
  qed
  moreover assume "proc_read_file fs path sz = Some bs" "0 < sz"
  ultimately show ?thesis
    by (fastforce simp: proc_read_file_def size_minus_1_def split: option.splits)
qed

section \<open>\<open>/proc/<pid>/status\<close>\<close>

text \<open>\<open>strncmp(line, field, field_len) == 0 && line[field_len] == ':'\<close> on each line start.\<close>

fun status_find :: "string \<Rightarrow> string list \<Rightarrow> int" where
  "status_find field [] = -1"
| "status_find field (l # ls) =
     (if starts_with (field @ '':'') l
      then strtoll (dropWhile isspace (drop (length field + 1) l))
      else status_find field ls)"

definition status_path :: "int \<Rightarrow> string" where
  "status_path pid = ''/proc/'' @ int_str pid @ ''/status''"

definition proc_read_status_kb :: "proc_fs \<Rightarrow> int \<Rightarrow> string \<Rightarrow> int" where
  "proc_read_status_kb fs pid field =
     (case proc_read_file fs (status_path pid) 4096 of
        None \<Rightarrow> -1
      | Some bs \<Rightarrow> status_find field (line_suffixes (cstr bs)))"

text \<open>A status file as the kernel writes it: one \<open>Name:\<close> and a value per line.\<close>

definition kv_text :: "(string \<times> string) list \<Rightarrow> string" where
  "kv_text kvs = concat (map (\<lambda>kv. fst kv @ CHR '':'' # snd kv @ [LF]) kvs)"

definition kv_ok :: "(string \<times> string) list \<Rightarrow> bool" where
  "kv_ok kvs \<longleftrightarrow> (\<forall>(k, v) \<in> set kvs. CHR '':'' \<notin> set k \<and> LF \<notin> set k \<and> LF \<notin> set v \<and>
     NUL \<notin> set k \<and> NUL \<notin> set v)"

lemma kv_text_simps [simp]:
  "kv_text [] = []" "kv_text ((k, v) # kvs) = (k @ CHR '':'' # v) @ LF # kv_text kvs"
  by (simp_all add: kv_text_def)

lemma starts_with_key:
  "CHR '':'' \<notin> set k \<Longrightarrow> CHR '':'' \<notin> set f \<Longrightarrow> starts_with (f @ '':'') (k @ CHR '':'' # r) \<longleftrightarrow> f = k"
proof (induction f arbitrary: k)
  case Nil
  then show ?case by (cases k) auto
next
  case (Cons c f)
  then show ?case by (cases k) auto
qed

lemma strtoll_dropWhile [simp]: "strtoll (dropWhile isspace s) = strtoll s"
proof -
  have "dropWhile isspace (dropWhile isspace s) = dropWhile isspace s"
    by (induction s) auto
  then show ?thesis by (simp add: strtoll_def)
qed

lemma takeWhile_LF: "LF \<notin> set v \<Longrightarrow> takeWhile isdigit (v @ LF # r) = takeWhile isdigit v"
  by (induction v) (auto simp: isdigit_def)

text \<open>A number that ends at the line end is read without looking at the next line.\<close>

definition plain_num :: "string \<Rightarrow> bool" where
  "plain_num v \<longleftrightarrow> dropWhile isspace v \<noteq> [] \<and> LF \<notin> set v"

lemma strtoll_line: "plain_num v \<Longrightarrow> strtoll (v @ LF # r) = strtoll v"
proof -
  assume v: "plain_num v"
  then have d: "dropWhile isspace (v @ LF # r) = dropWhile isspace v @ LF # r"
    by (induction v) (auto simp: plain_num_def split: if_splits)
  obtain c cs where c: "dropWhile isspace v = c # cs" using v by (cases "dropWhile isspace v") (auto simp: plain_num_def)
  have "LF \<notin> set (c # cs)" using v c by (metis plain_num_def set_dropWhileD)
  then show ?thesis
    using takeWhile_LF[of cs r] takeWhile_LF[of "c # cs" r] by (simp add: strtoll_def d c Let_def)
qed

lemma status_find_kv:
  assumes "kv_ok kvs" and "CHR '':'' \<notin> set f" and "\<forall>(k, v) \<in> set kvs. plain_num v"
  shows "status_find f (line_suffixes (kv_text kvs)) =
    (case map_of kvs f of None \<Rightarrow> -1 | Some v \<Rightarrow> strtoll v)"
  using assms
proof (induction kvs)
  case (Cons kv kvs)
  obtain k v where kv: "kv = (k, v)" by (cases kv)
  have k: "CHR '':'' \<notin> set k" "LF \<notin> set (k @ CHR '':'' # v)" "plain_num v"
    using Cons.prems kv by (auto simp: kv_ok_def)
  have "line_suffixes (kv_text (kv # kvs))
      = ((k @ CHR '':'' # v) @ LF # kv_text kvs) # line_suffixes (kv_text kvs)"
    using line_suffixes_line[OF k(2)] kv by simp
  then show ?case
    using Cons kv k starts_with_key[OF k(1) Cons.prems(2), of "v @ LF # kv_text kvs"]
      strtoll_line[OF k(3), of "kv_text kvs"]
    by (auto simp: kv_ok_def)
qed simp

lemma proc_read_status_kb_map:
  assumes "fs (status_path pid) = Some (kv_text kvs, evs)" and "Eio \<notin> set evs"
    and "length (kv_text kvs) < 4096" and "kv_ok kvs" and "\<forall>(k, v) \<in> set kvs. plain_num v"
    and "CHR '':'' \<notin> set field"
  shows "proc_read_status_kb fs pid field =
    (case map_of kvs field of None \<Rightarrow> -1 | Some v \<Rightarrow> strtoll v)"
proof -
  have "read_loop evs (kv_text kvs) [] 4095 = Some (kv_text kvs)"
    using read_loop_take[OF assms(2), of "kv_text kvs" "[]" 4095] assms(3) by simp
  moreover have "NUL \<notin> set (kv_text kvs)"
    using assms(4) by (induction kvs) (auto simp: kv_ok_def)
  ultimately show ?thesis
    using assms status_find_kv[OF assms(4,6,5)]
    by (simp add: proc_read_status_kb_def proc_read_file_def size_minus_1_def)
qed

text \<open>
  Also (status fields). On a status file that fits the 4096-byte buffer, \<open>proc_read_status_kb\<close> is the lookup
  of the field: the value of its first line, -1 when no line has that name.
\<close>

theorem proc_read_status_kb_lookup:
  assumes "fs (status_path pid) = Some (kv_text kvs, evs)" and "Eio \<notin> set evs"
    and "length (kv_text kvs) < 4096" and "kv_ok kvs" and "\<forall>(k, v) \<in> set kvs. plain_num v"
    and "CHR '':'' \<notin> set field"
  shows "proc_read_status_kb fs pid field =
    (case map_of kvs field of None \<Rightarrow> -1 | Some v \<Rightarrow> strtoll v)"
  using assms by (rule proc_read_status_kb_map)

theorem proc_read_status_kb_lookup_witness:
  "proc_read_status_kb [''/proc/7/status'' \<mapsto> (kv_text [(''VmRSS'', '' 812 kB'')], [])] 7 ''VmRSS'' = 812"
proof -
  have p: "status_path 7 = ''/proc/7/status''"
    by (simp add: status_path_def int_str_def nat_str.simps)
  have "strtoll '' 812 kB'' = 812"
    by (simp add: strtoll_def isspace_def isdigit_def clamp64_def digit_val_def Let_def)
  then show ?thesis
    using proc_read_status_kb_lookup[of "[''/proc/7/status'' \<mapsto> (kv_text [(''VmRSS'', '' 812 kB'')], [])]"
        7 "[(''VmRSS'', '' 812 kB'')]" "[]" "''VmRSS''"]
    by (simp add: p kv_ok_def plain_num_def isspace_def)
qed

section \<open>Command lines\<close>

text \<open>The loop \<open>for (i = 0; i < n - 1; i++)\<close> leaves the last byte alone.\<close>

definition cmdline_spaces :: "string \<Rightarrow> string" where
  "cmdline_spaces bs =
     map (\<lambda>c. if c = NUL then CHR '' '' else c) (butlast bs) @ (if bs = [] then [] else [last bs])"

text \<open>\<open>while (n > 0 && P(buf[n-1])) buf[--n] = '\0';\<close>\<close>

definition trim_trailing :: "(char \<Rightarrow> bool) \<Rightarrow> string \<Rightarrow> string" where
  "trim_trailing P bs = rev (dropWhile P (rev bs))"

text \<open>The result is the buffer's first \<open>n\<close> bytes for the returned \<open>n\<close>; \<open>None\<close> is -1.\<close>

definition proc_read_cmdline :: "proc_fs \<Rightarrow> int \<Rightarrow> nat \<Rightarrow> string option" where
  "proc_read_cmdline fs pid sz =
     map_option (\<lambda>bs. trim_trailing isspace (cmdline_spaces bs))
       (proc_read_file fs (''/proc/'' @ int_str pid @ ''/cmdline'') sz)"

definition proc_read_comm :: "proc_fs \<Rightarrow> int \<Rightarrow> nat \<Rightarrow> string option" where
  "proc_read_comm fs pid sz =
     map_option (trim_trailing (\<lambda>c. c = LF \<or> c = CR))
       (proc_read_file fs (''/proc/'' @ int_str pid @ ''/comm'') sz)"

text \<open>The arguments of a process as the kernel stores them, and their display form.\<close>

definition args_bytes :: "string list \<Rightarrow> string" where
  "args_bytes as = concat (map (\<lambda>a. a @ [NUL]) as)"

fun args_text :: "string list \<Rightarrow> string" where
  "args_text [] = []"
| "args_text [a] = a"
| "args_text (a # b # as) = a @ '' '' @ args_text (b # as)"

lemma cmdline_spaces_args:
  assumes "as \<noteq> []" and "\<forall>a \<in> set as. NUL \<notin> set a"
  shows "cmdline_spaces (args_bytes as) = args_text as @ [NUL]"
proof -
  have sp: "map (\<lambda>c. if c = NUL then CHR '' '' else c) a = a" if "NUL \<notin> set a" for a
    using that by (induction a) auto
  have "args_bytes as \<noteq> [] \<and> last (args_bytes as) = NUL \<and>
      map (\<lambda>c. if c = NUL then CHR '' '' else c) (butlast (args_bytes as)) = args_text as"
    using assms
  proof (induction as rule: args_text.induct)
    case (2 a)
    then show ?case by (simp add: args_bytes_def sp butlast_append)
  next
    case (3 a b as)
    then have "args_bytes (b # as) \<noteq> []" "last (args_bytes (b # as)) = NUL"
      "map (\<lambda>c. if c = NUL then CHR '' '' else c) (butlast (args_bytes (b # as))) = args_text (b # as)"
      by simp_all
    moreover have "args_bytes (a # b # as) = a @ NUL # args_bytes (b # as)"
      by (simp add: args_bytes_def)
    ultimately show ?case using 3 by (simp add: butlast_append sp)
  qed simp
  then show ?thesis by (simp add: cmdline_spaces_def)
qed

text \<open>
  Also (command lines). For a command line that fits, the buffer holds the arguments separated by single
  spaces; the returned length is one more than that string's, because the terminator of the last
  argument is neither replaced nor trimmed.
\<close>

theorem proc_read_cmdline_args:
  assumes "fs (''/proc/'' @ int_str pid @ ''/cmdline'') = Some (args_bytes as, evs)"
    and "Eio \<notin> set evs" and "length (args_bytes as) < sz"
    and "as \<noteq> []" and "\<forall>a \<in> set as. NUL \<notin> set a"
  shows "proc_read_cmdline fs pid sz = Some (args_text as @ [NUL])"
proof -
  have "proc_read_file fs (''/proc/'' @ int_str pid @ ''/cmdline'') sz = Some (args_bytes as)"
    using proc_read_file_take[of fs "''/proc/'' @ int_str pid @ ''/cmdline''" "args_bytes as" evs sz]
      assms(1-3) by simp
  then show ?thesis
    by (simp add: proc_read_cmdline_def cmdline_spaces_args[OF assms(4,5)] trim_trailing_def isspace_def)
qed

theorem proc_read_cmdline_args_witness:
  "proc_read_cmdline [''/proc/1/cmdline'' \<mapsto> (args_bytes [''sh'', ''-c''], [])] 1 128
    = Some (''sh -c'' @ [NUL])"
proof -
  have "int_str 1 = ''1''" by (simp add: int_str_def nat_str.simps)
  then show ?thesis
    using proc_read_cmdline_args[of "[''/proc/1/cmdline'' \<mapsto> (args_bytes [''sh'', ''-c''], [])]" 1
        "[''sh'', ''-c'']" "[]" 128]
    by (simp add: args_bytes_def)
qed

section \<open>Directory entries and key-value lines\<close>

definition is_pid_name :: "string \<Rightarrow> bool" where
  "is_pid_name name \<longleftrightarrow> list_all isdigit name"

text \<open>The callback returns whether to go on, and the new user data; the count is the result.\<close>

fun iterate_names :: "(int \<Rightarrow> 's \<Rightarrow> bool \<times> 's) \<Rightarrow> string list \<Rightarrow> 's \<Rightarrow> int \<Rightarrow> int \<times> 's" where
  "iterate_names cb [] s n = (n, s)"
| "iterate_names cb (name # names) s n =
     (if is_pid_name name
      then (case cb (atoi name) s of
              (True, s') \<Rightarrow> iterate_names cb names s' (n + 1)
            | (False, s') \<Rightarrow> (n + 1, s'))
      else iterate_names cb names s n)"

definition proc_iterate_pids ::
    "string list option \<Rightarrow> (int \<Rightarrow> 's \<Rightarrow> bool \<times> 's) \<Rightarrow> 's \<Rightarrow> int \<times> 's" where
  "proc_iterate_pids dir cb s = (case dir of None \<Rightarrow> (-1, s) | Some names \<Rightarrow> iterate_names cb names s 0)"

definition proc_pid_exists :: "(string \<Rightarrow> bool) \<Rightarrow> int \<Rightarrow> bool" where
  "proc_pid_exists access_ok pid = access_ok (''/proc/'' @ int_str pid)"

text \<open>The value, and the key stored in the caller's buffer (untouched when there is no colon).\<close>

definition proc_parse_kv_kb :: "string \<Rightarrow> nat \<Rightarrow> int \<times> string option" where
  "proc_parse_kv_kb line key_size =
     (case strchr (CHR '':'') line of
        None \<Rightarrow> (-1, None)
      | Some colon \<Rightarrow>
          (let len0 = length line - length colon;
               len1 = (if len0 \<ge> key_size then key_size - 1 else len0);
               key = trim_trailing isspace (take len1 line)
           in (strtoll (dropWhile isspace (tl colon)), Some (dropWhile isspace key))))"

definition pids_of :: "string list \<Rightarrow> int list" where
  "pids_of names = map atoi (filter is_pid_name names)"

lemma iterate_names_all:
  "(\<And>p s. fst (cb p s)) \<Longrightarrow> iterate_names cb names s n =
     (n + int (length (pids_of names)), fold (\<lambda>p s. snd (cb p s)) (pids_of names) s)"
proof (induction names arbitrary: s n)
  case (Cons name names)
  have "cb p s = (True, snd (cb p s))" for p s using Cons.prems[of p s] by (cases "cb p s") auto
  then show ?case using Cons.IH[OF Cons.prems] by (auto simp: pids_of_def split: prod.splits bool.splits)
      (metis prod.inject)+
qed (simp add: pids_of_def)

lemma trim_trailing_last: "trim_trailing P s \<noteq> [] \<Longrightarrow> \<not> P (last (trim_trailing P s))"
  by (simp add: trim_trailing_def last_rev hd_dropWhile)

lemma trim_trailing_prefix: "prefix (trim_trailing P s) s"
  unfolding trim_trailing_def prefix_def
  by (metis append_Nil2 rev_append rev_rev_ident takeWhile_dropWhile_id)

text \<open>
  Also (key-value lines). The key written to the caller's buffer fits it with its terminator, holds no colon,
  and neither starts nor ends with white space; the value is the number after the first colon.
\<close>

theorem proc_parse_kv_kb_key:
  assumes "proc_parse_kv_kb line key_size = (v, Some key)" and "0 < key_size"
  shows "length key < key_size \<and> CHR '':'' \<notin> set key \<and>
    (key \<noteq> [] \<longrightarrow> \<not> isspace (hd key) \<and> \<not> isspace (last key)) \<and>
    (\<exists>a b. line = a @ CHR '':'' # b \<and> CHR '':'' \<notin> set a \<and> v = strtoll b)"
proof -
  from assms(1) obtain colon where c: "strchr (CHR '':'') line = Some colon"
    by (auto simp: proc_parse_kv_kb_def split: option.splits)
  then obtain a b where ab: "line = a @ CHR '':'' # b" "colon = CHR '':'' # b" "CHR '':'' \<notin> set a"
    using strchr_Some by blast
  define len1 where "len1 = (if length a \<ge> key_size then key_size - 1 else length a)"
  define t where "t = trim_trailing isspace (take len1 a)"
  have key: "key = dropWhile isspace t" and v: "v = strtoll b"
    using assms(1) c ab by (auto simp: proc_parse_kv_kb_def t_def len1_def Let_def)
  have pt: "prefix t (take len1 a)" by (simp add: t_def trim_trailing_prefix)
  then have st: "set t \<subseteq> set a" and lt: "length t \<le> len1"
    by (auto dest: set_mono_prefix prefix_length_le in_set_takeD)
  have "length key \<le> len1" using lt key by (metis le_trans length_dropWhile_le)
  then have "length key < key_size" using assms(2) by (auto simp: len1_def split: if_splits)
  moreover have "CHR '':'' \<notin> set key" using st ab(3) key by (metis set_dropWhileD subsetD)
  moreover have "\<not> isspace (hd key)" "\<not> isspace (last key)" if "key \<noteq> []"
  proof -
    show "\<not> isspace (hd key)" using that key by (simp add: hd_dropWhile)
    have "last key = last t" "t \<noteq> []"
      using that key by (metis last_appendR takeWhile_dropWhile_id, auto)
    then show "\<not> isspace (last key)" using trim_trailing_last t_def by metis
  qed
  ultimately show ?thesis using ab v by blast
qed

theorem proc_parse_kv_kb_key_witness:
  "proc_parse_kv_kb ''MemFree:  12 kB'' 64 = (12, Some ''MemFree'') \<and> length ''MemFree'' < 64"
proof -
  have "proc_parse_kv_kb ''MemFree:  12 kB'' 64 = (12, Some ''MemFree'')"
    by (simp add: proc_parse_kv_kb_def trim_trailing_def strtoll_def isspace_def isdigit_def
        clamp64_def digit_val_def Let_def)
  with proc_parse_kv_kb_key[OF this] show ?thesis by simp
qed

end
