(* ===== verification/Format.thy ===== *)
theory Format
  imports Prelude
begin

text \<open>
  Human-readable sizes (\<open>src/common/format.c\<close>) and the log filter (\<open>src/common/log.c\<close>).
  The eight thread-local result buffers are a state of their own, because callers hold several
  results at once: a function returns the index of the buffer its result pointer denotes.
\<close>

section \<open>Numbers as printf prints them\<close>

text \<open>
  The conversion \<open>(double)i\<close> rounds to 53 significant bits, ties to even. Dividing the result by a power
  of two is exact, and \<open>%.2f\<close> rounds the exact quotient to hundredths, ties to even.
\<close>

definition round_div :: "int \<Rightarrow> int \<Rightarrow> int" where
  "round_div n d = (let q = n div d; r = n mod d
                    in if 2 * r > d \<or> (2 * r = d \<and> odd q) then q + 1 else q)"

fun ulp_of :: "nat \<Rightarrow> int \<Rightarrow> int" where
  "ulp_of 0 i = 1"
| "ulp_of (Suc n) i = (if \<bar>i\<bar> < 9007199254740992 * 2 ^ n then ulp_of n i else 2 ^ Suc n)"

definition double_of_int :: "int \<Rightarrow> int" where
  "double_of_int i = (let u = ulp_of 10 i in round_div i u * u)"

definition fixed2 :: "int \<Rightarrow> int \<Rightarrow> string" where
  "fixed2 n d = (let h = nat (round_div (100 * n) d)
                 in nat_str (h div 100) @ [CHR ''.'', digit_char (h div 10 mod 10), digit_char (h mod 10)])"

section \<open>Sizes\<close>

text \<open>The text \<open>snprintf\<close> produces before it is cut to the buffer.\<close>

definition kb_text :: "int \<Rightarrow> string" where
  "kb_text kb =
     (if kb \<ge> 1048576 then fixed2 (double_of_int kb) 1048576 @ '' GB''
      else if kb \<ge> 1024 then fixed2 (double_of_int kb) 1024 @ '' MB''
      else int_str kb @ '' KB'')"

text \<open>The buffer's string and the result, the length of the uncut text.\<close>

definition format_kb_buf :: "nat \<Rightarrow> int \<Rightarrow> string \<times> nat" where
  "format_kb_buf sz kb = (bounded_copy sz (kb_text kb), length (kb_text kb))"

definition format_bytes_buf :: "nat \<Rightarrow> int \<Rightarrow> string \<times> nat" where
  "format_bytes_buf sz bytes = format_kb_buf sz (tdiv bytes 1024)"

record fmt_state =
  fb_bufs :: "string list"
  fb_idx :: nat

definition fmt_init :: fmt_state where
  "fmt_init = \<lparr>fb_bufs = replicate 8 [], fb_idx = 0\<rparr>"

definition get_format_buf :: "fmt_state \<Rightarrow> nat \<times> fmt_state" where
  "get_format_buf s = (fb_idx s, s\<lparr>fb_idx := (fb_idx s + 1) mod 8\<rparr>)"

definition fmt_store :: "nat \<Rightarrow> string \<Rightarrow> fmt_state \<Rightarrow> fmt_state" where
  "fmt_store b t s = s\<lparr>fb_bufs := (fb_bufs s)[b := t]\<rparr>"

definition format_kb :: "int \<Rightarrow> fmt_state \<Rightarrow> nat \<times> fmt_state" where
  "format_kb kb s = (let (b, s1) = get_format_buf s in (b, fmt_store b (fst (format_kb_buf 64 kb)) s1))"

definition format_bytes :: "int \<Rightarrow> fmt_state \<Rightarrow> nat \<times> fmt_state" where
  "format_bytes bytes s = format_kb (tdiv bytes 1024) s"

text \<open>\<open>-delta_kb\<close> is undefined for \<open>INT64_MIN\<close>; then the call has no result.\<close>

definition delta_text :: "int \<Rightarrow> string" where
  "delta_text d =
     (let v = fst (format_kb_buf 32 \<bar>d\<bar>)
      in if d > 0 then bounded_copy 64 (CHR ''+'' # v)
         else if d < 0 then bounded_copy 64 (CHR ''-'' # v) else ''0 KB'')"

definition format_delta_kb :: "int \<Rightarrow> fmt_state \<Rightarrow> (nat \<times> fmt_state) option" where
  "format_delta_kb d s =
     (if d = INT64_MIN then None
      else let (b, s1) = get_format_buf s in Some (b, fmt_store b (delta_text d) s1))"

definition format_delta_bytes :: "int \<Rightarrow> fmt_state \<Rightarrow> (nat \<times> fmt_state) option" where
  "format_delta_bytes d s = format_delta_kb (tdiv d 1024) s"

text \<open>\<open>fmt_f2\<close> is \<open>%.2f\<close> on doubles.\<close>

definition format_percent :: "('d \<Rightarrow> string) \<Rightarrow> 'd \<Rightarrow> fmt_state \<Rightarrow> nat \<times> fmt_state" where
  "format_percent fmt_f2 p s =
     (let (b, s1) = get_format_buf s in (b, fmt_store b (bounded_copy 64 (fmt_f2 p @ ''%'')) s1))"

subsection \<open>Lengths: nothing is cut\<close>

lemma round_div_bounds:
  assumes "0 < d"
  shows "d * (2 * round_div n d) \<le> 2 * n + d \<and> 2 * n - d \<le> d * (2 * round_div n d)"
proof -
  define q r where "q = n div d" and "r = n mod d"
  have n: "n = d * q + r" "0 \<le> r" "r < d" using assms by (simp_all add: q_def r_def)
  have "round_div n d = (if 2 * r > d \<or> (2 * r = d \<and> odd q) then q + 1 else q)"
    by (simp add: round_div_def q_def r_def Let_def)
  then show ?thesis using n by (cases "2 * r > d \<or> (2 * r = d \<and> odd q)") (auto simp: algebra_simps)
qed

lemma round_div_mono_le:
  assumes "0 < d" "n \<le> m * d"
  shows "round_div n d \<le> m"
proof -
  define q r where "q = n div d" and "r = n mod d"
  have n: "n = d * q + r" "0 \<le> r" "r < d" using assms by (simp_all add: q_def r_def)
  have "d * q \<le> d * m" using n assms(2) mult.commute[of m d] by linarith
  then have "q \<le> m" using assms(1) by (rule mult_left_le_imp_le)
  moreover have "r = 0" if "q = m" using that n assms(2) by (simp add: mult.commute)
  moreover have "round_div n d = (if 2 * r > d \<or> (2 * r = d \<and> odd q) then q + 1 else q)"
    by (simp add: round_div_def q_def r_def Let_def)
  ultimately show ?thesis using assms(1) by (cases "q = m") (auto split: if_splits)
qed

lemma ulp_of_pos: "0 < ulp_of n i"
  by (induction n) auto

lemma ulp_of_small: "\<bar>i\<bar> < 9007199254740992 \<Longrightarrow> ulp_of n i = 1"
proof (induction n)
  case (Suc n)
  have "(1::int) \<le> 2 ^ n" by simp
  then have "\<bar>i\<bar> < 9007199254740992 * 2 ^ n" using Suc.prems by linarith
  then show ?case using Suc by simp
qed simp

lemma double_of_int_exact: "\<bar>i\<bar> < 9007199254740992 \<Longrightarrow> double_of_int i = i"
  by (simp add: double_of_int_def ulp_of_small round_div_def Let_def)

lemma ulp_of_dvd: "n \<le> 10 \<Longrightarrow> ulp_of n i dvd 1024"
proof (induction n)
  case (Suc n)
  have "(2::int) ^ Suc n dvd 2 ^ 10" using Suc.prems by (intro le_imp_power_dvd)
  then show ?case using Suc by auto
qed simp

lemma double_of_int_le: "i \<le> 1024 * m \<Longrightarrow> double_of_int i \<le> 1024 * m"
proof -
  assume i: "i \<le> 1024 * m"
  obtain k where k: "1024 = ulp_of 10 i * k" using ulp_of_dvd[of 10 i] by (metis dvdE le_refl)
  have "round_div i (ulp_of 10 i) \<le> k * m"
    by (rule round_div_mono_le[OF ulp_of_pos]) (use i k in \<open>simp add: algebra_simps\<close>)
  then have "round_div i (ulp_of 10 i) * ulp_of 10 i \<le> k * m * ulp_of 10 i"
    by (intro mult_right_mono) (auto intro: less_imp_le ulp_of_pos)
  also have "k * m * ulp_of 10 i = 1024 * m" using k by (simp add: mult.commute mult.left_commute)
  finally show ?thesis by (simp add: double_of_int_def Let_def)
qed

lemma fixed2_length: "0 < d \<Longrightarrow> n \<le> m * d \<Longrightarrow> m < 10 ^ k \<Longrightarrow> 0 < k \<Longrightarrow> length (fixed2 n d) \<le> k + 3"
proof -
  assume a: "0 < d" "n \<le> m * d" "m < 10 ^ k" "0 < k"
  have "round_div (100 * n) d \<le> 100 * m" using a by (intro round_div_mono_le) auto
  then have "nat (round_div (100 * n) d) div 100 \<le> nat m" by linarith
  also have "nat m < 10 ^ k" using a by (simp add: nat_less_iff)
  finally show ?thesis using nat_str_length[of _ k] a(4) by (simp add: fixed2_def Let_def)
qed

lemma int_str_length: "\<bar>i\<bar> < 10 ^ k \<Longrightarrow> 0 < k \<Longrightarrow> length (int_str i) \<le> k + 1"
proof -
  assume a: "\<bar>i\<bar> < 10 ^ k" "0 < k"
  then have "nat \<bar>i\<bar> < 10 ^ k" by (simp add: nat_less_iff)
  then show ?thesis using nat_str_length[of "nat \<bar>i\<bar>" k] a(2) by (auto simp: int_str_def)
qed

lemma kb_text_length: "in_int64 kb \<Longrightarrow> length (kb_text kb) < 31"
proof -
  assume kb: "in_int64 kb"
  have "double_of_int kb \<le> 1024 * 9007199254740992" by (rule double_of_int_le) (use kb in \<open>simp add: in_int64_def\<close>)
  then have "length (fixed2 (double_of_int kb) 1048576) \<le> 13 + 3"
    by (intro fixed2_length[where m = 8796093022208]) auto
  moreover have "length (fixed2 (double_of_int kb) 1024) \<le> 4 + 3" if "kb < 1048576"
    using double_of_int_le[of kb 1024] that by (intro fixed2_length[where m = 1024]) auto
  moreover have "length (int_str kb) \<le> 19 + 1" using kb by (intro int_str_length) (auto simp: in_int64_def)
  ultimately show ?thesis by (cases "kb \<ge> 1048576"; cases "kb \<ge> 1024") (simp_all add: kb_text_def)
qed

subsection \<open>The result pointers\<close>

text \<open>A client's calls, and the index each call returns.\<close>

datatype fmt_call = Fkb int | Fbytes int | Fdelta int | Fdelta_bytes int | Fpercent string

fun fmt_exec :: "fmt_call \<Rightarrow> fmt_state \<Rightarrow> (nat \<times> fmt_state) option" where
  "fmt_exec (Fkb k) s = Some (format_kb k s)"
| "fmt_exec (Fbytes b) s = Some (format_bytes b s)"
| "fmt_exec (Fdelta d) s = format_delta_kb d s"
| "fmt_exec (Fdelta_bytes d) s = format_delta_bytes d s"
| "fmt_exec (Fpercent p) s = Some (format_percent (\<lambda>x. x) p s)"

fun fmt_run :: "fmt_call list \<Rightarrow> fmt_state \<Rightarrow> fmt_state option" where
  "fmt_run [] s = Some s"
| "fmt_run (c # cs) s = (case fmt_exec c s of None \<Rightarrow> None | Some (b, s') \<Rightarrow> fmt_run cs s')"

text \<open>The text a call leaves in its buffer.\<close>

fun fmt_text :: "fmt_call \<Rightarrow> string" where
  "fmt_text (Fkb k) = kb_text k"
| "fmt_text (Fbytes b) = kb_text (tdiv b 1024)"
| "fmt_text (Fdelta d) = delta_text d"
| "fmt_text (Fdelta_bytes d) = delta_text (tdiv d 1024)"
| "fmt_text (Fpercent p) = bounded_copy 64 (p @ ''%'')"

fun call_ok :: "fmt_call \<Rightarrow> bool" where
  "call_ok (Fkb k) = in_int64 k"
| "call_ok (Fbytes b) = in_int64 b"
| "call_ok (Fdelta d) = (in_int64 d \<and> d \<noteq> INT64_MIN)"
| "call_ok (Fdelta_bytes d) = in_int64 d"
| "call_ok (Fpercent p) = True"

definition fmt_inv :: "fmt_state \<Rightarrow> bool" where
  "fmt_inv s \<longleftrightarrow> length (fb_bufs s) = 8 \<and> fb_idx s < 8"

lemma tdiv_1024: "in_int64 b \<Longrightarrow> \<bar>tdiv b 1024\<bar> < 9223372036854775808"
  by (cases "b < 0") (auto simp: tdiv_def in_int64_def abs_mult sgn_if)

lemma kb_text_kept: "in_int64 k \<Longrightarrow> bounded_copy 64 (kb_text k) = kb_text k"
  using kb_text_length[of k] by (simp add: bounded_copy_fits)

lemma fmt_exec_result:
  assumes "call_ok c"
  shows "fmt_exec c s = Some (fb_idx s,
    \<lparr>fb_bufs = (fb_bufs s)[fb_idx s := fmt_text c], fb_idx = (fb_idx s + 1) mod 8\<rparr>)"
proof (cases c)
  case (Fbytes b)
  then have "in_int64 (tdiv b 1024)" using assms tdiv_1024[of b] by (auto simp: in_int64_def abs_less_iff)
  then show ?thesis using Fbytes
    by (simp add: format_bytes_def format_kb_def get_format_buf_def fmt_store_def format_kb_buf_def kb_text_kept)
next
  case (Fdelta_bytes d)
  then have "tdiv d 1024 \<noteq> INT64_MIN" using assms tdiv_1024[of d] by auto
  then show ?thesis using Fdelta_bytes
    by (simp add: format_delta_bytes_def format_delta_kb_def get_format_buf_def fmt_store_def)
qed (use assms in \<open>simp_all add: format_kb_def format_delta_kb_def format_percent_def get_format_buf_def
      fmt_store_def format_kb_buf_def kb_text_kept\<close>)

lemma fmt_run_keeps:
  assumes "\<forall>c \<in> set cs. call_ok c" and "fmt_inv s" and "b < 8"
    and "length cs \<le> (b + 8 - fb_idx s) mod 8"
  shows "\<exists>s'. fmt_run cs s = Some s' \<and> fmt_inv s' \<and> fb_bufs s' ! b = fb_bufs s ! b"
  using assms
proof (induction cs arbitrary: s)
  case (Cons c cs)
  let ?s = "\<lparr>fb_bufs = (fb_bufs s)[fb_idx s := fmt_text c], fb_idx = (fb_idx s + 1) mod 8\<rparr>"
  have i: "fb_idx s < 8" "length (fb_bufs s) = 8" using Cons.prems(2) by (simp_all add: fmt_inv_def)
  have d: "0 < (b + 8 - fb_idx s) mod 8" using Cons.prems(4) by simp
  then have ne: "b \<noteq> fb_idx s" by auto
  have "(b + 8 - (fb_idx s + 1) mod 8) mod 8 = (b + 8 - fb_idx s) mod 8 - 1"
    using i Cons.prems(3) ne by (cases "b < fb_idx s"; cases "fb_idx s = 7") (simp_all add: mod_if)
  moreover have "length cs \<le> (b + 8 - fb_idx s) mod 8 - 1" using Cons.prems(4) d
    by (metis Suc_le_eq less_eq_Suc_le add_diff_cancel_left' diff_le_mono list.size(4) plus_1_eq_Suc add.commute One_nat_def)
  ultimately have le: "length cs \<le> (b + 8 - fb_idx ?s) mod 8" by simp
  have "\<exists>s'. fmt_run cs ?s = Some s' \<and> fmt_inv s' \<and> fb_bufs s' ! b = fb_bufs ?s ! b"
    using Cons.prems(1,3) i by (intro Cons.IH le) (simp_all add: fmt_inv_def)
  then show ?case using Cons.prems ne by (auto simp: fmt_exec_result)
qed simp

text \<open>
  Also (eight live results). The buffer a call returns holds its whole text, and keeps it through any
  seven further calls of the module; no call cuts a size, since each fits its buffer.
\<close>

theorem format_results_live:
  assumes "fmt_inv s" and "call_ok c" and "\<forall>c \<in> set cs. call_ok c" and "length cs \<le> 7"
  shows "\<exists>b s1 s2. fmt_exec c s = Some (b, s1) \<and> fmt_run cs s1 = Some s2 \<and> fb_bufs s2 ! b = fmt_text c"
proof -
  let ?b = "fb_idx s"
  let ?s = "\<lparr>fb_bufs = (fb_bufs s)[?b := fmt_text c], fb_idx = (?b + 1) mod 8\<rparr>"
  have i: "?b < 8" "length (fb_bufs s) = 8" using assms(1) by (simp_all add: fmt_inv_def)
  have "(?b + 8 - (?b + 1) mod 8) mod 8 = 7"
    using i by (cases "?b = 7") (simp_all add: mod_if)
  then have "\<exists>s'. fmt_run cs ?s = Some s' \<and> fmt_inv s' \<and> fb_bufs s' ! ?b = fb_bufs ?s ! ?b"
    using assms(3,4) i by (intro fmt_run_keeps) (simp_all add: fmt_inv_def)
  then show ?thesis using fmt_exec_result[OF assms(2)] i by auto
qed

theorem format_results_live_witness:
  "\<exists>b s1 s2. fmt_exec (Fkb 2048) fmt_init = Some (b, s1) \<and>
     fmt_run [Fdelta 5, Fbytes 4096] s1 = Some s2 \<and> fb_bufs s2 ! b = fmt_text (Fkb 2048)"
  using format_results_live[of fmt_init "Fkb 2048" "[Fdelta 5, Fbytes 4096]"]
  by (simp add: fmt_inv_def fmt_init_def in_int64_def)

text \<open>
  Also (rounding). For every 64-bit value below 2^53 the printed megabytes or gigabytes are within half a hundredth
  of the exact quotient; a smaller value is printed exactly.
\<close>

theorem kb_text_accurate:
  assumes "in_int64 kb" and "kb < 9007199254740992"
  shows "(kb < 1024 \<and> kb_text kb = int_str kb @ '' KB'') \<or>
    (\<exists>d h u. kb_text kb = nat_str (h div 100) @ [CHR ''.'', digit_char (h div 10 mod 10), digit_char (h mod 10)] @ u
       \<and> (kb < 1048576 \<and> d = 1024 \<and> u = '' MB'' \<or> 1048576 \<le> kb \<and> d = 1048576 \<and> u = '' GB'')
       \<and> \<bar>int h * d - 100 * kb\<bar> * 2 \<le> d)"
proof (cases "kb < 1024")
  case False
  then have ex: "double_of_int kb = kb" using assms by (intro double_of_int_exact) simp
  have acc: "\<bar>int (nat (round_div (100 * kb) d)) * d - 100 * kb\<bar> * 2 \<le> d" if "0 < d" for d
  proof -
    have "0 \<le> round_div (100 * kb) d"
      using False that by (auto simp: round_div_def Let_def pos_imp_zdiv_nonneg_iff)
    moreover define x where "x = d * round_div (100 * kb) d"
    moreover have "2 * x \<le> 200 * kb + d" "200 * kb - d \<le> 2 * x"
      using round_div_bounds[OF that, of "100 * kb"] by (simp_all add: x_def algebra_simps)
    moreover have "\<bar>x - 100 * kb\<bar> * 2 \<le> d"
      using \<open>2 * x \<le> 200 * kb + d\<close> \<open>200 * kb - d \<le> 2 * x\<close> by (auto simp: abs_if)
    ultimately show ?thesis by (simp add: mult.commute)
  qed
  show ?thesis
  proof (cases "kb < 1048576")
    case True
    then show ?thesis using False ex acc[of 1024]
      by (intro disjI2 exI[of _ 1024] exI[of _ "nat (round_div (100 * kb) 1024)"] exI[of _ "'' MB''"])
        (simp add: kb_text_def fixed2_def Let_def)
  next
    case F: False
    then show ?thesis using ex acc[of 1048576]
      by (intro disjI2 exI[of _ 1048576] exI[of _ "nat (round_div (100 * kb) 1048576)"] exI[of _ "'' GB''"])
        (simp add: kb_text_def fixed2_def Let_def)
  qed
qed (simp add: kb_text_def)

theorem kb_text_accurate_witness:
  "kb_text 1536 = ''1.50 MB'' \<and> (\<exists>h. \<bar>int h * 1024 - 100 * 1536\<bar> * 2 \<le> (1024::int))"
proof -
  have "kb_text 1536 = ''1.50 MB''"
    by (simp add: kb_text_def fixed2_def double_of_int_exact round_div_def nat_str.simps Let_def)
  then show ?thesis using kb_text_accurate[of 1536] by (auto simp: in_int64_def)
qed

section \<open>The log filter\<close>

datatype log_entry = Syslog int string | Stderr string

record log_state =
  g_log_level :: int
  g_use_syslog :: bool
  log_open :: bool
  log_out :: "log_entry list"

definition level_names :: "string list" where
  "level_names = [''DEBUG'', ''INFO'', ''WARN'', ''ERROR'']"

definition level_colors :: "string list" where
  "level_colors = map (\<lambda>c. CHR 0x1B # ''[3'' @ c @ ''m'') [''6'', ''2'', ''3'', ''1'']"

text \<open>\<open>LOG_DEBUG\<close>, \<open>LOG_INFO\<close>, \<open>LOG_WARNING\<close>, \<open>LOG_ERR\<close>.\<close>

definition level_to_syslog :: "int list" where
  "level_to_syslog = [7, 6, 4, 3]"

definition log_init :: "int \<Rightarrow> bool \<Rightarrow> log_state \<Rightarrow> log_state" where
  "log_init level use_syslog s =
     s\<lparr>g_log_level := level, g_use_syslog := use_syslog, log_open := (use_syslog \<or> log_open s)\<rparr>"

definition log_shutdown :: "log_state \<Rightarrow> log_state" where
  "log_shutdown s = (if g_use_syslog s then s\<lparr>log_open := False\<rparr> else s)"

definition log_set_level :: "int \<Rightarrow> log_state \<Rightarrow> log_state" where
  "log_set_level level s = s\<lparr>g_log_level := level\<rparr>"

definition pad5 :: "string \<Rightarrow> string" where
  "pad5 s = s @ replicate (5 - length s) (CHR '' '')"

text \<open>\<open>now\<close> is the formatted local time, \<open>msg\<close> the message after \<open>vfprintf\<close>.\<close>

definition log_write :: "string \<Rightarrow> int \<Rightarrow> string \<Rightarrow> log_state \<Rightarrow> log_state" where
  "log_write now level msg s =
     (let lvl = (if level < 0 \<or> level > 3 then 1 else level)
      in if lvl < g_log_level s then s
         else if g_use_syslog s
         then s\<lparr>log_out := log_out s @ [Syslog (level_to_syslog ! nat lvl) msg]\<rparr>
         else s\<lparr>log_out := log_out s @
                [Stderr (now @ '' '' @ level_colors ! nat lvl @ ''['' @ pad5 (level_names ! nat lvl) @
                         '']'' @ [CHR 0x1B] @ ''[0m '' @ msg @ [LF])]\<rparr>)"

definition log_debug :: "string \<Rightarrow> string \<Rightarrow> log_state \<Rightarrow> log_state" where
  "log_debug now = log_write now 0"
definition log_info :: "string \<Rightarrow> string \<Rightarrow> log_state \<Rightarrow> log_state" where
  "log_info now = log_write now 1"
definition log_warn :: "string \<Rightarrow> string \<Rightarrow> log_state \<Rightarrow> log_state" where
  "log_warn now = log_write now 2"
definition log_error :: "string \<Rightarrow> string \<Rightarrow> log_state \<Rightarrow> log_state" where
  "log_error now = log_write now 3"
definition log_msg :: "string \<Rightarrow> int \<Rightarrow> string \<Rightarrow> log_state \<Rightarrow> log_state" where
  "log_msg now = log_write now"

text \<open>
  Also (filter). A message is appended exactly when its level, taken as \<open>INFO\<close> when out of range, is at least
  the threshold; nothing else of the state changes, and the table lookups are in range.
\<close>

theorem log_msg_filter:
  "let lvl = (if level \<in> {0..3} then level else 1)
   in nat lvl < length level_names \<and> nat lvl < length level_colors \<and> nat lvl < length level_to_syslog \<and>
      g_log_level (log_msg now level msg s) = g_log_level s \<and>
      g_use_syslog (log_msg now level msg s) = g_use_syslog s \<and>
      (if g_log_level s \<le> lvl
       then (\<exists>e. log_out (log_msg now level msg s) = log_out s @ [e] \<and>
              (case e of Syslog p m \<Rightarrow> g_use_syslog s \<and> m = msg | Stderr l \<Rightarrow> \<not> g_use_syslog s \<and> sublist msg l))
       else log_msg now level msg s = s)"
proof -
  define lvl where "lvl = (if level \<in> {0..3} then level else 1)"
  have l: "nat lvl < 4" by (auto simp: lvl_def)
  have w: "log_msg now level msg s = (if lvl < g_log_level s then s
      else s\<lparr>log_out := log_out s @ [if g_use_syslog s then Syslog (level_to_syslog ! nat lvl) msg
        else Stderr ((now @ '' '' @ level_colors ! nat lvl @ ''['' @ pad5 (level_names ! nat lvl) @
                         '']'' @ [CHR 0x1B] @ ''[0m '') @ msg @ [LF])]\<rparr>)"
    by (auto simp: log_msg_def log_write_def lvl_def Let_def)
  show ?thesis
    using l unfolding lvl_def[symmetric] Let_def w
    by (auto simp: level_names_def level_colors_def level_to_syslog_def sublist_appendI simp del: append_assoc)
qed

end
