(* ===== verification/Ringbuf.thy ===== *)
theory Ringbuf
  imports Prelude
begin

text \<open>
  The snapshot history (\<open>src/daemon/ringbuffer.c\<close>): a circular array of heap-allocated copies. A
  pointer argument that may be NULL is an option; \<open>None\<close> as the outcome of a call is an access outside
  the array, a division by zero or an overflow of an \<open>int\<close>, which C leaves undefined. Whether \<open>malloc\<close> succeeds and what the
  clock returns are arguments.
\<close>

section \<open>Operations\<close>

record ringbuf_entry =
  e_timestamp :: int
  e_data :: "string option"
  e_size :: nat

record ringbuf =
  rb_entries :: "ringbuf_entry list"
  rb_capacity :: int
  rb_head :: int
  rb_count :: int

definition empty_entry :: ringbuf_entry where
  "empty_entry = \<lparr>e_timestamp = 0, e_data = None, e_size = 0\<rparr>"

text \<open>
  Whether the two allocations succeed is given. A negative capacity converts to a huge \<open>size_t\<close>, for which \<open>calloc\<close> fails in any case;
  \<open>calloc(0)\<close> may succeed.
\<close>

definition ringbuf_create :: "bool \<Rightarrow> bool \<Rightarrow> int \<Rightarrow> ringbuf option" where
  "ringbuf_create malloc_ok calloc_ok capacity =
     (if \<not> malloc_ok then None
      else if \<not> calloc_ok \<or> capacity < 0 then None
      else Some \<lparr>rb_entries = replicate (nat capacity) empty_entry, rb_capacity = capacity,
                 rb_head = 0, rb_count = 0\<rparr>)"

definition entry_at :: "ringbuf \<Rightarrow> int \<Rightarrow> ringbuf_entry option" where
  "entry_at r pos = (if 0 \<le> pos \<and> nat pos < length (rb_entries r) then Some (rb_entries r ! nat pos) else None)"

text \<open>The body of \<open>ringbuf_push\<close> after its checks, with the copied data.\<close>

definition rb_store :: "int \<Rightarrow> string \<Rightarrow> ringbuf \<Rightarrow> ringbuf" where
  "rb_store now d r =
     (let c = (if rb_count r < rb_capacity r then rb_count r + 1 else rb_count r)
      in r\<lparr>rb_entries := (rb_entries r)[nat (rb_head r) := \<lparr>e_timestamp = now, e_data = Some d, e_size = length d\<rparr>],
           rb_head := trem (rb_head r + 1) (rb_capacity r), rb_count := c\<rparr>)"

definition ringbuf_push ::
    "bool \<Rightarrow> int \<Rightarrow> string option \<Rightarrow> ringbuf option \<Rightarrow> (int \<times> ringbuf option) option" where
  "ringbuf_push malloc_ok now data rb =
     (case (rb, data) of
        (Some r, Some d) \<Rightarrow>
          (case entry_at r (rb_head r) of
             None \<Rightarrow> None
           | Some e \<Rightarrow>
               if \<not> malloc_ok
               then Some (-1, Some (r\<lparr>rb_entries := (rb_entries r)[nat (rb_head r) := e\<lparr>e_data := None\<rparr>]\<rparr>))
               else if rb_capacity r = 0 then None
               else Some (0, Some (rb_store now d r)))
      | _ \<Rightarrow> Some (-1, rb))"

text \<open>The remainder by which an index is found, of a sum whose parts, added from the left, must all be an \<open>int\<close>.\<close>

definition wrap_index :: "int list \<Rightarrow> int \<Rightarrow> int option" where
  "wrap_index xs c =
     (if c \<noteq> 0 \<and> list_all (\<lambda>k. - 2147483648 \<le> sum_list (take k xs) \<and> sum_list (take k xs) \<le> INT32_MAX) [1..<Suc (length xs)]
      then Some (trem (sum_list xs) c) else None)"

text \<open>The outer option is the outcome, the inner one the NULL result.\<close>

definition ringbuf_get :: "ringbuf option \<Rightarrow> int \<Rightarrow> ringbuf_entry option option" where
  "ringbuf_get rb index =
     (case rb of None \<Rightarrow> Some None
      | Some r \<Rightarrow>
          if index < 0 \<or> index \<ge> rb_count r then Some None
          else (case wrap_index [rb_head r, - rb_count r, index, rb_capacity r] (rb_capacity r) of
                  None \<Rightarrow> None | Some pos \<Rightarrow> map_option Some (entry_at r pos)))"

definition ringbuf_get_recent :: "ringbuf option \<Rightarrow> int \<Rightarrow> ringbuf_entry option option" where
  "ringbuf_get_recent rb index =
     (case rb of None \<Rightarrow> Some None
      | Some r \<Rightarrow>
          if index < 0 \<or> index \<ge> rb_count r then Some None
          else (case wrap_index [rb_head r, - 1, - index, rb_capacity r] (rb_capacity r) of
                  None \<Rightarrow> None | Some pos \<Rightarrow> map_option Some (entry_at r pos)))"

definition ringbuf_count :: "ringbuf option \<Rightarrow> int" where
  "ringbuf_count rb = (case rb of None \<Rightarrow> 0 | Some r \<Rightarrow> rb_count r)"

definition ringbuf_clear :: "ringbuf \<Rightarrow> ringbuf" where
  "ringbuf_clear r =
     r\<lparr>rb_entries := map (\<lambda>e. e\<lparr>e_data := None\<rparr>) (take (nat (rb_capacity r)) (rb_entries r))
                       @ drop (nat (rb_capacity r)) (rb_entries r),
       rb_head := 0, rb_count := 0\<rparr>"

text \<open>The heap blocks a ring owns; \<open>ringbuf_destroy\<close> leaves those it did not free.\<close>

definition owned :: "ringbuf \<Rightarrow> nat" where
  "owned r = length (filter (\<lambda>e. e_data e \<noteq> None) (rb_entries r))"

definition ringbuf_destroy :: "ringbuf option \<Rightarrow> nat" where
  "ringbuf_destroy rb = (case rb of None \<Rightarrow> 0 | Some r \<Rightarrow> owned (ringbuf_clear r))"

section \<open>Invariant and abstraction\<close>

definition rb_inv :: "ringbuf \<Rightarrow> bool" where
  "rb_inv r \<longleftrightarrow> 0 < rb_capacity r \<and> rb_capacity r = int (length (rb_entries r)) \<and>
     0 \<le> rb_head r \<and> rb_head r < rb_capacity r \<and> 0 \<le> rb_count r \<and> rb_count r \<le> rb_capacity r"

text \<open>The elements of a circular array, from the oldest to the most recent.\<close>

definition ring_list :: "'a list \<Rightarrow> int \<Rightarrow> int \<Rightarrow> int \<Rightarrow> 'a list" where
  "ring_list xs h n c = map (\<lambda>i. xs ! nat ((h - n + int i) mod c)) [0..<nat n]"

definition history :: "ringbuf \<Rightarrow> ringbuf_entry list" where
  "history r = ring_list (rb_entries r) (rb_head r) (rb_count r) (rb_capacity r)"

lemma length_ring_list [simp]: "length (ring_list xs h n c) = nat n"
  by (simp add: ring_list_def)

lemma ring_list_nth:
  assumes "int i < n"
  shows "ring_list xs h n c ! i = xs ! nat ((h - n + int i) mod c)"
proof -
  have "i < nat n" using assms by linarith
  then show ?thesis by (simp add: ring_list_def)
qed

lemma length_history [simp]: "length (history r) = nat (rb_count r)"
  by (simp add: history_def)

lemma rb_inv_store: "rb_inv r \<Longrightarrow> rb_inv (rb_store now d r)"
  by (clarsimp simp: rb_inv_def rb_store_def Let_def) (auto simp: trem_nonneg)

lemma mod_add_neq:
  fixes a c :: int
  assumes "0 < k" "k < c" "0 \<le> a" "a < c"
  shows "(a + k) mod c \<noteq> a"
proof (cases "a + k < c")
  case True
  then show ?thesis using assms by (simp add: mod_pos_pos_trivial)
next
  case False
  have "(a + k) mod c = (a + k - c) mod c" by simp
  also have "\<dots> = a + k - c" using assms False by (intro mod_pos_pos_trivial) auto
  finally show ?thesis using assms by simp
qed

lemma ring_list_store:
  assumes b: "0 < c" "c = int (length xs)" "0 \<le> h" "h < c" "0 \<le> n" "n \<le> c"
  shows "ring_list (xs[nat h := e]) ((h + 1) mod c) (if n < c then n + 1 else n) c =
    (let ys = ring_list xs h n c @ [e] in drop (length ys - nat c) ys)"
proof -
  define n' where "n' = (if n < c then n + 1 else n)"
  have idx: "((h + 1) mod c - n' + int i) mod c = (h + 1 - n' + int i) mod c" for i
  proof -
    have "((h + 1) mod c - n' + int i) mod c = ((h + 1) mod c + (int i - n')) mod c" by (simp add: algebra_simps)
    also have "\<dots> = (h + 1 + (int i - n')) mod c" by (rule mod_add_left_eq)
    finally show ?thesis by (simp add: algebra_simps)
  qed
  let ?l = "ring_list (xs[nat h := e]) ((h + 1) mod c) n' c"
  let ?r = "let ys = ring_list xs h n c @ [e] in drop (length ys - nat c) ys"
  have "?l = ?r"
  proof (rule nth_equalityI)
    show "length ?l = length ?r" using b by (auto simp: Let_def n'_def)
  next
    fix i assume "i < length ?l"
    then have i: "int i < n'" by simp
    have lhs: "?l ! i = (xs[nat h := e]) ! nat ((h + 1 - n' + int i) mod c)"
      using i by (simp add: ring_list_nth idx)
    have rhs: "?r ! i = (if int i = n' - 1 then e else xs ! nat ((h - n + int i + (n + 1 - n')) mod c))"
    proof (cases "n < c")
      case True
      then have "Suc (nat n) - nat c = 0" "n' = n + 1" using b by (auto simp: n'_def)
      then show ?thesis using i b by (auto simp: Let_def nth_append ring_list_nth)
    next
      case False
      then have "Suc (nat n) - nat c = 1" "n' = n" "n = c" using b by (auto simp: n'_def)
      then show ?thesis using i b by (auto simp: Let_def nth_append ring_list_nth algebra_simps)
    qed
    show "?l ! i = ?r ! i"
    proof (cases "int i = n' - 1")
      case True
      then show ?thesis using b unfolding lhs rhs by (simp add: mod_pos_pos_trivial)
    next
      case False
      define k where "k = c - (n' - 1 - int i)"
      have k: "0 < k" "k < c" using False i b by (auto simp: k_def n'_def split: if_splits)
      have "(h + 1 - n' + int i) mod c = (h + k) mod c"
      proof -
        have "h + k = (h + 1 - n' + int i) + c" by (simp add: k_def)
        then show ?thesis by (simp only: mod_add_self2)
      qed
      then have "nat ((h + 1 - n' + int i) mod c) \<noteq> nat h"
        using mod_add_neq[OF k b(3,4)] b(1,3) by (simp add: eq_nat_nat_iff)
      then show ?thesis using False unfolding lhs rhs by (simp add: algebra_simps)
    qed
  qed
  then show ?thesis by (simp add: n'_def)
qed

lemma history_store:
  assumes "rb_inv r"
  shows "history (rb_store now d r) =
    (let xs = history r @ [\<lparr>e_timestamp = now, e_data = Some d, e_size = length d\<rparr>]
     in drop (length xs - nat (rb_capacity r)) xs)"
proof -
  have b: "0 < rb_capacity r" "rb_capacity r = int (length (rb_entries r))" "0 \<le> rb_head r"
    "rb_head r < rb_capacity r" "0 \<le> rb_count r" "rb_count r \<le> rb_capacity r"
    using assms by (auto simp: rb_inv_def)
  have "trem (rb_head r + 1) (rb_capacity r) = (rb_head r + 1) mod rb_capacity r"
    using b by (intro trem_nonneg) auto
  then show ?thesis
    using ring_list_store[OF b, of "\<lparr>e_timestamp = now, e_data = Some d, e_size = length d\<rparr>"]
    by (simp add: history_def rb_store_def Let_def del: length_append)
qed

lemma drop_bounded:
  "drop (length (drop (length a - c) a @ b) - c) (drop (length a - c) a @ b) = drop (length (a @ b) - c) (a @ b)"
proof (cases "length a \<le> c")
  case False
  have "drop (length a - c) a @ b = drop (length a - c) (a @ b)" by simp
  then show ?thesis using False by (simp only: drop_drop) (simp add: ac_simps)
qed simp

section \<open>The interface of a bounded history\<close>

text \<open>What a client of a history with a capacity relies on, whatever its representation.\<close>

locale bounded_history =
  fixes inv :: "'s \<Rightarrow> bool" and items :: "'s \<Rightarrow> 'a list" and cap :: "'s \<Rightarrow> nat"
    and push :: "'b \<Rightarrow> 's \<Rightarrow> 's" and item :: "'b \<Rightarrow> 'a"
  assumes inv_push: "inv s \<Longrightarrow> inv (push x s)"
    and cap_push: "inv s \<Longrightarrow> cap (push x s) = cap s"
    and items_bound: "inv s \<Longrightarrow> length (items s) \<le> cap s"
    and items_push: "inv s \<Longrightarrow> items (push x s) =
      drop (length (items s @ [item x]) - cap s) (items s @ [item x])"
begin

lemma inv_run: "inv s \<Longrightarrow> inv (fold push xs s) \<and> cap (fold push xs s) = cap s"
  by (induction xs arbitrary: s) (simp_all add: inv_push cap_push)

lemma items_run:
  "inv s \<Longrightarrow> items (fold push xs s) =
     drop (length (items s @ map item xs) - cap s) (items s @ map item xs)"
proof (induction xs arbitrary: s)
  case (Cons x xs)
  let ?a = "items s @ [item x]"
  have "items (fold push xs (push x s)) =
      drop (length (drop (length ?a - cap s) ?a @ map item xs) - cap s)
        (drop (length ?a - cap s) ?a @ map item xs)"
    using Cons by (simp add: inv_push cap_push items_push)
  also have "\<dots> = drop (length (?a @ map item xs) - cap s) (?a @ map item xs)"
    by (rule drop_bounded)
  finally show ?case by simp
qed (simp add: items_bound)

lemma items_run_empty: "inv s \<Longrightarrow> items s = [] \<Longrightarrow> items (fold push xs s) = drop (length xs - cap s) (map item xs)"
  by (simp add: items_run)

end

abbreviation mk_entry :: "int \<times> string \<Rightarrow> ringbuf_entry" where
  "mk_entry x \<equiv> \<lparr>e_timestamp = fst x, e_data = Some (snd x), e_size = length (snd x)\<rparr>"

interpretation ring: bounded_history rb_inv history "\<lambda>r. nat (rb_capacity r)"
  "\<lambda>x. rb_store (fst x) (snd x)" mk_entry
proof
  fix r :: ringbuf and x :: "int \<times> string"
  assume r: "rb_inv r"
  show "rb_inv (rb_store (fst x) (snd x) r)" by (rule rb_inv_store[OF r])
  show "nat (rb_capacity (rb_store (fst x) (snd x) r)) = nat (rb_capacity r)"
    by (simp add: rb_store_def Let_def)
  show "length (history r) \<le> nat (rb_capacity r)" using r by (auto simp: rb_inv_def)
  show "history (rb_store (fst x) (snd x) r) =
      drop (length (history r @ [mk_entry x]) - nat (rb_capacity r)) (history r @ [mk_entry x])"
    by (simp add: history_store[OF r] Let_def)
qed

section \<open>What clients read\<close>

lemma ringbuf_push_ok:
  "rb_inv r \<Longrightarrow> ringbuf_push True now (Some d) (Some r) = Some (0, Some (rb_store now d r))"
  by (auto simp: ringbuf_push_def entry_at_def rb_inv_def)

text \<open>Capacities for which no index computation overflows.\<close>

abbreviation MAX_CAPACITY :: int where "MAX_CAPACITY \<equiv> 1073741824"

lemma wrap_index_4:
  "c \<noteq> 0 \<Longrightarrow> wrap_index [x, y, z, u] c = (if - 2147483648 \<le> x \<and> x \<le> INT32_MAX \<and> - 2147483648 \<le> x + y \<and> x + y \<le> INT32_MAX \<and>
      - 2147483648 \<le> x + y + z \<and> x + y + z \<le> INT32_MAX \<and> - 2147483648 \<le> x + y + z + u \<and> x + y + z + u \<le> INT32_MAX
    then Some (trem (x + y + z + u) c) else None)"
  by (auto simp: wrap_index_def upt_rec add.assoc)

lemma ringbuf_get_history:
  assumes "rb_inv r" "rb_capacity r \<le> MAX_CAPACITY"
  shows "ringbuf_get (Some r) i = Some (if 0 \<le> i \<and> i < rb_count r then Some (history r ! nat i) else None)"
proof (cases "0 \<le> i \<and> i < rb_count r")
  case True
  let ?s = "rb_head r - rb_count r + i"
  have b: "0 < rb_capacity r" "0 \<le> rb_head r" "rb_head r < rb_capacity r" "rb_count r \<le> rb_capacity r" "rb_capacity r \<noteq> 0" using assms(1) by (auto simp: rb_inv_def)
  then have "wrap_index [rb_head r, - rb_count r, i, rb_capacity r] (rb_capacity r) = Some (trem (?s + rb_capacity r) (rb_capacity r))"
    using True assms(2) by (simp add: wrap_index_4)
  moreover have "trem (?s + rb_capacity r) (rb_capacity r) = (?s + rb_capacity r) mod rb_capacity r"
    using b True by (intro trem_nonneg) auto
  moreover have "nat (?s mod rb_capacity r) < length (rb_entries r)"
    using assms(1) by (auto simp: rb_inv_def nat_less_iff)
  ultimately show ?thesis using True b(1)
    by (simp add: ringbuf_get_def entry_at_def history_def ring_list_nth)
qed (auto simp: ringbuf_get_def)

lemma ringbuf_get_recent_get:
  assumes "rb_inv r" "rb_capacity r \<le> MAX_CAPACITY"
  shows "ringbuf_get_recent (Some r) i = ringbuf_get (Some r) (if 0 \<le> i then rb_count r - 1 - i else i)"
proof (cases "0 \<le> i \<and> i < rb_count r")
  case True
  have b: "0 < rb_capacity r" "0 \<le> rb_head r" "rb_head r < rb_capacity r" "rb_count r \<le> rb_capacity r" "rb_capacity r \<noteq> 0" using assms(1) by (auto simp: rb_inv_def)
  then have "wrap_index [rb_head r, - 1, - i, rb_capacity r] (rb_capacity r) = Some (trem (rb_head r - 1 - i + rb_capacity r) (rb_capacity r))"
    "wrap_index [rb_head r, - rb_count r, rb_count r - 1 - i, rb_capacity r] (rb_capacity r) = Some (trem (rb_head r - 1 - i + rb_capacity r) (rb_capacity r))"
    using True assms(2) by (simp_all add: wrap_index_4 algebra_simps)
  then show ?thesis using True by (simp add: ringbuf_get_def ringbuf_get_recent_def)
qed (auto simp: ringbuf_get_def ringbuf_get_recent_def)

fun ring_run :: "(int \<times> string) list \<Rightarrow> ringbuf option \<Rightarrow> ringbuf option option" where
  "ring_run [] rb = Some rb"
| "ring_run ((now, d) # xs) rb =
     (case ringbuf_push True now (Some d) rb of None \<Rightarrow> None | Some (ret, rb') \<Rightarrow> ring_run xs rb')"

lemma ring_run_fold:
  "rb_inv r \<Longrightarrow> ring_run xs (Some r) = Some (Some (fold (\<lambda>x. rb_store (fst x) (snd x)) xs r))"
  by (induction xs "Some r" arbitrary: r rule: ring_run.induct) (auto simp: ringbuf_push_ok rb_inv_store)

lemma ringbuf_create_inv: "0 < cap \<Longrightarrow> \<exists>r. ringbuf_create True True cap = Some r \<and> rb_inv r \<and> history r = [] \<and> rb_capacity r = cap"
  by (auto simp: ringbuf_create_def rb_inv_def history_def ring_list_def)

text \<open>
  C8 (refinement to the list of the latest snapshots). A ring of positive capacity, up to the $2^{30}$ beyond which the computation of
  an index can overflow, into which any sequence of snapshots is pushed holds the last \<open>capacity\<close> of them: \<open>ringbuf_get\<close> counts from the oldest kept,
  \<open>ringbuf_get_recent\<close> from the latest, every other index gives NULL, and no access leaves the array.
\<close>

theorem ringbuf_keeps_latest:
  assumes "0 < cap" and "cap \<le> 1073741824"
  shows "\<exists>r. ring_run xs (ringbuf_create True True cap) = Some (Some r) \<and>
    (let n = min (length xs) (nat cap) in
      ringbuf_count (Some r) = int n \<and>
      (\<forall>i. ringbuf_get (Some r) i =
        Some (if 0 \<le> i \<and> i < int n then Some (mk_entry (xs ! (length xs - n + nat i))) else None)) \<and>
      (\<forall>i. ringbuf_get_recent (Some r) i =
        Some (if 0 \<le> i \<and> i < int n then Some (mk_entry (xs ! (length xs - 1 - nat i))) else None)))"
proof -
  obtain r0 where r0: "ringbuf_create True True cap = Some r0" "rb_inv r0" "history r0 = []" "rb_capacity r0 = cap"
    using ringbuf_create_inv[OF assms(1)] by blast
  define r where "r = fold (\<lambda>x. rb_store (fst x) (snd x)) xs r0"
  define n where "n = min (length xs) (nat cap)"
  have inv: "rb_inv r" "nat (rb_capacity r) = nat cap" using ring.inv_run[OF r0(2)] r0(4) by (simp_all add: r_def)
  then have small: "rb_capacity r \<le> MAX_CAPACITY" using assms by (simp add: rb_inv_def)
  have h: "history r = drop (length xs - nat cap) (map mk_entry xs)"
    using ring.items_run_empty[OF r0(2,3)] r0(4) by (simp add: r_def)
  have "nat (rb_count r) = n" using arg_cong[OF h, of length] by (simp add: n_def min_def)
  then have cnt: "rb_count r = int n" using inv(1) by (auto simp: rb_inv_def)
  have nth: "history r ! i = mk_entry (xs ! (length xs - n + i))" if "i < n" for i
    using that by (auto simp: h n_def min_def)
  have get: "ringbuf_get (Some r) i =
      Some (if 0 \<le> i \<and> i < int n then Some (mk_entry (xs ! (length xs - n + nat i))) else None)" for i
    using nth[of "nat i"] by (simp add: ringbuf_get_history[OF inv(1) small] cnt nat_less_iff)
  moreover have "ringbuf_get_recent (Some r) i =
      Some (if 0 \<le> i \<and> i < int n then Some (mk_entry (xs ! (length xs - 1 - nat i))) else None)" for i
  proof -
    have "length xs - n + nat (int n - 1 - i) = length xs - 1 - nat i" if "0 \<le> i" "i < int n"
      using that by (simp add: n_def nat_diff_distrib min_def split: if_splits)
    then show ?thesis by (auto simp: ringbuf_get_recent_get[OF inv(1) small] get cnt)
  qed
  moreover have "ring_run xs (ringbuf_create True True cap) = Some (Some r)"
    using ring_run_fold[OF r0(2)] r0(1) by (simp add: r_def)
  ultimately show ?thesis
    unfolding n_def[symmetric] Let_def using cnt by (intro exI[of _ r]) (simp add: ringbuf_count_def)
qed

theorem ringbuf_keeps_latest_witness:
  "\<exists>r. ring_run [(1, ''a''), (2, ''b''), (3, ''c'')] (ringbuf_create True True 2) = Some (Some r) \<and>
     ringbuf_get (Some r) 0 = Some (Some (mk_entry (2, ''b''))) \<and>
     ringbuf_get_recent (Some r) 0 = Some (Some (mk_entry (3, ''c'')))"
  using ringbuf_keeps_latest[of 2 "[(1, ''a''), (2, ''b''), (3, ''c'')]"] by (auto simp: Let_def)

text \<open>
  Also (no capacity). A history configured with zero snapshots is created, and the first push leaves the array.
\<close>

theorem ringbuf_zero_capacity:
  "\<exists>r. ringbuf_create True True 0 = Some r \<and> ringbuf_push malloc_ok now (Some d) (Some r) = None"
  by (simp add: ringbuf_create_def ringbuf_push_def entry_at_def)

text \<open>
  Also (a large capacity). Nothing bounds the configured capacity: above $2^{30}$ the sum that gives the position of the latest entry
  overflows once the head is far enough, although the entry exists.
\<close>

theorem ringbuf_large_overflow:
  assumes "rb_inv r" and "0 < rb_count r" and "rb_capacity r \<le> INT32_MAX" and "INT32_MAX < rb_head r - 1 + rb_capacity r"
  shows "ringbuf_get_recent (Some r) 0 = None"
proof -
  have "rb_capacity r \<noteq> 0" using assms(1) by (auto simp: rb_inv_def)
  then have "wrap_index [rb_head r, - 1, 0, rb_capacity r] (rb_capacity r) = None"
    using assms(4) by (simp add: wrap_index_4)
  then show ?thesis using assms(2) by (simp add: ringbuf_get_recent_def)
qed

theorem ringbuf_large_overflow_witness:
  "ringbuf_get_recent (Some \<lparr>rb_entries = replicate (nat INT32_MAX) empty_entry, rb_capacity = INT32_MAX, rb_head = 2, rb_count = 2\<rparr>) 0 = None"
proof -
  have "rb_inv \<lparr>rb_entries = replicate (nat INT32_MAX) empty_entry, rb_capacity = INT32_MAX, rb_head = 2, rb_count = 2\<rparr>"
    unfolding rb_inv_def ringbuf.simps length_replicate by simp
  from ringbuf_large_overflow[OF this] show ?thesis by simp
qed

text \<open>
  Also (failed allocation). When \<open>malloc\<close> fails on a full ring, the call reports -1, but the oldest entry has
  already been freed and is still counted: reading it gives an entry without data and with its old size.
\<close>

theorem ringbuf_push_failure:
  assumes "rb_inv r" and "rb_count r = rb_capacity r" and "rb_capacity r \<le> 1073741824"
  shows "\<exists>r' e. ringbuf_push False now (Some d) (Some r) = Some (-1, Some r') \<and> rb_inv r' \<and>
    ringbuf_count (Some r') = rb_count r \<and> ringbuf_get (Some r') 0 = Some (Some e) \<and>
    e_data e = None \<and> e_size e = e_size (hd (history r))"
proof -
  let ?h = "nat (rb_head r)"
  define r' where "r' = r\<lparr>rb_entries := (rb_entries r)[?h := (rb_entries r ! ?h)\<lparr>e_data := None\<rparr>]\<rparr>"
  have h: "?h < length (rb_entries r)" "0 < rb_count r" using assms by (auto simp: rb_inv_def)
  have inv: "rb_inv r'" "rb_capacity r' \<le> MAX_CAPACITY" using assms(1,3) by (auto simp: rb_inv_def r'_def)
  have idx: "(rb_head r - rb_count r) mod rb_capacity r = rb_head r"
    using assms by (simp add: rb_inv_def mod_pos_pos_trivial)
  have "history r \<noteq> []" using h by (metis length_greater_0_conv length_history zero_less_nat_eq)
  then have "hd (history r) = rb_entries r ! ?h"
    using h idx by (simp add: hd_conv_nth history_def ring_list_nth)
  moreover have "history r' ! 0 = (rb_entries r ! ?h)\<lparr>e_data := None\<rparr>"
    using h idx by (simp add: history_def ring_list_nth r'_def)
  moreover have "ringbuf_push False now (Some d) (Some r) = Some (-1, Some r')"
    using h assms(1) by (auto simp: ringbuf_push_def entry_at_def r'_def rb_inv_def)
  moreover have "rb_count r' = rb_count r" by (simp add: r'_def)
  ultimately show ?thesis
    using ringbuf_get_history[OF inv, of 0] h inv(1)
    by (intro exI[of _ r'] exI[of _ "history r' ! 0"]) (simp add: ringbuf_count_def)
qed

theorem ringbuf_push_failure_witness:
  "\<exists>r' e. ringbuf_push False 9 (Some ''x'') (Some (rb_store 1 ''old'' (the (ringbuf_create True True 1)))) = Some (-1, Some r') \<and>
     ringbuf_get (Some r') 0 = Some (Some e) \<and> e_data e = None"
  using ringbuf_push_failure[of "rb_store 1 ''old'' (the (ringbuf_create True True 1))" 9 "''x''"]
  by (fastforce simp: rb_inv_def rb_store_def ringbuf_create_def trem_nonneg Let_def)

text \<open>
  Also (no leak). Whatever state the ring is in, \<open>ringbuf_destroy\<close> leaves no heap block that an entry owns.
\<close>

theorem ringbuf_destroy_frees:
  "rb_inv r \<Longrightarrow> ringbuf_destroy (Some r) = 0"
  by (auto simp: ringbuf_destroy_def ringbuf_clear_def owned_def rb_inv_def)

theorem ringbuf_destroy_frees_witness:
  "ringbuf_destroy (Some (rb_store 1 ''old'' (the (ringbuf_create True True 1)))) = 0"
  using ringbuf_destroy_frees[of "rb_store 1 ''old'' (the (ringbuf_create True True 1))"]
  by (simp add: rb_inv_def rb_store_def ringbuf_create_def trem_nonneg Let_def)

end
