(* ===== verification/JsonObj.thy ===== *)
theory JsonObj
  imports JsonProps
begin

text \<open>
  Snapshots as trees. The services write objects and arrays by bracketing calls; \<open>jobj\<close>, \<open>jarr\<close> and
  \<open>jkey\<close> are these call patterns, and the rules \<open>json_rules\<close> compute the tree a piece of builder code writes. The
  locale \<open>snapshot_writer\<close> is the contract between the service manager and a service's snapshot function.
\<close>

named_theorems json_rules \<open>the tree written by builder code\<close>

section \<open>Call patterns\<close>

text \<open>\<open>json_object_start(j); ...; json_object_end(j);\<close> and the same for arrays.\<close>

definition jobj :: "(json_builder \<Rightarrow> json_builder) list \<Rightarrow> json_builder \<Rightarrow> json_builder" where
  "jobj fs j = json_object_end (jseq fs (json_object_start j))"

definition jarr :: "(json_builder \<Rightarrow> json_builder) list \<Rightarrow> json_builder \<Rightarrow> json_builder" where
  "jarr fs j = json_array_end (jseq fs (json_array_start j))"

text \<open>\<open>json_key(j, k);\<close> followed by the calls that write the value.\<close>

definition jkey :: "string \<Rightarrow> (json_builder \<Rightarrow> json_builder) \<Rightarrow> json_builder \<Rightarrow> json_builder" where
  "jkey k g j = g (json_key k j)"

text \<open>A statement that is skipped.\<close>

definition jskip :: "json_builder \<Rightarrow> json_builder" where
  "jskip j = j"

section \<open>Members and elements\<close>

definition emits_mems :: "(json_builder \<Rightarrow> json_builder) \<Rightarrow> (string \<times> jval) list \<Rightarrow> bool" where
  "emits_mems f kvs \<longleftrightarrow> denotes f (W_elts (map member_text kvs)) 0"

definition emits_elts :: "(json_builder \<Rightarrow> json_builder) \<Rightarrow> jval list \<Rightarrow> bool" where
  "emits_elts f vs \<longleftrightarrow> denotes f (W_elts (map render vs)) 0"

abbreviation JOptStr :: "string option \<Rightarrow> jval" where
  "JOptStr s \<equiv> (case s of None \<Rightarrow> JNull | Some t \<Rightarrow> JStr t)"

lemma emits_val_cong: "emits_val f v \<Longrightarrow> v = w \<Longrightarrow> emits_val f w" by simp
lemma emits_mems_cong: "emits_mems f v \<Longrightarrow> v = w \<Longrightarrow> emits_mems f w" by simp
lemma emits_elts_cong: "emits_elts f v \<Longrightarrow> v = w \<Longrightarrow> emits_elts f w" by simp

lemma W_elts_one: "W_val t = W_elts [t]"
  by (rule ext) (simp add: W_defs)

lemma denotes_W_Nil: "denotes (\<lambda>j. j) (W_elts []) 0"
  using denotes_id by (simp add: W_defs[abs_def])

lemma emits_mems_val: "denotes f (W_val (key_text k @ render v)) 0 \<Longrightarrow> emits_mems f [(k, v)]"
  by (simp add: emits_mems_def member_text_def W_elts_one)

lemma emits_mems_key [json_rules]: "emits_val g v \<Longrightarrow> emits_mems (jkey k g) [(k, v)]"
proof (rule emits_mems_val)
  assume "emits_val g v"
  then have "denotes (\<lambda>j. g (json_key k j)) (W_seq (W_open (key_text k)) (W_val (render v))) (0 + 0)"
    unfolding emits_val_def by (rule denotes_comp[OF denotes_key])
  moreover have "W_seq (W_open (key_text k)) (W_val (render v)) = W_val (key_text k @ render v)"
    by (rule ext) (simp add: W_defs)
  ultimately show "denotes (jkey k g) (W_val (key_text k @ render v)) 0"
    by (simp add: jkey_def[abs_def])
qed

lemma emits_mems_kv [json_rules]:
  "emits_mems (json_kv_int k i) [(k, JInt i)]" "emits_mems (json_kv_uint k u) [(k, JUint u)]"
  "emits_mems (json_kv_double fmt k d) [(k, JNum (fmt d))]" "emits_mems (json_kv_bool k b) [(k, JBool b)]"
  by (rule emits_mems_val, rule denotes_kv)+

lemma emits_mems_kv_string [json_rules]: "emits_mems (json_kv_string k s) [(k, JOptStr s)]"
proof (cases s)
  case None
  then show ?thesis using denotes_key_value[OF emits_string_null, of k]
    by (intro emits_mems_val) (simp add: json_kv_string_def[abs_def])
qed (use denotes_kv(1) emits_mems_val in simp)

lemma emits_mems_if [json_rules]:
  "(b \<Longrightarrow> emits_mems f x) \<Longrightarrow> (\<not> b \<Longrightarrow> emits_mems g y) \<Longrightarrow> emits_mems (if b then f else g) (if b then x else y)"
  by simp

lemma emits_elts_if [json_rules]:
  "(b \<Longrightarrow> emits_elts f x) \<Longrightarrow> (\<not> b \<Longrightarrow> emits_elts g y) \<Longrightarrow> emits_elts (if b then f else g) (if b then x else y)"
  by simp

lemma emits_mems_skip [json_rules]: "emits_mems jskip []"
  using denotes_W_Nil by (simp add: emits_mems_def jskip_def[abs_def])

lemma emits_elts_skip [json_rules]: "emits_elts jskip []"
  using denotes_W_Nil by (simp add: emits_elts_def jskip_def[abs_def])

lemma denotes_W_append: "denotes f (W_elts xs) 0 \<Longrightarrow> denotes g (W_elts ys) 0 \<Longrightarrow> denotes (\<lambda>j. g (f j)) (W_elts (xs @ ys)) 0"
  using denotes_comp[of f "W_elts xs" 0 g "W_elts ys" 0] by (simp add: W_elts_append)

lemma emits_mems_Nil [json_rules]: "emits_mems (jseq []) []"
  using denotes_W_Nil by (simp add: emits_mems_def denotes_def)

lemma emits_elts_Nil [json_rules]: "emits_elts (jseq []) []"
  using denotes_W_Nil by (simp add: emits_elts_def denotes_def)

lemma emits_mems_Cons [json_rules]:
  "emits_mems f x \<Longrightarrow> emits_mems (jseq fs) y \<Longrightarrow> emits_mems (jseq (f # fs)) (x @ y)"
  using denotes_W_append[of f "map member_text x" "jseq fs" "map member_text y"]
  by (simp add: emits_mems_def denotes_def)

lemma emits_elts_Cons [json_rules]:
  "emits_elts f x \<Longrightarrow> emits_elts (jseq fs) y \<Longrightarrow> emits_elts (jseq (f # fs)) (x @ y)"
  using denotes_W_append[of f "map render x" "jseq fs" "map render y"]
  by (simp add: emits_elts_def denotes_def)

lemma emits_elts_val: "emits_val f v \<Longrightarrow> emits_elts f [v]"
  by (simp add: emits_elts_def emits_val_def W_elts_one)

lemma emits_elts_obj [json_rules]: "emits_val (jobj fs) v \<Longrightarrow> emits_elts (jobj fs) [v]"
  by (rule emits_elts_val)

lemma emits_val_obj [json_rules]: "emits_mems (jseq fs) kvs \<Longrightarrow> emits_val (jobj fs) (JObj kvs)"
  using denotes_bracketed(2)[of "jseq fs" "map member_text kvs"]
  by (simp add: emits_mems_def emits_val_def jobj_def[abs_def] render_JObj del: render.simps)

lemma emits_val_arr [json_rules]: "emits_elts (jseq fs) vs \<Longrightarrow> emits_val (jarr fs) (JArr vs)"
  using denotes_bracketed(1)[of "jseq fs" "map render vs"]
  by (simp add: emits_elts_def emits_val_def jarr_def[abs_def])

lemma emits_val_if [json_rules]:
  "(b \<Longrightarrow> emits_val f x) \<Longrightarrow> (\<not> b \<Longrightarrow> emits_val g y) \<Longrightarrow> emits_val (if b then f else g) (if b then x else y)"
  by simp

lemmas emits_val_scalars [json_rules] = emits_scalars

lemma emits_val_string [json_rules]: "emits_val (json_string s) (JOptStr s)"
  using emits_string emits_string_null by (cases s) auto

subsection \<open>Loops\<close>

lemma emits_mems_fold [json_rules]:
  "(\<And>x. x \<in> set xs \<Longrightarrow> emits_mems (g x) (h x)) \<Longrightarrow> emits_mems (fold g xs) (concat (map h xs))"
proof (induction xs)
  case Nil
  have "fold g [] = (\<lambda>j. j)" by auto
  then show ?case using denotes_W_Nil by (simp add: emits_mems_def)
next
  case (Cons x xs)
  then have "denotes (\<lambda>j. fold g xs (g x j)) (W_elts (map member_text (h x) @ map member_text (concat (map h xs)))) 0"
    by (intro denotes_W_append) (auto simp: emits_mems_def)
  then show ?case by (simp add: emits_mems_def comp_def)
qed

lemma emits_elts_fold [json_rules]:
  "(\<And>x. x \<in> set xs \<Longrightarrow> emits_elts (g x) (h x)) \<Longrightarrow> emits_elts (fold g xs) (concat (map h xs))"
proof (induction xs)
  case Nil
  have "fold g [] = (\<lambda>j. j)" by auto
  then show ?case using denotes_W_Nil by (simp add: emits_elts_def)
next
  case (Cons x xs)
  then have "denotes (\<lambda>j. fold g xs (g x j)) (W_elts (map render (h x) @ map render (concat (map h xs)))) 0"
    by (intro denotes_W_append) (auto simp: emits_elts_def)
  then show ?case by (simp add: emits_elts_def comp_def)
qed

lemma concat_map_single [simp]: "concat (map (\<lambda>x. [f x]) xs) = map f xs"
  by (induction xs) auto

lemma concat_map_filter: "concat (map (\<lambda>x. if p x then [f x] else []) xs) = map f (filter p xs)"
  by (induction xs) auto

section \<open>The contract of a snapshot function\<close>

text \<open>
  A snapshot function of a service writes one complete value, the tree of the service's state. Inside the
  contract: written alone into a buffer that is large enough, the text parses back to that tree;
  otherwise the error flag is set and the buffer holds a prefix.
\<close>

locale snapshot_writer =
  fixes snap :: "'w \<Rightarrow> json_builder \<Rightarrow> json_builder" and tree :: "'w \<Rightarrow> jval"
    and wf :: "'w \<Rightarrow> bool" and ok :: "'w \<Rightarrow> bool"
  assumes emits: "wf w \<Longrightarrow> emits_val (snap w) (tree w)"
    and tree_ok: "wf w \<Longrightarrow> ok w \<Longrightarrow> jval_ok (tree w)"
begin

lemma text_when_fits:
  assumes "wf w" "length (render (tree w)) < sz" "sz \<le> length buf"
  shows "\<not> json_error (snap w (json_init buf sz)) \<and> jb_out (snap w (json_init buf sz)) = render (tree w) \<and>
    json_length (snap w (json_init buf sz)) = length (render (tree w))"
proof -
  have "0 < sz" using assms(2) by simp
  then show ?thesis using emits_val_init(1,2,6)[OF emits[OF assms(1)] _ assms(3)] assms(2) by simp
qed

lemma parses_back:
  assumes "wf w" "ok w" "length (render (tree w)) < sz" "sz \<le> length buf"
  shows "json_parse (jb_out (snap w (json_init buf sz))) = Some (tree w)"
  using text_when_fits[OF assms(1,3,4)] json_parse_render[OF tree_ok[OF assms(1,2)]] by simp

lemma error_when_not:
  assumes "wf w" "\<not> length (render (tree w)) < sz" "0 < sz" "sz \<le> length buf"
  shows "json_error (snap w (json_init buf sz)) \<and> prefix (jb_out (snap w (json_init buf sz))) (render (tree w))"
  using emits_val_init(1,3)[OF emits[OF assms(1)] assms(3,4)] assms(2) by simp

lemma always_safe:
  assumes "wf w" "0 < sz" "sz \<le> length buf"
  shows "jb_inv (snap w (json_init buf sz)) \<and> jb_depth (snap w (json_init buf sz)) = 0 \<and>
    json_length (snap w (json_init buf sz)) < sz \<and> length (jb_buf (snap w (json_init buf sz))) = length buf"
proof -
  have i: "jb_inv (json_init buf sz)" "jb_size (json_init buf sz) = sz" "length (jb_buf (json_init buf sz)) = length buf"
    using jb_inv_init[OF assms(3)] assms by (simp_all add: json_init_def mem_write_def)
  then have "jb_step (json_init buf sz) (snap w (json_init buf sz)) (fst (W_val (render (tree w)) (jb_comma (json_init buf sz))))"
    using emits[OF assms(1)] assms(2) by (simp add: emits_val_def denotes_def)
  then show ?thesis
    using emits_val_init(4,5)[OF emits[OF assms(1)] assms(2,3)] i assms(2)
    by (auto simp: jb_step_def jb_inv_def jb_frame_def json_length_def)
qed

end

end
