(* ===== verification/Config.thy ===== *)
theory Config
  imports Prelude
begin

text \<open>
  Configuration (\<open>src/daemon/config.c\<close>): defaults, the ini-style file and the command line. A \<open>char[n]\<close> member is
  the C string it holds; the last byte of each array stays NUL after the initial \<open>memset\<close>, because
  every copy writes at most \<open>n - 1\<close> bytes. What \<open>getopt_long\<close> returns is an argument: the sequence of option
  characters with their arguments, \<open>'?'\<close> for an unknown one.
\<close>

section \<open>State and defaults\<close>

record qmem_config =
  interval_sec :: int
  foreground :: bool
  pidfile :: string
  socket_path :: string
  log_level :: int
  proc_min_delta_kb :: int
  slab_min_delta_kb :: int
  proc_top_n :: int
  slab_top_n :: int
  heap_scan_top_n :: int
  en_meminfo :: bool
  en_slabinfo :: bool
  en_procmem :: bool
  en_heapmon :: bool
  en_vmstat :: bool
  en_cpuload :: bool
  en_netstat :: bool
  en_procstat :: bool
  web_enabled :: bool
  web_listen :: string
  web_port :: int
  enable_plugins :: bool
  plugin_dir :: string
  max_snapshots :: int

definition config_init_defaults :: qmem_config where
  "config_init_defaults = \<lparr>
     interval_sec = 10, foreground = False,
     pidfile = bounded_copy 256 ''/run/qmem.pid'', socket_path = bounded_copy 256 ''/run/qmem.sock'',
     log_level = 1,
     proc_min_delta_kb = 1024, slab_min_delta_kb = 512, proc_top_n = 12, slab_top_n = 20, heap_scan_top_n = 12,
     en_meminfo = True, en_slabinfo = True, en_procmem = True, en_heapmon = True, en_vmstat = True,
     en_cpuload = True, en_netstat = True, en_procstat = True,
     web_enabled = True, web_listen = bounded_copy 64 ''0.0.0.0'', web_port = 8080,
     enable_plugins = True, plugin_dir = bounded_copy 256 ''/usr/lib/qmem/plugins'',
     max_snapshots = 360\<rparr>"

section \<open>The file\<close>

text \<open>Successive results of \<open>fgets(line, 512, f)\<close>: up to a newline, or 511 bytes.\<close>

function fgets_lines :: "string \<Rightarrow> string list" where
  "fgets_lines s = (if s = [] then [] else
     (let l = takeWhile (\<lambda>c. c \<noteq> LF) (take 511 s);
          n = (if length l < 511 \<and> length l < length s then length l + 1 else length l)
      in take n s # fgets_lines (drop n s)))"
  by pat_completeness auto
termination
  by (relation "measure length") (auto simp: Let_def neq_Nil_conv)

declare fgets_lines.simps [simp del]

definition trim_str :: "string \<Rightarrow> string" where
  "trim_str s = rev (dropWhile isspace (rev (dropWhile isspace s)))"

definition parse_bool :: "string \<Rightarrow> bool" where
  "parse_bool s \<longleftrightarrow> s = ''true'' \<or> s = ''1'' \<or> s = ''yes''"

text \<open>The cascade of comparisons on section and key.\<close>

definition config_set :: "string \<Rightarrow> string \<Rightarrow> string \<Rightarrow> qmem_config \<Rightarrow> qmem_config" where
  "config_set section key val cfg =
     (if section = ''daemon'' then
        (if key = ''interval'' then cfg\<lparr>interval_sec := atoi val\<rparr>
         else if key = ''foreground'' then cfg\<lparr>foreground := parse_bool val\<rparr>
         else if key = ''pidfile'' then cfg\<lparr>pidfile := bounded_copy 256 val\<rparr>
         else if key = ''socket'' then cfg\<lparr>socket_path := bounded_copy 256 val\<rparr>
         else if key = ''log_level'' then
           (if val = ''debug'' then cfg\<lparr>log_level := 0\<rparr>
            else if val = ''info'' then cfg\<lparr>log_level := 1\<rparr>
            else if val = ''warn'' then cfg\<lparr>log_level := 2\<rparr>
            else if val = ''error'' then cfg\<lparr>log_level := 3\<rparr> else cfg)
         else cfg)
      else if section = ''thresholds'' then
        (if key = ''proc_min_delta_kb'' then cfg\<lparr>proc_min_delta_kb := strtoll val\<rparr>
         else if key = ''slab_min_delta_kb'' then cfg\<lparr>slab_min_delta_kb := strtoll val\<rparr>
         else if key = ''proc_top_n'' then cfg\<lparr>proc_top_n := atoi val\<rparr>
         else if key = ''slab_top_n'' then cfg\<lparr>slab_top_n := atoi val\<rparr>
         else if key = ''heap_scan_top_n'' then cfg\<lparr>heap_scan_top_n := atoi val\<rparr>
         else cfg)
      else if section = ''services'' then
        (if key = ''meminfo'' then cfg\<lparr>en_meminfo := parse_bool val\<rparr>
         else if key = ''slabinfo'' then cfg\<lparr>en_slabinfo := parse_bool val\<rparr>
         else if key = ''procmem'' then cfg\<lparr>en_procmem := parse_bool val\<rparr>
         else if key = ''heapmon'' then cfg\<lparr>en_heapmon := parse_bool val\<rparr>
         else if key = ''vmstat'' then cfg\<lparr>en_vmstat := parse_bool val\<rparr>
         else cfg)
      else if section = ''web'' then
        (if key = ''enabled'' then cfg\<lparr>web_enabled := parse_bool val\<rparr>
         else if key = ''listen'' then cfg\<lparr>web_listen := bounded_copy 64 val\<rparr>
         else if key = ''port'' then cfg\<lparr>web_port := atoi val\<rparr>
         else cfg)
      else if section = ''history'' then
        (if key = ''max_snapshots'' then cfg\<lparr>max_snapshots := atoi val\<rparr> else cfg)
      else cfg)"

text \<open>One turn of the loop, on the section name and the configuration.\<close>

definition config_line :: "string \<Rightarrow> string \<times> qmem_config \<Rightarrow> string \<times> qmem_config" where
  "config_line line = (\<lambda>(section, cfg).
     (let l = trim_str (cstr line)
      in if l = [] \<or> hd l = CHR ''#'' \<or> hd l = CHR '';'' then (section, cfg)
         else if hd l = CHR ''['' then
           (case strchr (CHR '']'') l of
              None \<Rightarrow> (section, cfg)
            | Some e \<Rightarrow> (bounded_copy 64 (tl (take (length l - length e) l)), cfg))
         else
           (case strchr (CHR ''='') l of
              None \<Rightarrow> (section, cfg)
            | Some e \<Rightarrow>
                (section, config_set section (trim_str (take (length l - length e) l)) (trim_str (tl e)) cfg))))"

definition config_load :: "string option \<Rightarrow> qmem_config \<Rightarrow> int \<times> qmem_config" where
  "config_load file cfg =
     (case file of
        None \<Rightarrow> (0, cfg)
      | Some text \<Rightarrow> (0, snd (fold config_line (fgets_lines text) ([], cfg))))"

section \<open>The command line\<close>

datatype args_result = Parsed qmem_config | Rejected qmem_config | Exited

definition config_file_of :: "(char \<times> string) list \<Rightarrow> string option" where
  "config_file_of opts = fold (\<lambda>(c, a) f. if c = CHR ''c'' then Some a else f) opts None"

fun apply_opts :: "(char \<times> string) list \<Rightarrow> qmem_config \<Rightarrow> args_result" where
  "apply_opts [] cfg = Parsed cfg"
| "apply_opts ((c, arg) # opts) cfg =
     (if c = CHR ''c'' then apply_opts opts cfg
      else if c = CHR ''f'' then apply_opts opts (cfg\<lparr>foreground := True\<rparr>)
      else if c = CHR ''i'' then apply_opts opts (cfg\<lparr>interval_sec := atoi arg\<rparr>)
      else if c = CHR ''s'' then apply_opts opts (cfg\<lparr>socket_path := bounded_copy 256 arg\<rparr>)
      else if c = CHR ''p'' then apply_opts opts (cfg\<lparr>web_port := atoi arg\<rparr>)
      else if c = CHR ''d'' then apply_opts opts (cfg\<lparr>log_level := 0\<rparr>)
      else if c = CHR ''h'' then Exited
      else Rejected cfg)"

definition config_parse_args :: "(string \<Rightarrow> string option) \<Rightarrow> (char \<times> string) list \<Rightarrow> qmem_config \<Rightarrow> args_result" where
  "config_parse_args fs opts cfg =
     (case config_file_of opts of
        None \<Rightarrow> apply_opts opts cfg
      | Some path \<Rightarrow>
          (case config_load (fs path) cfg of
             (ret, cfg1) \<Rightarrow> if ret < 0 then Rejected cfg1 else apply_opts opts cfg1))"

section \<open>Array bounds\<close>

definition config_wf :: "qmem_config \<Rightarrow> bool" where
  "config_wf cfg \<longleftrightarrow>
     length (pidfile cfg) < 256 \<and> NUL \<notin> set (pidfile cfg) \<and>
     length (socket_path cfg) < 256 \<and> NUL \<notin> set (socket_path cfg) \<and>
     length (web_listen cfg) < 64 \<and> NUL \<notin> set (web_listen cfg) \<and>
     length (plugin_dir cfg) < 256 \<and> NUL \<notin> set (plugin_dir cfg) \<and>
     0 \<le> log_level cfg \<and> log_level cfg \<le> 3"

lemma config_wf_defaults: "config_wf config_init_defaults"
  by (simp add: config_wf_def config_init_defaults_def bounded_copy_def)

lemma set_trim_str: "set (trim_str s) \<subseteq> set s"
  unfolding trim_str_def by (metis (no_types, lifting) set_dropWhileD set_rev subsetI)

lemma config_wf_set: "NUL \<notin> set val \<Longrightarrow> config_wf cfg \<Longrightarrow> config_wf (config_set sec key val cfg)"
  by (simp add: config_set_def config_wf_def length_bounded_copy bounded_copy_no_nul)

lemma strchr_set: "strchr c l = Some e \<Longrightarrow> set e \<subseteq> set l"
  using strchr_Some by fastforce

lemma config_wf_line:
  assumes "config_wf (snd st)"
  shows "config_wf (snd (config_line line st))"
proof -
  have n: "NUL \<notin> set (trim_str (tl e))" if "strchr (CHR ''='') (trim_str (cstr line)) = Some e" for e
  proof -
    have "set (trim_str (tl e)) \<subseteq> set e" using set_trim_str[of "tl e"] by (cases e) auto
    then show ?thesis
      using strchr_set[OF that] set_trim_str[of "cstr line"] cstr_no_nul[of line] by blast
  qed
  show ?thesis using assms n
    by (auto simp: config_line_def Let_def config_wf_set split: prod.splits option.splits)
qed

lemma config_wf_lines: "config_wf (snd st) \<Longrightarrow> config_wf (snd (fold config_line ls st))"
  by (induction ls arbitrary: st) (simp_all add: config_wf_line)

lemma config_wf_load: "config_wf cfg \<Longrightarrow> config_wf (snd (config_load file cfg))"
  by (simp add: config_load_def config_wf_lines split: option.splits)

lemma config_wf_opts:
  "config_wf cfg \<Longrightarrow> \<forall>(c, a) \<in> set opts. NUL \<notin> set a \<Longrightarrow>
   case apply_opts opts cfg of Parsed c \<Rightarrow> config_wf c | Rejected c \<Rightarrow> config_wf c | Exited \<Rightarrow> True"
proof (induction opts cfg rule: apply_opts.induct)
  case (2 c arg opts cfg)
  have "config_wf (cfg\<lparr>foreground := True\<rparr>)" "config_wf (cfg\<lparr>interval_sec := atoi arg\<rparr>)"
    "config_wf (cfg\<lparr>socket_path := bounded_copy 256 arg\<rparr>)" "config_wf (cfg\<lparr>web_port := atoi arg\<rparr>)"
    "config_wf (cfg\<lparr>log_level := 0\<rparr>)"
    using 2(7,8) by (auto simp: config_wf_def length_bounded_copy bounded_copy_no_nul)
  then show ?case using 2 by simp
qed simp

text \<open>
  Also (bounded configuration). Whatever bytes the file holds and whatever the options are, starting from the defaults
  every string member fits its array with its terminator, and the log level is one of the four levels.
\<close>

theorem config_bounded:
  assumes "\<forall>(c, a) \<in> set opts. NUL \<notin> set a"
  shows "case config_parse_args fs opts config_init_defaults of
    Parsed c \<Rightarrow> config_wf c | Rejected c \<Rightarrow> config_wf c | Exited \<Rightarrow> True"
  using config_wf_opts[OF config_wf_defaults assms]
    config_wf_opts[OF config_wf_load[OF config_wf_defaults] assms] config_wf_load[OF config_wf_defaults]
  by (auto simp: config_parse_args_def split: option.splits prod.splits) (metis snd_conv)+


theorem config_bounded_witness:
  "\<exists>c. config_parse_args (\<lambda>p. None) [(CHR ''s'', replicate 300 (CHR ''x''))] config_init_defaults = Parsed c \<and>
     length (socket_path c) < 256"
proof -
  let ?o = "[(CHR ''s'', replicate 300 (CHR ''x''))]"
  have "\<forall>(c, a) \<in> set ?o. NUL \<notin> set a" by simp
  from config_bounded[OF this, of "\<lambda>p. None"] show ?thesis
    by (auto simp: config_parse_args_def config_file_of_def config_wf_def)
qed

section \<open>Reading a well-formed file\<close>

definition trimmed :: "string \<Rightarrow> bool" where
  "trimmed s \<longleftrightarrow> s \<noteq> [] \<and> \<not> isspace (hd s) \<and> \<not> isspace (last s)"

definition ini_text :: "(string \<times> (string \<times> string) list) list \<Rightarrow> string" where
  "ini_text secs = concat (map (\<lambda>(sec, kvs). ''['' @ sec @ '']'' @ [LF] @
     concat (map (\<lambda>(k, v). k @ '' = '' @ v @ [LF]) kvs)) secs)"

definition key_line_ok :: "string \<times> string \<Rightarrow> bool" where
  "key_line_ok kv \<longleftrightarrow> (case kv of (k, v) \<Rightarrow> trimmed k \<and> trimmed v \<and>
     hd k \<noteq> CHR ''#'' \<and> hd k \<noteq> CHR '';'' \<and> hd k \<noteq> CHR ''['' \<and> CHR ''='' \<notin> set k \<and>
     LF \<notin> set k \<and> LF \<notin> set v \<and> NUL \<notin> set k \<and> NUL \<notin> set v \<and> length k + length v < 508)"

definition section_ok :: "string \<Rightarrow> bool" where
  "section_ok sec \<longleftrightarrow> CHR '']'' \<notin> set sec \<and> LF \<notin> set sec \<and> NUL \<notin> set sec \<and> length sec < 64"

lemma fgets_line:
  "LF \<notin> set l \<Longrightarrow> length l < 511 \<Longrightarrow> fgets_lines (l @ LF # r) = (l @ [LF]) # fgets_lines r"
proof -
  assume l: "LF \<notin> set l" "length l < 511"
  obtain k where "511 - length l = Suc k" using l(2) by (metis Suc_diff_Suc)
  then have "take 511 (l @ LF # r) = l @ LF # take k r" using l(2) by simp
  then have "takeWhile (\<lambda>c. c \<noteq> LF) (take 511 (l @ LF # r)) = l"
    using l(1) by (auto simp: takeWhile_tail takeWhile_eq_all_conv)
  then show ?thesis using l(2) by (subst fgets_lines.simps) (simp add: Let_def)
qed

lemma trim_str_trimmed:
  assumes "trimmed s" "\<forall>c \<in> set pre. isspace c" "\<forall>c \<in> set post. isspace c"
  shows "trim_str (pre @ s @ post) = s"
proof -
  have "dropWhile isspace (pre @ s @ post) = s @ post"
    using assms(1,2) by (cases s) (auto simp: trimmed_def dropWhile_append2)
  moreover have "dropWhile isspace (rev (s @ post)) = rev s"
  proof -
    have "dropWhile isspace (rev post @ rev s) = dropWhile isspace (rev s)"
      by (rule dropWhile_append2) (use assms(3) in auto)
    then show ?thesis using assms(1) by (cases s rule: rev_cases) (auto simp: trimmed_def)
  qed
  ultimately show ?thesis by (simp add: trim_str_def)
qed

lemma isspace_LF [simp]: "isspace LF" "isspace (CHR '' '')"
  by (simp_all add: isspace_def)

lemma config_line_section:
  assumes "section_ok sec"
  shows "config_line (''['' @ sec @ '']'' @ [LF]) (s, cfg) = (sec, cfg)"
proof -
  have t: "trim_str (cstr (''['' @ sec @ '']'' @ [LF])) = CHR ''['' # sec @ '']''"
    using trim_str_trimmed[of "CHR ''['' # sec @ '']''" "[]" "[LF]"] assms
    by (simp add: section_ok_def trimmed_def isspace_def)
  have "strchr (CHR '']'') (CHR ''['' # sec @ '']'') = Some '']''"
    using strchr_append[of "CHR '']''" "CHR ''['' # sec" "[]"] assms by (simp add: section_ok_def)
  then show ?thesis
    using assms unfolding config_line_def t by (simp add: Let_def bounded_copy_fits section_ok_def)
qed

lemma config_line_key:
  assumes "key_line_ok (k, v)"
  shows "config_line (k @ '' = '' @ v @ [LF]) (s, cfg) = (s, config_set s k v cfg)"
proof -
  let ?l = "k @ CHR '' '' # CHR ''='' # CHR '' '' # v"
  have k: "trimmed k" "trimmed v" "CHR ''='' \<notin> set k" using assms by (simp_all add: key_line_ok_def)
  then have "trimmed ?l" by (cases k) (auto simp: trimmed_def)
  then have t: "trim_str (cstr (k @ '' = '' @ v @ [LF])) = ?l"
    using trim_str_trimmed[of ?l "[]" "[LF]"] assms by (simp add: key_line_ok_def)
  have e: "strchr (CHR ''='') ?l = Some (CHR ''='' # CHR '' '' # v)"
    using strchr_append[of "CHR ''=''" "k @ '' ''" "CHR '' '' # v"] k(3) by simp
  have "trim_str (k @ '' '') = k" "trim_str (CHR '' '' # v) = v"
    using trim_str_trimmed[OF k(1), of "[]" "'' ''"] trim_str_trimmed[OF k(2), of "'' ''" "[]"] by simp_all
  moreover have "hd ?l = hd k" "k \<noteq> []" using k(1) by (auto simp: trimmed_def)
  ultimately show ?thesis
    using assms unfolding config_line_def t by (simp add: e Let_def key_line_ok_def)
qed

lemma config_section_lines:
  assumes "\<forall>kv \<in> set kvs. key_line_ok kv"
  shows "fold config_line (fgets_lines (concat (map (\<lambda>(k, v). k @ '' = '' @ v @ [LF]) kvs) @ r)) (s, cfg)
    = fold config_line (fgets_lines r) (s, fold (\<lambda>(k, v). config_set s k v) kvs cfg)"
  using assms
proof (induction kvs arbitrary: cfg)
  case (Cons kv kvs)
  obtain k v where kv: "kv = (k, v)" by (cases kv)
  let ?r = "concat (map (\<lambda>(k, v). k @ '' = '' @ v @ [LF]) kvs) @ r"
  have "fgets_lines ((k @ '' = '' @ v) @ LF # ?r) = ((k @ '' = '' @ v) @ [LF]) # fgets_lines ?r"
    using Cons.prems kv by (intro fgets_line) (auto simp: key_line_ok_def)
  then show ?case
    using Cons kv config_line_key[of k v s cfg] by simp
qed simp

lemma config_load_ini_text:
  assumes "\<forall>(sec, kvs) \<in> set secs. section_ok sec \<and> (\<forall>kv \<in> set kvs. key_line_ok kv)"
  shows "config_load (Some (ini_text secs)) cfg =
    (0, fold (\<lambda>(sec, kvs) c. fold (\<lambda>(k, v). config_set sec k v) kvs c) secs cfg)"
proof -
  have "snd (fold config_line (fgets_lines (ini_text secs)) (s, cfg)) =
      fold (\<lambda>(sec, kvs) c. fold (\<lambda>(k, v). config_set sec k v) kvs c) secs cfg" for s
    using assms
  proof (induction secs arbitrary: s cfg)
    case Nil
    then show ?case by (simp add: ini_text_def fgets_lines.simps)
  next
    case (Cons sk secs)
    obtain sec kvs where sk: "sk = (sec, kvs)" by (cases sk)
    let ?b = "concat (map (\<lambda>(k, v). k @ '' = '' @ v @ [LF]) kvs) @ ini_text secs"
    have ok: "section_ok sec" "\<forall>kv \<in> set kvs. key_line_ok kv" using Cons.prems sk by auto
    have t: "ini_text (sk # secs) = (''['' @ sec @ '']'') @ LF # ?b" by (simp add: ini_text_def sk)
    have "fgets_lines (ini_text (sk # secs)) = ((''['' @ sec @ '']'') @ [LF]) # fgets_lines ?b"
      unfolding t using ok(1) by (intro fgets_line) (auto simp: section_ok_def)
    then have "fold config_line (fgets_lines (ini_text (sk # secs))) (s, cfg)
        = fold config_line (fgets_lines ?b) (sec, cfg)"
      using config_line_section[OF ok(1)] by simp
    also have "\<dots> = fold config_line (fgets_lines (ini_text secs)) (sec, fold (\<lambda>(k, v). config_set sec k v) kvs cfg)"
      by (rule config_section_lines[OF ok(2)])
    finally show ?case using Cons by (simp add: sk)
  qed
  then show ?thesis by (simp add: config_load_def)
qed

text \<open>
  C19 (files). A file of sections with \<open>key = value\<close> lines is loaded by applying its assignments in order, each in
  its section: no assignment is lost, merged or applied in another section.
\<close>

theorem config_load_ini:
  assumes "\<forall>(sec, kvs) \<in> set secs. section_ok sec \<and> (\<forall>kv \<in> set kvs. key_line_ok kv)"
  shows "config_load (Some (ini_text secs)) cfg =
    (0, fold (\<lambda>(sec, kvs) c. fold (\<lambda>(k, v). config_set sec k v) kvs c) secs cfg)"
  using assms by (rule config_load_ini_text)

theorem config_load_ini_witness:
  "interval_sec (snd (config_load (Some (ini_text [(''daemon'', [(''interval'', ''30'')]),
     (''web'', [(''interval'', ''5''), (''port'', ''81'')])])) config_init_defaults)) = 30"
proof -
  let ?s = "[(''daemon'', [(''interval'', ''30'')]), (''web'', [(''interval'', ''5''), (''port'', ''81'')])]"
  have "\<forall>(sec, kvs) \<in> set ?s. section_ok sec \<and> (\<forall>kv \<in> set kvs. key_line_ok kv)"
    by (simp add: section_ok_def key_line_ok_def trimmed_def isspace_def)
  moreover have "atoi ''30'' = 30"
    by (simp add: atoi_def strtoll_def isspace_def isdigit_def digit_val_def clamp64_def to_int32_def)
  ultimately show ?thesis using config_load_ini[of ?s config_init_defaults] by (simp add: config_set_def)
qed

lemma apply_opts_step:
  assumes "apply_opts ((ch, a) # opts) d = Parsed c"
  obtains "apply_opts opts d = Parsed c" | "apply_opts opts (d\<lparr>foreground := True\<rparr>) = Parsed c"
    | "apply_opts opts (d\<lparr>interval_sec := atoi a\<rparr>) = Parsed c"
    | "apply_opts opts (d\<lparr>socket_path := bounded_copy 256 a\<rparr>) = Parsed c"
    | "apply_opts opts (d\<lparr>web_port := atoi a\<rparr>) = Parsed c"
    | "apply_opts opts (d\<lparr>log_level := 0\<rparr>) = Parsed c"
  using assms by (simp split: if_splits)

text \<open>The members no line of a file can change.\<close>

lemma config_line_untouched:
  "let c = snd (config_line l st); d = snd st in
   enable_plugins c = enable_plugins d \<and> plugin_dir c = plugin_dir d \<and>
   en_cpuload c = en_cpuload d \<and> en_netstat c = en_netstat d \<and> en_procstat c = en_procstat d"
proof -
  have "enable_plugins (config_set s k v d) = enable_plugins d \<and> plugin_dir (config_set s k v d) = plugin_dir d \<and>
     en_cpuload (config_set s k v d) = en_cpuload d \<and> en_netstat (config_set s k v d) = en_netstat d \<and>
     en_procstat (config_set s k v d) = en_procstat d" for s k v d
    by (simp add: config_set_def)
  then show ?thesis
    by (cases st) (auto simp: config_line_def Let_def split: option.splits)
qed

text \<open>
  Also (settings out of reach). No configuration file and no option changes whether plugins are enabled, where they are
  loaded from, or the toggles of the cpuload, netstat and procstat services.
\<close>

theorem config_plugins_fixed:
  "case config_parse_args fs opts cfg of
     Parsed c \<Rightarrow> enable_plugins c = enable_plugins cfg \<and> plugin_dir c = plugin_dir cfg \<and>
       en_cpuload c = en_cpuload cfg \<and> en_netstat c = en_netstat cfg \<and> en_procstat c = en_procstat cfg
   | _ \<Rightarrow> True"
proof -
  let ?same = "\<lambda>c d. enable_plugins c = enable_plugins d \<and> plugin_dir c = plugin_dir d \<and>
    en_cpuload c = en_cpuload d \<and> en_netstat c = en_netstat d \<and> en_procstat c = en_procstat d"
  have lines: "?same (snd (fold config_line ls st)) (snd st)" for ls st
    using config_line_untouched by (induction ls arbitrary: st) (simp_all add: Let_def)
  have load: "?same (snd (config_load f cfg)) cfg" for f
    using lines[of _ "([], cfg)"] by (simp add: config_load_def split: option.splits)
  have opts: "apply_opts opts d = Parsed c \<Longrightarrow> ?same c d" for d c
  proof (induction opts arbitrary: d)
    case (Cons ca opts)
    obtain ch a where ca: "ca = (ch, a)" by (cases ca)
    from Cons.prems obtain d' where d': "apply_opts opts d' = Parsed c" "?same d' d"
      unfolding ca by (elim apply_opts_step) auto
    then show ?case using Cons.IH[OF d'(1)] by simp
  qed simp
  show ?thesis
  proof (cases "config_file_of opts")
    case None
    then show ?thesis using opts[of cfg] by (simp add: config_parse_args_def split: args_result.splits)
  next
    case (Some p)
    then show ?thesis using opts[of "snd (config_load (fs p) cfg)"] load[of "fs p"]
      by (cases "config_load (fs p) cfg") (simp add: config_parse_args_def split: args_result.splits)
  qed
qed

section \<open>Precedence\<close>

definition last_arg :: "char \<Rightarrow> (char \<times> string) list \<Rightarrow> string option" where
  "last_arg c opts = (case filter (\<lambda>(d, a). d = c) opts of [] \<Rightarrow> None | xs \<Rightarrow> Some (snd (last xs)))"

text \<open>A setting that an option with the character \<open>c\<close> replaces.\<close>

definition override :: "char \<Rightarrow> (char \<times> string) list \<Rightarrow> (string \<Rightarrow> 'a) \<Rightarrow> 'a \<Rightarrow> 'a" where
  "override c opts f x = (case last_arg c opts of Some v \<Rightarrow> f v | None \<Rightarrow> x)"

lemma override_Cons: "override c ((d, a) # opts) f x = override c opts f (if d = c then f a else x)"
  by (auto simp: override_def last_arg_def split: list.splits)

lemma override_Nil [simp]: "override c [] f x = x"
  by (simp add: override_def last_arg_def)

definition overridden :: "(char \<times> string) list \<Rightarrow> qmem_config \<Rightarrow> qmem_config" where
  "overridden opts cfg = cfg\<lparr>
     interval_sec := override (CHR ''i'') opts atoi (interval_sec cfg),
     socket_path := override (CHR ''s'') opts (bounded_copy 256) (socket_path cfg),
     web_port := override (CHR ''p'') opts atoi (web_port cfg),
     foreground := override (CHR ''f'') opts (\<lambda>_. True) (foreground cfg),
     log_level := override (CHR ''d'') opts (\<lambda>_. 0) (log_level cfg)\<rparr>"

lemma apply_opts_overridden:
  "\<forall>(c, a) \<in> set opts. c \<in> set ''cfispd'' \<Longrightarrow> apply_opts opts cfg = Parsed (overridden opts cfg)"
proof (induction opts arbitrary: cfg)
  case (Cons ca opts)
  obtain c a where ca: "ca = (c, a)" by (cases ca)
  with Cons.prems consider "c = CHR ''c''" | "c = CHR ''f''" | "c = CHR ''i''" | "c = CHR ''s''" | "c = CHR ''p''" | "c = CHR ''d''"
    by auto
  then show ?case using Cons by cases (simp_all add: ca overridden_def override_Cons)
qed (simp add: overridden_def)

text \<open>
  Also (precedence). With known options only, the last occurrence of an option on the command line
  decides, wherever it stands relative to \<open>-c\<close>; a setting without an option is the configuration file's.
\<close>

theorem config_cli_overrides:
  assumes "\<forall>(c, a) \<in> set opts. c \<in> set ''cfispd''"
  shows "config_parse_args fs opts cfg = Parsed (overridden opts
    (case last_arg (CHR ''c'') opts of None \<Rightarrow> cfg | Some p \<Rightarrow> snd (config_load (fs p) cfg)))"
proof -
  have "fold (\<lambda>(c, a) f. if c = CHR ''c'' then Some a else f) opts x = override (CHR ''c'') opts Some x"
    for opts :: "(char \<times> string) list" and x
    by (induction opts arbitrary: x) (auto simp: override_Cons)
  then have f: "config_file_of opts = last_arg (CHR ''c'') opts"
    by (simp add: config_file_of_def override_def split: option.splits)
  have load: "fst (config_load g cfg) = 0" for g by (simp add: config_load_def split: option.splits)
  show ?thesis
    using apply_opts_overridden[OF assms] load
    by (auto simp: config_parse_args_def f case_prod_beta split: option.splits)
qed

theorem config_cli_overrides_witness:
  "\<exists>r. config_parse_args (\<lambda>p. Some ''x'') [(CHR ''p'', ''90''), (CHR ''c'', ''f''), (CHR ''p'', ''91'')] config_init_defaults
     = Parsed r \<and> web_port r = atoi ''91''"
proof -
  have "\<forall>(c, a) \<in> set [(CHR ''p'', ''90''), (CHR ''c'', ''f''), (CHR ''p'', ''91'')]. c \<in> set ''cfispd''" by simp
  from config_cli_overrides[OF this, of "\<lambda>p. Some ''x''" config_init_defaults]
  show ?thesis by (simp add: overridden_def override_def last_arg_def)
qed

end
