(* ===== verification/Ipc.thy ===== *)
theory Ipc
  imports JsonObj
begin

text \<open>
  The local protocol (\<open>include/qmem/protocol.h\<close>), the server (\<open>src/daemon/ipc_server.c\<close>) and the client
  (\<open>src/cli/client.c\<close>). Bytes are characters. A connection is a pair of byte streams; \<open>recv\<close> with
  \<open>MSG_WAITALL\<close> takes what is asked for, less only when the peer has closed. System calls that can
  fail take their outcome as an argument.
\<close>

section \<open>Message headers\<close>

text \<open>The \<open>k\<close> little-endian bytes of a number, and back.\<close>

definition le_enc :: "nat \<Rightarrow> nat \<Rightarrow> string" where
  "le_enc k n = map (\<lambda>i. char_of (n div 256 ^ i)) [0..<k]"

fun le_dec :: "string \<Rightarrow> nat" where
  "le_dec [] = 0"
| "le_dec (c # cs) = of_char c + 256 * le_dec cs"

record msg_header =
  mh_magic :: "32 word"
  mh_version :: "16 word"
  mh_type :: "16 word"
  mh_length :: "32 word"
  mh_seq :: "32 word"

definition MSG_MAGIC :: "32 word" where "MSG_MAGIC = 0x514D454D"
definition MSG_MAX_SIZE :: nat where "MSG_MAX_SIZE = 256 * 1024"
definition PROTOCOL_VERSION :: "16 word" where "PROTOCOL_VERSION = 1"

definition REQ_STATUS :: "16 word" where "REQ_STATUS = 1"
definition REQ_SNAPSHOT :: "16 word" where "REQ_SNAPSHOT = 2"
definition REQ_HISTORY :: "16 word" where "REQ_HISTORY = 3"
definition REQ_SERVICES :: "16 word" where "REQ_SERVICES = 6"

text \<open>The packed structure in memory, and the structure read from sixteen bytes.\<close>

definition header_bytes :: "msg_header \<Rightarrow> string" where
  "header_bytes h = le_enc 4 (unat (mh_magic h)) @ le_enc 2 (unat (mh_version h)) @
     le_enc 2 (unat (mh_type h)) @ le_enc 4 (unat (mh_length h)) @ le_enc 4 (unat (mh_seq h))"

definition header_parse :: "string \<Rightarrow> msg_header" where
  "header_parse b =
     \<lparr>mh_magic = word_of_nat (le_dec (take 4 b)), mh_version = word_of_nat (le_dec (take 2 (drop 4 b))),
      mh_type = word_of_nat (le_dec (take 2 (drop 6 b))), mh_length = word_of_nat (le_dec (take 4 (drop 8 b))),
      mh_seq = word_of_nat (le_dec (take 4 (drop 12 b)))\<rparr>"

definition qmem_msg_header_init :: "16 word \<Rightarrow> nat \<Rightarrow> msg_header" where
  "qmem_msg_header_init t len =
     \<lparr>mh_magic = MSG_MAGIC, mh_version = PROTOCOL_VERSION, mh_type = t, mh_length = word_of_nat len, mh_seq = 0\<rparr>"

lemma length_le_enc [simp]: "length (le_enc k n) = k"
  by (simp add: le_enc_def)

lemma le_enc_Suc: "le_enc (Suc k) n = char_of n # le_enc k (n div 256)"
  by (simp add: le_enc_def upt_conv_Cons map_Suc_upt[symmetric] div_mult2_eq del: upt_Suc)

lemma le_dec_enc: "n < 256 ^ k \<Longrightarrow> le_dec (le_enc k n) = n"
proof (induction k arbitrary: n)
  case (Suc k)
  then have "n div 256 < 256 ^ k" by (simp add: less_mult_imp_div_less mult.commute)
  then show ?case using Suc.IH by (simp add: le_enc_Suc of_char_of mod_mult_div_eq)
qed (simp add: le_enc_def)

lemma le_dec_word:
  "le_dec (le_enc 4 (unat (w :: 32 word))) = unat w" "le_dec (le_enc 2 (unat (v :: 16 word))) = unat v"
  using unsigned_less[of w, where 'a = nat] unsigned_less[of v, where 'a = nat] by (simp_all add: le_dec_enc)

lemma length_header_bytes [simp]: "length (header_bytes h) = 16"
  by (simp add: header_bytes_def)

lemma header_parse_bytes: "header_parse (header_bytes h @ r) = h"
  by (simp add: header_parse_def header_bytes_def le_dec_word)

section \<open>Receiving\<close>

definition recv_all :: "nat \<Rightarrow> string \<Rightarrow> string \<times> string" where
  "recv_all n s = (take n s, drop n s)"

text \<open>A C \<open>int\<close> read from four bytes.\<close>

definition int_of_bytes :: "string \<Rightarrow> int" where
  "int_of_bytes b = to_int32 (int (le_dec b))"

definition int_bytes :: "int \<Rightarrow> string" where
  "int_bytes i = le_enc 4 (nat (i mod 4294967296))"

lemma int_of_bytes_int: "- 2147483648 \<le> i \<Longrightarrow> i \<le> INT32_MAX \<Longrightarrow> int_of_bytes (int_bytes i) = i"
proof -
  assume i: "- 2147483648 \<le> i" "i \<le> INT32_MAX"
  have "nat (i mod 4294967296) < 256 ^ 4" by (simp add: nat_less_iff)
  then have "int_of_bytes (int_bytes i) = to_int32 (i mod 4294967296)"
    by (simp add: int_of_bytes_def int_bytes_def le_dec_enc)
  also have "\<dots> = to_int32 i" by (simp add: to_int32_def mod_add_left_eq)
  finally show ?thesis using i by (simp add: to_int32_id)
qed

section \<open>The server's handler\<close>

text \<open>
  Copying a C string behind the header; a text that does not fit with its terminator is left out.
\<close>

definition copy_payload :: "string \<Rightarrow> json_builder \<Rightarrow> json_builder" where
  "copy_payload s j =
     (if length s < MSG_MAX_SIZE - 16
      then j\<lparr>jb_buf := mem_write (jb_buf j) 0 s, jb_pos := length s\<rparr> else j)"

text \<open>
  \<open>snapshot\<close> and \<open>history\<close> are the callbacks: \<open>None\<close> when not set, and they may return NULL. \<open>junk\<close> is the initial
  content of the response array after the header. The result is what is sent; \<open>None\<close> is no answer.
\<close>

definition handle_client ::
    "string \<Rightarrow> string option option \<Rightarrow> (int \<Rightarrow> string option) option \<Rightarrow> string \<Rightarrow> string option" where
  "handle_client junk snapshot history inp =
     (let (hb, rest) = recv_all 16 inp; h = header_parse hb
      in if length hb \<noteq> 16 then None
         else if mh_magic h \<noteq> MSG_MAGIC then None
         else
           let json = json_init junk (MSG_MAX_SIZE - 16);
               json' =
                 (if mh_type h = REQ_STATUS \<or> mh_type h = REQ_SNAPSHOT then
                    (case snapshot of Some (Some s) \<Rightarrow> copy_payload s json | _ \<Rightarrow> json)
                  else if mh_type h = REQ_HISTORY then
                    (case history of
                       None \<Rightarrow> json
                     | Some cb \<Rightarrow>
                         (let count = (if unat (mh_length h) \<ge> 4
                                       then (let b = fst (recv_all 4 rest)
                                             in int_of_bytes (b @ drop (length b) (int_bytes 10)))
                                       else 10)
                          in case cb count of None \<Rightarrow> json | Some s \<Rightarrow> copy_payload s json))
                  else if mh_type h = REQ_SERVICES then
                    jobj [json_kv_string ''status'' (Some ''ok'')] json
                  else jobj [json_kv_string ''error'' (Some ''unknown request'')] json);
               rh = (qmem_msg_header_init (mh_type h) (json_length json'))\<lparr>mh_seq := mh_seq h\<rparr>
           in Some (header_bytes rh @ take (json_length json') (jb_buf json')))"

section \<open>The client\<close>

text \<open>What a request sends, when both sends succeed; \<open>size_t\<close> lengths are cut to the header's 32 bits.\<close>

definition client_send :: "16 word \<Rightarrow> string option \<Rightarrow> string" where
  "client_send t data =
     header_bytes (qmem_msg_header_init t (case data of None \<Rightarrow> 0 | Some d \<Rightarrow> length d)) @
     (case data of None \<Rightarrow> [] | Some d \<Rightarrow> d)"

text \<open>
  Receiving the answer into \<open>response\<close> (whose old contents only matter when nothing is stored): the result and the
  buffer as a C string. \<open>recv_err\<close> says that receiving the payload failed.
\<close>

definition client_receive :: "bool \<Rightarrow> nat \<Rightarrow> string \<Rightarrow> string \<Rightarrow> int \<times> string" where
  "client_receive recv_err response_size response inp =
     (let (hb, rest) = recv_all 16 inp; h = header_parse hb
      in if length hb \<noteq> 16 then (-1, response)
         else if mh_magic h \<noteq> MSG_MAGIC then (-1, response)
         else
           let to_read = (if unat (mh_length h) \<ge> response_size then response_size - 1 else unat (mh_length h))
           in if to_read > 0
              then if recv_err then (-1, response)
                   else (to_int32 (uint (mh_length h)), cstr (fst (recv_all to_read rest)))
              else (to_int32 (uint (mh_length h)), []))"

text \<open>\<open>server\<close> maps the bytes a client sends to the bytes it gets before the connection closes.\<close>

definition client_request ::
    "(string \<Rightarrow> string) \<Rightarrow> bool \<Rightarrow> bool \<Rightarrow> 16 word \<Rightarrow> string option \<Rightarrow> nat \<Rightarrow> string \<Rightarrow> int \<times> string" where
  "client_request server send_ok recv_err t data response_size response =
     (if \<not> send_ok then (-1, response)
      else client_receive recv_err response_size response (server (client_send t data)))"

definition do_request ::
    "(string \<Rightarrow> string) option \<Rightarrow> bool \<Rightarrow> bool \<Rightarrow> 16 word \<Rightarrow> string option \<Rightarrow> string option" where
  "do_request conn send_ok recv_err t data =
     (case conn of
        None \<Rightarrow> None
      | Some server \<Rightarrow>
          (case client_request server send_ok recv_err t data (256 * 1024) [] of
             (ret, response) \<Rightarrow> if ret < 0 then None else Some response))"

definition client_get_status :: "(string \<Rightarrow> string) option \<Rightarrow> bool \<Rightarrow> bool \<Rightarrow> string option" where
  "client_get_status conn sok rerr = do_request conn sok rerr REQ_STATUS None"

definition client_get_snapshot :: "(string \<Rightarrow> string) option \<Rightarrow> bool \<Rightarrow> bool \<Rightarrow> string option" where
  "client_get_snapshot conn sok rerr = do_request conn sok rerr REQ_SNAPSHOT None"

definition client_get_history :: "(string \<Rightarrow> string) option \<Rightarrow> bool \<Rightarrow> bool \<Rightarrow> int \<Rightarrow> string option" where
  "client_get_history conn sok rerr cnt = do_request conn sok rerr REQ_HISTORY (Some (int_bytes cnt))"

section \<open>Client and server together\<close>

text \<open>The daemon's side of a connection.\<close>

definition serve :: "string \<Rightarrow> string option option \<Rightarrow> (int \<Rightarrow> string option) option \<Rightarrow> string \<Rightarrow> string" where
  "serve junk snapshot history inp = (case handle_client junk snapshot history inp of None \<Rightarrow> [] | Some b \<Rightarrow> b)"

lemmas ipc_consts = MSG_MAX_SIZE_def REQ_STATUS_def REQ_SNAPSHOT_def REQ_HISTORY_def REQ_SERVICES_def

lemma json_init_fields [simp]:
  "jb_pos (json_init junk n) = 0"
  by (simp add: json_init_def)

text \<open>The payload of a copied text.\<close>

lemma copy_payload_out:
  "length s < MSG_MAX_SIZE - 16 \<Longrightarrow> take (length s) (jb_buf (copy_payload s (json_init junk (MSG_MAX_SIZE - 16)))) = s"
  by (simp add: copy_payload_def mem_write_def)

lemma copy_payload_length:
  "json_length (copy_payload s (json_init junk (MSG_MAX_SIZE - 16))) = (if length s < MSG_MAX_SIZE - 16 then length s else 0)"
  by (simp add: copy_payload_def json_length_def)

lemma client_receive_answer:
  assumes "NUL \<notin> set p" and "length p < 256 * 1024"
  shows "client_receive False (256 * 1024) resp
    (header_bytes ((qmem_msg_header_init t (length p))\<lparr>mh_seq := q\<rparr>) @ p) = (int (length p), p)"
proof -
  have u: "unat (word_of_nat (length p) :: 32 word) = length p"
    using assms(2) by (simp add: unat_of_nat)
  then have "uint (word_of_nat (length p) :: 32 word) = int (length p)" by (metis uint_nat)
  then show ?thesis
    using assms u by (simp add: client_receive_def recv_all_def header_parse_bytes[of _ "[]", simplified]
        Let_def qmem_msg_header_init_def to_int32_id)
qed

lemma handle_snapshot:
  assumes "t = REQ_STATUS \<or> t = REQ_SNAPSHOT"
  shows "handle_client junk (Some (Some s)) hist (client_send t None) =
    (let p = (if length s < MSG_MAX_SIZE - 16 then s else [])
     in Some (header_bytes (qmem_msg_header_init t (length p)) @ p))"
proof -
  have h: "header_parse (header_bytes (qmem_msg_header_init t 0)) = qmem_msg_header_init t 0"
    using header_parse_bytes[of _ "[]"] by simp
  have q: "(qmem_msg_header_init t n)\<lparr>mh_seq := 0\<rparr> = qmem_msg_header_init t n" for n
    by (simp add: qmem_msg_header_init_def)
  have m: "mh_type (qmem_msg_header_init t 0) = t" "mh_magic (qmem_msg_header_init t 0) = MSG_MAGIC"
    "mh_seq (qmem_msg_header_init t 0) = 0" by (simp_all add: qmem_msg_header_init_def)
  show ?thesis
    using assms
    by (simp add: handle_client_def client_send_def recv_all_def h m q copy_payload_out copy_payload_length Let_def)
qed

lemma handle_history:
  assumes "- 2147483648 \<le> cnt" "cnt \<le> INT32_MAX"
  shows "handle_client junk snap (Some cb) (client_send REQ_HISTORY (Some (int_bytes cnt))) =
    (let p = (case cb cnt of Some s \<Rightarrow> if length s < MSG_MAX_SIZE - 16 then s else [] | None \<Rightarrow> [])
     in Some (header_bytes (qmem_msg_header_init REQ_HISTORY (length p)) @ p))"
proof -
  let ?h = "qmem_msg_header_init REQ_HISTORY 4"
  have h: "header_parse (header_bytes ?h) = ?h" using header_parse_bytes[of _ "[]"] by simp
  have q: "(qmem_msg_header_init t n)\<lparr>mh_seq := 0\<rparr> = qmem_msg_header_init t n" for t n
    by (simp add: qmem_msg_header_init_def)
  have m: "mh_type ?h = REQ_HISTORY" "mh_magic ?h = MSG_MAGIC" "mh_seq ?h = 0" "mh_length ?h = 4"
    by (simp_all add: qmem_msg_header_init_def)
  have l: "length (int_bytes c) = 4" for c by (simp add: int_bytes_def)
  have "client_send REQ_HISTORY (Some (int_bytes cnt)) = header_bytes ?h @ int_bytes cnt"
    by (simp add: client_send_def l)
  moreover have "REQ_HISTORY \<noteq> REQ_STATUS" "REQ_HISTORY \<noteq> REQ_SNAPSHOT" by (simp_all add: ipc_consts)
  moreover have "json_length (json_init junk n) = 0" for n by (simp add: json_length_def)
  ultimately show ?thesis
    using int_of_bytes_int[OF assms] unfolding handle_client_def
    by (simp add: recv_all_def h m q l copy_payload_out copy_payload_length Let_def split: option.splits)
qed

lemma get_snapshot_text:
  assumes "NUL \<notin> set s"
  shows "client_get_snapshot (Some (serve junk (Some (Some s)) hist)) True False =
      Some (if length s < 256 * 1024 - 16 then s else []) \<and>
    client_get_status (Some (serve junk (Some (Some s)) hist)) True False =
      Some (if length s < 256 * 1024 - 16 then s else [])"
proof -
  let ?p = "if length s < MSG_MAX_SIZE - 16 then s else []"
  have "do_request (Some (serve junk (Some (Some s)) hist)) True False t None = Some ?p"
    if "t = REQ_STATUS \<or> t = REQ_SNAPSHOT" for t
  proof -
    have "serve junk (Some (Some s)) hist (client_send t None) = header_bytes ((qmem_msg_header_init t (length ?p))\<lparr>mh_seq := 0\<rparr>) @ ?p"
      by (simp add: serve_def handle_snapshot[OF that] Let_def qmem_msg_header_init_def)
    moreover have "NUL \<notin> set ?p" "length ?p < 256 * 1024" using assms by (simp_all add: MSG_MAX_SIZE_def)
    ultimately show ?thesis
      using client_receive_answer[where p = ?p and resp = "[]" and t = t and q = 0] unfolding do_request_def client_request_def by simp
  qed
  then show ?thesis by (simp add: client_get_snapshot_def client_get_status_def MSG_MAX_SIZE_def)
qed

text \<open>
  Also (snapshot requests). What \<open>qmemctl\<close> gets from a running daemon is exactly the daemon's snapshot, for status and
  snapshot requests alike, as long as it is shorter than the message size less the header; a longer one, though it fits the
  daemon's own buffer, arrives as an empty text that is not reported as an error.
\<close>

theorem client_gets_snapshot:
  assumes "NUL \<notin> set s"
  shows "client_get_snapshot (Some (serve junk (Some (Some s)) hist)) True False =
      Some (if length s < 256 * 1024 - 16 then s else []) \<and>
    client_get_status (Some (serve junk (Some (Some s)) hist)) True False =
      Some (if length s < 256 * 1024 - 16 then s else [])"
  using assms by (rule get_snapshot_text)

theorem client_gets_snapshot_witness:
  "client_get_snapshot (Some (serve [] (Some (Some ''{}'')) None)) True False = Some ''{}''"
  using client_gets_snapshot[of "''{}''" "[]" None] by simp

lemma get_history_text:
  assumes "- 2147483648 \<le> cnt" "cnt \<le> INT32_MAX" and "cb cnt = Some s" "NUL \<notin> set s" "length s < 256 * 1024 - 16"
  shows "client_get_history (Some (serve junk snap (Some cb))) True False cnt = Some s"
proof -
  have "serve junk snap (Some cb) (client_send REQ_HISTORY (Some (int_bytes cnt)))
      = header_bytes ((qmem_msg_header_init REQ_HISTORY (length s))\<lparr>mh_seq := 0\<rparr>) @ s"
    using assms(3,5) by (simp add: serve_def handle_history[OF assms(1,2)] Let_def MSG_MAX_SIZE_def qmem_msg_header_init_def)
  then show ?thesis
    using client_receive_answer[where p = s and resp = "[]" and t = REQ_HISTORY and q = 0] assms(4,5)
    unfolding client_get_history_def do_request_def client_request_def by simp
qed

text \<open>
  Also (history requests). The count a client asks for, any 32-bit integer, reaches the history callback unchanged, and its
  answer reaches the client.
\<close>

theorem client_gets_history:
  assumes "- 2147483648 \<le> cnt" "cnt \<le> INT32_MAX" and "cb cnt = Some s" "NUL \<notin> set s" "length s < 256 * 1024 - 16"
  shows "client_get_history (Some (serve junk snap (Some cb))) True False cnt = Some s"
  using assms by (rule get_history_text)

theorem client_gets_history_witness:
  "client_get_history (Some (serve [] None (Some (\<lambda>n. Some (int_str n))))) True False (-5) = Some ''-5''"
proof -
  have "int_str (-5) = ''-5''" by (simp add: int_str_def nat_str.simps)
  then show ?thesis using client_gets_history[of "-5" "\<lambda>n. Some (int_str n)" "''-5''" "[]" None] by simp
qed

text \<open>
  Also (headers). Every header survives the wire, whatever bytes follow it, and takes sixteen bytes.
\<close>

theorem header_roundtrip:
  "header_parse (header_bytes h @ r) = h \<and> length (header_bytes h) = 16 \<and>
    recv_all 16 (header_bytes h @ r) = (header_bytes h, r)"
  by (simp add: header_parse_bytes recv_all_def)

section \<open>What the server refuses and ignores\<close>

lemma error_reply_text:
  assumes "262128 \<le> length junk"
  shows "take (json_length (jobj [json_kv_string ''error'' (Some ''unknown request'')] (json_init junk 262128)))
      (jb_buf (jobj [json_kv_string ''error'' (Some ''unknown request'')] (json_init junk 262128)))
    = render (JObj [(''error'', JStr ''unknown request'')])"
proof -
  let ?f = "jobj [json_kv_string ''error'' (Some ''unknown request'')]"
  have e: "emits_val ?f (JObj [(''error'', JStr ''unknown request'')])"
    by (rule emits_val_cong, (rule json_rules)+) simp
  have "length (render (JObj [(''error'', JStr ''unknown request'')])) < 262128"
    by (simp add: key_text_def str_text_def key_char_def value_char_def)
  then show ?thesis
    using emits_val_init(1,2)[OF e _ assms] by (simp add: jb_out_def json_length_def)
qed

text \<open>
  Also (other requests). Every request type the server does not implement, the documented configuration, subscription
  and shutdown requests included, is answered, with the request's type and sequence number, by the object
  \<open>{"error":"unknown request"}\<close>; the protocol version of the request plays no part.
\<close>

theorem unknown_request_reply:
  assumes "mh_magic h = MSG_MAGIC" and "mh_type h \<notin> {REQ_STATUS, REQ_SNAPSHOT, REQ_HISTORY, REQ_SERVICES}"
    and "262128 \<le> length junk"
  shows "\<exists>rh p. handle_client junk snap hist (header_bytes h @ r) = Some (header_bytes rh @ p) \<and>
    mh_type rh = mh_type h \<and> mh_seq rh = mh_seq h \<and> json_parse p = Some (JObj [(''error'', JStr ''unknown request'')])"
proof -
  let ?j = "jobj [json_kv_string ''error'' (Some ''unknown request'')] (json_init junk 262128)"
  have "handle_client junk snap hist (header_bytes h @ r)
    = Some (header_bytes ((qmem_msg_header_init (mh_type h) (json_length ?j))\<lparr>mh_seq := mh_seq h\<rparr>)
        @ take (json_length ?j) (jb_buf ?j))"
    using assms
    by (simp add: handle_client_def recv_all_def Let_def MSG_MAX_SIZE_def header_parse_bytes[of h "[]", simplified])
  moreover have "json_parse (render (JObj [(''error'', JStr ''unknown request'')])) = Some (JObj [(''error'', JStr ''unknown request'')])"
    by (rule json_parse_render) (simp add: key_ok_def)
  ultimately show ?thesis
    unfolding error_reply_text[OF assms(3)] by (auto simp: qmem_msg_header_init_def simp del: render.simps)
qed

theorem unknown_request_reply_witness:
  "\<exists>rh p. handle_client (replicate 262128 NUL) None None (header_bytes (qmem_msg_header_init 99 0)) = Some (header_bytes rh @ p) \<and>
    mh_type rh = 99 \<and> json_parse p = Some (JObj [(''error'', JStr ''unknown request'')])"
  using unknown_request_reply[of "qmem_msg_header_init 99 0" "replicate 262128 NUL" None None "[]"]
  by (auto simp: qmem_msg_header_init_def ipc_consts)

text \<open>
  Also (the version is not checked). Two requests that differ only in their protocol version get the same answer.
\<close>

theorem version_ignored:
  "handle_client junk snap hist (header_bytes (h\<lparr>mh_version := v\<rparr>) @ r) = handle_client junk snap hist (header_bytes h @ r)"
proof -
  have "header_parse (header_bytes g) = g" for g using header_parse_bytes[of g "[]"] by simp
  then show ?thesis by (simp add: handle_client_def recv_all_def Let_def)
qed

section \<open>Life cycle of the server\<close>

text \<open>
  The socket files that exist are part of the state: \<open>bind\<close> fails on an existing name. \<open>srv_thread\<close> says whether the
  server thread is in its loop, \<open>srv_sent\<close> what it has answered.
\<close>

record ipc_state =
  srv_running :: bool
  srv_fd :: bool
  srv_path :: string
  srv_thread :: bool
  srv_files :: "string set"
  srv_sent :: "string list"

definition sun_path :: "string \<Rightarrow> string" where
  "sun_path p = take 107 p"

text \<open>The binding fails when the name exists, and may fail for other reasons.\<close>

definition ipc_server_start :: "bool \<Rightarrow> bool \<Rightarrow> bool \<Rightarrow> bool \<Rightarrow> string \<Rightarrow> ipc_state \<Rightarrow> int \<times> ipc_state" where
  "ipc_server_start socket_ok bind_ok listen_ok thread_ok cfg_path s =
     (let path = bounded_copy 256 cfg_path;
          s1 = s\<lparr>srv_path := path, srv_files := srv_files s - {path}\<rparr>
      in if \<not> socket_ok then (-1, s1\<lparr>srv_fd := False\<rparr>)
         else if \<not> bind_ok \<or> sun_path path \<in> srv_files s1 then (-1, s1\<lparr>srv_fd := False\<rparr>)
         else let s2 = s1\<lparr>srv_fd := True, srv_files := insert (sun_path path) (srv_files s1)\<rparr>
              in if \<not> listen_ok then (-1, s2\<lparr>srv_fd := False\<rparr>)
                 else if \<not> thread_ok then (-1, s2\<lparr>srv_fd := False, srv_running := False\<rparr>)
                 else (0, s2\<lparr>srv_running := True, srv_thread := True\<rparr>))"

definition ipc_server_stop :: "ipc_state \<Rightarrow> ipc_state" where
  "ipc_server_stop s =
     (if \<not> srv_running s then s
      else s\<lparr>srv_running := False, srv_fd := False, srv_thread := False, srv_files := srv_files s - {srv_path s}\<rparr>)"

text \<open>What one turn of the loop of \<open>server_thread\<close> meets.\<close>

datatype poll_ev = PollInterrupted | PollFailed | PollTimeout | PollOther | AcceptFailed | Connection string

definition server_turn :: "(string \<Rightarrow> string option) \<Rightarrow> poll_ev \<Rightarrow> ipc_state \<Rightarrow> ipc_state" where
  "server_turn handler ev s =
     (case ev of
        PollFailed \<Rightarrow> s\<lparr>srv_thread := False\<rparr>
      | Connection inp \<Rightarrow> s\<lparr>srv_sent := srv_sent s @ (case handler inp of None \<Rightarrow> [] | Some b \<Rightarrow> [b])\<rparr>
      | _ \<Rightarrow> s)"

text \<open>The loop on the events it meets before it stops or blocks again.\<close>

fun server_thread :: "(string \<Rightarrow> string option) \<Rightarrow> poll_ev list \<Rightarrow> ipc_state \<Rightarrow> ipc_state" where
  "server_thread handler [] s = s"
| "server_thread handler (ev # evs) s =
     (if srv_running s \<and> srv_thread s then server_thread handler evs (server_turn handler ev s) else s)"

definition answers :: "(string \<Rightarrow> string option) \<Rightarrow> poll_ev list \<Rightarrow> string list" where
  "answers handler evs = concat (map (\<lambda>e. case e of Connection i \<Rightarrow> (case handler i of None \<Rightarrow> [] | Some b \<Rightarrow> [b]) | _ \<Rightarrow> []) evs)"

text \<open>
  C32 (serving). A running server answers, in order, every connection up to the first failing \<open>poll\<close>, and nothing after it;
  interruptions, time-outs and failing accepts cost no answer. After a failing poll no thread
  serves, although \<open>ipc_server_is_running\<close> still reports a running server.
\<close>

theorem server_answers_in_order:
  assumes "srv_running s" "srv_thread s"
  shows "let s' = server_thread handler evs s in
    srv_sent s' = srv_sent s @ answers handler (takeWhile (\<lambda>e. e \<noteq> PollFailed) evs) \<and>
    srv_running s' \<and> (srv_thread s' \<longleftrightarrow> PollFailed \<notin> set evs)"
  using assms
proof (induction evs arbitrary: s)
  case (Cons ev evs)
  have done_: "server_thread handler evs t = t" if "\<not> srv_thread t" for t evs
    using that by (cases evs) simp_all
  show ?case
  proof (cases "ev = PollFailed")
    case True
    then show ?thesis using Cons.prems done_ by (simp add: server_turn_def answers_def Let_def)
  next
    case False
    then have "srv_running (server_turn handler ev s)" "srv_thread (server_turn handler ev s)"
      "srv_sent (server_turn handler ev s) = srv_sent s @ answers handler [ev]"
      using Cons.prems by (cases ev; simp add: server_turn_def answers_def)+
    then show ?thesis using Cons.IH[of "server_turn handler ev s"] Cons.prems False
      by (auto simp: answers_def Let_def)
  qed
qed (simp add: answers_def)

definition idle :: ipc_state where
  "idle = \<lparr>srv_running = False, srv_fd = False, srv_path = [], srv_thread = False, srv_files = {}, srv_sent = []\<rparr>"

theorem server_answers_in_order_witness:
  "srv_sent (server_thread (\<lambda>i. Some i) [PollTimeout, Connection ''a'', PollFailed, Connection ''b'']
     (snd (ipc_server_start True True True True ''/s'' idle))) = [''a'']"
  using server_answers_in_order[of "snd (ipc_server_start True True True True ''/s'' idle)" "\<lambda>i. Some i"
      "[PollTimeout, Connection ''a'', PollFailed, Connection ''b'']"]
  by (simp add: ipc_server_start_def idle_def answers_def bounded_copy_def sun_path_def Let_def)

text \<open>
  Also (restart). A server that has been stopped can be started again at the same path exactly when the path fits the
  socket address: a longer one is bound under its first 107 characters, which no \<open>unlink\<close> removes, so that
  the second start fails.
\<close>

theorem server_restart:
  assumes "\<not> srv_running s" and "sun_path (bounded_copy 256 p) \<notin> srv_files s"
  defines "s1 \<equiv> ipc_server_stop (snd (ipc_server_start True True True True p s))"
  shows "fst (ipc_server_start True True True True p s) = 0 \<and>
    fst (ipc_server_start True True True True p s1) = (if length p < 108 then 0 else - 1)"
proof (cases "length p < 108")
  case True
  then have "sun_path (bounded_copy 256 p) = bounded_copy 256 p" by (simp add: sun_path_def bounded_copy_def)
  then show ?thesis using assms True
    by (simp add: ipc_server_start_def ipc_server_stop_def Let_def)
next
  case False
  then have "length (sun_path (bounded_copy 256 p)) < length (bounded_copy 256 p)" by (simp add: sun_path_def bounded_copy_def)
  then have "sun_path (bounded_copy 256 p) \<noteq> bounded_copy 256 p" by auto
  then show ?thesis using assms False
    by (simp add: ipc_server_start_def ipc_server_stop_def Let_def)
qed

theorem server_restart_witness:
  "fst (ipc_server_start True True True True (replicate 120 (CHR ''x''))
     (ipc_server_stop (snd (ipc_server_start True True True True (replicate 120 (CHR ''x'')) idle)))) = - 1"
  using server_restart[of idle "replicate 120 (CHR ''x'')"] by (simp add: idle_def)

end
