(* ===== verification/ServiceManager.thy ===== *)
theory ServiceManager
  imports JsonObj
begin

text \<open>
  The service registry (\<open>src/daemon/service_manager.c\<close>): an array of sixteen pointers and a count. A
  service is a pointer (a number) into a store of service structures, because registration and
  removal compare pointers. A service's operations act on a world \<open>'w\<close>, the state of the services and
  of the system; a missing operation (a NULL \<open>ops\<close> or member) is \<open>None\<close>.
\<close>

section \<open>State\<close>

record ('c, 'w) qmem_service =
  svc_name :: string
  svc_description :: string
  svc_init :: "('c option \<Rightarrow> 'w \<Rightarrow> int \<times> 'w) option"
  svc_collect :: "('w \<Rightarrow> int \<times> 'w) option"
  svc_snapshot :: "('w \<Rightarrow> json_builder \<Rightarrow> json_builder) option"
  svc_destroy :: "('w \<Rightarrow> 'w) option"
  svc_enabled :: bool
  svc_collect_count :: int

record ('c, 'w) svc_manager =
  sm_slots :: "nat option list"
  sm_count :: nat
  sm_config :: "'c option"
  sm_store :: "nat \<Rightarrow> ('c, 'w) qmem_service"
  sm_world :: 'w

definition MAX_SERVICES :: nat where
  "MAX_SERVICES = 16"

section \<open>Operations\<close>

definition svc_manager_init :: "'c \<Rightarrow> ('c, 'w) svc_manager \<Rightarrow> int \<times> ('c, 'w) svc_manager" where
  "svc_manager_init cfg m =
     (0, m\<lparr>sm_count := 0, sm_config := Some cfg, sm_slots := replicate MAX_SERVICES None\<rparr>)"

definition svc_manager_register :: "nat \<Rightarrow> ('c, 'w) svc_manager \<Rightarrow> int \<times> ('c, 'w) svc_manager" where
  "svc_manager_register svc m =
     (if sm_count m \<ge> MAX_SERVICES then (-1, m)
      else let (ret, m1) = (case svc_init (sm_store m svc) of
                              None \<Rightarrow> (0, m)
                            | Some f \<Rightarrow> (case f (sm_config m) (sm_world m) of (r, w) \<Rightarrow> (r, m\<lparr>sm_world := w\<rparr>)))
           in if ret < 0 then (ret, m1)
              else (0, m1\<lparr>sm_slots := (sm_slots m1)[sm_count m1 := Some svc], sm_count := sm_count m1 + 1\<rparr>))"

text \<open>The index of the first slot holding the pointer.\<close>

fun find_slot :: "nat option list \<Rightarrow> nat \<Rightarrow> nat \<Rightarrow> nat option" where
  "find_slot [] svc i = None"
| "find_slot (s # ss) svc i = (if s = Some svc then Some i else find_slot ss svc (i + 1))"

text \<open>\<open>for (i = idx; i < count - 1; i++) g_services[i] = g_services[i + 1];\<close>\<close>

definition shift_down :: "nat \<Rightarrow> nat \<Rightarrow> 'a list \<Rightarrow> 'a list" where
  "shift_down idx cnt xs = fold (\<lambda>i ys. ys[i := ys ! (i + 1)]) [idx..<cnt - 1] xs"

definition destroy_one :: "nat \<Rightarrow> ('c, 'w) svc_manager \<Rightarrow> ('c, 'w) svc_manager" where
  "destroy_one svc m =
     (case svc_destroy (sm_store m svc) of None \<Rightarrow> m | Some f \<Rightarrow> m\<lparr>sm_world := f (sm_world m)\<rparr>)"

definition svc_manager_unregister :: "nat \<Rightarrow> ('c, 'w) svc_manager \<Rightarrow> int \<times> ('c, 'w) svc_manager" where
  "svc_manager_unregister svc m =
     (case find_slot (take (sm_count m) (sm_slots m)) svc 0 of
        None \<Rightarrow> (-1, m)
      | Some idx \<Rightarrow>
          let m1 = destroy_one svc m
          in (0, m1\<lparr>sm_slots := shift_down idx (sm_count m1) (sm_slots m1), sm_count := sm_count m1 - 1\<rparr>))"

definition svc_manager_count :: "('c, 'w) svc_manager \<Rightarrow> int" where
  "svc_manager_count m = int (sm_count m)"

text \<open>The registered pointers, in order.\<close>

definition registered :: "('c, 'w) svc_manager \<Rightarrow> nat list" where
  "registered m = map the (take (sm_count m) (sm_slots m))"

definition svc_manager_get :: "string \<Rightarrow> ('c, 'w) svc_manager \<Rightarrow> nat option" where
  "svc_manager_get name m = find (\<lambda>s. svc_name (sm_store m s) = name) (registered m)"

definition svc_manager_get_index :: "int \<Rightarrow> ('c, 'w) svc_manager \<Rightarrow> nat option" where
  "svc_manager_get_index index m =
     (if index < 0 \<or> index \<ge> int (sm_count m) then None else sm_slots m ! nat index)"

text \<open>One turn of the collection loop, on the error count and the state.\<close>

definition collect_one :: "nat \<Rightarrow> int \<times> ('c, 'w) svc_manager \<Rightarrow> int \<times> ('c, 'w) svc_manager" where
  "collect_one svc = (\<lambda>(errors, m).
     (if \<not> svc_enabled (sm_store m svc) then (errors, m)
      else case svc_collect (sm_store m svc) of
          None \<Rightarrow> (errors, m)
        | Some f \<Rightarrow>
            (case f (sm_world m) of (ret, w) \<Rightarrow>
               if ret < 0 then (errors + 1, m\<lparr>sm_world := w\<rparr>)
               else (errors, m\<lparr>sm_world := w,
                       sm_store := (sm_store m)(svc := (sm_store m svc)
                         \<lparr>svc_collect_count := svc_collect_count (sm_store m svc) + 1\<rparr>)\<rparr>))))"

definition svc_manager_collect_all :: "('c, 'w) svc_manager \<Rightarrow> int \<times> ('c, 'w) svc_manager" where
  "svc_manager_collect_all m = fold collect_one (registered m) (0, m)"

definition snapshot_one :: "('c, 'w) svc_manager \<Rightarrow> nat \<Rightarrow> json_builder \<Rightarrow> json_builder" where
  "snapshot_one m svc =
     (if \<not> svc_enabled (sm_store m svc) then jskip
      else jkey (svc_name (sm_store m svc))
             (case svc_snapshot (sm_store m svc) of None \<Rightarrow> json_null | Some f \<Rightarrow> f (sm_world m)))"

definition svc_manager_snapshot_all :: "int \<Rightarrow> ('c, 'w) svc_manager \<Rightarrow> json_builder \<Rightarrow> json_builder" where
  "svc_manager_snapshot_all now m =
     jobj [json_kv_int ''timestamp'' now,
           jkey ''services'' (jobj [fold (snapshot_one m) (registered m)])]"

definition svc_manager_shutdown :: "('c, 'w) svc_manager \<Rightarrow> ('c, 'w) svc_manager" where
  "svc_manager_shutdown m = (fold destroy_one (registered m) m)\<lparr>sm_count := 0\<rparr>"

section \<open>Invariant and refinement to a list of pointers\<close>

definition sm_inv :: "('c, 'w) svc_manager \<Rightarrow> bool" where
  "sm_inv m \<longleftrightarrow> length (sm_slots m) = MAX_SERVICES \<and> sm_count m \<le> MAX_SERVICES \<and>
     (\<forall>s \<in> set (take (sm_count m) (sm_slots m)). s \<noteq> None)"

lemma registered_Some: "sm_inv m \<Longrightarrow> take (sm_count m) (sm_slots m) = map Some (registered m)"
  by (auto simp: sm_inv_def registered_def intro!: map_idI[symmetric])

lemma length_registered: "sm_inv m \<Longrightarrow> length (registered m) = sm_count m"
  by (simp add: sm_inv_def registered_def)

lemma sm_inv_iff:
  "length (sm_slots m) = MAX_SERVICES \<Longrightarrow> sm_count m \<le> MAX_SERVICES \<Longrightarrow>
   take (sm_count m) (sm_slots m) = map Some xs \<Longrightarrow> sm_inv m \<and> registered m = xs"
  by (auto simp: sm_inv_def registered_def)

lemma find_slot_map:
  "find_slot (map Some xs) svc i = (if svc \<in> set xs then Some (i + length (takeWhile (\<lambda>x. x \<noteq> svc) xs)) else None)"
  by (induction xs arbitrary: i) auto

lemma length_shift_down [simp]: "length (shift_down i n xs) = length xs"
proof -
  have "length (fold (\<lambda>i ys. ys[i := ys ! (i + 1)]) is xs) = length xs" for "is" and xs :: "'a list"
    by (induction "is" arbitrary: xs) auto
  then show ?thesis by (simp add: shift_down_def)
qed

lemma shift_down_nth:
  "n \<le> length xs \<Longrightarrow> j < n - 1 \<Longrightarrow> shift_down i n xs ! j = (if i \<le> j then xs ! (j + 1) else xs ! j)"
proof -
  have "k < length xs \<Longrightarrow> i \<le> k \<Longrightarrow>
      length (fold (\<lambda>i ys. ys[i := ys ! (i + 1)]) [i..<k] xs) = length xs \<and>
      (\<forall>j < length xs. fold (\<lambda>i ys. ys[i := ys ! (i + 1)]) [i..<k] xs ! j =
        (if i \<le> j \<and> j < k then xs ! (j + 1) else xs ! j))" for k
  proof (induction k)
    case (Suc k)
    show ?case
    proof (cases "i = Suc k")
      case True
      then show ?thesis by auto
    next
      case False
      then show ?thesis using Suc by (auto simp: nth_list_update less_Suc_eq)
    qed
  qed simp
  moreover assume "n \<le> length xs" "j < n - 1"
  ultimately show ?thesis by (cases "i \<le> n - 1") (auto simp: shift_down_def)
qed

lemma shift_down_remove:
  assumes "n \<le> length xs" "i < n"
  shows "take (n - 1) (shift_down i n xs) = take i xs @ drop (Suc i) (take n xs)"
  using assms by (intro nth_equalityI) (auto simp: shift_down_nth nth_append)

lemma length_takeWhile_neq: "x \<in> set xs \<Longrightarrow> length (takeWhile (\<lambda>y. y \<noteq> x) xs) < length xs"
  by (induction xs) auto

lemma remove1_takeWhile:
  "x \<in> set xs \<Longrightarrow> take (length (takeWhile (\<lambda>y. y \<noteq> x) xs)) xs @ drop (Suc (length (takeWhile (\<lambda>y. y \<noteq> x) xs))) xs = remove1 x xs"
  by (induction xs) auto

lemma destroy_one_fields [simp]:
  "sm_slots (destroy_one s m) = sm_slots m" "sm_count (destroy_one s m) = sm_count m"
  "sm_store (destroy_one s m) = sm_store m" "sm_config (destroy_one s m) = sm_config m"
  by (auto simp: destroy_one_def split: option.splits)

lemma registry_refines_aux:
  assumes "sm_inv m"
  shows "(case svc_manager_register svc m of (r, m') \<Rightarrow> sm_inv m' \<and> r \<le> 0 \<and>
        registered m' = (if r = 0 then registered m @ [svc] else registered m) \<and>
        (r = 0 \<longleftrightarrow> length (registered m) < MAX_SERVICES \<and>
          (case svc_init (sm_store m svc) of None \<Rightarrow> True | Some f \<Rightarrow> \<not> fst (f (sm_config m) (sm_world m)) < 0))) \<and>
    (case svc_manager_unregister svc m of (r, m') \<Rightarrow> sm_inv m' \<and>
        registered m' = remove1 svc (registered m) \<and>
        (if svc \<in> set (registered m) then r = 0 \<and> sm_world m' = sm_world (destroy_one svc m)
         else r = -1 \<and> m' = m))"
proof
  have len: "length (registered m) = sm_count m" and slots: "length (sm_slots m) = MAX_SERVICES"
    and reg: "take (sm_count m) (sm_slots m) = map Some (registered m)"
    using assms length_registered registered_Some by (auto simp: sm_inv_def)
  have add: "sm_inv (m\<lparr>sm_world := w, sm_slots := (sm_slots m)[sm_count m := Some svc], sm_count := sm_count m + 1\<rparr>) \<and>
      registered (m\<lparr>sm_world := w, sm_slots := (sm_slots m)[sm_count m := Some svc], sm_count := sm_count m + 1\<rparr>)
        = registered m @ [svc]" if "sm_count m < MAX_SERVICES" for w
    using that slots reg by (intro sm_inv_iff) (simp_all add: take_Suc_conv_app_nth)
  have same: "sm_inv (m\<lparr>sm_world := w\<rparr>)" "registered (m\<lparr>sm_world := w\<rparr>) = registered m" for w
    using assms by (simp_all add: sm_inv_def registered_def)
  show "case svc_manager_register svc m of (r, m') \<Rightarrow> sm_inv m' \<and> r \<le> 0 \<and>
        registered m' = (if r = 0 then registered m @ [svc] else registered m) \<and>
        (r = 0 \<longleftrightarrow> length (registered m) < MAX_SERVICES \<and>
          (case svc_init (sm_store m svc) of None \<Rightarrow> True | Some f \<Rightarrow> \<not> fst (f (sm_config m) (sm_world m)) < 0))"
    using add[of "sm_world m"] add same assms len
    by (auto simp: svc_manager_register_def Let_def split: option.splits prod.splits)
  show "case svc_manager_unregister svc m of (r, m') \<Rightarrow> sm_inv m' \<and>
        registered m' = remove1 svc (registered m) \<and>
        (if svc \<in> set (registered m) then r = 0 \<and> sm_world m' = sm_world (destroy_one svc m)
         else r = -1 \<and> m' = m)"
  proof (cases "svc \<in> set (registered m)")
    case False
    then show ?thesis using assms by (simp add: svc_manager_unregister_def reg find_slot_map remove1_idem)
  next
    case True
    let ?i = "length (takeWhile (\<lambda>x. x \<noteq> svc) (registered m))"
    let ?m = "(destroy_one svc m)\<lparr>sm_slots := shift_down ?i (sm_count m) (sm_slots m), sm_count := sm_count m - 1\<rparr>"
    have "?i < length (registered m)"
      using True by (rule length_takeWhile_neq)
    then have i: "?i < sm_count m" "sm_count m \<le> length (sm_slots m)"
      using len slots assms by (auto simp: sm_inv_def)
    have "take (sm_count m - 1) (shift_down ?i (sm_count m) (sm_slots m))
        = take ?i (take (sm_count m) (sm_slots m)) @ drop (Suc ?i) (take (sm_count m) (sm_slots m))"
      using shift_down_remove[OF i(2,1)] i by simp
    also have "\<dots> = map Some (remove1 svc (registered m))"
      unfolding reg by (simp add: take_map drop_map map_append[symmetric] remove1_takeWhile[OF True] del: map_append)
    finally have "sm_inv ?m \<and> registered ?m = remove1 svc (registered m)"
      using slots assms by (intro sm_inv_iff) (auto simp: sm_inv_def)
    then show ?thesis using True by (simp add: svc_manager_unregister_def reg find_slot_map Let_def)
  qed
qed

text \<open>
  C17 (registry refinement). On a well-formed registry, registration appends the pointer and fails,
  without a registration, exactly when sixteen services are registered or the service's own initialisation
  fails; removal destroys the service and removes its first occurrence, and fails exactly when it is absent.
  Both keep the registry well-formed, so no access leaves the array.
\<close>

theorem registry_refines_list:
  assumes "sm_inv m"
  shows "(case svc_manager_register svc m of (r, m') \<Rightarrow> sm_inv m' \<and> r \<le> 0 \<and>
        registered m' = (if r = 0 then registered m @ [svc] else registered m) \<and>
        (r = 0 \<longleftrightarrow> length (registered m) < MAX_SERVICES \<and>
          (case svc_init (sm_store m svc) of None \<Rightarrow> True | Some f \<Rightarrow> \<not> fst (f (sm_config m) (sm_world m)) < 0))) \<and>
    (case svc_manager_unregister svc m of (r, m') \<Rightarrow> sm_inv m' \<and>
        registered m' = remove1 svc (registered m) \<and>
        (if svc \<in> set (registered m) then r = 0 \<and> sm_world m' = sm_world (destroy_one svc m)
         else r = -1 \<and> m' = m))"
  using registry_refines_aux[OF assms, of svc] .

section \<open>Destroying services\<close>

text \<open>The world after the destroy functions of some services, in this order.\<close>

definition destroy_world :: "('c, 'w) svc_manager \<Rightarrow> nat list \<Rightarrow> 'w \<Rightarrow> 'w" where
  "destroy_world m ss w = fold (\<lambda>s w. case svc_destroy (sm_store m s) of None \<Rightarrow> w | Some f \<Rightarrow> f w) ss w"

lemma destroy_world_simps [simp]:
  "destroy_world m [] w = w"
  "destroy_world m (s # ss) w = destroy_world m ss (case svc_destroy (sm_store m s) of None \<Rightarrow> w | Some f \<Rightarrow> f w)"
  "destroy_world m (ss @ ts) w = destroy_world m ts (destroy_world m ss w)"
  by (simp_all add: destroy_world_def)

lemma destroy_world_cong: "sm_store m1 = sm_store m \<Longrightarrow> destroy_world m1 = destroy_world m"
  by (simp add: destroy_world_def fun_eq_iff)

lemma destroy_one_world: "sm_world (destroy_one s m) = destroy_world m [s] (sm_world m)"
  by (simp add: destroy_one_def split: option.splits)

lemma destroy_fold_world: "sm_world (fold destroy_one ss m) = destroy_world m ss (sm_world m)"
proof (induction ss arbitrary: m)
  case (Cons s ss)
  have "destroy_world (destroy_one s m) = destroy_world m" by (rule destroy_world_cong) simp
  then show ?case using Cons[of "destroy_one s m"] by (simp add: destroy_one_world)
qed simp

section \<open>Collection\<close>

abbreviation collects :: "('c, 'w) svc_manager \<Rightarrow> nat \<Rightarrow> bool" where
  "collects m s \<equiv> svc_enabled (sm_store m s) \<and> svc_collect (sm_store m s) \<noteq> None"

abbreviation counter :: "('c, 'w) svc_manager \<Rightarrow> nat \<Rightarrow> int" where
  "counter m s \<equiv> svc_collect_count (sm_store m s)"

text \<open>
  What the enabled collectors of a list of services return, run one after the other on the world, and the world they leave.
\<close>

fun collect_results :: "('c, 'w) svc_manager \<Rightarrow> nat list \<Rightarrow> 'w \<Rightarrow> (nat \<times> int) list \<times> 'w" where
  "collect_results m [] w = ([], w)"
| "collect_results m (s # ss) w =
     (if collects m s
      then (case the (svc_collect (sm_store m s)) w of (r, w1) \<Rightarrow>
              case collect_results m ss w1 of (rs, w2) \<Rightarrow> ((s, r) # rs, w2))
      else collect_results m ss w)"

abbreviation failures :: "(nat \<times> int) list \<Rightarrow> nat" where
  "failures rs \<equiv> length (filter (\<lambda>(s, r). r < 0) rs)"

abbreviation successes :: "nat \<Rightarrow> (nat \<times> int) list \<Rightarrow> nat" where
  "successes s rs \<equiv> length (filter (\<lambda>(t, r). t = s \<and> \<not> r < 0) rs)"

lemma collect_results_cong:
  "(\<And>s. svc_enabled (sm_store m1 s) = svc_enabled (sm_store m s) \<and> svc_collect (sm_store m1 s) = svc_collect (sm_store m s)) \<Longrightarrow>
   collect_results m1 ss w = collect_results m ss w"
  by (induction ss arbitrary: w) (auto split: prod.splits)

lemma collect_results_services: "map fst (fst (collect_results m ss w)) = filter (collects m) ss"
  by (induction ss arbitrary: w) (simp_all add: case_prod_beta del: not_None_eq)

lemma collect_one_skip: "\<not> collects m s \<Longrightarrow> collect_one s (e, m) = (e, m)"
  by (auto simp: collect_one_def split: option.splits)

lemma collect_one_run:
  "collects m s \<Longrightarrow> the (svc_collect (sm_store m s)) (sm_world m) = (r, w) \<Longrightarrow>
   collect_one s (e, m) = (if r < 0 then (e + 1, m\<lparr>sm_world := w\<rparr>)
     else (e, m\<lparr>sm_world := w, sm_store := (sm_store m)(s := (sm_store m s)\<lparr>svc_collect_count := counter m s + 1\<rparr>)\<rparr>))"
  by (auto simp: collect_one_def)

lemma collect_fold:
  "fold collect_one ss (e, m) = (e', m') \<Longrightarrow> collect_results m ss (sm_world m) = (rs, w) \<Longrightarrow>
   e' = e + int (failures rs) \<and> sm_world m' = w \<and> sm_slots m' = sm_slots m \<and> sm_count m' = sm_count m \<and> sm_config m' = sm_config m \<and>
   (\<forall>s. sm_store m' s = (sm_store m s)\<lparr>svc_collect_count := counter m s + int (successes s rs)\<rparr>)"
proof (induction ss arbitrary: e m rs)
  case (Cons s ss)
  show ?case
  proof (cases "collects m s")
    case False
    then have "collect_one s (e, m) = (e, m)" "collect_results m (s # ss) (sm_world m) = collect_results m ss (sm_world m)"
      using collect_one_skip[of m s e] by auto
    then show ?thesis using Cons.IH[of e m rs] Cons.prems by simp
  next
    case True
    obtain r w1 where r: "the (svc_collect (sm_store m s)) (sm_world m) = (r, w1)" by fastforce
    define m1 where "m1 = snd (collect_one s (e, m))"
    have one: "collect_one s (e, m) = (e + (if r < 0 then 1 else 0), m1)"
      "m1 = (if r < 0 then m\<lparr>sm_world := w1\<rparr>
        else m\<lparr>sm_world := w1, sm_store := (sm_store m)(s := (sm_store m s)\<lparr>svc_collect_count := counter m s + 1\<rparr>)\<rparr>)"
      using collect_one_run[OF True r, of e] by (simp_all add: m1_def)
    have same: "collect_results m1 ss w1 = collect_results m ss w1"
      by (rule collect_results_cong) (simp add: one(2))
    obtain rs1 where rs1: "collect_results m ss w1 = (rs1, w)" "rs = (s, r) # rs1"
      using Cons.prems(2) True r by (auto split: prod.splits)
    have "sm_world m1 = w1" by (simp add: one(2))
    then have IH: "e' = (e + (if r < 0 then 1 else 0)) + int (failures rs1) \<and> sm_world m' = w \<and> sm_slots m' = sm_slots m1 \<and>
        sm_count m' = sm_count m1 \<and> sm_config m' = sm_config m1 \<and>
        (\<forall>t. sm_store m' t = (sm_store m1 t)\<lparr>svc_collect_count := counter m1 t + int (successes t rs1)\<rparr>)"
      using Cons.IH[of "e + (if r < 0 then 1 else 0)" m1 rs1] Cons.prems(1) one(1) same rs1(1) by simp
    then show ?thesis by (auto simp: rs1(2) one(2))
  qed
qed simp

text \<open>
  C18 (collection accounts for every service). The enabled collectors run once for each registration, in the order of the
  registry, each on the world its predecessors leave. The result is the number of those that return a negative
  value; the counter of a service advances once for each of its collections that does not; the world is that of the last
  collector; and no other field of any service, nor the registry, changes.
\<close>

theorem collect_all_accounts:
  "case (svc_manager_collect_all m, collect_results m (registered m) (sm_world m)) of ((errors, m'), (rs, w)) \<Rightarrow>
     map fst rs = filter (collects m) (registered m) \<and>
     errors = int (length (filter (\<lambda>(s, r). r < 0) rs)) \<and>
     sm_world m' = w \<and> registered m' = registered m \<and> sm_config m' = sm_config m \<and>
     (\<forall>s. sm_store m' s = (sm_store m s)\<lparr>svc_collect_count :=
        svc_collect_count (sm_store m s) + int (length (filter (\<lambda>(t, r). t = s \<and> 0 \<le> r) rs))\<rparr>)"
proof -
  obtain errors m' rs w where r: "svc_manager_collect_all m = (errors, m')" "collect_results m (registered m) (sm_world m) = (rs, w)"
    by (metis prod.collapse)
  have f: "(\<lambda>(t, r). t = s \<and> \<not> r < 0) = (\<lambda>(t, r). t = s \<and> 0 \<le> (r :: int))" for s :: nat by (auto simp: fun_eq_iff)
  show ?thesis
    using collect_fold[of "registered m" 0 m errors m' rs w] collect_results_services[of m "registered m" "sm_world m"] r
    by (simp add: svc_manager_collect_all_def registered_def f)
qed

definition demo_service :: "int \<Rightarrow> (unit, int) qmem_service" where
  "demo_service ret = \<lparr>svc_name = ''d'', svc_description = ''demo'', svc_init = None,
     svc_collect = Some (\<lambda>w. (ret, w + 1)), svc_snapshot = None, svc_destroy = Some (\<lambda>w. w - 1),
     svc_enabled = True, svc_collect_count = 0\<rparr>"

definition demo_manager :: "(unit, int) svc_manager" where
  "demo_manager = \<lparr>sm_slots = [Some 0, Some 1] @ replicate 14 None, sm_count = 2, sm_config = Some (),
     sm_store = (\<lambda>s. demo_service (- int s)), sm_world = 5\<rparr>"

lemma registered_demo: "registered demo_manager = [0, 1]"
  by (simp add: registered_def demo_manager_def)

lemma sm_inv_demo: "sm_inv demo_manager"
  by (simp add: sm_inv_def demo_manager_def MAX_SERVICES_def)

theorem collect_all_accounts_witness:
  "fst (svc_manager_collect_all demo_manager) = 1 \<and> sm_world (snd (svc_manager_collect_all demo_manager)) = 7 \<and>
   map (\<lambda>s. svc_collect_count (sm_store (snd (svc_manager_collect_all demo_manager)) s)) [0, 1, 2] = [1, 0, 0]"
proof -
  have "collect_results demo_manager (registered demo_manager) (sm_world demo_manager) = ([(0, 0), (1, -1)], 7)"
    unfolding registered_demo by (simp add: demo_manager_def demo_service_def)
  then show ?thesis
    using collect_all_accounts[of demo_manager] by (simp add: demo_manager_def demo_service_def split: prod.splits)
qed

theorem registry_refines_list_witness:
  "registered (snd (svc_manager_unregister 0 demo_manager)) = [1]"
  using registry_refines_list[OF sm_inv_demo, of 0] by (auto simp: registered_demo split: prod.splits)

section \<open>The combined snapshot\<close>

text \<open>The tree of the whole snapshot, given the tree each service writes.\<close>

definition snapshot_tree :: "int \<Rightarrow> ('c, 'w) svc_manager \<Rightarrow> (nat \<Rightarrow> jval) \<Rightarrow> jval" where
  "snapshot_tree now m tr =
     JObj [(''timestamp'', JInt now),
           (''services'', JObj (map (\<lambda>s. (svc_name (sm_store m s),
               if svc_snapshot (sm_store m s) = None then JNull else tr s))
             (filter (\<lambda>s. svc_enabled (sm_store m s)) (registered m))))]"

definition snapshots_wf :: "('c, 'w) svc_manager \<Rightarrow> (nat \<Rightarrow> jval) \<Rightarrow> bool" where
  "snapshots_wf m tr \<longleftrightarrow> (\<forall>s \<in> set (registered m). \<forall>f. svc_snapshot (sm_store m s) = Some f \<longrightarrow>
     emits_val (f (sm_world m)) (tr s))"

definition snapshots_ok :: "('c, 'w) svc_manager \<Rightarrow> (nat \<Rightarrow> jval) \<Rightarrow> bool" where
  "snapshots_ok m tr \<longleftrightarrow> (\<forall>s \<in> set (registered m). jval_ok (tr s) \<and> key_ok (svc_name (sm_store m s)))"

lemma emits_snapshot_one:
  assumes "s \<in> set (registered m)" "snapshots_wf m tr"
  shows "emits_mems (snapshot_one m s) (if \<not> svc_enabled (sm_store m s) then []
    else [(svc_name (sm_store m s), if svc_snapshot (sm_store m s) = None then JNull else tr s)])"
  unfolding snapshot_one_def
  using assms emits_scalars(5)
  by (intro emits_mems_if emits_mems_skip emits_mems_key) (auto simp: snapshots_wf_def split: option.splits)

lemma emits_snapshot_all:
  assumes "snapshots_wf m tr"
  shows "emits_val (svc_manager_snapshot_all now m) (snapshot_tree now m tr)"
proof -
  let ?mem = "\<lambda>s. (svc_name (sm_store m s), if svc_snapshot (sm_store m s) = None then JNull else tr s)"
  have "concat (map (\<lambda>s. if \<not> svc_enabled (sm_store m s) then [] else [?mem s]) xs)
      = map ?mem (filter (\<lambda>s. svc_enabled (sm_store m s)) xs)" for xs
    by (induction xs) auto
  moreover have "emits_mems (fold (snapshot_one m) (registered m))
      (concat (map (\<lambda>s. if \<not> svc_enabled (sm_store m s) then [] else [?mem s]) (registered m)))"
    by (rule emits_mems_fold) (rule emits_snapshot_one[OF _ assms])
  ultimately have "emits_mems (fold (snapshot_one m) (registered m))
      (map ?mem (filter (\<lambda>s. svc_enabled (sm_store m s)) (registered m)))" by simp
  then show ?thesis
    unfolding svc_manager_snapshot_all_def snapshot_tree_def
    by (intro emits_val_cong[OF emits_val_obj[OF emits_mems_Cons[OF emits_mems_kv(1)
      emits_mems_Cons[OF emits_mems_key[OF emits_val_obj[OF emits_mems_Cons[OF _ emits_mems_Nil]]] emits_mems_Nil]]]])
      simp_all
qed

lemma snapshot_tree_ok: "snapshots_ok m tr \<Longrightarrow> jval_ok (snapshot_tree now m tr)"
  unfolding snapshots_ok_def snapshot_tree_def by (simp add: key_ok_def[of "''timestamp''"] key_ok_def[of "''services''"])

interpretation whole: snapshot_writer
  "\<lambda>(now, m, tr). svc_manager_snapshot_all now m" "\<lambda>(now, m, tr). snapshot_tree now m tr"
  "\<lambda>(now, m, tr). snapshots_wf m tr" "\<lambda>(now, m, tr). snapshots_ok m tr"
proof
  fix w :: "int \<times> ('a, 'b) svc_manager \<times> (nat \<Rightarrow> jval)"
  obtain now m tr where w: "w = (now, m, tr)" by (cases w)
  show "(case w of (now, m, tr) \<Rightarrow> snapshots_wf m tr) \<Longrightarrow>
    emits_val (case w of (now, m, tr) \<Rightarrow> svc_manager_snapshot_all now m) (case w of (now, m, tr) \<Rightarrow> snapshot_tree now m tr)"
    by (simp add: w emits_snapshot_all)
  show "(case w of (now, m, tr) \<Rightarrow> snapshots_ok m tr) \<Longrightarrow> jval_ok (case w of (now, m, tr) \<Rightarrow> snapshot_tree now m tr)"
    by (auto simp: w snapshot_tree_ok)
qed

text \<open>
  C15 (the snapshot is the composition of the services'). When each service's snapshot function writes
  one tree, \<open>svc_manager_snapshot_all\<close> into a large enough buffer writes a text that parses to the object of the timestamp
  and of every enabled service under its name, in registration order; when the buffer is too small the
  builder reports the error, the position stays inside the buffer and the brackets still balance.
\<close>

theorem snapshot_all_valid:
  fixes now :: int
  assumes "snapshots_wf m tr" and "snapshots_ok m tr" and "0 < sz" and "sz \<le> length buf"
  defines "j \<equiv> svc_manager_snapshot_all now m (json_init buf sz)"
  shows "(if length (render (snapshot_tree now m tr)) < sz
      then \<not> json_error j \<and> json_parse (jb_out j) = Some (snapshot_tree now m tr)
      else json_error j) \<and>
    json_length j < sz \<and> jb_depth j = 0 \<and> length (jb_buf j) = length buf"
  using assms(1-4) whole.text_when_fits[of "(now, m, tr)" sz buf] whole.parses_back[of "(now, m, tr)" sz buf]
    whole.error_when_not[of "(now, m, tr)" sz buf] whole.always_safe[of "(now, m, tr)" sz buf]
  by (simp add: j_def)

theorem snapshot_all_valid_witness:
  "\<not> json_error (svc_manager_snapshot_all 7 demo_manager (json_init (replicate 60 NUL) 60))"
proof -
  have "snapshots_wf demo_manager (\<lambda>s. JNull)" "snapshots_ok demo_manager (\<lambda>s. JNull)"
    "length (render (snapshot_tree 7 demo_manager (\<lambda>s. JNull))) < 60"
    by (simp_all add: snapshots_wf_def snapshots_ok_def snapshot_tree_def registered_demo)
      (simp_all add: demo_manager_def demo_service_def
        key_ok_def key_text_def key_char_def int_str_def nat_str.simps)
  then show ?thesis using snapshot_all_valid[of demo_manager "\<lambda>s. JNull" 60 "replicate 60 NUL" 7] by simp
qed

section \<open>Shutdown\<close>

lemma destroy_fold_fields:
  "sm_slots (fold destroy_one ss m) = sm_slots m \<and> sm_count (fold destroy_one ss m) = sm_count m \<and>
   sm_store (fold destroy_one ss m) = sm_store m \<and> sm_config (fold destroy_one ss m) = sm_config m"
  by (induction ss arbitrary: m) simp_all

text \<open>
  Also (shutdown). \<open>svc_manager_shutdown\<close> calls the destroy operation of every registered service exactly once, in
  registration order, and leaves an empty registry that can be used again.
\<close>

theorem shutdown_destroys_all:
  assumes "sm_inv m"
  shows "sm_world (svc_manager_shutdown m) = destroy_world m (registered m) (sm_world m) \<and>
    sm_inv (svc_manager_shutdown m) \<and> registered (svc_manager_shutdown m) = []"
  using assms destroy_fold_fields[of "registered m" m] destroy_fold_world[of "registered m" m]
  by (simp add: svc_manager_shutdown_def sm_inv_def registered_def)

theorem shutdown_destroys_all_witness:
  "sm_world (svc_manager_shutdown demo_manager) = 3"
  using shutdown_destroys_all[OF sm_inv_demo]
  by (simp add: registered_demo) (simp add: demo_manager_def demo_service_def)

end
