(* ===== verification/PluginLoader.thy ===== *)
theory PluginLoader
  imports ServiceManager Config
begin

text \<open>
  The plugin loader (\<open>src/daemon/plugin_loader.c\<close>) on top of the service registry. The dynamic linker and the file
  system are arguments: \<open>dl path\<close> is the image \<open>dlopen\<close> finds at a path, with its exported plugin information if it has
  any, and \<open>mtime path\<close> the result of \<open>stat\<close>. The number of open library handles is part of the state. The table
  \<open>plugins[64]\<close> with its count is the list of the slots in use; a slot is never given back.
\<close>

section \<open>State\<close>

record plugin_info =
  pi_api_version :: int
  pi_name :: string
  pi_service :: nat

type_synonym linker = "string \<Rightarrow> plugin_info option option"

record loaded_plugin =
  lp_path :: string
  lp_name :: string
  lp_handle :: bool
  lp_service :: nat
  lp_mtime :: int
  lp_loaded :: bool

record ('c, 'w) plugin_loader =
  pl_dir :: string
  pl_plugins :: "loaded_plugin list"
  pl_inotify :: bool
  pl_watch :: bool
  pl_running :: bool
  pl_mgr :: "('c, 'w) svc_manager"
  pl_handles :: nat

definition MAX_PLUGINS :: nat where "MAX_PLUGINS = 64"
definition PLUGIN_API_VERSION :: int where "PLUGIN_API_VERSION = 1"

section \<open>Operations\<close>

definition plugin_loader_init :: "qmem_config \<Rightarrow> ('c, 'w) svc_manager \<Rightarrow> ('c, 'w) plugin_loader" where
  "plugin_loader_init cfg m =
     \<lparr>pl_dir = bounded_copy 512 (if plugin_dir cfg \<noteq> [] then plugin_dir cfg else ''/usr/lib/qmem/plugins''),
      pl_plugins = [], pl_inotify = False, pl_watch = False, pl_running = False, pl_mgr = m, pl_handles = 0\<rparr>"

text \<open>The index of the first slot with a property.\<close>

fun find_index :: "('a \<Rightarrow> bool) \<Rightarrow> 'a list \<Rightarrow> nat option" where
  "find_index P [] = None"
| "find_index P (x # xs) = (if P x then Some 0 else map_option Suc (find_index P xs))"

definition find_plugin_by_path :: "string \<Rightarrow> ('c, 'w) plugin_loader \<Rightarrow> nat option" where
  "find_plugin_by_path path L = find_index (\<lambda>p. lp_path p = path) (pl_plugins L)"

definition find_plugin_by_name :: "string \<Rightarrow> ('c, 'w) plugin_loader \<Rightarrow> nat option" where
  "find_plugin_by_name name L = find_index (\<lambda>p. lp_name p = name) (pl_plugins L)"

definition loaded_at :: "nat option \<Rightarrow> ('c, 'w) plugin_loader \<Rightarrow> bool" where
  "loaded_at i L = (case i of None \<Rightarrow> False | Some i \<Rightarrow> lp_loaded (pl_plugins L ! i))"

definition plugin_loader_load ::
    "linker \<Rightarrow> (string \<Rightarrow> int) \<Rightarrow> string \<Rightarrow> ('c, 'w) plugin_loader \<Rightarrow> int \<times> ('c, 'w) plugin_loader" where
  "plugin_loader_load dl mtime path L =
     (let existing = find_plugin_by_path path L
      in if loaded_at existing L then (0, L)
         else if length (pl_plugins L) \<ge> MAX_PLUGINS then (-1, L)
         else case dl path of
             None \<Rightarrow> (-1, L)
           | Some None \<Rightarrow> (-1, L)
           | Some (Some info) \<Rightarrow>
               if pi_api_version info \<noteq> PLUGIN_API_VERSION then (-1, L)
               else if loaded_at (find_plugin_by_name (pi_name info) L) L then (-1, L)
               else (case svc_manager_register (pi_service info) (pl_mgr L) of
                   (r, m) \<Rightarrow>
                     if r < 0 then (-1, L\<lparr>pl_mgr := m\<rparr>)
                     else let slot = \<lparr>lp_path = bounded_copy 512 path, lp_name = bounded_copy 64 (pi_name info),
                                      lp_handle = True, lp_service = pi_service info, lp_mtime = mtime path,
                                      lp_loaded = True\<rparr>
                          in (0, L\<lparr>pl_mgr := m, pl_handles := pl_handles L + 1,
                                   pl_plugins := (case existing of Some i \<Rightarrow> (pl_plugins L)[i := slot]
                                                  | None \<Rightarrow> pl_plugins L @ [slot])\<rparr>)))"

definition plugin_loader_unload :: "string \<Rightarrow> ('c, 'w) plugin_loader \<Rightarrow> int \<times> ('c, 'w) plugin_loader" where
  "plugin_loader_unload name L =
     (case find_plugin_by_name name L of
        None \<Rightarrow> (-1, L)
      | Some i \<Rightarrow>
          if \<not> lp_loaded (pl_plugins L ! i) then (-1, L)
          else let p = pl_plugins L ! i;
                   m = snd (svc_manager_unregister (lp_service p) (pl_mgr L))
               in (0, L\<lparr>pl_mgr := m,
                        pl_handles := (if lp_handle p then pl_handles L - 1 else pl_handles L),
                        pl_plugins := (pl_plugins L)[i := p\<lparr>lp_handle := False, lp_loaded := False\<rparr>]\<rparr>))"

definition plugin_loader_reload ::
    "linker \<Rightarrow> (string \<Rightarrow> int) \<Rightarrow> string \<Rightarrow> ('c, 'w) plugin_loader \<Rightarrow> int \<times> ('c, 'w) plugin_loader" where
  "plugin_loader_reload dl mtime path L =
     (let i = find_plugin_by_path path L;
          L1 = (if loaded_at i L then snd (plugin_loader_unload (lp_name (pl_plugins L ! the i)) L) else L)
      in plugin_loader_load dl mtime path L1)"

definition is_so :: "string \<Rightarrow> bool" where
  "is_so name \<longleftrightarrow> length name \<ge> 4 \<and> drop (length name - 3) name = ''.so''"

definition plugin_path :: "('c, 'w) plugin_loader \<Rightarrow> string \<Rightarrow> string" where
  "plugin_path L name = bounded_copy 1024 (pl_dir L @ ''/'' @ name)"

text \<open>
  The outcome of \<open>opendir\<close> after the attempt to create the directory: its entries, or the error with
  whether it is \<open>ENOENT\<close>.
\<close>

datatype dir_result = Entries "string list" | NoDir | DirError

fun load_entries ::
    "linker \<Rightarrow> (string \<Rightarrow> int) \<Rightarrow> string list \<Rightarrow> int \<Rightarrow> ('c, 'w) plugin_loader \<Rightarrow> int \<times> ('c, 'w) plugin_loader" where
  "load_entries dl mtime [] n L = (n, L)"
| "load_entries dl mtime (e # es) n L =
     (if \<not> is_so e then load_entries dl mtime es n L
      else case plugin_loader_load dl mtime (plugin_path L e) L of
          (r, L') \<Rightarrow> load_entries dl mtime es (if r = 0 then n + 1 else n) L')"

definition plugin_loader_load_all ::
    "linker \<Rightarrow> (string \<Rightarrow> int) \<Rightarrow> dir_result \<Rightarrow> ('c, 'w) plugin_loader \<Rightarrow> int \<times> ('c, 'w) plugin_loader" where
  "plugin_loader_load_all dl mtime dir L =
     (case dir of NoDir \<Rightarrow> (0, L) | DirError \<Rightarrow> (-1, L) | Entries es \<Rightarrow> load_entries dl mtime es 0 L)"

definition plugin_loader_start_watcher :: "bool \<Rightarrow> bool \<Rightarrow> ('c, 'w) plugin_loader \<Rightarrow> int \<times> ('c, 'w) plugin_loader" where
  "plugin_loader_start_watcher init_ok watch_ok L =
     (if \<not> init_ok then (-1, L\<lparr>pl_inotify := False\<rparr>)
      else if \<not> watch_ok then (-1, L\<lparr>pl_inotify := False, pl_watch := False\<rparr>)
      else (0, L\<lparr>pl_inotify := True, pl_watch := True, pl_running := True\<rparr>))"

text \<open>One event of the watched directory: written or moved in, deleted, or another mask, with the name (possibly empty).\<close>

datatype fs_event = Changed string | Deleted string | OtherEvent string

fun event_name :: "fs_event \<Rightarrow> string" where
  "event_name (Changed n) = n" | "event_name (Deleted n) = n" | "event_name (OtherEvent n) = n"

definition handle_event ::
    "linker \<Rightarrow> (string \<Rightarrow> int) \<Rightarrow> fs_event \<Rightarrow> ('c, 'w) plugin_loader \<Rightarrow> ('c, 'w) plugin_loader" where
  "handle_event dl mtime ev L =
     (if \<not> is_so (event_name ev) then L
      else case ev of
          Changed n \<Rightarrow> snd (plugin_loader_reload dl mtime (plugin_path L n) L)
        | Deleted n \<Rightarrow>
            (let i = find_plugin_by_path (plugin_path L n) L
             in if loaded_at i L then snd (plugin_loader_unload (lp_name (pl_plugins L ! the i)) L) else L)
        | OtherEvent n \<Rightarrow> L)"

definition plugin_loader_check_updates ::
    "linker \<Rightarrow> (string \<Rightarrow> int) \<Rightarrow> fs_event list \<Rightarrow> ('c, 'w) plugin_loader \<Rightarrow> ('c, 'w) plugin_loader" where
  "plugin_loader_check_updates dl mtime evs L =
     (if \<not> pl_inotify L then L else fold (handle_event dl mtime) evs L)"

definition shutdown_slot :: "nat \<Rightarrow> ('c, 'w) plugin_loader \<Rightarrow> ('c, 'w) plugin_loader" where
  "shutdown_slot i L =
     (if lp_loaded (pl_plugins L ! i) then snd (plugin_loader_unload (lp_name (pl_plugins L ! i)) L) else L)"

definition plugin_loader_shutdown :: "('c, 'w) plugin_loader \<Rightarrow> ('c, 'w) plugin_loader" where
  "plugin_loader_shutdown L =
     (let L1 = (if pl_inotify L then L\<lparr>pl_inotify := False\<rparr> else L)
      in fold shutdown_slot [0..<length (pl_plugins L1)] L1)"

definition plugin_loader_count :: "('c, 'w) plugin_loader \<Rightarrow> nat" where
  "plugin_loader_count L = length (filter lp_loaded (pl_plugins L))"

section \<open>Invariant: loader, linker and registry agree\<close>

definition loaded_services :: "loaded_plugin list \<Rightarrow> nat multiset" where
  "loaded_services ps = mset (map lp_service (filter lp_loaded ps))"

definition loader_inv :: "('c, 'w) plugin_loader \<Rightarrow> bool" where
  "loader_inv L \<longleftrightarrow> length (pl_plugins L) \<le> MAX_PLUGINS \<and> sm_inv (pl_mgr L) \<and>
     mset (registered (pl_mgr L)) = loaded_services (pl_plugins L) \<and>
     (\<forall>p \<in> set (pl_plugins L). lp_handle p = lp_loaded p \<and> length (lp_path p) < 512 \<and> length (lp_name p) < 64) \<and>
     pl_handles L = length (filter lp_loaded (pl_plugins L))"

lemma find_index_Some: "find_index P xs = Some i \<Longrightarrow> i < length xs \<and> P (xs ! i) \<and> (\<forall>j < i. \<not> P (xs ! j))"
proof (induction xs arbitrary: i)
  case (Cons x xs)
  show ?case
  proof (cases "P x")
    case False
    then obtain k where "find_index P xs = Some k" "i = Suc k" using Cons.prems by auto
    then show ?thesis using Cons.IH[of k] False by (auto simp: nth_Cons split: nat.splits)
  qed (use Cons.prems in auto)
qed simp

lemma find_index_None: "find_index P xs = None \<longleftrightarrow> (\<forall>x \<in> set xs. \<not> P x)"
  by (induction xs) auto

lemma find_index_first: "i < length xs \<Longrightarrow> P (xs ! i) \<Longrightarrow> (\<And>j. j < i \<Longrightarrow> \<not> P (xs ! j)) \<Longrightarrow> find_index P xs = Some i"
proof (induction xs arbitrary: i)
  case (Cons x xs)
  show ?case
  proof (cases i)
    case (Suc k)
    have "\<not> P x" using Cons.prems(3)[of 0] Suc by simp
    moreover have "\<not> P (xs ! j)" if "j < k" for j using Cons.prems(3)[of "Suc j"] that Suc by simp
    then have "find_index P xs = Some k" using Cons.prems(1,2) Suc by (intro Cons.IH) simp_all
    ultimately show ?thesis using Suc by simp
  qed (use Cons.prems in simp)
qed simp

lemma loaded_services_simps [simp]:
  "loaded_services [] = {#}"
  "loaded_services (ps @ qs) = loaded_services ps + loaded_services qs"
  "loaded_services (p # ps) = (if lp_loaded p then add_mset (lp_service p) (loaded_services ps) else loaded_services ps)"
  by (simp_all add: loaded_services_def)

text \<open>Splitting the table at a slot.\<close>

lemma slot_split:
  assumes "i < length ps"
  obtains a b where "ps = a @ ps ! i # b" "\<And>q. ps[i := q] = a @ q # b" "length a = i"
  using assms that[of "take i ps" "drop (Suc i) ps"] by (simp add: upd_conv_take_nth_drop id_take_nth_drop[symmetric])

lemma loader_inv_load:
  assumes "loader_inv L"
  shows "loader_inv (snd (plugin_loader_load dl mtime path L))"
proof -
  let ?e = "find_plugin_by_path path L"
  show ?thesis
  proof (cases "loaded_at ?e L \<or> length (pl_plugins L) \<ge> MAX_PLUGINS \<or> dl path = None \<or> dl path = Some None")
    case True
    then show ?thesis using assms by (auto simp: plugin_loader_load_def Let_def)
  next
    case False
    then obtain info where info: "dl path = Some (Some info)" by auto
    obtain r m where rm: "svc_manager_register (pi_service info) (pl_mgr L) = (r, m)" by fastforce
    have sm: "sm_inv (pl_mgr L)" using assms by (simp add: loader_inv_def)
    from registry_refines_aux[OF sm, of "pi_service info"] rm
    have m: "sm_inv m" "r \<le> 0" "registered m = (if r = 0 then registered (pl_mgr L) @ [pi_service info] else registered (pl_mgr L))"
      by auto
    have fail: "loader_inv (L\<lparr>pl_mgr := m\<rparr>)" if "r < 0"
      using assms that m by (simp add: loader_inv_def)
    define slot where "slot = \<lparr>lp_path = bounded_copy 512 path, lp_name = bounded_copy 64 (pi_name info),
      lp_handle = True, lp_service = pi_service info, lp_mtime = mtime path, lp_loaded = True\<rparr>"
    define ps where "ps = (case ?e of Some i \<Rightarrow> (pl_plugins L)[i := slot] | None \<Rightarrow> pl_plugins L @ [slot])"
    have slot: "lp_handle slot" "lp_loaded slot" "lp_service slot = pi_service info"
      "length (lp_path slot) < 512" "length (lp_name slot) < 64"
      by (simp_all add: slot_def length_bounded_copy)
    have ps: "length ps \<le> MAX_PLUGINS" "loaded_services ps = add_mset (pi_service info) (loaded_services (pl_plugins L))"
      "length (filter lp_loaded ps) = Suc (length (filter lp_loaded (pl_plugins L)))"
      "set ps \<subseteq> insert slot (set (pl_plugins L))"
    proof -
      have "length ps \<le> MAX_PLUGINS \<and> loaded_services ps = add_mset (pi_service info) (loaded_services (pl_plugins L)) \<and>
        length (filter lp_loaded ps) = Suc (length (filter lp_loaded (pl_plugins L))) \<and> set ps \<subseteq> insert slot (set (pl_plugins L))"
      proof (cases ?e)
        case None
        then show ?thesis using False slot by (auto simp: ps_def)
      next
        case (Some i)
        then have i: "i < length (pl_plugins L)" "\<not> lp_loaded (pl_plugins L ! i)"
          using False find_index_Some by (auto simp: find_plugin_by_path_def loaded_at_def)
        obtain a b where ab: "pl_plugins L = a @ pl_plugins L ! i # b" "\<And>q. (pl_plugins L)[i := q] = a @ q # b"
          using slot_split[OF i(1)] by metis
        have "loaded_services (pl_plugins L) = loaded_services a + loaded_services b"
          "length (filter lp_loaded (pl_plugins L)) = length (filter lp_loaded a) + length (filter lp_loaded b)"
          by (subst ab(1), simp add: i(2))+
        then show ?thesis using False slot set_update_subset_insert[of "pl_plugins L" i slot]
          by (simp add: ps_def Some) (simp add: ab(2))
      qed
      then show "length ps \<le> MAX_PLUGINS" "loaded_services ps = add_mset (pi_service info) (loaded_services (pl_plugins L))"
        "length (filter lp_loaded ps) = Suc (length (filter lp_loaded (pl_plugins L)))"
        "set ps \<subseteq> insert slot (set (pl_plugins L))" by simp_all
    qed
    have ok: "loader_inv (L\<lparr>pl_mgr := m, pl_handles := pl_handles L + 1, pl_plugins := ps\<rparr>)" if "\<not> r < 0"
    proof -
      have "r = 0" using that m(2) by simp
      then show ?thesis using assms m ps slot by (auto simp: loader_inv_def)
    qed
    show ?thesis
      using assms fail ok False
      by (simp add: plugin_loader_load_def Let_def info rm ps_def[unfolded slot_def, symmetric])
  qed
qed

lemma loader_inv_unload:
  assumes "loader_inv L"
  shows "loader_inv (snd (plugin_loader_unload name L))"
proof (cases "find_plugin_by_name name L")
  case None
  then show ?thesis using assms by (simp add: plugin_loader_unload_def)
next
  case (Some i)
  show ?thesis
  proof (cases "lp_loaded (pl_plugins L ! i)")
    case False
    then show ?thesis using assms Some by (simp add: plugin_loader_unload_def)
  next
    case True
    let ?p = "pl_plugins L ! i" and ?m = "pl_mgr L"
    let ?q = "?p\<lparr>lp_handle := False, lp_loaded := False\<rparr>"
    have i: "i < length (pl_plugins L)" using Some find_index_Some by (auto simp: find_plugin_by_name_def)
    obtain a b where ab: "pl_plugins L = a @ ?p # b" "\<And>q. (pl_plugins L)[i := q] = a @ q # b"
      using slot_split[OF i] by metis
    have inv: "sm_inv ?m" "mset (registered ?m) = loaded_services (pl_plugins L)" using assms by (simp_all add: loader_inv_def)
    have s: "loaded_services (pl_plugins L) = add_mset (lp_service ?p) (loaded_services a + loaded_services b)"
      "length (filter lp_loaded (pl_plugins L)) = Suc (length (filter lp_loaded a) + length (filter lp_loaded b))"
      by (subst ab(1), simp add: True)+
    have m: "sm_inv (snd (svc_manager_unregister (lp_service ?p) ?m))"
      "registered (snd (svc_manager_unregister (lp_service ?p) ?m)) = remove1 (lp_service ?p) (registered ?m)"
      using registry_refines_aux[OF inv(1), of "lp_service ?p"] by (auto split: prod.splits)
    have "mset (remove1 (lp_service ?p) (registered ?m)) = loaded_services a + loaded_services b"
      using inv(2) s(1) by simp
    moreover have "lp_handle ?p" "length (lp_path ?p) < 512" "length (lp_name ?p) < 64"
      using assms i True by (auto simp: loader_inv_def)
    moreover have "\<forall>p \<in> set a \<union> set b. lp_handle p = lp_loaded p \<and> length (lp_path p) < 512 \<and> length (lp_name p) < 64"
      using assms by (subst (asm) loader_inv_def, subst (asm) (3) ab(1)) auto
    moreover have "length (a @ ?q # b) = length (pl_plugins L)" by (subst (2) ab(1)) simp
    ultimately show ?thesis
      using assms Some True m s(2)
      by (auto simp: plugin_loader_unload_def Let_def loader_inv_def ab(2))
  qed
qed

lemma loader_inv_reload: "loader_inv L \<Longrightarrow> loader_inv (snd (plugin_loader_reload dl mtime path L))"
  by (simp add: plugin_loader_reload_def Let_def loader_inv_load loader_inv_unload)

lemma loader_inv_event: "loader_inv L \<Longrightarrow> loader_inv (handle_event dl mtime ev L)"
  by (cases ev) (simp_all add: handle_event_def Let_def loader_inv_reload loader_inv_unload)

lemma loader_inv_events: "loader_inv L \<Longrightarrow> loader_inv (fold (handle_event dl mtime) evs L)"
  by (induction evs arbitrary: L) (simp_all add: loader_inv_event)

lemma loader_inv_entries: "loader_inv L \<Longrightarrow> loader_inv (snd (load_entries dl mtime es n L))"
proof (induction dl mtime es n L rule: load_entries.induct)
  case (2 dl mtime e es n L)
  then show ?case using loader_inv_load[OF 2(3), of dl mtime "plugin_path L e"] by (auto split: prod.splits)
qed simp

lemma loader_inv_flags [simp]:
  "loader_inv (L\<lparr>pl_inotify := b\<rparr>) = loader_inv L" "loader_inv (L\<lparr>pl_watch := c\<rparr>) = loader_inv L"
  "loader_inv (L\<lparr>pl_running := d\<rparr>) = loader_inv L"
  by (simp_all add: loader_inv_def)

lemma loader_inv_slots: "loader_inv L \<Longrightarrow> loader_inv (fold shutdown_slot is L)"
  by (induction "is" arbitrary: L) (simp_all add: shutdown_slot_def loader_inv_unload)

section \<open>Reachable states\<close>

text \<open>
  The states of the loader after its initialisation over an empty registry, in an environment (linker and modification
  times) that may change between any two calls.
\<close>

inductive loader_reach :: "('c, 'w) plugin_loader \<Rightarrow> bool" where
  init: "sm_inv m \<Longrightarrow> registered m = [] \<Longrightarrow> loader_reach (plugin_loader_init cfg m)"
| load: "loader_reach L \<Longrightarrow> loader_reach (snd (plugin_loader_load dl mtime path L))"
| unload: "loader_reach L \<Longrightarrow> loader_reach (snd (plugin_loader_unload name L))"
| reload: "loader_reach L \<Longrightarrow> loader_reach (snd (plugin_loader_reload dl mtime path L))"
| load_all: "loader_reach L \<Longrightarrow> loader_reach (snd (plugin_loader_load_all dl mtime dir L))"
| watch: "loader_reach L \<Longrightarrow> loader_reach (snd (plugin_loader_start_watcher i w L))"
| updates: "loader_reach L \<Longrightarrow> loader_reach (plugin_loader_check_updates dl mtime evs L)"
| shutdown: "loader_reach L \<Longrightarrow> loader_reach (plugin_loader_shutdown L)"

lemma loader_reach_inv: "loader_reach L \<Longrightarrow> loader_inv L"
proof (induction rule: loader_reach.induct)
  case (init m cfg)
  then show ?case by (simp add: plugin_loader_init_def loader_inv_def)
next
  case (load_all L dl mtime dir)
  then show ?case by (cases dir) (simp_all add: plugin_loader_load_all_def loader_inv_entries)
qed (simp_all add: loader_inv_load loader_inv_unload loader_inv_reload loader_inv_events loader_inv_slots
    plugin_loader_start_watcher_def plugin_loader_check_updates_def plugin_loader_shutdown_def Let_def)

text \<open>
  C1 (agreement). In every reachable state, whatever was loaded, reloaded, deleted or failed, the loader's loaded plugins
  are exactly the registered services, the library handles it keeps open are as many, and the tables are within
  their bounds: at most sixteen plugins are ever loaded, in at most sixty-four slots.
\<close>

theorem loader_agrees_with_registry:
  assumes "loader_reach L"
  shows "svc_manager_count (pl_mgr L) = int (plugin_loader_count L) \<and> pl_handles L = plugin_loader_count L \<and>
    mset (registered (pl_mgr L)) = loaded_services (pl_plugins L) \<and>
    plugin_loader_count L \<le> 16 \<and> length (pl_plugins L) \<le> 64"
proof -
  have inv: "loader_inv L" by (rule loader_reach_inv[OF assms])
  then have "mset (registered (pl_mgr L)) = mset (map lp_service (filter lp_loaded (pl_plugins L)))"
    by (simp only: loader_inv_def loaded_services_def)
  then have "length (registered (pl_mgr L)) = plugin_loader_count L"
    unfolding plugin_loader_count_def by (metis length_map mset_eq_length)
  then have "sm_count (pl_mgr L) = plugin_loader_count L"
    using inv length_registered[of "pl_mgr L"] by (simp add: loader_inv_def)
  then show ?thesis using inv
    by (auto simp: loader_inv_def svc_manager_count_def plugin_loader_count_def sm_inv_def MAX_SERVICES_def MAX_PLUGINS_def)
qed

definition empty_mgr :: "(unit, int) svc_manager" where
  "empty_mgr = demo_manager\<lparr>sm_count := 0\<rparr>"

definition demo_linker :: linker where
  "demo_linker = (\<lambda>p. if p = ''/p/a.so'' \<or> p = ''/p/b.so''
     then Some (Some \<lparr>pi_api_version = 1, pi_name = ''d'', pi_service = 0\<rparr>) else None)"

definition demo_loader :: "(unit, int) plugin_loader" where
  "demo_loader = plugin_loader_init (config_init_defaults\<lparr>plugin_dir := ''/p''\<rparr>) empty_mgr"

lemma demo_loader_reach: "loader_reach demo_loader"
  unfolding demo_loader_def
  by (rule loader_reach.init)
    (simp_all add: empty_mgr_def sm_inv_def demo_manager_def MAX_SERVICES_def registered_def)

text \<open>A plugin is loaded as \<open>a.so\<close>, deleted, and installed again as \<open>b.so\<close>.\<close>

definition renamed :: "(unit, int) plugin_loader" where
  "renamed = handle_event demo_linker (\<lambda>p. 0) (Changed ''b.so'')
     (handle_event demo_linker (\<lambda>p. 0) (Deleted ''a.so'')
       (handle_event demo_linker (\<lambda>p. 0) (Changed ''a.so'') demo_loader))"

lemmas demo_simps = renamed_def handle_event_def is_so_def plugin_path_def demo_loader_def plugin_loader_init_def
  config_init_defaults_def bounded_copy_def plugin_loader_reload_def find_plugin_by_path_def find_plugin_by_name_def
  plugin_loader_load_def plugin_loader_unload_def demo_linker_def loaded_at_def empty_mgr_def demo_manager_def
  demo_service_def svc_manager_register_def svc_manager_unregister_def destroy_one_def registered_def shift_down_def
  MAX_PLUGINS_def MAX_SERVICES_def PLUGIN_API_VERSION_def plugin_loader_count_def

lemma renamed_state:
  "plugin_loader_count renamed = 1 \<and> map lp_path (pl_plugins renamed) = [''/p/a.so'', ''/p/b.so''] \<and>
   map lp_name (pl_plugins renamed) = [''d'', ''d''] \<and> map lp_loaded (pl_plugins renamed) = [False, True]"
  by (simp add: demo_simps Let_def)

theorem loader_agrees_with_registry_witness:
  "svc_manager_count (pl_mgr (plugin_loader_shutdown demo_loader)) = 0"
proof -
  have "loader_reach (plugin_loader_shutdown demo_loader)" by (rule loader_reach.shutdown[OF demo_loader_reach])
  from loader_agrees_with_registry[OF this] show ?thesis
    by (simp add: plugin_loader_shutdown_def demo_loader_def plugin_loader_init_def plugin_loader_count_def)
qed

section \<open>Hot reload\<close>


lemma unregister_effect:
  assumes "sm_inv m" "s \<in> set (registered m)"
  shows "\<exists>m'. svc_manager_unregister s m = (0, m') \<and> sm_inv m' \<and> registered m' = remove1 s (registered m) \<and>
    sm_world m' = destroy_world m [s] (sm_world m) \<and> sm_store m' = sm_store m \<and> sm_config m' = sm_config m"
proof -
  obtain r m' where m': "svc_manager_unregister s m = (r, m')" by fastforce
  have "sm_store m' = sm_store m" "sm_config m' = sm_config m"
    using m' by (auto simp: svc_manager_unregister_def Let_def split: option.splits)
  then show ?thesis using registry_refines_aux[OF assms(1), of s] m' assms(2) by (simp add: destroy_one_world)
qed

lemma loaded_slot:
  assumes "loader_inv L" "i < length (pl_plugins L)" "lp_loaded (pl_plugins L ! i)"
  shows "lp_service (pl_plugins L ! i) \<in> set (registered (pl_mgr L))" "lp_handle (pl_plugins L ! i)" "0 < pl_handles L"
    "bounded_copy 512 (lp_path (pl_plugins L ! i)) = lp_path (pl_plugins L ! i)"
    "bounded_copy 64 (lp_name (pl_plugins L ! i)) = lp_name (pl_plugins L ! i)"
proof -
  let ?p = "pl_plugins L ! i"
  have p: "?p \<in> set (pl_plugins L)" using assms(2) by simp
  then have "lp_service ?p \<in># mset (registered (pl_mgr L))"
    using assms(1,3) by (auto simp: loader_inv_def loaded_services_def)
  then show "lp_service ?p \<in> set (registered (pl_mgr L))" by simp
  show "lp_handle ?p" using assms(1,3) p by (simp add: loader_inv_def)
  show "bounded_copy 512 (lp_path ?p) = lp_path ?p" "bounded_copy 64 (lp_name ?p) = lp_name ?p"
    using assms(1) p by (auto simp: loader_inv_def bounded_copy_def)
  show "0 < pl_handles L" using assms(1,3) p length_pos_if_in_set[of ?p "filter lp_loaded (pl_plugins L)"] by (simp add: loader_inv_def)
qed

text \<open>An unload of a loaded plugin that the search by name finds.\<close>

lemma unload_effect:
  assumes "loader_inv L" "find_plugin_by_name (lp_name (pl_plugins L ! i)) L = Some i" "lp_loaded (pl_plugins L ! i)"
  shows "\<exists>m. plugin_loader_unload (lp_name (pl_plugins L ! i)) L = (0, L\<lparr>pl_mgr := m, pl_handles := pl_handles L - 1,
        pl_plugins := (pl_plugins L)[i := (pl_plugins L ! i)\<lparr>lp_handle := False, lp_loaded := False\<rparr>]\<rparr>) \<and> sm_inv m \<and>
      registered m = remove1 (lp_service (pl_plugins L ! i)) (registered (pl_mgr L)) \<and>
      sm_world m = destroy_world (pl_mgr L) [lp_service (pl_plugins L ! i)] (sm_world (pl_mgr L)) \<and>
      sm_store m = sm_store (pl_mgr L) \<and> sm_config m = sm_config (pl_mgr L)"
proof -
  have i: "i < length (pl_plugins L)" using assms(2) find_index_Some by (auto simp: find_plugin_by_name_def)
  have "sm_inv (pl_mgr L)" using assms(1) by (simp add: loader_inv_def)
  from unregister_effect[OF this loaded_slot(1)[OF assms(1) i assms(3)]] obtain m where
    "svc_manager_unregister (lp_service (pl_plugins L ! i)) (pl_mgr L) = (0, m)" "sm_inv m"
    "registered m = remove1 (lp_service (pl_plugins L ! i)) (registered (pl_mgr L))"
    "sm_world m = destroy_world (pl_mgr L) [lp_service (pl_plugins L ! i)] (sm_world (pl_mgr L))"
    "sm_store m = sm_store (pl_mgr L)" "sm_config m = sm_config (pl_mgr L)" by blast
  then show ?thesis using assms(2,3) loaded_slot(2)[OF assms(1) i assms(3)]
    by (intro exI[of _ m]) (simp add: plugin_loader_unload_def Let_def)
qed



text \<open>
  Also (reload with a full table). When all sixty-four slots are in use, reloading a loaded plugin unloads it and then fails: the
  capacity is checked before the plugin's own slot is considered.
\<close>

theorem reload_when_full:
  assumes "length (pl_plugins L) = 64" and "find_plugin_by_path path L = Some i" and "lp_loaded (pl_plugins L ! i)"
    and "find_plugin_by_name (lp_name (pl_plugins L ! i)) L = Some i"
  shows "fst (plugin_loader_reload dl mtime path L) = -1 \<and>
    plugin_loader_count (snd (plugin_loader_reload dl mtime path L)) + 1 = plugin_loader_count L"
proof -
  let ?p = "pl_plugins L ! i"
  let ?q = "?p\<lparr>lp_handle := False, lp_loaded := False\<rparr>"
  define L1 where "L1 = snd (plugin_loader_unload (lp_name ?p) L)"
  have i: "i < length (pl_plugins L)" "lp_path ?p = path"
    using assms(2) find_index_Some by (auto simp: find_plugin_by_path_def)
  have L1: "pl_plugins L1 = (pl_plugins L)[i := ?q]"
    using assms(3,4) by (simp add: L1_def plugin_loader_unload_def Let_def)
  have "find_index (\<lambda>p. lp_path p = path) ((pl_plugins L)[i := ?q]) = Some i"
    using find_index_Some[OF assms(2)[unfolded find_plugin_by_path_def]] i by (intro find_index_first) auto
  then have "\<not> loaded_at (find_plugin_by_path path L1) L1"
    using i(1) by (simp add: find_plugin_by_path_def loaded_at_def L1)
  then have "plugin_loader_load dl mtime path L1 = (-1, L1)"
    using assms(1) L1 by (simp add: plugin_loader_load_def Let_def MAX_PLUGINS_def)
  moreover have "plugin_loader_reload dl mtime path L = plugin_loader_load dl mtime path L1"
    using assms(2,3) by (simp add: plugin_loader_reload_def loaded_at_def L1_def Let_def)
  ultimately have "plugin_loader_reload dl mtime path L = (-1, L1)" by simp
  moreover obtain a b where ab: "pl_plugins L = a @ ?p # b" "\<And>q. (pl_plugins L)[i := q] = a @ q # b"
    using slot_split[OF i(1)] by metis
  moreover have "length (filter lp_loaded (pl_plugins L)) = length (filter lp_loaded a) + Suc (length (filter lp_loaded b))"
    by (subst ab(1)) (simp add: assms(3))
  ultimately show ?thesis by (simp add: plugin_loader_count_def L1)
qed

definition full_loader :: "(unit, int) plugin_loader" where
  "full_loader = demo_loader\<lparr>pl_plugins :=
     \<lparr>lp_path = ''/p/a.so'', lp_name = ''d'', lp_handle = True, lp_service = 0, lp_mtime = 0, lp_loaded = True\<rparr> #
     replicate 63 \<lparr>lp_path = ''old'', lp_name = ''old'', lp_handle = False, lp_service = 1, lp_mtime = 0, lp_loaded = False\<rparr>\<rparr>"

theorem reload_when_full_witness:
  "fst (plugin_loader_reload demo_linker (\<lambda>p. 0) ''/p/a.so'' full_loader) = -1"
  using reload_when_full[of full_loader "''/p/a.so''" 0 demo_linker "\<lambda>p. 0"]
  by (simp add: full_loader_def find_plugin_by_path_def find_plugin_by_name_def)

text \<open>
  Also (a plugin that came back under another file name). When the first slot with a plugin's name is one that was unloaded,
  the loaded plugin in a later slot can be neither unloaded nor replaced: its reload reports success without
  opening the new file, and the deletion of its file changes nothing.
\<close>

theorem shadowed_plugin_stuck:
  assumes "find_plugin_by_name (lp_name (pl_plugins L ! j)) L = Some i" and "\<not> lp_loaded (pl_plugins L ! i)"
    and "find_plugin_by_path (plugin_path L file) L = Some j" and "lp_loaded (pl_plugins L ! j)" and "is_so file"
  shows "plugin_loader_unload (lp_name (pl_plugins L ! j)) L = (-1, L) \<and>
    plugin_loader_reload dl mtime (plugin_path L file) L = (0, L) \<and>
    handle_event dl mtime (Changed file) L = L \<and> handle_event dl mtime (Deleted file) L = L"
  using assms
  by (simp add: plugin_loader_unload_def plugin_loader_reload_def handle_event_def plugin_loader_load_def loaded_at_def Let_def)

theorem shadowed_plugin_stuck_witness:
  "loader_reach renamed \<and> plugin_loader_count (handle_event demo_linker (\<lambda>p. 0) (Deleted ''b.so'') renamed) = 1"
proof
  show "loader_reach renamed"
    unfolding renamed_def handle_event_def
    by (auto simp: Let_def intro!: loader_reach.reload loader_reach.unload demo_loader_reach)
  have "find_plugin_by_name (lp_name (pl_plugins renamed ! 1)) renamed = Some 0" "\<not> lp_loaded (pl_plugins renamed ! 0)"
    "find_plugin_by_path (plugin_path renamed ''b.so'') renamed = Some 1" "lp_loaded (pl_plugins renamed ! 1)" "is_so ''b.so''"
    by (simp_all add: demo_simps Let_def)
  from shadowed_plugin_stuck[OF this, of demo_linker "\<lambda>p. 0"] renamed_state
  show "plugin_loader_count (handle_event demo_linker (\<lambda>p. 0) (Deleted ''b.so'') renamed) = 1" by simp
qed

section \<open>Shutdown\<close>

text \<open>The slots the shutdown finds by their name: the first of each name, if its plugin is loaded.\<close>

definition first_named :: "loaded_plugin list \<Rightarrow> nat \<Rightarrow> bool" where
  "first_named ps i \<longleftrightarrow> (\<forall>j < i. lp_name (ps ! j) \<noteq> lp_name (ps ! i))"

definition closing :: "loaded_plugin list \<Rightarrow> nat list" where
  "closing ps = filter (\<lambda>i. lp_loaded (ps ! i) \<and> first_named ps i) [0..<length ps]"

definition shadowed :: "loaded_plugin list \<Rightarrow> nat list" where
  "shadowed ps = filter (\<lambda>i. lp_loaded (ps ! i) \<and> \<not> first_named ps i) [0..<length ps]"

definition closed_slot :: "loaded_plugin \<Rightarrow> loaded_plugin" where
  "closed_slot p = p\<lparr>lp_handle := False, lp_loaded := False\<rparr>"

text \<open>The loader after the first \<open>k\<close> slots of the loop of the shutdown.\<close>

definition part_closed :: "('c, 'w) plugin_loader \<Rightarrow> nat \<Rightarrow> ('c, 'w) plugin_loader \<Rightarrow> bool" where
  "part_closed L k K \<longleftrightarrow> pl_plugins K = map (\<lambda>i. if i < k \<and> i \<in> set (closing (pl_plugins L)) then closed_slot (pl_plugins L ! i)
       else pl_plugins L ! i) [0..<length (pl_plugins L)] \<and> sm_store (pl_mgr K) = sm_store (pl_mgr L) \<and> pl_inotify K = pl_inotify L \<and>
     sm_world (pl_mgr K) = destroy_world (pl_mgr L) (map (\<lambda>i. lp_service (pl_plugins L ! i)) (filter (\<lambda>i. i < k) (closing (pl_plugins L)))) (sm_world (pl_mgr L))"

lemma closing_iff: "i \<in> set (closing ps) \<longleftrightarrow> i < length ps \<and> lp_loaded (ps ! i) \<and> first_named ps i"
  by (auto simp: closing_def)

lemma closing_prefix:
  "filter (\<lambda>i. i < Suc k) (closing ps) = filter (\<lambda>i. i < k) (closing ps) @ (if k \<in> set (closing ps) then [k] else [])"
proof -
  have "filter (\<lambda>i. i < Suc k) (filter P [0..<n]) = filter (\<lambda>i. i < k) (filter P [0..<n]) @ (if k < n \<and> P k then [k] else [])" for P n
    by (induction n) (auto simp: less_Suc_eq)
  from this[of "\<lambda>i. lp_loaded (ps ! i) \<and> first_named ps i" "length ps"] show ?thesis
    unfolding closing_iff by (simp add: closing_def[symmetric])
qed

lemma part_closed_step:
  assumes "loader_inv K" "part_closed L k K" "k < length (pl_plugins L)"
  shows "part_closed L (Suc k) (shutdown_slot k K)"
proof -
  let ?ps = "pl_plugins L" and ?qs = "pl_plugins K"
  have len: "length ?qs = length ?ps" using assms(2) by (simp add: part_closed_def)
  have q: "?qs ! j = (if j < k \<and> j \<in> set (closing ?ps) then closed_slot (?ps ! j) else ?ps ! j)" if "j < length ?ps" for j
    using assms(2) that by (simp add: part_closed_def)
  have name: "lp_name (?qs ! j) = lp_name (?ps ! j)" if "j < length ?ps" for j using q[OF that] by (simp add: closed_slot_def)
  have k: "?qs ! k = ?ps ! k" using q[OF assms(3)] by simp
  show ?thesis
  proof (cases "k \<in> set (closing ?ps)")
    case True
    then have l: "lp_loaded (?qs ! k)" "first_named ?ps k" using k by (auto simp: closing_iff)
    have "find_plugin_by_name (lp_name (?qs ! k)) K = Some k"
      unfolding find_plugin_by_name_def using assms(3) len l(2) name by (intro find_index_first) (auto simp: first_named_def)
    from unload_effect[OF assms(1) this l(1)] obtain m where
      m: "plugin_loader_unload (lp_name (?qs ! k)) K = (0, K\<lparr>pl_mgr := m, pl_handles := pl_handles K - 1, pl_plugins := ?qs[k := closed_slot (?qs ! k)]\<rparr>)"
        "sm_world m = destroy_world (pl_mgr K) [lp_service (?qs ! k)] (sm_world (pl_mgr K))" "sm_store m = sm_store (pl_mgr K)"
      unfolding closed_slot_def by blast
    have "destroy_world (pl_mgr K) = destroy_world (pl_mgr L)" by (rule destroy_world_cong) (use assms(2) in \<open>simp add: part_closed_def\<close>)
    moreover have "?qs[k := closed_slot (?qs ! k)] = map (\<lambda>i. if i < Suc k \<and> i \<in> set (closing ?ps) then closed_slot (?ps ! i) else ?ps ! i) [0..<length ?ps]"
    proof (rule nth_equalityI)
      fix j
      assume "j < length (?qs[k := closed_slot (?qs ! k)])"
      then show "?qs[k := closed_slot (?qs ! k)] ! j =
          map (\<lambda>i. if i < Suc k \<and> i \<in> set (closing ?ps) then closed_slot (?ps ! i) else ?ps ! i) [0..<length ?ps] ! j"
        using True q[of j] k len by (cases "j = k") (simp_all add: less_Suc_eq)
    qed (simp add: len)
    moreover have "sm_store (pl_mgr K) = sm_store (pl_mgr L)" "pl_inotify K = pl_inotify L"
      "sm_world (pl_mgr K) = destroy_world (pl_mgr L) (map (\<lambda>i. lp_service (?ps ! i)) (filter (\<lambda>i. i < k) (closing ?ps))) (sm_world (pl_mgr L))"
      using assms(2) by (simp_all add: part_closed_def)
    ultimately show ?thesis
      using m l(1) k True by (simp add: part_closed_def shutdown_slot_def closing_prefix)
  next
    case False
    have "shutdown_slot k K = K"
    proof (cases "lp_loaded (?ps ! k)")
      case True
      then have "\<exists>j < k. lp_name (?ps ! j) = lp_name (?ps ! k)" using False assms(3) by (auto simp: closing_iff first_named_def)
      then obtain j where j: "j < k" "lp_name (?ps ! j) = lp_name (?ps ! k)" "\<forall>i < j. lp_name (?ps ! i) \<noteq> lp_name (?ps ! k)"
        using exists_least_iff[of "\<lambda>j. j < k \<and> lp_name (?ps ! j) = lp_name (?ps ! k)"] by auto
      then have "find_plugin_by_name (lp_name (?qs ! k)) K = Some j"
        unfolding find_plugin_by_name_def using assms(3) len name k by (intro find_index_first) auto
      moreover have "first_named ?ps j" using j by (simp add: first_named_def)
      then have "\<not> lp_loaded (?qs ! j)" using q[of j] j(1) assms(3) by (auto simp: closing_iff closed_slot_def)
      ultimately show ?thesis by (simp add: shutdown_slot_def plugin_loader_unload_def)
    qed (simp add: shutdown_slot_def k)
    moreover have "map (\<lambda>i. if i < Suc k \<and> i \<in> set (closing ?ps) then closed_slot (?ps ! i) else ?ps ! i) [0..<length ?ps] = ?qs"
    proof (rule nth_equalityI)
      fix j
      assume "j < length (map (\<lambda>i. if i < Suc k \<and> i \<in> set (closing ?ps) then closed_slot (?ps ! i) else ?ps ! i) [0..<length ?ps])"
      then show "map (\<lambda>i. if i < Suc k \<and> i \<in> set (closing ?ps) then closed_slot (?ps ! i) else ?ps ! i) [0..<length ?ps] ! j = ?qs ! j"
        using False q[of j] by (cases "j = k") (simp_all add: less_Suc_eq)
    qed (simp add: len)
    ultimately show ?thesis using assms(2) False by (simp add: part_closed_def closing_prefix)
  qed
qed

lemma part_closed_fold:
  assumes "loader_inv L" "k \<le> length (pl_plugins L)"
  shows "loader_inv (fold shutdown_slot [0..<k] L) \<and> part_closed L k (fold shutdown_slot [0..<k] L)"
  using assms(2)
proof (induction k)
  case 0
  have "map (\<lambda>i. pl_plugins L ! i) [0..<length (pl_plugins L)] = pl_plugins L" by (rule map_nth)
  then show ?case using assms(1) by (simp add: part_closed_def)
next
  case (Suc k)
  then show ?case using part_closed_step[of "fold shutdown_slot [0..<k] L" L k] loader_inv_slots[OF assms(1), of "[0..<Suc k]"] by simp
qed

lemma shadowed_left:
  assumes "ps' = map (\<lambda>i. if i \<in> set (closing ps) then closed_slot (ps ! i) else ps ! i) [0..<length ps]"
  shows "filter lp_loaded ps' = map ((!) ps) (shadowed ps)"
proof -
  have "filter lp_loaded (map (\<lambda>i. if P i then closed_slot (ps ! i) else ps ! i) is) = map ((!) ps) (filter (\<lambda>i. lp_loaded (ps ! i) \<and> \<not> P i) is)" for P "is"
    by (induction "is") (auto simp: closed_slot_def)
  then have "filter lp_loaded ps' = map ((!) ps) (filter (\<lambda>i. lp_loaded (ps ! i) \<and> i \<notin> set (closing ps)) [0..<length ps])"
    unfolding assms .
  also have "filter (\<lambda>i. lp_loaded (ps ! i) \<and> i \<notin> set (closing ps)) [0..<length ps] = shadowed ps"
    unfolding shadowed_def by (intro filter_cong) (auto simp: closing_iff)
  finally show ?thesis .
qed

lemma loader_shutdown_effect:
  fixes L :: "('c, 'w) plugin_loader"
  assumes "loader_inv L"
  defines "ps \<equiv> pl_plugins L" and "L' \<equiv> plugin_loader_shutdown L"
  shows "\<not> pl_inotify L' \<and>
    pl_plugins L' = map (\<lambda>i. if i \<in> set (closing ps) then (ps ! i)\<lparr>lp_handle := False, lp_loaded := False\<rparr> else ps ! i) [0..<length ps] \<and>
    sm_world (pl_mgr L') = destroy_world (pl_mgr L) (map (\<lambda>i. lp_service (ps ! i)) (closing ps)) (sm_world (pl_mgr L)) \<and>
    mset (registered (pl_mgr L')) = mset (map (\<lambda>i. lp_service (ps ! i)) (shadowed ps)) \<and>
    pl_handles L' = length (shadowed ps) \<and> (distinct (map lp_name ps) \<longrightarrow> shadowed ps = []) \<and>
    sm_store (pl_mgr L') = sm_store (pl_mgr L) \<and> mset (closing ps @ shadowed ps) = mset (filter (\<lambda>i. lp_loaded (ps ! i)) [0..<length ps])"
proof -
  define L1 where "L1 = L\<lparr>pl_inotify := False\<rparr>"
  have L1: "loader_inv L1" "pl_plugins L1 = ps" "pl_mgr L1 = pl_mgr L" "\<not> pl_inotify L1" "(if pl_inotify L then L\<lparr>pl_inotify := False\<rparr> else L) = L1"
    using assms(1) by (simp_all add: L1_def ps_def)
  have L': "L' = fold shutdown_slot [0..<length (pl_plugins L1)] L1" by (simp add: L'_def plugin_loader_shutdown_def L1(5))
  have inv: "loader_inv L'" and part: "part_closed L1 (length (pl_plugins L1)) L'"
    using part_closed_fold[OF L1(1), of "length (pl_plugins L1)"] unfolding L' by simp_all
  have all: "filter (\<lambda>i. i < length ps) (closing ps) = closing ps" by (rule filter_True) (simp add: closing_iff)
  have pl: "pl_plugins L' = map (\<lambda>i. if i \<in> set (closing ps) then closed_slot (ps ! i) else ps ! i) [0..<length ps]"
    using part unfolding part_closed_def L1(2) by (auto intro!: map_cong)
  have left: "filter lp_loaded (pl_plugins L') = map ((!) ps) (shadowed ps)" by (rule shadowed_left[OF pl])
  have "mset (registered (pl_mgr L')) = mset (map (\<lambda>i. lp_service (ps ! i)) (shadowed ps))" "pl_handles L' = length (shadowed ps)"
    using inv unfolding loader_inv_def loaded_services_def left by (simp_all add: o_def)
  moreover have "sm_world (pl_mgr L') = destroy_world (pl_mgr L) (map (\<lambda>i. lp_service (ps ! i)) (closing ps)) (sm_world (pl_mgr L))"
    "\<not> pl_inotify L'"
    using part unfolding part_closed_def L1(2,3) all using L1(4) by simp_all
  moreover have "first_named ps i" if "distinct (map lp_name ps)" "i < length ps" for i
    using that by (auto simp: first_named_def distinct_conv_nth)
  then have "distinct (map lp_name ps) \<longrightarrow> shadowed ps = []" by (auto simp: shadowed_def filter_empty_conv)
  moreover have "sm_store (pl_mgr L') = sm_store (pl_mgr L)" using part unfolding part_closed_def L1(3) by simp
  moreover have "mset (filter P xs @ filter (\<lambda>x. \<not> P x) xs) = mset xs" for P and xs :: "nat list"
    by (simp add: multiset_partition)
  from this[of "first_named ps" "filter (\<lambda>i. lp_loaded (ps ! i)) [0..<length ps]"]
  have "mset (closing ps @ shadowed ps) = mset (filter (\<lambda>i. lp_loaded (ps ! i)) [0..<length ps])"
    by (simp add: closing_def shadowed_def filter_filter conj_commute)
  ultimately show ?thesis using pl by (simp add: closed_slot_def)
qed

text \<open>
  C38 (shutdown). Shutting the loader down stops the watch, and unloads exactly the loaded plugins that are in the first slot of their name, in
  the order of the slots: each has its service destroyed and unregistered and its library closed. A plugin in a later slot of
  the same name, as one that came back under another file name, is skipped: its service stays registered and its library
  open. When no two slots have the same name, nothing stays.
\<close>

theorem loader_shutdown_complete:
  fixes L :: "('c, 'w) plugin_loader"
  assumes "loader_inv L"
  defines "ps \<equiv> pl_plugins L" and "L' \<equiv> plugin_loader_shutdown L"
  shows "\<not> pl_inotify L' \<and>
    pl_plugins L' = map (\<lambda>i. if i \<in> set (closing ps) then (ps ! i)\<lparr>lp_handle := False, lp_loaded := False\<rparr> else ps ! i) [0..<length ps] \<and>
    sm_world (pl_mgr L') = destroy_world (pl_mgr L) (map (\<lambda>i. lp_service (ps ! i)) (closing ps)) (sm_world (pl_mgr L)) \<and>
    mset (registered (pl_mgr L')) = mset (map (\<lambda>i. lp_service (ps ! i)) (shadowed ps)) \<and>
    pl_handles L' = length (shadowed ps) \<and> (distinct (map lp_name ps) \<longrightarrow> shadowed ps = [])"
  unfolding L'_def ps_def using loader_shutdown_effect[OF assms(1)] by blast

text \<open>A plugin that is shut down, and one that came back under another name and stays.\<close>

theorem loader_shutdown_complete_witness:
  "pl_handles (plugin_loader_shutdown (snd (plugin_loader_load demo_linker (\<lambda>p. 0) ''/p/a.so'' demo_loader))) = 0 \<and>
   pl_handles (plugin_loader_shutdown renamed) = 1"
proof -
  let ?L = "snd (plugin_loader_load demo_linker (\<lambda>p. 0) ''/p/a.so'' demo_loader)"
  have "loader_inv ?L" by (rule loader_reach_inv[OF loader_reach.load[OF demo_loader_reach]])
  moreover have "distinct (map lp_name (pl_plugins ?L))" by (simp add: demo_simps Let_def)
  moreover have "loader_reach renamed"
    unfolding renamed_def handle_event_def
    by (auto simp: Let_def intro!: loader_reach.reload loader_reach.unload demo_loader_reach)
  then have "loader_inv renamed" by (rule loader_reach_inv)
  moreover have "length (pl_plugins renamed) = 2" "lp_name (pl_plugins renamed ! 0) = ''d''" "lp_name (pl_plugins renamed ! 1) = ''d''"
    "lp_loaded (pl_plugins renamed ! 1)" "\<not> lp_loaded (pl_plugins renamed ! 0)"
    using renamed_state by (auto simp: map_eq_Cons_conv nth_Cons')
  then have "shadowed (pl_plugins renamed) = [1]"
    by (auto simp: shadowed_def first_named_def upt_rec numeral_2_eq_2)
  ultimately show ?thesis using loader_shutdown_complete[of ?L] loader_shutdown_complete[of renamed] by simp
qed

end
