(* ===== verification/PidHash.thy ===== *)
theory PidHash
  imports Prelude
begin

text \<open>
  The table of processes that \<open>procmem.c\<close>, \<open>cpuload.c\<close> and \<open>procevent.c\<close> each contain: a pool of cells that is filled
  from the start in every round, and two arrays of chains over it, for the current and for the previous round. Pointers
  are pool indices. A traversal follows \<open>next\<close> pointers for as long as there are any, so it is a partial function: \<open>None\<close>
  is a loop that does not end.
\<close>

section \<open>Cells, chains, rounds\<close>

record 'v cell =
  c_pid :: int
  c_val :: 'v
  c_next :: "nat option"

record 'v ptable =
  pt_pool :: "nat \<Rightarrow> 'v cell"
  pt_idx :: nat
  pt_cur :: "nat \<Rightarrow> nat option"
  pt_prev :: "nat \<Rightarrow> nat option"

text \<open>\<open>(unsigned int)pid % HASH_SIZE\<close>.\<close>

definition hash_pid :: "nat \<Rightarrow> int \<Rightarrow> nat" where
  "hash_pid N pid = nat (pid mod 4294967296) mod N"

definition alloc_entry :: "nat \<Rightarrow> 'v ptable \<Rightarrow> (nat \<times> 'v ptable) option" where
  "alloc_entry capacity t =
     (if pt_idx t \<ge> capacity then None else Some (pt_idx t, t\<lparr>pt_idx := pt_idx t + 1\<rparr>))"

partial_function (option) find_chain :: "(nat \<Rightarrow> 'v cell) \<Rightarrow> int \<Rightarrow> nat option \<Rightarrow> nat option option" where
  "find_chain pool pid e =
     (case e of
        None \<Rightarrow> Some None
      | Some i \<Rightarrow> if c_pid (pool i) = pid then Some (Some i) else find_chain pool pid (c_next (pool i)))"

definition find_in_hash :: "nat \<Rightarrow> 'v ptable \<Rightarrow> (nat \<Rightarrow> nat option) \<Rightarrow> int \<Rightarrow> nat option option" where
  "find_in_hash N t heads pid = find_chain (pt_pool t) pid (heads (hash_pid N pid))"

text \<open>Insertion of a cell at the head of its chain in the current table.\<close>

definition insert_hash :: "nat \<Rightarrow> nat \<Rightarrow> 'v ptable \<Rightarrow> 'v ptable" where
  "insert_hash N i t =
     (let h = hash_pid N (c_pid (pt_pool t i))
      in t\<lparr>pt_pool := (pt_pool t)(i := (pt_pool t i)\<lparr>c_next := pt_cur t h\<rparr>), pt_cur := (pt_cur t)(h := Some i)\<rparr>)"

text \<open>The start of a round: the chains become the previous ones, the pool is reused from its start.\<close>

definition start_round :: "'v ptable \<Rightarrow> 'v ptable" where
  "start_round t = t\<lparr>pt_prev := pt_cur t, pt_cur := (\<lambda>h. None), pt_idx := 0\<rparr>"

text \<open>Filling an allocated cell and inserting it.\<close>

definition fill_cell :: "nat \<Rightarrow> nat \<Rightarrow> int \<Rightarrow> 'v \<Rightarrow> 'v ptable \<Rightarrow> 'v ptable" where
  "fill_cell N i pid v t =
     insert_hash N i (t\<lparr>pt_pool := (pt_pool t)(i := \<lparr>c_pid = pid, c_val = v, c_next = None\<rparr>)\<rparr>)"

definition empty_table :: "'v \<Rightarrow> 'v ptable" where
  "empty_table v = \<lparr>pt_pool = (\<lambda>i. \<lparr>c_pid = 0, c_val = v, c_next = None\<rparr>), pt_idx = 0,
     pt_cur = (\<lambda>h. None), pt_prev = (\<lambda>h. None)\<rparr>"

section \<open>Traversals end\<close>

text \<open>A pointer of a pool cell always leads to a cell before it, and a current head to an allocated cell.\<close>

definition pt_inv :: "'v ptable \<Rightarrow> bool" where
  "pt_inv t \<longleftrightarrow> (\<forall>i j. c_next (pt_pool t i) = Some j \<longrightarrow> j < i) \<and> (\<forall>h j. pt_cur t h = Some j \<longrightarrow> j < pt_idx t)"

lemma find_chain_returns:
  assumes "\<forall>i j. c_next (pool i) = Some j \<longrightarrow> j < i"
  shows "\<exists>r. find_chain pool pid e = Some r"
proof -
  have "\<exists>r. find_chain pool pid (Some i) = Some r" for i
  proof (induction i rule: less_induct)
    case (less i)
    then show ?case using assms
      by (subst find_chain.simps) (cases "c_next (pool i)"; auto simp: find_chain.simps[of _ _ None])
  qed
  then show ?thesis by (cases e) (simp_all add: find_chain.simps[of _ _ None])
qed

lemma find_in_hash_returns: "pt_inv t \<Longrightarrow> \<exists>r. find_in_hash N t heads pid = Some r"
  unfolding find_in_hash_def by (rule find_chain_returns) (simp add: pt_inv_def)

lemma pt_inv_empty [simp]: "pt_inv (empty_table v)"
  by (simp add: pt_inv_def empty_table_def)

lemma pt_inv_start [simp]: "pt_inv t \<Longrightarrow> pt_inv (start_round t)"
  by (simp add: pt_inv_def start_round_def)

lemma pt_inv_put:
  "pt_inv t \<Longrightarrow> alloc_entry capacity t = Some (i, t1) \<Longrightarrow> pt_inv (fill_cell N i pid v t1)"
  by (auto simp: pt_inv_def alloc_entry_def fill_cell_def insert_hash_def Let_def less_Suc_eq split: if_splits)

text \<open>The cells of a chain whose head is below \<open>k\<close>, in the order of a traversal: the pointers lead downwards.\<close>

fun chain_from :: "(nat \<Rightarrow> 'v cell) \<Rightarrow> nat \<Rightarrow> nat option \<Rightarrow> nat list" where
  "chain_from pool 0 e = []"
| "chain_from pool (Suc k) e = (if e = Some k then k # chain_from pool k (c_next (pool k)) else chain_from pool k e)"

lemma chain_from_None [simp]: "chain_from pool k None = []"
  by (induction k) simp_all

lemma chain_from_bound: "i \<in> set (chain_from pool k e) \<Longrightarrow> i < k"
  by (induction k arbitrary: e) (auto split: if_splits simp: less_Suc_eq)

lemma find_chain_from:
  assumes "\<forall>i j. c_next (pool i) = Some j \<longrightarrow> j < i" and "\<forall>i. e = Some i \<longrightarrow> i < k"
  shows "find_chain pool p e = Some (List.find (\<lambda>i. c_pid (pool i) = p) (chain_from pool k e))"
  using assms(2)
proof (induction k arbitrary: e)
  case 0
  then show ?case by (cases e) (simp_all add: find_chain.simps)
next
  case (Suc k)
  show ?case
  proof (cases "e = Some k")
    case True
    then show ?thesis using Suc.IH[of "c_next (pool k)"] assms(1) by (subst find_chain.simps) simp
  next
    case False
    then show ?thesis using Suc by (auto simp: less_Suc_eq)
  qed
qed

text \<open>
  The cell that the process \<open>p\<close> is compared with: the first of this process on the chain that the table \<open>t\<close> of the round before has for its
  hash value. The pool may have been overwritten in the meantime.
\<close>

definition cell_before :: "nat \<Rightarrow> 'v ptable \<Rightarrow> (nat \<Rightarrow> 'v cell) \<Rightarrow> int \<Rightarrow> nat option" where
  "cell_before N t pool p = List.find (\<lambda>j. c_pid (pool j) = p) (chain_from pool (pt_idx t) (pt_cur t (hash_pid N p)))"

section \<open>What a round leaves behind\<close>

text \<open>The latest position before \<open>k\<close> with a property.\<close>

fun last_pos :: "(nat \<Rightarrow> bool) \<Rightarrow> nat \<Rightarrow> nat option" where
  "last_pos P 0 = None"
| "last_pos P (Suc k) = (if P k then Some k else last_pos P k)"

lemma last_pos_Some: "last_pos P k = Some i \<longleftrightarrow> i < k \<and> P i \<and> (\<forall>j. i < j \<and> j < k \<longrightarrow> \<not> P j)"
  by (induction k) (auto simp: less_Suc_eq)

lemma last_pos_None: "last_pos P k = None \<longleftrightarrow> (\<forall>j < k. \<not> P j)"
  by (induction k) (auto simp: less_Suc_eq)

lemma last_pos_cong: "(\<And>j. j < k \<Longrightarrow> P j = Q j) \<Longrightarrow> last_pos P k = last_pos Q k"
  by (induction k) auto

lemma last_pos_skip: "i \<le> k \<Longrightarrow> (\<And>j. i \<le> j \<Longrightarrow> j < k \<Longrightarrow> \<not> P j) \<Longrightarrow> last_pos P k = last_pos P i"
  by (induction k) (auto simp: le_Suc_eq)

text \<open>The pool is linked like the processes \<open>pids\<close>, stored in this order.\<close>

definition linked :: "nat \<Rightarrow> (nat \<Rightarrow> int) \<Rightarrow> nat \<Rightarrow> (nat \<Rightarrow> 'v cell) \<Rightarrow> bool" where
  "linked N pids n pool \<longleftrightarrow> (\<forall>i < n. c_pid (pool i) = pids i \<and>
     c_next (pool i) = last_pos (\<lambda>j. hash_pid N (pids j) = hash_pid N (pids i)) i)"

lemma find_linked:
  assumes "linked N pids n pool" "k \<le> n"
  shows "find_chain pool p (last_pos (\<lambda>j. hash_pid N (pids j) = hash_pid N p) k) = Some (last_pos (\<lambda>j. pids j = p) k)"
  using assms(2)
proof (induction k rule: less_induct)
  case (less k)
  let ?P = "\<lambda>j. hash_pid N (pids j) = hash_pid N p"
  show ?case
  proof (cases "last_pos ?P k")
    case None
    then have "last_pos (\<lambda>j. pids j = p) k = None" by (auto simp: last_pos_None)
    then show ?thesis using None by (simp add: find_chain.simps)
  next
    case (Some i)
    then have i: "i < k" "?P i" "\<forall>j. i < j \<and> j < k \<longrightarrow> \<not> ?P j" by (simp_all add: last_pos_Some)
    have c: "c_pid (pool i) = pids i" "c_next (pool i) = last_pos ?P i"
      using assms(1) less.prems i by (simp_all add: linked_def)
    show ?thesis
    proof (cases "pids i = p")
      case True
      then have "last_pos (\<lambda>j. pids j = p) k = Some i" using i by (auto simp: last_pos_Some)
      then show ?thesis using Some c True by (simp add: find_chain.simps)
    next
      case False
      have "last_pos (\<lambda>j. pids j = p) k = last_pos (\<lambda>j. pids j = p) i"
      proof (rule last_pos_skip)
        show "i \<le> k" using i(1) by simp
        show "\<not> pids j = p" if "i \<le> j" "j < k" for j
          using i(3)[rule_format, of j] that False by (cases "j = i") auto
      qed
      then show ?thesis using Some c False less.IH[of i] i(1) less.prems
        by (subst find_chain.simps) simp
    qed
  qed
qed

text \<open>Storing a list of processes in a round.\<close>

fun store_all :: "nat \<Rightarrow> nat \<Rightarrow> (int \<times> 'v) list \<Rightarrow> 'v ptable \<Rightarrow> 'v ptable" where
  "store_all N capacity [] t = t"
| "store_all N capacity ((pid, v) # xs) t =
     (case alloc_entry capacity t of
        None \<Rightarrow> t
      | Some (i, t1) \<Rightarrow> store_all N capacity xs (fill_cell N i pid v t1))"

text \<open>The state inside a round that has stored the first \<open>n\<close> of a list.\<close>

definition in_round :: "nat \<Rightarrow> (int \<times> 'v) list \<Rightarrow> nat \<Rightarrow> 'v ptable \<Rightarrow> 'v ptable \<Rightarrow> bool" where
  "in_round N xs n t0 t \<longleftrightarrow> pt_idx t = n \<and> pt_prev t = pt_prev t0 \<and>
     linked N (\<lambda>i. fst (xs ! i)) n (pt_pool t) \<and> (\<forall>i < n. c_val (pt_pool t i) = snd (xs ! i)) \<and>
     (\<forall>i \<ge> n. pt_pool t i = pt_pool t0 i) \<and>
     (\<forall>h. pt_cur t h = last_pos (\<lambda>j. hash_pid N (fst (xs ! j)) = h) n)"

text \<open>This state is determined.\<close>

definition round_table :: "nat \<Rightarrow> (int \<times> 'v) list \<Rightarrow> nat \<Rightarrow> 'v ptable \<Rightarrow> 'v ptable" where
  "round_table N xs n t0 =
     \<lparr>pt_pool = (\<lambda>i. if i < n then \<lparr>c_pid = fst (xs ! i), c_val = snd (xs ! i),
          c_next = last_pos (\<lambda>j. hash_pid N (fst (xs ! j)) = hash_pid N (fst (xs ! i))) i\<rparr> else pt_pool t0 i),
      pt_idx = n, pt_cur = (\<lambda>h. last_pos (\<lambda>j. hash_pid N (fst (xs ! j)) = h) n), pt_prev = pt_prev t0\<rparr>"

lemma in_round_table: "in_round N xs n t0 t \<longleftrightarrow> t = round_table N xs n t0"
proof
  assume r: "in_round N xs n t0 t"
  have "pt_pool t i = pt_pool (round_table N xs n t0) i" for i
    using r by (cases "i < n") (auto simp: in_round_def linked_def round_table_def intro!: cell.equality)
  then show "t = round_table N xs n t0"
    using r by (intro ptable.equality ext) (simp_all add: in_round_def round_table_def)
qed (auto simp: in_round_def linked_def round_table_def)

lemma in_round_start: "in_round N xs 0 (start_round t) (start_round t)"
  by (simp add: in_round_def start_round_def linked_def)

lemma in_round_put:
  assumes "in_round N xs n t0 t" "n < capacity" "xs ! n = (pid, v)"
  shows "\<exists>t1. alloc_entry capacity t = Some (n, t1) \<and> in_round N xs (Suc n) t0 (fill_cell N n pid v t1)"
  using assms
  by (auto simp: in_round_def alloc_entry_def fill_cell_def insert_hash_def linked_def Let_def less_Suc_eq)

lemma in_round_find_current:
  assumes "in_round N xs n t0 t"
  shows "find_in_hash N t (pt_cur t) p = Some (last_pos (\<lambda>j. fst (xs ! j) = p) n)"
  using assms find_linked[of N "\<lambda>i. fst (xs ! i)" n "pt_pool t" n p]
  by (simp add: in_round_def find_in_hash_def)

text \<open>
  The previous chains during a round over the same processes: they lead into the pool that the
  round is overwriting, to the same positions.
\<close>

lemma in_round_find_previous:
  assumes old: "in_round N xs (length xs) t0 t1" and new: "in_round N ys n (start_round t1) t"
    and same: "map fst ys = map fst xs" and n: "n \<le> length xs"
  shows "find_in_hash N t (pt_prev t) p = Some (last_pos (\<lambda>j. fst (xs ! j) = p) (length xs))"
proof -
  have len: "length ys = length xs" using same by (metis length_map)
  have fst_eq: "fst (ys ! i) = fst (xs ! i)" if "i < length xs" for i
    using same that len by (metis nth_map)
  have "linked N (\<lambda>i. fst (xs ! i)) (length xs) (pt_pool t)"
    unfolding linked_def
  proof (intro allI impI)
    fix i assume i: "i < length xs"
    let ?P = "\<lambda>zs j. hash_pid N (fst (zs ! j)) = hash_pid N (fst (zs ! i))"
    show "c_pid (pt_pool t i) = fst (xs ! i) \<and> c_next (pt_pool t i) = last_pos (?P xs) i"
    proof (cases "i < n")
      case True
      have "last_pos (?P ys) i = last_pos (?P xs) i"
        using fst_eq i by (intro last_pos_cong) simp
      then show ?thesis using new True i fst_eq by (simp add: in_round_def linked_def)
    next
      case False
      then have "pt_pool t i = pt_pool t1 i" using new by (simp add: in_round_def start_round_def)
      then show ?thesis using old i by (simp add: in_round_def linked_def)
    qed
  qed
  moreover have "pt_prev t = pt_cur t1" using new by (simp add: in_round_def start_round_def)
  moreover have "pt_cur t1 h = last_pos (\<lambda>j. hash_pid N (fst (xs ! j)) = h) (length xs)" for h
    using old by (simp add: in_round_def)
  ultimately show ?thesis
    using find_linked[of N "\<lambda>i. fst (xs ! i)" "length xs" "pt_pool t" "length xs" p]
    by (simp add: find_in_hash_def)
qed

lemma pt_inv_round: "pt_inv t0 \<Longrightarrow> pt_inv (round_table N xs n t0)"
  by (auto simp: pt_inv_def round_table_def last_pos_Some)

lemma in_round_cell_before:
  assumes "pt_inv t" and "in_round N xs n (start_round t) u"
  shows "find_in_hash N u (pt_prev u) p = Some (cell_before N t (pt_pool (round_table N xs n (start_round t))) p)"
proof -
  have u: "u = round_table N xs n (start_round t)" using assms(2) by (simp add: in_round_table)
  have "pt_inv u" unfolding u using assms(1) by (simp add: pt_inv_round)
  then have "\<forall>i j. c_next (pt_pool u i) = Some j \<longrightarrow> j < i" unfolding pt_inv_def by blast
  moreover have "\<forall>j. pt_cur t (hash_pid N p) = Some j \<longrightarrow> j < pt_idx t" using assms(1) by (simp add: pt_inv_def)
  ultimately have "find_chain (pt_pool u) p (pt_cur t (hash_pid N p)) =
      Some (List.find (\<lambda>j. c_pid (pt_pool u j) = p) (chain_from (pt_pool u) (pt_idx t) (pt_cur t (hash_pid N p))))"
    by (rule find_chain_from)
  moreover have "pt_prev u = pt_cur t" unfolding u by (simp add: round_table_def start_round_def)
  ultimately show ?thesis unfolding find_in_hash_def cell_before_def u by simp
qed

lemma last_pos_distinct:
  assumes "distinct (map fst xs)" "n < length xs"
  shows "last_pos (\<lambda>j. fst (xs ! j) = fst (xs ! n)) (length xs) = Some n"
  using assms by (auto simp: last_pos_Some distinct_conv_nth)

end
