(* ===== verification/Sorting.thy ===== *)
theory Sorting
  imports Prelude
begin

text \<open>
  \<open>qsort\<close> and the selection loops over its result. The C library promises a permutation in the order of the
  comparison; \<open>c_qsort\<close> is one such function, and what the services rely on is the contract \<open>qsort_contract\<close>, so
  that nothing depends on how equal elements are ordered.
\<close>

section \<open>Sorting by a comparison function\<close>

fun qinsert :: "('a \<Rightarrow> 'a \<Rightarrow> int) \<Rightarrow> 'a \<Rightarrow> 'a list \<Rightarrow> 'a list" where
  "qinsert cmp x [] = [x]"
| "qinsert cmp x (y # ys) = (if cmp x y \<le> 0 then x # y # ys else y # qinsert cmp x ys)"

definition c_qsort :: "('a \<Rightarrow> 'a \<Rightarrow> int) \<Rightarrow> 'a list \<Rightarrow> 'a list" where
  "c_qsort cmp xs = foldr (qinsert cmp) xs []"

text \<open>A comparison function that orders by a key, the larger one first or the smaller one first.\<close>

definition cmp_desc :: "('a \<Rightarrow> 'k::linorder) \<Rightarrow> 'a \<Rightarrow> 'a \<Rightarrow> int" where
  "cmp_desc f a b = (if f b > f a then 1 else if f b < f a then -1 else 0)"

definition cmp_asc :: "('a \<Rightarrow> 'k::linorder) \<Rightarrow> 'a \<Rightarrow> 'a \<Rightarrow> int" where
  "cmp_asc f a b = (if f a < f b then -1 else if f a > f b then 1 else 0)"

lemma mset_qinsert [simp]: "mset (qinsert cmp x ys) = add_mset x (mset ys)"
  by (induction cmp x ys rule: qinsert.induct) auto

lemma mset_c_qsort [simp]: "mset (c_qsort cmp xs) = mset xs"
  by (induction xs) (simp_all add: c_qsort_def)

lemma set_qinsert [simp]: "set (qinsert cmp x ys) = insert x (set ys)"
  by (induction cmp x ys rule: qinsert.induct) auto

lemma length_c_qsort [simp]: "length (c_qsort cmp xs) = length xs"
  by (metis mset_c_qsort size_mset)

lemma set_c_qsort [simp]: "set (c_qsort cmp xs) = set xs"
  by (metis mset_c_qsort set_mset_mset)

lemma sorted_c_qsort:
  assumes total: "\<And>a b. cmp a b \<le> 0 \<or> cmp b a \<le> 0"
    and trans: "\<And>a b c. cmp a b \<le> 0 \<Longrightarrow> cmp b c \<le> 0 \<Longrightarrow> cmp a c \<le> 0"
  shows "sorted_wrt (\<lambda>a b. cmp a b \<le> 0) (c_qsort cmp xs)"
proof (induction xs)
  case (Cons x xs)
  have "sorted_wrt (\<lambda>a b. cmp a b \<le> 0) ys \<Longrightarrow> sorted_wrt (\<lambda>a b. cmp a b \<le> 0) (qinsert cmp x ys)" for ys
  proof (induction ys)
    case (Cons y ys)
    have "cmp y x \<le> 0" if "\<not> cmp x y \<le> 0" using total[of x y] that by simp
    moreover have "cmp x z \<le> 0" if "cmp x y \<le> 0" "z \<in> set ys" for z
      using trans[OF that(1), of z] Cons.prems that(2) by simp
    ultimately show ?case using Cons by auto
  qed simp
  with Cons show ?case by (simp add: c_qsort_def)
qed (simp add: c_qsort_def)

section \<open>The contract, and selecting the first elements\<close>

text \<open>\<open>before a b\<close>: \<open>a\<close> may stand before \<open>b\<close> in the result.\<close>

locale qsort_contract =
  fixes sort :: "'a list \<Rightarrow> 'a list" and before :: "'a \<Rightarrow> 'a \<Rightarrow> bool"
  assumes permutes: "mset (sort xs) = mset xs"
    and ordered: "sorted_wrt before (sort xs)"
    and before_refl: "before x x"
begin

lemma first_dominate:
  assumes "x \<in> set (take n (filter P (sort xs)))" "y \<in> set xs" "P y"
  shows "y \<in> set (take n (filter P (sort xs))) \<or> before x y"
proof -
  let ?ys = "filter P (sort xs)"
  have "set (sort xs) = set xs" by (metis permutes set_mset_mset)
  then have "y \<in> set (take n ?ys @ drop n ?ys)" using assms(2,3) by simp
  moreover have "sorted_wrt before (take n ?ys @ drop n ?ys)"
    using ordered sorted_wrt_filter[of before "sort xs" P] by simp
  ultimately show ?thesis using assms(1) by (auto simp: sorted_wrt_append simp del: append_take_drop_id)
qed

lemma first_selected: "set (take n (filter P (sort xs))) \<subseteq> {x \<in> set xs. P x}"
proof -
  have "set (sort xs) = set xs" by (metis permutes set_mset_mset)
  then show ?thesis using set_take_subset[of n "filter P (sort xs)"] by auto
qed

lemma first_count: "length (take n (filter P (sort xs))) = min n (length (filter P xs))"
proof -
  have "mset (filter P (sort xs)) = mset (filter P xs)" using permutes[of xs] by simp
  then show ?thesis by (metis length_take min.commute size_mset)
qed

lemma first_ordered: "sorted_wrt before (take n (filter P (sort xs)))"
  using ordered sorted_wrt_filter[of before "sort xs" P] by (simp add: sorted_wrt_take)

end

lemma cmp_desc_le: "cmp_desc f a b \<le> 0 \<longleftrightarrow> f b \<le> f a"
  by (auto simp: cmp_desc_def)

lemma cmp_asc_le: "cmp_asc f a b \<le> 0 \<longleftrightarrow> f a \<le> f b"
  by (auto simp: cmp_asc_def)

interpretation desc: qsort_contract "c_qsort (cmp_desc f)" "\<lambda>a b. f b \<le> f a" for f :: "'a \<Rightarrow> 'k::linorder"
proof
  show "mset (c_qsort (cmp_desc f) xs) = mset xs" for xs by simp
  show "sorted_wrt (\<lambda>a b. f b \<le> f a) (c_qsort (cmp_desc f) xs)" for xs
    using sorted_c_qsort[of "cmp_desc f" xs] by (simp add: cmp_desc_le) (metis linear order_trans)
qed simp

interpretation asc: qsort_contract "c_qsort (cmp_asc f)" "\<lambda>a b. f a \<le> f b" for f :: "'a \<Rightarrow> 'k::linorder"
proof
  show "mset (c_qsort (cmp_asc f) xs) = mset xs" for xs by simp
  show "sorted_wrt (\<lambda>a b. f a \<le> f b) (c_qsort (cmp_asc f) xs)" for xs
    using sorted_c_qsort[of "cmp_asc f" xs] by (simp add: cmp_asc_le) (metis linear order_trans)
qed simp

text \<open>\<open>for (i = 0; i < count && n < max; i++) if (P(a[i])) out[n++] = a[i];\<close>\<close>

fun select_first :: "nat \<Rightarrow> ('a \<Rightarrow> bool) \<Rightarrow> 'a list \<Rightarrow> 'a list" where
  "select_first 0 P xs = []"
| "select_first (Suc n) P [] = []"
| "select_first (Suc n) P (x # xs) = (if P x then x # select_first n P xs else select_first (Suc n) P xs)"

lemma select_first_eq: "select_first n P xs = take n (filter P xs)"
  by (induction n P xs rule: select_first.induct) auto

text \<open>
  The elements a service keeps: they are the best, in order, none is repeated more often than in the input, and
  nothing that was left out is better.
\<close>

definition best :: "nat \<Rightarrow> ('a \<Rightarrow> bool) \<Rightarrow> ('a \<Rightarrow> 'a \<Rightarrow> bool) \<Rightarrow> 'a list \<Rightarrow> 'a list \<Rightarrow> bool" where
  "best n P before xs ys \<longleftrightarrow> length ys = min n (length (filter P xs)) \<and> mset ys \<subseteq># mset (filter P xs) \<and>
     sorted_wrt before ys \<and> (\<forall>x \<in> set ys. \<forall>y \<in> set xs. P y \<longrightarrow> y \<in> set ys \<or> before x y)"

lemma best_c_qsort: "best n P before (c_qsort f xs) ys = best n P before xs ys"
proof -
  have m: "mset (filter P (c_qsort f xs)) = mset (filter P xs)" by simp
  show ?thesis using mset_eq_length[OF m] by (simp add: best_def)
qed

lemma best_desc: "best n P (\<lambda>a b. f b \<le> f a) xs (select_first n P (c_qsort (cmp_desc f) xs))"
proof -
  have "mset (take n (filter P (c_qsort (cmp_desc f) xs))) \<subseteq># mset (filter P (c_qsort (cmp_desc f) xs))"
    by (metis append_take_drop_id mset_append mset_subset_eq_add_left)
  then show ?thesis
    using desc.first_dominate[where f = f and n = n and P = P and xs = xs] desc.first_count[where f = f and n = n and P = P and xs = xs]
      desc.first_ordered[where f = f and n = n and P = P and xs = xs]
    by (auto simp: best_def select_first_eq)
qed

lemma best_asc: "best n P (\<lambda>a b. f a \<le> f b) xs (select_first n P (c_qsort (cmp_asc f) xs))"
proof -
  have "mset (take n (filter P (c_qsort (cmp_asc f) xs))) \<subseteq># mset (filter P (c_qsort (cmp_asc f) xs))"
    by (metis append_take_drop_id mset_append mset_subset_eq_add_left)
  then show ?thesis
    using asc.first_dominate[where f = f and n = n and P = P and xs = xs] asc.first_count[where f = f and n = n and P = P and xs = xs]
      asc.first_ordered[where f = f and n = n and P = P and xs = xs]
    by (auto simp: best_def select_first_eq)
qed

section \<open>Copying results out\<close>

text \<open>The first \<open>max_entries\<close> of a result list; a negative limit is a negative length for \<open>memcpy\<close>, \<open>None\<close>.\<close>

definition copy_top :: "'a list \<Rightarrow> int \<Rightarrow> (int \<times> 'a list) option" where
  "copy_top xs max_entries =
     (let n = (if int (length xs) > max_entries then max_entries else int (length xs))
      in if n < 0 then None else Some (n, take (nat n) xs))"

lemma copy_top_length: "0 \<le> n \<Longrightarrow> copy_top xs n = Some (min n (int (length xs)), take (nat n) xs)"
  by (auto simp: copy_top_def min_def)

end
