(* ===== verification/Procmem.thy ===== *)
theory Procmem
  imports PidHash Sorting ProcUtils JsonObj
begin

text \<open>
  Memory of processes (\<open>src/services/procmem.c\<close>). A collection walks \<open>/proc\<close>, stores every readable process in the table of
  \<open>PidHash\<close>, computes its change against the previous round and keeps the best twelve of three orders. \<open>None\<close> as the result
  of a collection is a traversal that does not end.
\<close>

section \<open>State\<close>

record pm_val =
  pv_rss :: int
  pv_data :: int
  pv_cmd :: string

record procmem_entry =
  pe_pid :: int
  pe_cmd :: string
  pe_rss :: int
  pe_data :: int
  pe_rss_delta :: int
  pe_data_delta :: int

record procmem =
  pm_tab :: "pm_val ptable"
  pm_has_previous :: bool
  pm_growers :: "procmem_entry list"
  pm_shrinkers :: "procmem_entry list"
  pm_top_rss :: "procmem_entry list"

definition PM_HASH :: nat where "PM_HASH = 8192"
definition PM_POOL :: nat where "PM_POOL = 4096 * 2"
definition PM_MAX :: nat where "PM_MAX = 4096"
definition PM_TOP :: nat where "PM_TOP = 12"

definition procmem_init :: procmem where
  "procmem_init = \<lparr>pm_tab = empty_table \<lparr>pv_rss = 0, pv_data = 0, pv_cmd = []\<rparr>, pm_has_previous = False,
     pm_growers = [], pm_shrinkers = [], pm_top_rss = []\<rparr>"

section \<open>Collection\<close>

text \<open>The command text left in the cell: the command line, else the name, else what the cell held before.\<close>

definition entry_cmd :: "proc_fs \<Rightarrow> int \<Rightarrow> string \<Rightarrow> string" where
  "entry_cmd fs pid old =
     (case proc_read_cmdline fs pid 128 of
        Some bs \<Rightarrow> cstr bs
      | None \<Rightarrow> (case proc_read_comm fs pid 128 of Some bs \<Rightarrow> cstr bs | None \<Rightarrow> old))"

text \<open>The user data of the callback: the state and the list of changes.\<close>

definition collect_callback ::
    "proc_fs \<Rightarrow> int \<Rightarrow> (procmem \<times> procmem_entry list) option \<Rightarrow> bool \<times> (procmem \<times> procmem_entry list) option" where
  "collect_callback fs pid ctx =
     (case ctx of
        None \<Rightarrow> (False, None)
      | Some (s, changes) \<Rightarrow>
          (let rss = proc_read_status_kb fs pid ''VmRSS''; data = proc_read_status_kb fs pid ''VmData''
           in if rss < 0 \<or> data < 0 then (True, Some (s, changes))
              else case alloc_entry PM_POOL (pm_tab s) of
                  None \<Rightarrow> (False, Some (s, changes))
                | Some (i, t1) \<Rightarrow>
                    (let cmd = entry_cmd fs pid (pv_cmd (c_val (pt_pool t1 i)));
                         t2 = fill_cell PM_HASH i pid \<lparr>pv_rss = rss, pv_data = data, pv_cmd = cmd\<rparr> t1
                     in case (if pm_has_previous s then find_in_hash PM_HASH t2 (pt_prev t2) pid else Some None) of
                          None \<Rightarrow> (False, None)
                        | Some prev \<Rightarrow>
                            (let rd = (case prev of None \<Rightarrow> 0 | Some j \<Rightarrow> rss - pv_rss (c_val (pt_pool t2 j)));
                                 dd = (case prev of None \<Rightarrow> 0 | Some j \<Rightarrow> data - pv_data (c_val (pt_pool t2 j)));
                                 e = \<lparr>pe_pid = pid, pe_cmd = bounded_copy 128 cmd, pe_rss = rss, pe_data = data,
                                      pe_rss_delta = rd, pe_data_delta = dd\<rparr>
                             in (True, Some (s\<lparr>pm_tab := t2\<rparr>,
                                  if length changes < PM_MAX then changes @ [e] else changes))))))"

definition compare_rss_grower :: "procmem_entry \<Rightarrow> procmem_entry \<Rightarrow> int" where
  "compare_rss_grower ea eb =
     (if pe_rss_delta eb > pe_rss_delta ea then 1 else if pe_rss_delta eb < pe_rss_delta ea then -1 else 0)"

definition compare_rss_shrinker :: "procmem_entry \<Rightarrow> procmem_entry \<Rightarrow> int" where
  "compare_rss_shrinker ea eb =
     (if pe_rss_delta ea < pe_rss_delta eb then -1 else if pe_rss_delta ea > pe_rss_delta eb then 1 else 0)"

definition compare_rss_abs :: "procmem_entry \<Rightarrow> procmem_entry \<Rightarrow> int" where
  "compare_rss_abs ea eb = (if pe_rss eb > pe_rss ea then 1 else if pe_rss eb < pe_rss ea then -1 else 0)"

definition procmem_collect :: "proc_fs \<Rightarrow> string list option \<Rightarrow> procmem \<Rightarrow> procmem option" where
  "procmem_collect fs dir s =
     (case snd (proc_iterate_pids dir (collect_callback fs) (Some (s\<lparr>pm_tab := start_round (pm_tab s)\<rparr>, []))) of
        None \<Rightarrow> None
      | Some (s2, changes) \<Rightarrow>
          (let c1 = c_qsort compare_rss_grower changes;
               c2 = c_qsort compare_rss_shrinker c1;
               c3 = c_qsort compare_rss_abs c2
           in Some (s2\<lparr>pm_growers := select_first PM_TOP (\<lambda>e. pe_rss_delta e > 0) c1,
                       pm_shrinkers := select_first PM_TOP (\<lambda>e. pe_rss_delta e < 0) c2,
                       pm_top_rss := select_first PM_TOP (\<lambda>e. True) c3, pm_has_previous := True\<rparr>)))"

section \<open>Results\<close>

definition delta_obj :: "procmem_entry \<Rightarrow> json_builder \<Rightarrow> json_builder" where
  "delta_obj e = jobj [json_kv_int ''pid'' (pe_pid e), json_kv_string ''cmd'' (Some (pe_cmd e)),
     json_kv_int ''rss_kb'' (pe_rss e), json_kv_int ''data_kb'' (pe_data e),
     json_kv_int ''rss_delta_kb'' (pe_rss_delta e), json_kv_int ''data_delta_kb'' (pe_data_delta e)]"

definition rss_obj :: "procmem_entry \<Rightarrow> json_builder \<Rightarrow> json_builder" where
  "rss_obj e = jobj [json_kv_int ''pid'' (pe_pid e), json_kv_string ''cmd'' (Some (pe_cmd e)),
     json_kv_int ''rss_kb'' (pe_rss e), json_kv_int ''data_kb'' (pe_data e),
     json_kv_int ''rss_delta_kb'' (pe_rss_delta e)]"

definition procmem_snapshot :: "procmem \<Rightarrow> json_builder \<Rightarrow> json_builder" where
  "procmem_snapshot s =
     jobj [jkey ''top_growers'' (jarr [fold delta_obj (pm_growers s)]),
           jkey ''top_shrinkers'' (jarr [fold delta_obj (pm_shrinkers s)]),
           jkey ''top_rss'' (jarr [fold rss_obj (pm_top_rss s)])]"

definition procmem_get_top_growers :: "procmem \<Rightarrow> int \<Rightarrow> (int \<times> procmem_entry list) option" where
  "procmem_get_top_growers s n = copy_top (pm_growers s) n"
definition procmem_get_top_shrinkers :: "procmem \<Rightarrow> int \<Rightarrow> (int \<times> procmem_entry list) option" where
  "procmem_get_top_shrinkers s n = copy_top (pm_shrinkers s) n"
definition procmem_get_top_rss :: "procmem \<Rightarrow> int \<Rightarrow> (int \<times> procmem_entry list) option" where
  "procmem_get_top_rss s n = copy_top (pm_top_rss s) n"

text \<open>The outer option is the outcome, the inner one the result -1.\<close>

definition procmem_get_pid_info :: "procmem \<Rightarrow> int \<Rightarrow> procmem_entry option option" where
  "procmem_get_pid_info s pid =
     (case find_in_hash PM_HASH (pm_tab s) (pt_cur (pm_tab s)) pid of
        None \<Rightarrow> None
      | Some None \<Rightarrow> Some None
      | Some (Some i) \<Rightarrow>
          (let c = pt_pool (pm_tab s) i; v = c_val c
           in case (if pm_has_previous s then find_in_hash PM_HASH (pm_tab s) (pt_prev (pm_tab s)) pid else Some None) of
                None \<Rightarrow> None
              | Some prev \<Rightarrow>
                  Some (Some \<lparr>pe_pid = c_pid c, pe_cmd = bounded_copy 128 (pv_cmd v), pe_rss = pv_rss v, pe_data = pv_data v,
                    pe_rss_delta = (case prev of None \<Rightarrow> 0 | Some j \<Rightarrow> pv_rss v - pv_rss (c_val (pt_pool (pm_tab s) j))),
                    pe_data_delta = (case prev of None \<Rightarrow> 0 | Some j \<Rightarrow> pv_data v - pv_data (c_val (pt_pool (pm_tab s) j)))\<rparr>)))"

section \<open>The walk over the processes\<close>

definition readable :: "proc_fs \<Rightarrow> int \<Rightarrow> bool" where
  "readable fs pid \<longleftrightarrow> 0 \<le> proc_read_status_kb fs pid ''VmRSS'' \<and> 0 \<le> proc_read_status_kb fs pid ''VmData''"

text \<open>The processes a collection stores, in the order of the directory.\<close>

definition stored_pids :: "proc_fs \<Rightarrow> string list option \<Rightarrow> int list" where
  "stored_pids fs dir = (case dir of None \<Rightarrow> [] | Some names \<Rightarrow> filter (readable fs) (pids_of names))"

text \<open>The cells of a round, given the pool it overwrites.\<close>

definition round_cells :: "proc_fs \<Rightarrow> int list \<Rightarrow> pm_val ptable \<Rightarrow> (int \<times> pm_val) list" where
  "round_cells fs P t0 = map (\<lambda>i. (P ! i, \<lparr>pv_rss = proc_read_status_kb fs (P ! i) ''VmRSS'',
     pv_data = proc_read_status_kb fs (P ! i) ''VmData'',
     pv_cmd = entry_cmd fs (P ! i) (pv_cmd (c_val (pt_pool t0 i)))\<rparr>)) [0..<length P]"

lemma round_cells_simps [simp]:
  "length (round_cells fs P t0) = length P" "map fst (round_cells fs P t0) = P"
  by (simp_all add: round_cells_def comp_def map_nth)

lemma round_cells_nth:
  "i < length P \<Longrightarrow> round_cells fs P t0 ! i = (P ! i, \<lparr>pv_rss = proc_read_status_kb fs (P ! i) ''VmRSS'',
     pv_data = proc_read_status_kb fs (P ! i) ''VmData'', pv_cmd = entry_cmd fs (P ! i) (pv_cmd (c_val (pt_pool t0 i)))\<rparr>)"
  by (simp add: round_cells_def)

text \<open>A callback that skips the unreadable processes and advances an invariant over the others.\<close>

lemma iterate_invariant:
  assumes skip: "\<And>pid c. \<not> R pid \<Longrightarrow> cb pid (Some c) = (True, Some c)"
    and step: "\<And>n c. n < length P \<Longrightarrow> Q n c \<Longrightarrow> \<exists>c'. cb (P ! n) (Some c) = (True, Some c') \<and> Q (Suc n) c'"
    and P: "P = pre @ filter R (pids_of names)" and start: "Q (length pre) c"
  shows "\<exists>c'. snd (iterate_names cb names (Some c) k) = Some c' \<and> Q (length P) c'"
  using P start
proof (induction names arbitrary: pre c k)
  case (Cons name names)
  show ?case
  proof (cases "is_pid_name name")
    case False
    then show ?thesis using Cons.IH[of pre c k] Cons.prems by (simp add: pids_of_def)
  next
    case pid: True
    show ?thesis
    proof (cases "R (atoi name)")
      case False
      then show ?thesis using Cons.IH[of pre c "k + 1"] Cons.prems pid skip[OF False] by (simp add: pids_of_def)
    next
      case True
      then have P: "P = (pre @ [atoi name]) @ filter R (pids_of names)" using Cons.prems pid by (simp add: pids_of_def)
      have "length pre < length P" "P ! length pre = atoi name" by (simp_all add: P)
      then obtain c' where c': "cb (atoi name) (Some c) = (True, Some c')" "Q (Suc (length pre)) c'"
        using step[of "length pre" c] Cons.prems(2) by auto
      show ?thesis using Cons.IH[OF P, of c' "k + 1"] c' pid by simp
    qed
  qed
qed (auto simp: pids_of_def)

lemma callback_skip: "\<not> readable fs pid \<Longrightarrow> collect_callback fs pid (Some c) = (True, Some c)"
  by (cases c) (auto simp: collect_callback_def readable_def Let_def)

text \<open>What holds after the first \<open>n\<close> processes of a round over \<open>P\<close>, started with the table \<open>t0\<close>.\<close>

definition walk_inv :: "proc_fs \<Rightarrow> int list \<Rightarrow> procmem \<Rightarrow> nat \<Rightarrow> procmem \<times> procmem_entry list \<Rightarrow> bool" where
  "walk_inv fs P s0 n = (\<lambda>(s, changes).
     in_round PM_HASH (round_cells fs P (pm_tab s0)) n (pm_tab s0) (pm_tab s) \<and> pt_inv (pm_tab s) \<and>
     pm_has_previous s = pm_has_previous s0 \<and>
     map (\<lambda>e. (pe_pid e, pe_rss e, pe_data e)) changes = take (min n PM_MAX)
       (map (\<lambda>p. (p, proc_read_status_kb fs p ''VmRSS'', proc_read_status_kb fs p ''VmData'')) P))"

text \<open>The entry made for process \<open>n\<close>, once its cell is in the table \<open>t\<close>.\<close>

definition entry_for :: "proc_fs \<Rightarrow> int list \<Rightarrow> bool \<Rightarrow> nat \<Rightarrow> pm_val ptable \<Rightarrow> procmem_entry \<Rightarrow> bool" where
  "entry_for fs P has_prev n t e \<longleftrightarrow>
     pe_pid e = P ! n \<and> pe_rss e = proc_read_status_kb fs (P ! n) ''VmRSS'' \<and> pe_data e = proc_read_status_kb fs (P ! n) ''VmData'' \<and>
     (\<exists>prev. (if has_prev then find_in_hash PM_HASH t (pt_prev t) (P ! n) = Some prev else prev = None) \<and>
        pe_rss_delta e = (case prev of None \<Rightarrow> 0 | Some j \<Rightarrow> pe_rss e - pv_rss (c_val (pt_pool t j))) \<and>
        pe_data_delta e = (case prev of None \<Rightarrow> 0 | Some j \<Rightarrow> pe_data e - pv_data (c_val (pt_pool t j))))"

lemma callback_step:
  assumes inv: "walk_inv fs P s0 n (s, changes)" and n: "n < length P" "n < PM_POOL" and r: "readable fs (P ! n)"
  shows "\<exists>t2 e. collect_callback fs (P ! n) (Some (s, changes)) =
      (True, Some (s\<lparr>pm_tab := t2\<rparr>, if length changes < PM_MAX then changes @ [e] else changes)) \<and>
    walk_inv fs P s0 (Suc n) (s\<lparr>pm_tab := t2\<rparr>, if length changes < PM_MAX then changes @ [e] else changes) \<and>
    entry_for fs P (pm_has_previous s0) n t2 e"
proof -
  let ?xs = "round_cells fs P (pm_tab s0)"
  have ir: "in_round PM_HASH ?xs n (pm_tab s0) (pm_tab s)" and pt: "pt_inv (pm_tab s)"
    and hp: "pm_has_previous s = pm_has_previous s0"
    and ch: "map (\<lambda>e. (pe_pid e, pe_rss e, pe_data e)) changes = take (min n PM_MAX)
       (map (\<lambda>p. (p, proc_read_status_kb fs p ''VmRSS'', proc_read_status_kb fs p ''VmData'')) P)"
    using inv by (simp_all add: walk_inv_def)
  obtain t1 where t1: "alloc_entry PM_POOL (pm_tab s) = Some (n, t1)"
    and ir2: "in_round PM_HASH ?xs (Suc n) (pm_tab s0) (fill_cell PM_HASH n (P ! n) (snd (?xs ! n)) t1)"
    using in_round_put[OF ir n(2), of "P ! n" "snd (?xs ! n)"] n(1) by (auto simp: round_cells_nth)
  have old: "pt_pool t1 n = pt_pool (pm_tab s0) n"
    using t1 ir by (auto simp: alloc_entry_def in_round_def split: if_splits)
  define t2 where "t2 = fill_cell PM_HASH n (P ! n) (snd (?xs ! n)) t1"
  have pt2: "pt_inv t2" unfolding t2_def by (rule pt_inv_put[OF pt t1])
  define prev where "prev = (if pm_has_previous s0 then the (find_in_hash PM_HASH t2 (pt_prev t2) (P ! n)) else None)"
  have prev: "(if pm_has_previous s0 then find_in_hash PM_HASH t2 (pt_prev t2) (P ! n) else Some None) = Some prev"
    using find_in_hash_returns[OF pt2, of PM_HASH "pt_prev t2" "P ! n"] by (auto simp: prev_def)
  define e where "e = \<lparr>pe_pid = P ! n, pe_cmd = bounded_copy 128 (pv_cmd (snd (?xs ! n))),
    pe_rss = proc_read_status_kb fs (P ! n) ''VmRSS'', pe_data = proc_read_status_kb fs (P ! n) ''VmData'',
    pe_rss_delta = (case prev of None \<Rightarrow> 0 | Some j \<Rightarrow> proc_read_status_kb fs (P ! n) ''VmRSS'' - pv_rss (c_val (pt_pool t2 j))),
    pe_data_delta = (case prev of None \<Rightarrow> 0 | Some j \<Rightarrow> proc_read_status_kb fs (P ! n) ''VmData'' - pv_data (c_val (pt_pool t2 j)))\<rparr>"
  have v: "snd (?xs ! n) = \<lparr>pv_rss = proc_read_status_kb fs (P ! n) ''VmRSS'', pv_data = proc_read_status_kb fs (P ! n) ''VmData'',
      pv_cmd = entry_cmd fs (P ! n) (pv_cmd (c_val (pt_pool t1 n)))\<rparr>"
    using n(1) by (simp add: round_cells_nth old)
  have t2f: "fill_cell PM_HASH n (P ! n) \<lparr>pv_rss = proc_read_status_kb fs (P ! n) ''VmRSS'',
      pv_data = proc_read_status_kb fs (P ! n) ''VmData'', pv_cmd = entry_cmd fs (P ! n) (pv_cmd (c_val (pt_pool t1 n)))\<rparr> t1 = t2"
    by (simp add: t2_def v)
  have "\<not> (proc_read_status_kb fs (P ! n) ''VmRSS'' < 0 \<or> proc_read_status_kb fs (P ! n) ''VmData'' < 0)"
    using r by (simp add: readable_def)
  then have "collect_callback fs (P ! n) (Some (s, changes)) =
      (True, Some (s\<lparr>pm_tab := t2\<rparr>, if length changes < PM_MAX then changes @ [e] else changes))"
    using t1 prev hp t2f
    by (cases "pm_has_previous s0"; cases prev) (simp_all add: collect_callback_def Let_def e_def v)
  moreover have "length changes = min n PM_MAX" using arg_cong[OF ch, of length] n(1) by simp
  then have "walk_inv fs P s0 (Suc n) (s\<lparr>pm_tab := t2\<rparr>, if length changes < PM_MAX then changes @ [e] else changes)"
    using ir2 pt2 hp ch n(1)
    by (auto simp: walk_inv_def t2_def[symmetric] e_def min_def take_Suc_conv_app_nth)
  moreover have "pe_rss_delta e = (case prev of None \<Rightarrow> 0 | Some j \<Rightarrow> pe_rss e - pv_rss (c_val (pt_pool t2 j)))"
    "pe_data_delta e = (case prev of None \<Rightarrow> 0 | Some j \<Rightarrow> pe_data e - pv_data (c_val (pt_pool t2 j)))"
    "pe_pid e = P ! n" "pe_rss e = proc_read_status_kb fs (P ! n) ''VmRSS''"
    "pe_data e = proc_read_status_kb fs (P ! n) ''VmData''"
    by (cases prev; simp add: e_def)+
  moreover have "if pm_has_previous s0 then find_in_hash PM_HASH t2 (pt_prev t2) (P ! n) = Some prev else prev = None"
    using prev by (simp split: if_splits)
  ultimately show ?thesis unfolding entry_for_def by blast
qed

text \<open>The result of the walk, and of a whole collection.\<close>

lemma readable_stored: "n < length (stored_pids fs dir) \<Longrightarrow> readable fs (stored_pids fs dir ! n)"
proof -
  assume "n < length (stored_pids fs dir)"
  then have "stored_pids fs dir ! n \<in> set (stored_pids fs dir)" by (rule nth_mem)
  then show ?thesis by (auto simp: stored_pids_def split: option.splits)
qed

text \<open>A property of the changes that every step keeps.\<close>

definition keeps :: "proc_fs \<Rightarrow> int list \<Rightarrow> procmem \<Rightarrow> (procmem_entry list \<Rightarrow> bool) \<Rightarrow> bool" where
  "keeps fs P s0 Q \<longleftrightarrow> (\<forall>n s changes t2 c e. n < length P \<longrightarrow> Q changes \<longrightarrow>
     walk_inv fs P s0 (Suc n) (s\<lparr>pm_tab := t2\<rparr>, c) \<longrightarrow> entry_for fs P (pm_has_previous s0) n t2 e \<longrightarrow> Q (changes @ [e]))"

lemma walk_result:
  assumes pt: "pt_inv (pm_tab s0)" and idx: "pt_idx (pm_tab s0) = 0" and cur: "pt_cur (pm_tab s0) = (\<lambda>h. None)"
    and len: "length (stored_pids fs dir) \<le> PM_POOL"
    and Q: "keeps fs (stored_pids fs dir) s0 Q"
    and Q0: "Q []"
  shows "\<exists>s changes. snd (proc_iterate_pids dir (collect_callback fs) (Some (s0, []))) = Some (s, changes) \<and>
    walk_inv fs (stored_pids fs dir) s0 (length (stored_pids fs dir)) (s, changes) \<and> Q changes"
proof -
  let ?P = "stored_pids fs dir"
  have start: "walk_inv fs ?P s0 0 (s0, [])"
    using pt idx cur by (simp add: walk_inv_def in_round_def linked_def)
  show ?thesis
  proof (cases dir)
    case None
    then show ?thesis using start Q0 by (simp add: proc_iterate_pids_def stored_pids_def)
  next
    case (Some names)
    have "\<exists>c'. snd (iterate_names (collect_callback fs) names (Some (s0, [])) 0) = Some c' \<and>
        (walk_inv fs ?P s0 (length ?P) c' \<and> Q (snd c'))"
    proof (rule iterate_invariant[where R = "readable fs" and pre = "[]"])
      fix n c assume n: "n < length ?P" and inv: "walk_inv fs ?P s0 n c \<and> Q (snd c)"
      obtain s changes where c: "c = (s, changes)" by (cases c)
      obtain t2 e where st: "collect_callback fs (?P ! n) (Some (s, changes)) =
          (True, Some (s\<lparr>pm_tab := t2\<rparr>, if length changes < PM_MAX then changes @ [e] else changes))"
        "walk_inv fs ?P s0 (Suc n) (s\<lparr>pm_tab := t2\<rparr>, if length changes < PM_MAX then changes @ [e] else changes)"
        "entry_for fs ?P (pm_has_previous s0) n t2 e"
        using callback_step[of fs ?P s0 n s changes, OF _ n _ readable_stored[OF n]] inv c n len by auto
      have "Q (changes @ [e])" using Q[unfolded keeps_def, rule_format, OF n _ st(2,3)] inv c by simp
      then show "\<exists>c'. collect_callback fs (?P ! n) (Some c) = (True, Some c') \<and> walk_inv fs ?P s0 (Suc n) c' \<and> Q (snd c')"
        using st(1,2) inv c by (auto split: if_splits)
    qed (use start Q0 Some callback_skip in \<open>auto simp: stored_pids_def\<close>)
    then show ?thesis using Some by (auto simp: proc_iterate_pids_def)
  qed
qed

text \<open>The lists made of the changes.\<close>

definition ranked :: "procmem_entry list \<Rightarrow> procmem \<Rightarrow> procmem" where
  "ranked changes s =
     s\<lparr>pm_growers := select_first PM_TOP (\<lambda>e. pe_rss_delta e > 0) (c_qsort compare_rss_grower changes),
       pm_shrinkers := select_first PM_TOP (\<lambda>e. pe_rss_delta e < 0) (c_qsort compare_rss_shrinker (c_qsort compare_rss_grower changes)),
       pm_top_rss := select_first PM_TOP (\<lambda>e. True)
         (c_qsort compare_rss_abs (c_qsort compare_rss_shrinker (c_qsort compare_rss_grower changes))),
       pm_has_previous := True\<rparr>"

lemma collect_result:
  fixes s :: procmem
  defines "s0 \<equiv> s\<lparr>pm_tab := start_round (pm_tab s)\<rparr>"
  assumes pt: "pt_inv (pm_tab s)" and len: "length (stored_pids fs dir) \<le> PM_POOL"
    and Q: "keeps fs (stored_pids fs dir) s0 Q"
    and Q0: "Q []"
  shows "\<exists>s2 changes. procmem_collect fs dir s = Some (ranked changes s2) \<and> Q changes \<and>
    walk_inv fs (stored_pids fs dir) s0 (length (stored_pids fs dir)) (s2, changes)"
proof -
  have s0: "pt_inv (pm_tab s0)" "pt_idx (pm_tab s0) = 0" "pt_cur (pm_tab s0) = (\<lambda>h. None)"
    using pt_inv_start[OF pt] by (simp_all add: s0_def start_round_def)
  obtain s2 changes where "snd (proc_iterate_pids dir (collect_callback fs) (Some (s0, []))) = Some (s2, changes)"
    "walk_inv fs (stored_pids fs dir) s0 (length (stored_pids fs dir)) (s2, changes)" "Q changes"
    using walk_result[OF s0 len Q Q0] by blast
  then show ?thesis unfolding procmem_collect_def s0_def ranked_def by (auto simp: Let_def)
qed

lemma compare_eqs:
  "compare_rss_grower = cmp_desc pe_rss_delta" "compare_rss_shrinker = cmp_asc pe_rss_delta"
  "compare_rss_abs = cmp_desc pe_rss"
  by (intro ext; simp add: compare_rss_grower_def compare_rss_shrinker_def compare_rss_abs_def cmp_desc_def cmp_asc_def)+

section \<open>Properties\<close>

text \<open>The states a service reaches by its operations: the table is well linked.\<close>

definition procmem_inv :: "procmem \<Rightarrow> bool" where
  "procmem_inv s \<longleftrightarrow> pt_inv (pm_tab s) \<and> length (pm_growers s) \<le> PM_TOP \<and> length (pm_shrinkers s) \<le> PM_TOP \<and>
     length (pm_top_rss s) \<le> PM_TOP"

lemma procmem_inv_init: "procmem_inv procmem_init"
  by (simp add: procmem_inv_def procmem_init_def)

lemma collect_inv:
  assumes "procmem_inv s" and "length (stored_pids fs dir) \<le> 8192"
  shows "\<exists>s' changes s2. procmem_collect fs dir s = Some s' \<and> procmem_inv s' \<and> s' = ranked changes s2 \<and>
    walk_inv fs (stored_pids fs dir) (s\<lparr>pm_tab := start_round (pm_tab s)\<rparr>) (length (stored_pids fs dir)) (s2, changes)"
proof -
  obtain s2 changes where c: "procmem_collect fs dir s = Some (ranked changes s2)"
    and w: "walk_inv fs (stored_pids fs dir) (s\<lparr>pm_tab := start_round (pm_tab s)\<rparr>) (length (stored_pids fs dir)) (s2, changes)"
    using collect_result[of s fs dir "\<lambda>c. True"] assms by (auto simp: procmem_inv_def PM_POOL_def keeps_def)
  moreover have "procmem_inv (ranked changes s2)"
    using w by (simp add: ranked_def procmem_inv_def walk_inv_def select_first_eq)
  ultimately show ?thesis by blast
qed

text \<open>
  C10 (collections end and select the best). From every state the service reaches, with at most 8192 readable processes, a collection
  returns: no traversal of the reused pool loops. The changes it compares are those of the first 4096 readable
  processes; each of the three lists is the best twelve of them in its order, and the invariant holds again.
\<close>

theorem procmem_collect_best:
  assumes "procmem_inv s" and "length (stored_pids fs dir) \<le> 8192"
  shows "\<exists>s' changes. procmem_collect fs dir s = Some s' \<and> procmem_inv s' \<and>
    map (\<lambda>e. (pe_pid e, pe_rss e, pe_data e)) changes = take 4096
      (map (\<lambda>p. (p, proc_read_status_kb fs p ''VmRSS'', proc_read_status_kb fs p ''VmData'')) (stored_pids fs dir)) \<and>
    best 12 (\<lambda>e. pe_rss_delta e > 0) (\<lambda>a b. pe_rss_delta b \<le> pe_rss_delta a) changes (pm_growers s') \<and>
    best 12 (\<lambda>e. pe_rss_delta e < 0) (\<lambda>a b. pe_rss_delta a \<le> pe_rss_delta b) changes (pm_shrinkers s') \<and>
    best 12 (\<lambda>e. True) (\<lambda>a b. pe_rss b \<le> pe_rss a) changes (pm_top_rss s')"
proof -
  obtain s2 changes where c: "procmem_collect fs dir s = Some (ranked changes s2)" "procmem_inv (ranked changes s2)"
    and w: "walk_inv fs (stored_pids fs dir) (s\<lparr>pm_tab := start_round (pm_tab s)\<rparr>) (length (stored_pids fs dir)) (s2, changes)"
    using collect_inv[OF assms] by auto
  have "map (\<lambda>e. (pe_pid e, pe_rss e, pe_data e)) changes = take 4096
      (map (\<lambda>p. (p, proc_read_status_kb fs p ''VmRSS'', proc_read_status_kb fs p ''VmData'')) (stored_pids fs dir))"
    using w by (simp add: walk_inv_def PM_MAX_def take_map min_def split: if_splits)
  moreover have "best 12 (\<lambda>e. pe_rss_delta e > 0) (\<lambda>a b. pe_rss_delta b \<le> pe_rss_delta a) changes (pm_growers (ranked changes s2))"
    "best 12 (\<lambda>e. pe_rss_delta e < 0) (\<lambda>a b. pe_rss_delta a \<le> pe_rss_delta b) changes (pm_shrinkers (ranked changes s2))"
    "best 12 (\<lambda>e. True) (\<lambda>a b. pe_rss b \<le> pe_rss a) changes (pm_top_rss (ranked changes s2))"
    using best_desc[of 12 "\<lambda>e. pe_rss_delta e > 0" pe_rss_delta changes]
      best_asc[of 12 "\<lambda>e. pe_rss_delta e < 0" pe_rss_delta "c_qsort (cmp_desc pe_rss_delta) changes"]
      best_desc[of 12 "\<lambda>e. True" pe_rss "c_qsort (cmp_asc pe_rss_delta) (c_qsort (cmp_desc pe_rss_delta) changes)"]
    by (simp_all add: ranked_def compare_eqs PM_TOP_def best_c_qsort)
  ultimately show ?thesis using c by blast
qed

text \<open>
  Also (a stable set of processes never changes). When two successive collections read the same processes, in the same order, the
  second reports no grower and no shrinker and only zero differences, whatever the two readings were: each process is
  compared with its own new cell, because the round overwrites the pool that the previous chains still point into.
\<close>

theorem procmem_stable_zero:
  assumes "procmem_inv s0" and "stored_pids fs1 dir1 = P" and "stored_pids fs2 dir2 = P" and "distinct P" and "length P \<le> 8192"
    and "procmem_collect fs1 dir1 s0 = Some s1" and "procmem_collect fs2 dir2 s1 = Some s2"
  shows "pm_growers s2 = [] \<and> pm_shrinkers s2 = [] \<and>
    (\<forall>e \<in> set (pm_top_rss s2). pe_rss_delta e = 0 \<and> pe_data_delta e = 0)"
proof -
  have len: "length (stored_pids fs1 dir1) \<le> PM_POOL" "length (stored_pids fs2 dir2) \<le> PM_POOL"
    using assms(2,3,5) by (simp_all add: PM_POOL_def)
  obtain r1 c1 where r1: "procmem_collect fs1 dir1 s0 = Some (ranked c1 r1)"
    "walk_inv fs1 P (s0\<lparr>pm_tab := start_round (pm_tab s0)\<rparr>) (length P) (r1, c1)"
    using collect_result[of s0 fs1 dir1 "\<lambda>c. True"] assms(1,2) len(1) by (auto simp: procmem_inv_def keeps_def)
  then have s1: "s1 = ranked c1 r1" using assms(6) by simp
  then have tab1: "pm_tab s1 = pm_tab r1" "pm_has_previous s1" by (simp_all add: ranked_def)
  let ?xs = "round_cells fs1 P (start_round (pm_tab s0))"
  have old: "in_round PM_HASH ?xs (length ?xs) (start_round (pm_tab s0)) (pm_tab s1)" and pt: "pt_inv (pm_tab s1)"
    using r1(2) by (simp_all add: walk_inv_def tab1)
  define z where "z = s1\<lparr>pm_tab := start_round (pm_tab s1)\<rparr>"
  let ?ys = "round_cells fs2 P (pm_tab z)"
  define Q where "Q = (\<lambda>c :: procmem_entry list. \<forall>e \<in> set c. pe_rss_delta e = 0 \<and> pe_data_delta e = 0)"
  have step: "Q (changes @ [e])"
    if n: "n < length P" and Q: "Q changes" and w: "walk_inv fs2 P z (Suc n) (s\<lparr>pm_tab := t2\<rparr>, c)"
      and e: "entry_for fs2 P (pm_has_previous z) n t2 e" for n s changes t2 c e
  proof -
    have new: "in_round PM_HASH ?ys (Suc n) (start_round (pm_tab s1)) t2" using w by (simp add: walk_inv_def z_def)
    have "find_in_hash PM_HASH t2 (pt_prev t2) (P ! n) = Some (last_pos (\<lambda>j. fst (?xs ! j) = P ! n) (length ?xs))"
      using in_round_find_previous[OF old new] n by simp
    also have "\<dots> = Some (Some n)"
      using last_pos_distinct[of ?xs n] assms(4) n by (simp add: round_cells_nth)
    finally have f: "find_in_hash PM_HASH t2 (pt_prev t2) (P ! n) = Some (Some n)" .
    have "c_val (pt_pool t2 n) = snd (?ys ! n)" using new by (simp add: in_round_def)
    then show ?thesis using e f Q n tab1(2)
      by (auto simp: entry_for_def Q_def round_cells_nth z_def)
  qed
  have kq: "keeps fs2 P z Q" unfolding keeps_def using step by blast
  obtain r2 c2 where r2: "procmem_collect fs2 dir2 s1 = Some (ranked c2 r2)" "Q c2"
    using collect_result[OF pt len(2), of Q] assms(3) kq by (auto simp: z_def Q_def)
  have zero: "\<forall>e \<in> set c2. pe_rss_delta e = 0 \<and> pe_data_delta e = 0" using r2(2) by (simp add: Q_def)
  have "s2 = ranked c2 r2" using r2(1) assms(7) by simp
  then show ?thesis using zero
    by (auto simp: ranked_def select_first_eq filter_empty_conv dest!: in_set_takeD)
qed

definition demo_status :: "nat \<Rightarrow> string" where
  "demo_status rss = kv_text [(''VmRSS'', '' '' @ nat_str rss @ '' kB''), (''VmData'', '' 10 kB'')]"

text \<open>Two processes with the given resident sizes.\<close>

definition demo_proc :: "nat \<Rightarrow> nat \<Rightarrow> proc_fs" where
  "demo_proc r1 r2 = [''/proc/1/status'' \<mapsto> (demo_status r1, []), ''/proc/2/status'' \<mapsto> (demo_status r2, [])]"

lemma demo_status_ok:
  "kv_ok [(''VmRSS'', '' '' @ nat_str r @ '' kB''), (''VmData'', '' 10 kB'')] \<and>
   (\<forall>(k, v) \<in> set [(''VmRSS'', '' '' @ nat_str r @ '' kB''), (''VmData'', '' 10 kB'')]. plain_num v)"
proof -
  have n: "LF \<notin> set (nat_str r)" "NUL \<notin> set (nat_str r)" using nat_str_digits by (fastforce simp: isdigit_def)+
  obtain c cs where "nat_str r = c # cs" "isdigit c" using nat_str_hd by blast
  then have "plain_num ('' '' @ nat_str r @ '' kB'')" using n isdigit_not_isspace[of c] by (simp add: plain_num_def isspace_def)
  moreover have "plain_num '' 10 kB''" by (simp add: plain_num_def isspace_def)
  ultimately show ?thesis using n by (simp add: kv_ok_def)
qed

lemma demo_status_read:
  assumes "int r \<le> INT64_MAX" and "fs (status_path pid) = Some (demo_status r, [])"
  shows "proc_read_status_kb fs pid ''VmRSS'' = int r \<and> proc_read_status_kb fs pid ''VmData'' = 10"
proof -
  let ?kvs = "[(''VmRSS'', '' '' @ nat_str r @ '' kB''), (''VmData'', '' 10 kB'')]"
  have "nat r' < 10 ^ 19" if "int r = r'" for r' using assms(1) that by simp
  then have "length (nat_str r) \<le> 19" using nat_str_length[of r 19] assms(1) by simp
  then have len: "length (kv_text ?kvs) < 4096" by simp
  have l: "proc_read_status_kb fs pid f = (case map_of ?kvs f of None \<Rightarrow> -1 | Some v \<Rightarrow> strtoll v)" if "CHR '':'' \<notin> set f" for f
    using assms(2) demo_status_ok[of r] len that
    by (intro proc_read_status_kb_map[of fs pid _ "[]"]) (simp_all add: demo_status_def)
  have "strtoll '' 10 kB'' = 10"
    by (simp add: strtoll_def isspace_def isdigit_def clamp64_def digit_val_def Let_def)
  then show ?thesis using l[of "''VmRSS''"] l[of "''VmData''"] strtoll_space_nat[OF assms(1), of "'' kB''"]
    by (simp add: isdigit_def)
qed

lemma demo_proc_stored:
  assumes "int r1 \<le> INT64_MAX" "int r2 \<le> INT64_MAX"
  shows "stored_pids (demo_proc r1 r2) (Some [''1'', ''self'', ''2'']) = [1, 2]"
proof -
  have p: "status_path 1 = ''/proc/1/status''" "status_path 2 = ''/proc/2/status''"
    by (simp_all add: status_path_def int_str_def nat_str.simps)
  then have "demo_proc r1 r2 (status_path 1) = Some (demo_status r1, [])" "demo_proc r1 r2 (status_path 2) = Some (demo_status r2, [])"
    by (simp_all add: demo_proc_def)
  then have "readable (demo_proc r1 r2) 1" "readable (demo_proc r1 r2) 2"
    using demo_status_read assms by (simp_all add: readable_def)
  then show ?thesis
    by (simp add: stored_pids_def pids_of_def is_pid_name_def isdigit_def atoi_def strtoll_def isspace_def digit_val_def
        clamp64_def to_int32_def)
qed

theorem procmem_collect_best_witness:
  "\<exists>s'. procmem_collect (demo_proc 5 7) (Some [''1'', ''self'', ''2'']) procmem_init = Some s' \<and> length (pm_top_rss s') = 2"
proof -
  have "length (stored_pids (demo_proc 5 7) (Some [''1'', ''self'', ''2''])) \<le> 8192" by (simp add: demo_proc_stored)
  from procmem_collect_best[OF procmem_inv_init this] obtain s' changes where
    "procmem_collect (demo_proc 5 7) (Some [''1'', ''self'', ''2'']) procmem_init = Some s'"
    "map (\<lambda>e. (pe_pid e, pe_rss e, pe_data e)) changes = take 4096
      (map (\<lambda>p. (p, proc_read_status_kb (demo_proc 5 7) p ''VmRSS'', proc_read_status_kb (demo_proc 5 7) p ''VmData''))
        (stored_pids (demo_proc 5 7) (Some [''1'', ''self'', ''2''])))"
    "best 12 (\<lambda>e. True) (\<lambda>a b. pe_rss b \<le> pe_rss a) changes (pm_top_rss s')" by blast
  moreover from arg_cong[OF this(2), of length] have "length changes = 2" by (simp add: demo_proc_stored)
  ultimately show ?thesis by (auto simp: best_def)
qed

theorem procmem_stable_zero_witness:
  "\<exists>s1 s2. procmem_collect (demo_proc 5 7) (Some [''1'', ''self'', ''2'']) procmem_init = Some s1 \<and>
     procmem_collect (demo_proc 500000 7) (Some [''1'', ''self'', ''2'']) s1 = Some s2 \<and> pm_growers s2 = []"
proof -
  let ?d = "Some [''1'', ''self'', ''2'']"
  have l: "length (stored_pids (demo_proc 5 7) ?d) \<le> 8192" "length (stored_pids (demo_proc 500000 7) ?d) \<le> 8192"
    by (simp_all add: demo_proc_stored)
  obtain s1 where s1: "procmem_collect (demo_proc 5 7) ?d procmem_init = Some s1" "procmem_inv s1"
    using collect_inv[OF procmem_inv_init l(1)] by blast
  obtain s2 where s2: "procmem_collect (demo_proc 500000 7) ?d s1 = Some s2" using collect_inv[OF s1(2) l(2)] by blast
  have "pm_growers s2 = []"
    using procmem_stable_zero[OF procmem_inv_init _ _ _ _ s1(1) s2, of "[1, 2]"] by (simp add: demo_proc_stored)
  then show ?thesis using s1 s2 by blast
qed

text \<open>
  Also (information on one process). After a collection, \<open>procmem_get_pid_info\<close> gives the reading of every process the
  collection stored, and -1 for every other; its traversals end.
\<close>

theorem procmem_pid_info:
  assumes "procmem_inv s" and "length (stored_pids fs dir) \<le> 8192" and "procmem_collect fs dir s = Some s'"
  shows "(if pid \<in> set (stored_pids fs dir)
    then \<exists>e. procmem_get_pid_info s' pid = Some (Some e) \<and> pe_pid e = pid \<and>
      pe_rss e = proc_read_status_kb fs pid ''VmRSS'' \<and> pe_data e = proc_read_status_kb fs pid ''VmData''
    else procmem_get_pid_info s' pid = Some None)"
proof -
  let ?P = "stored_pids fs dir" and ?t0 = "start_round (pm_tab s)"
  let ?xs = "round_cells fs ?P ?t0"
  obtain changes s2 where s': "s' = ranked changes s2" "procmem_inv s'"
    and w: "walk_inv fs ?P (s\<lparr>pm_tab := ?t0\<rparr>) (length ?P) (s2, changes)"
    using collect_inv[OF assms(1,2)] assms(3) by auto
  have tab: "pm_tab s' = pm_tab s2" "pm_has_previous s'" by (simp_all add: s' ranked_def)
  have ir: "in_round PM_HASH ?xs (length ?P) ?t0 (pm_tab s')" using w by (simp add: walk_inv_def tab)
  have f: "find_in_hash PM_HASH (pm_tab s') (pt_cur (pm_tab s')) pid = Some (last_pos (\<lambda>j. fst (?xs ! j) = pid) (length ?P))"
    by (rule in_round_find_current[OF ir])
  obtain prev where prev: "find_in_hash PM_HASH (pm_tab s') (pt_prev (pm_tab s')) pid = Some prev"
    using s'(2) find_in_hash_returns[of "pm_tab s'" PM_HASH "pt_prev (pm_tab s')" pid] by (auto simp: procmem_inv_def)
  show ?thesis
  proof (cases "pid \<in> set ?P")
    case False
    then have "last_pos (\<lambda>j. fst (?xs ! j) = pid) (length ?P) = None"
      by (auto simp: last_pos_None round_cells_nth in_set_conv_nth)
    then show ?thesis using False f by (simp add: procmem_get_pid_info_def)
  next
    case True
    then have "last_pos (\<lambda>j. fst (?xs ! j) = pid) (length ?P) \<noteq> None"
      by (auto simp: last_pos_None round_cells_nth in_set_conv_nth)
    then obtain i where i: "last_pos (\<lambda>j. fst (?xs ! j) = pid) (length ?P) = Some i" by blast
    then have "i < length ?P" "fst (?xs ! i) = pid" by (simp_all add: last_pos_Some)
    then have c: "c_pid (pt_pool (pm_tab s') i) = pid" "c_val (pt_pool (pm_tab s') i) = snd (?xs ! i)"
      "pv_rss (snd (?xs ! i)) = proc_read_status_kb fs pid ''VmRSS''" "pv_data (snd (?xs ! i)) = proc_read_status_kb fs pid ''VmData''"
      using ir by (auto simp: in_round_def linked_def round_cells_nth)
    show ?thesis using True f i prev c tab(2) by (simp add: procmem_get_pid_info_def Let_def)
  qed
qed

theorem procmem_pid_info_witness:
  "\<exists>s' e. procmem_collect (demo_proc 5 7) (Some [''1'', ''self'', ''2'']) procmem_init = Some s' \<and>
     procmem_get_pid_info s' 2 = Some (Some e) \<and> pe_rss e = 7"
proof -
  let ?d = "Some [''1'', ''self'', ''2'']"
  have l: "length (stored_pids (demo_proc 5 7) ?d) \<le> 8192" by (simp add: demo_proc_stored)
  obtain s1 where s1: "procmem_collect (demo_proc 5 7) ?d procmem_init = Some s1"
    using collect_inv[OF procmem_inv_init l] by blast
  have "status_path 2 = ''/proc/2/status''" by (simp add: status_path_def int_str_def nat_str.simps)
  then have "proc_read_status_kb (demo_proc 5 7) 2 ''VmRSS'' = 7"
    using demo_status_read[of 7 "demo_proc 5 7" 2] by (simp add: demo_proc_def)
  then show ?thesis using procmem_pid_info[OF procmem_inv_init l s1, of 2] s1 by (auto simp: demo_proc_stored)
qed

section \<open>The snapshot\<close>

definition delta_tree :: "procmem_entry \<Rightarrow> jval" where
  "delta_tree e = JObj [(''pid'', JInt (pe_pid e)), (''cmd'', JStr (pe_cmd e)), (''rss_kb'', JInt (pe_rss e)),
     (''data_kb'', JInt (pe_data e)), (''rss_delta_kb'', JInt (pe_rss_delta e)), (''data_delta_kb'', JInt (pe_data_delta e))]"

definition rss_tree :: "procmem_entry \<Rightarrow> jval" where
  "rss_tree e = JObj [(''pid'', JInt (pe_pid e)), (''cmd'', JStr (pe_cmd e)), (''rss_kb'', JInt (pe_rss e)),
     (''data_kb'', JInt (pe_data e)), (''rss_delta_kb'', JInt (pe_rss_delta e))]"

definition procmem_tree :: "procmem \<Rightarrow> jval" where
  "procmem_tree s = JObj [(''top_growers'', JArr (map delta_tree (pm_growers s))),
     (''top_shrinkers'', JArr (map delta_tree (pm_shrinkers s))), (''top_rss'', JArr (map rss_tree (pm_top_rss s)))]"

lemma emits_entry_objs [json_rules]:
  "emits_elts (delta_obj e) [delta_tree e]" "emits_elts (rss_obj e) [rss_tree e]"
  unfolding delta_obj_def rss_obj_def delta_tree_def rss_tree_def
  by (rule emits_elts_cong, (rule json_rules)+, simp)+

interpretation procmem_out: snapshot_writer procmem_snapshot procmem_tree "\<lambda>s. True" "\<lambda>s. True"
proof
  show "emits_val (procmem_snapshot s) (procmem_tree s)" for s
    unfolding procmem_snapshot_def procmem_tree_def
    by (rule emits_val_cong, (rule json_rules)+) simp
  show "jval_ok (procmem_tree s)" for s
    by (simp add: procmem_tree_def delta_tree_def rss_tree_def key_ok_def)
qed

end
