(* ===== verification/StatFile.thy ===== *)
theory StatFile
  imports ProcUtils
begin

text \<open>
  What \<open>procstat.c\<close>, \<open>cpuload.c\<close>, \<open>procevent.c\<close>, \<open>fdmon.c\<close> and \<open>sockstat.c\<close> share: the test for a process directory, directories and links
  as parameters, and the division of a \<open>stat\<close> file at its parentheses.
\<close>

section \<open>Directories and links\<close>

text \<open>The names \<open>readdir\<close> returns for a path, and the targets of links; \<open>None\<close> is a failing call.\<close>

type_synonym proc_dirs = "string \<Rightarrow> string list option"
type_synonym proc_links = "string \<Rightarrow> string option"

text \<open>Only the first character of a name is tested.\<close>

definition is_pid_entry :: "string \<Rightarrow> bool" where
  "is_pid_entry name \<longleftrightarrow> name \<noteq> [] \<and> isdigit (hd name)"

text \<open>\<open>readlink\<close> into an array of \<open>n\<close> bytes with a terminator added: a long target is cut, an empty one does not count.\<close>

definition link_target :: "proc_links \<Rightarrow> nat \<Rightarrow> string \<Rightarrow> string option" where
  "link_target links n path =
     (case links path of None \<Rightarrow> None | Some t \<Rightarrow> if t = [] then None else Some (cstr (take (n - 1) t)))"

section \<open>The stat file\<close>

definition strrchr :: "char \<Rightarrow> string \<Rightarrow> string option" where
  "strrchr c s = (if c \<in> set s then Some (c # rev (takeWhile (\<lambda>x. x \<noteq> c) (rev s))) else None)"

text \<open>
  The text between the first opening and the last closing parenthesis, cut to the array of \<open>cmd_size\<close>, and what starts two characters after the
  closing one. Without a parenthesis the function fails. A closing one before the opening one, where the length to copy wraps
  around, or as the last character, where the code reads behind the terminator, has no defined result.
\<close>

datatype 'a stat_result = Stat_fails | Stat_undefined | Stat 'a

definition split_stat :: "nat \<Rightarrow> string \<Rightarrow> (string \<times> string) stat_result" where
  "split_stat cmd_size buf =
     (case (strchr (CHR ''('') buf, strrchr (CHR '')'') buf) of
        (Some open_paren, Some close_paren) \<Rightarrow>
          if length open_paren < length close_paren \<or> length close_paren < 2 then Stat_undefined
          else let comm_len = length open_paren - length close_paren - 1
               in Stat (take (if comm_len \<ge> cmd_size then cmd_size - 1 else comm_len) (tl open_paren), drop 2 close_paren)
      | _ \<Rightarrow> Stat_fails)"

text \<open>A file as the kernel writes it: the number, the name in parentheses, and the other fields.\<close>

definition stat_text :: "int \<Rightarrow> string \<Rightarrow> string \<Rightarrow> string" where
  "stat_text pid comm rest = int_str pid @ '' ('' @ comm @ '') '' @ rest"

lemma strrchr_append: "c \<notin> set b \<Longrightarrow> strrchr c (a @ c # b) = Some (c # b)"
proof -
  assume b: "c \<notin> set b"
  then have "takeWhile (\<lambda>x. x \<noteq> c) (rev b @ c # rev a) = rev b" by (subst takeWhile_append2) auto
  then show ?thesis by (simp add: strrchr_def)
qed

lemma split_stat_text:
  assumes "CHR '')'' \<notin> set rest" "length comm < cmd_size"
  shows "split_stat cmd_size (stat_text pid comm rest) = Stat (comm, rest)"
proof -
  have "CHR ''('' \<notin> set (int_str pid @ '' '')"
    using nat_str_digits[of "CHR ''(''"] by (auto simp: int_str_def isdigit_def)
  from strchr_append[OF this, of "comm @ '') '' @ rest"]
  have o: "strchr (CHR ''('') (stat_text pid comm rest) = Some (CHR ''('' # comm @ '') '' @ rest)" by (simp add: stat_text_def)
  have "CHR '')'' \<notin> set (CHR '' '' # rest)" using assms(1) by simp
  from strrchr_append[OF this, of "int_str pid @ '' ('' @ comm"]
  have c: "strrchr (CHR '')'') (stat_text pid comm rest) = Some ('') '' @ rest)" by (simp add: stat_text_def)
  show ?thesis using assms(2) by (simp add: split_stat_def o c)
qed

end
