(* ===== verification/Procevent.thy ===== *)
theory Procevent
  imports PidHash Ringbuf StatFile JsonObj
begin

text \<open>
  Process events (\<open>src/services/procevent.c\<close>). A collection scans \<open>/proc\<close>, stores the processes in the table of \<open>PidHash\<close>, and
  reports a process without a cell in the previous chains as started, and a process of the previous chains
  without a current cell as exited. The events go into a ring of a hundred. \<open>None\<close> as the result
  of a collection is a traversal that does not end.
\<close>

section \<open>State\<close>

datatype proc_event_type = Event_fork | Event_exec | Event_exit

record proc_event =
  ev_type :: proc_event_type
  ev_pid :: int
  ev_parent :: int
  ev_exit_code :: int
  ev_cmd :: string
  ev_timestamp :: "64 word"

record event_log =
  ev_forks :: "64 word"
  ev_execs :: "64 word"
  ev_exits :: "64 word"
  ev_events :: "proc_event list"
  ev_count :: int
  ev_head :: int

text \<open>\<open>ev_tick\<close> counts the calls of \<open>time\<close>; the cells hold the command names.\<close>

record procevent = event_log +
  ev_tab :: "string ptable"
  ev_has_previous :: bool
  ev_tick :: nat

definition EV_HASH :: nat where "EV_HASH = 4096"
definition EV_POOL :: nat where "EV_POOL = 8192"
definition MAX_EVENTS :: int where "MAX_EVENTS = 100"

definition no_event :: proc_event where
  "no_event = \<lparr>ev_type = Event_fork, ev_pid = 0, ev_parent = 0, ev_exit_code = 0, ev_cmd = [], ev_timestamp = 0\<rparr>"

definition procevent_init :: procevent where
  "procevent_init = \<lparr>ev_forks = 0, ev_execs = 0, ev_exits = 0, ev_events = replicate 100 no_event, ev_count = 0,
     ev_head = 0, ev_tab = empty_table [], ev_has_previous = False, ev_tick = 0\<rparr>"

section \<open>Operations\<close>

text \<open>The body of \<open>add_event\<close> with the event filled in: its slot, the ring indices, its counter.\<close>

definition event_put :: "proc_event \<Rightarrow> 'a event_log_scheme \<Rightarrow> 'a event_log_scheme" where
  "event_put e s =
     (let s1 = s\<lparr>ev_events := (ev_events s)[nat (ev_head s) := e], ev_head := trem (ev_head s + 1) MAX_EVENTS,
                 ev_count := (if ev_count s < MAX_EVENTS then ev_count s + 1 else ev_count s)\<rparr>
      in case ev_type e of
           Event_fork \<Rightarrow> s1\<lparr>ev_forks := ev_forks s1 + 1\<rparr>
         | Event_exec \<Rightarrow> s1\<lparr>ev_execs := ev_execs s1 + 1\<rparr>
         | Event_exit \<Rightarrow> s1\<lparr>ev_exits := ev_exits s1 + 1\<rparr>)"

text \<open>\<open>clock n\<close> is what the call of \<open>time\<close> number \<open>n\<close> returns.\<close>

definition add_event :: "(nat \<Rightarrow> 64 word) \<Rightarrow> proc_event_type \<Rightarrow> int \<Rightarrow> int \<Rightarrow> string option \<Rightarrow> int \<Rightarrow> procevent \<Rightarrow> procevent" where
  "add_event clock t pid ppid cmd exit_code s =
     event_put \<lparr>ev_type = t, ev_pid = pid, ev_parent = ppid, ev_exit_code = exit_code,
       ev_cmd = (case cmd of None \<Rightarrow> [] | Some c \<Rightarrow> bounded_copy 128 c), ev_timestamp = clock (ev_tick s)\<rparr>
       (s\<lparr>ev_tick := ev_tick s + 1\<rparr>)"

text \<open>The name left in the cell: what \<open>comm\<close> holds up to the newline, else what the cell held before.\<close>

definition event_cmd :: "proc_fs \<Rightarrow> int \<Rightarrow> string \<Rightarrow> string" where
  "event_cmd fs pid old =
     (case proc_read_file fs (''/proc/'' @ int_str pid @ ''/comm'') 64 of
        None \<Rightarrow> old
      | Some bs \<Rightarrow> if length bs > 0 then bounded_copy 64 (takeWhile (\<lambda>c. c \<noteq> LF) (cstr bs)) else old)"

fun scan_proc :: "(nat \<Rightarrow> 64 word) \<Rightarrow> proc_fs \<Rightarrow> string list \<Rightarrow> procevent \<Rightarrow> procevent option" where
  "scan_proc clock fs [] s = Some s"
| "scan_proc clock fs (name # names) s =
     (if \<not> is_pid_entry name then scan_proc clock fs names s
      else case alloc_entry EV_POOL (ev_tab s) of
          None \<Rightarrow> Some s
        | Some (i, t1) \<Rightarrow>
            (let pid = atoi name;
                 cmd = event_cmd fs pid (c_val (pt_pool t1 i));
                 t2 = fill_cell EV_HASH i pid cmd t1;
                 s2 = s\<lparr>ev_tab := t2\<rparr>
             in case (if ev_has_previous s then find_in_hash EV_HASH t2 (pt_prev t2) pid else Some (Some i)) of
                  None \<Rightarrow> None
                | Some found \<Rightarrow> scan_proc clock fs names
                    (if found = None then add_event clock Event_fork pid 0 (Some cmd) 0 s2 else s2)))"

partial_function (option) exit_chain :: "(nat \<Rightarrow> 64 word) \<Rightarrow> nat option \<Rightarrow> procevent \<Rightarrow> procevent option" where
  "exit_chain clock e s =
     (case e of
        None \<Rightarrow> Some s
      | Some i \<Rightarrow>
          (let c = pt_pool (ev_tab s) i
           in case find_in_hash EV_HASH (ev_tab s) (pt_cur (ev_tab s)) (c_pid c) of
                None \<Rightarrow> None
              | Some found \<Rightarrow> exit_chain clock (c_next c)
                  (if found = None then add_event clock Event_exit (c_pid c) 0 (Some (c_val c)) 0 s else s)))"

fun exit_heads :: "(nat \<Rightarrow> 64 word) \<Rightarrow> nat list \<Rightarrow> procevent \<Rightarrow> procevent option" where
  "exit_heads clock [] s = Some s"
| "exit_heads clock (h # hs) s =
     (case exit_chain clock (pt_prev (ev_tab s) h) s of None \<Rightarrow> None | Some s' \<Rightarrow> exit_heads clock hs s')"

definition procevent_collect ::
    "(nat \<Rightarrow> 64 word) \<Rightarrow> proc_fs \<Rightarrow> string list option \<Rightarrow> procevent \<Rightarrow> (int \<times> procevent) option" where
  "procevent_collect clock fs dir s =
     (let s0 = s\<lparr>ev_tab := start_round (ev_tab s)\<rparr>
      in case dir of
           None \<Rightarrow> Some (-1, s0)
         | Some names \<Rightarrow>
             (case scan_proc clock fs names s0 of
                None \<Rightarrow> None
              | Some s1 \<Rightarrow>
                  (case (if ev_has_previous s1 then exit_heads clock [0..<EV_HASH] s1 else Some s1) of
                     None \<Rightarrow> None
                   | Some s2 \<Rightarrow> Some (0, s2\<lparr>ev_has_previous := True\<rparr>))))"

text \<open>The event \<open>i\<close> places before the latest.\<close>

definition recent_event :: "'a event_log_scheme \<Rightarrow> nat \<Rightarrow> proc_event" where
  "recent_event s i = ev_events s ! nat (trem (ev_head s - 1 - int i + MAX_EVENTS) MAX_EVENTS)"

definition type_str :: "proc_event_type \<Rightarrow> string" where
  "type_str t = (case t of Event_fork \<Rightarrow> ''fork'' | Event_exec \<Rightarrow> ''exec'' | Event_exit \<Rightarrow> ''exit'')"

definition event_obj :: "proc_event \<Rightarrow> json_builder \<Rightarrow> json_builder" where
  "event_obj e = jobj [json_kv_int ''pid'' (ev_pid e), json_kv_string ''cmd'' (Some (ev_cmd e)),
     json_kv_string ''type'' (Some (type_str (ev_type e))), json_kv_uint ''timestamp'' (ev_timestamp e)]"

definition procevent_snapshot :: "procevent \<Rightarrow> json_builder \<Rightarrow> json_builder" where
  "procevent_snapshot s =
     (let n = (if ev_count s > 20 then 20 else ev_count s)
      in jobj [jkey ''counters'' (jobj [json_kv_uint ''forks'' (ev_forks s), json_kv_uint ''execs'' (ev_execs s),
                 json_kv_uint ''exits'' (ev_exits s)]),
               jkey ''recent_events'' (jarr [fold (\<lambda>i. event_obj (recent_event s i)) [0..<nat n]])])"

definition procevent_get_counters :: "procevent \<Rightarrow> 64 word \<times> 64 word \<times> 64 word" where
  "procevent_get_counters s = (ev_forks s, ev_execs s, ev_exits s)"

definition procevent_get_recent :: "procevent \<Rightarrow> int \<Rightarrow> int \<times> proc_event list" where
  "procevent_get_recent s max_events =
     (let n = (if ev_count s > max_events then max_events else ev_count s)
      in (n, map (recent_event s) [0..<nat n]))"

section \<open>The event ring\<close>

definition ev_ring_inv :: "'a event_log_scheme \<Rightarrow> bool" where
  "ev_ring_inv s \<longleftrightarrow> length (ev_events s) = 100 \<and> 0 \<le> ev_head s \<and> ev_head s < 100 \<and> 0 \<le> ev_count s \<and> ev_count s \<le> 100"

text \<open>The events kept, from the oldest to the latest.\<close>

definition ev_items :: "'a event_log_scheme \<Rightarrow> proc_event list" where
  "ev_items s = ring_list (ev_events s) (ev_head s) (ev_count s) MAX_EVENTS"

lemma event_put_fields:
  "ev_events (event_put e s) = (ev_events s)[nat (ev_head s) := e]"
  "ev_head (event_put e s) = trem (ev_head s + 1) MAX_EVENTS"
  "ev_count (event_put e s) = (if ev_count s < MAX_EVENTS then ev_count s + 1 else ev_count s)"
  "ev_forks (event_put e s) = ev_forks s + (if ev_type e = Event_fork then 1 else 0)"
  "ev_execs (event_put e s) = ev_execs s + (if ev_type e = Event_exec then 1 else 0)"
  "ev_exits (event_put e s) = ev_exits s + (if ev_type e = Event_exit then 1 else 0)"
  by (cases "ev_type e"; simp add: event_put_def Let_def)+

lemma event_put_truncate: "event_log.truncate (event_put e s) = event_put e (event_log.truncate s)"
  by (cases "ev_type e"; simp add: event_put_def Let_def event_log.defs)

lemma event_put_procevent [simp]:
  "ev_tab (event_put e s) = ev_tab s" "ev_has_previous (event_put e s) = ev_has_previous s" "ev_tick (event_put e s) = ev_tick s"
  by (cases "ev_type e"; simp add: event_put_def Let_def)+

interpretation events: bounded_history ev_ring_inv ev_items "\<lambda>s. 100" event_put "\<lambda>e. e"
proof
  fix s :: "'a event_log_scheme" and e
  assume s: "ev_ring_inv s"
  have t: "trem (ev_head s + 1) 100 = (ev_head s + 1) mod 100" using s by (intro trem_nonneg) (simp_all add: ev_ring_inv_def)
  have b: "0 < (100 :: int)" "100 = int (length (ev_events s))" "0 \<le> ev_head s" "ev_head s < 100" "0 \<le> ev_count s"
    "ev_count s \<le> 100"
    using s by (auto simp: ev_ring_inv_def)
  show "ev_ring_inv (event_put e s)"
    using s by (simp add: ev_ring_inv_def event_put_fields MAX_EVENTS_def t)
  show "length (ev_items s) \<le> 100" using s by (auto simp: ev_items_def ev_ring_inv_def)
  show "ev_items (event_put e s) = drop (length (ev_items s @ [e]) - 100) (ev_items s @ [e])"
    unfolding ev_items_def event_put_fields MAX_EVENTS_def t
    using ring_list_store[OF b, of e] unfolding Let_def by (simp only: nat_numeral)
qed simp

section \<open>Scans\<close>

text \<open>What the calls of a collection add to the log, apart from the table and the flags.\<close>

definition logged :: "proc_event list \<Rightarrow> procevent \<Rightarrow> procevent \<Rightarrow> bool" where
  "logged evs s s' \<longleftrightarrow> event_log.truncate s' = fold event_put evs (event_log.truncate s)"

lemma logged_Nil: "event_log.truncate s' = event_log.truncate s \<Longrightarrow> logged [] s s'"
  by (simp add: logged_def)

lemma logged_trans: "logged as s t \<Longrightarrow> logged bs t u \<Longrightarrow> logged (as @ bs) s u"
  by (simp add: logged_def)

lemma logged_same: "event_log.truncate s0 = event_log.truncate s \<Longrightarrow> logged evs s0 t \<Longrightarrow> logged evs s t"
  by (simp add: logged_def)

text \<open>The effect of logging on what is read from the log.\<close>

lemma truncate_fields:
  "ev_items (event_log.truncate s) = ev_items s" "ev_ring_inv (event_log.truncate s) = ev_ring_inv s"
  "ev_forks (event_log.truncate s) = ev_forks s" "ev_execs (event_log.truncate s) = ev_execs s"
  "ev_exits (event_log.truncate s) = ev_exits s"
  by (simp_all add: ev_items_def ev_ring_inv_def event_log.defs)

lemma fold_put_counters:
  fixes s :: "'a event_log_scheme"
  shows "ev_forks (fold event_put evs s) = ev_forks s + of_nat (length (filter (\<lambda>e. ev_type e = Event_fork) evs))"
    "ev_execs (fold event_put evs s) = ev_execs s + of_nat (length (filter (\<lambda>e. ev_type e = Event_exec) evs))"
    "ev_exits (fold event_put evs s) = ev_exits s + of_nat (length (filter (\<lambda>e. ev_type e = Event_exit) evs))"
  by (induction evs arbitrary: s) (simp_all add: event_put_fields)

lemma logged_effect:
  assumes "logged evs s s'" and "ev_ring_inv s"
  shows "ev_ring_inv s'" "ev_items s' = drop (length (ev_items s @ evs) - 100) (ev_items s @ evs)"
    "ev_forks s' = ev_forks s + of_nat (length (filter (\<lambda>e. ev_type e = Event_fork) evs))"
    "ev_execs s' = ev_execs s + of_nat (length (filter (\<lambda>e. ev_type e = Event_exec) evs))"
    "ev_exits s' = ev_exits s + of_nat (length (filter (\<lambda>e. ev_type e = Event_exit) evs))"
proof -
  let ?t = "event_log.truncate s" and ?t' = "event_log.truncate s'"
  have t: "?t' = fold event_put evs ?t" "ev_ring_inv ?t" using assms by (simp_all add: logged_def truncate_fields)
  show "ev_ring_inv s'" using events.inv_run[OF t(2), of evs] unfolding t(1)[symmetric] truncate_fields by simp
  show "ev_items s' = drop (length (ev_items s @ evs) - 100) (ev_items s @ evs)"
    using events.items_run[OF t(2), of evs] unfolding t(1)[symmetric] truncate_fields by simp
  show "ev_forks s' = ev_forks s + of_nat (length (filter (\<lambda>e. ev_type e = Event_fork) evs))"
    "ev_execs s' = ev_execs s + of_nat (length (filter (\<lambda>e. ev_type e = Event_exec) evs))"
    "ev_exits s' = ev_exits s + of_nat (length (filter (\<lambda>e. ev_type e = Event_exit) evs))"
    using arg_cong[OF t(1), of ev_forks] arg_cong[OF t(1), of ev_execs] arg_cong[OF t(1), of ev_exits]
    by (simp_all add: truncate_fields fold_put_counters)
qed

text \<open>The event that a call of \<open>add_event\<close> writes, and those of a sequence of calls, the first at the call \<open>n\<close> of \<open>time\<close>.\<close>

definition made_event :: "(nat \<Rightarrow> 64 word) \<Rightarrow> nat \<Rightarrow> proc_event_type \<times> int \<times> string \<Rightarrow> proc_event" where
  "made_event clock n r = \<lparr>ev_type = fst r, ev_pid = fst (snd r), ev_parent = 0, ev_exit_code = 0,
     ev_cmd = bounded_copy 128 (snd (snd r)), ev_timestamp = clock n\<rparr>"

fun made_events :: "(nat \<Rightarrow> 64 word) \<Rightarrow> nat \<Rightarrow> (proc_event_type \<times> int \<times> string) list \<Rightarrow> proc_event list" where
  "made_events clock n [] = []"
| "made_events clock n (r # rs) = made_event clock n r # made_events clock (n + 1) rs"

lemma made_events_append:
  "made_events clock n (rs @ rs') = made_events clock n rs @ made_events clock (n + length rs) rs'"
  by (induction rs arbitrary: n) simp_all

lemma made_events_kinds:
  "map (\<lambda>e. (ev_type e, ev_pid e)) (made_events clock n rs) = map (\<lambda>r. (fst r, fst (snd r))) rs"
  by (induction rs arbitrary: n) (simp_all add: made_event_def)

lemma made_events_count:
  "length (filter (\<lambda>e. ev_type e = t) (made_events clock n rs)) = length (filter (\<lambda>r. fst r = t) rs)"
  by (induction rs arbitrary: n) (simp_all add: made_event_def)

text \<open>The calls that log \<open>rs\<close>, one after the other.\<close>

definition logs :: "(nat \<Rightarrow> 64 word) \<Rightarrow> (proc_event_type \<times> int \<times> string) list \<Rightarrow> procevent \<Rightarrow> procevent \<Rightarrow> bool" where
  "logs clock rs s s' \<longleftrightarrow> logged (made_events clock (ev_tick s) rs) s s' \<and> ev_tick s' = ev_tick s + length rs"

lemma logs_Nil: "event_log.truncate s' = event_log.truncate s \<Longrightarrow> ev_tick s' = ev_tick s \<Longrightarrow> logs clock [] s s'"
  by (simp add: logs_def logged_Nil)

lemma logs_trans: "logs clock as s t \<Longrightarrow> logs clock bs t u \<Longrightarrow> logs clock (as @ bs) s u"
  by (auto simp: logs_def made_events_append intro: logged_trans)

lemma logs_same:
  "event_log.truncate s0 = event_log.truncate s \<Longrightarrow> ev_tick s0 = ev_tick s \<Longrightarrow> logs clock rs s0 t \<Longrightarrow> logs clock rs s t"
  unfolding logs_def using logged_same by metis

lemma logs_add: "logs clock [(t, pid, c)] s (add_event clock t pid 0 (Some c) 0 s)"
proof -
  have "event_log.truncate (s\<lparr>ev_tick := ev_tick s + 1\<rparr>) = event_log.truncate s" by (simp add: event_log.defs)
  then show ?thesis
    by (simp add: logs_def logged_def add_event_def event_put_truncate made_event_def)
qed

lemma add_event_table [simp]:
  "ev_tab (add_event clock t pid ppid cmd c s) = ev_tab s"
  "ev_has_previous (add_event clock t pid ppid cmd c s) = ev_has_previous s"
  by (simp_all add: add_event_def)

text \<open>The processes of a listing and the cells they get.\<close>

definition ev_pids :: "string list \<Rightarrow> int list" where
  "ev_pids names = map atoi (filter is_pid_entry names)"

definition ev_cells :: "proc_fs \<Rightarrow> int list \<Rightarrow> string ptable \<Rightarrow> (int \<times> string) list" where
  "ev_cells fs P t0 = map (\<lambda>i. (P ! i, event_cmd fs (P ! i) (c_val (pt_pool t0 i)))) [0..<length P]"

lemma ev_cells_simps [simp]:
  "length (ev_cells fs P t0) = length P" "map fst (ev_cells fs P t0) = P"
  "i < length P \<Longrightarrow> ev_cells fs P t0 ! i = (P ! i, event_cmd fs (P ! i) (c_val (pt_pool t0 i)))"
  by (simp_all add: ev_cells_def comp_def map_nth)

text \<open>
  Whether the process number \<open>i\<close> of a scan is not found in the previous chains, once its own cell is filled; the state of the table
  is determined by \<open>in_round\<close>.
\<close>

definition unseen :: "(int \<times> string) list \<Rightarrow> string ptable \<Rightarrow> nat \<Rightarrow> bool" where
  "unseen xs t0 i \<longleftrightarrow> find_in_hash EV_HASH (round_table EV_HASH xs (Suc i) t0) (pt_prev t0) (fst (xs ! i)) = Some None"

lemma scan_result:
  fixes fs :: proc_fs
  assumes "in_round EV_HASH (ev_cells fs P t0) n t0 (ev_tab s)" and "pt_inv (ev_tab s)"
    and "P = take EV_POOL (pre @ ev_pids names)" and "length pre = n" and "n \<le> EV_POOL"
  shows "\<exists>s'. scan_proc clock fs names s = Some s' \<and> in_round EV_HASH (ev_cells fs P t0) (length P) t0 (ev_tab s') \<and>
    pt_inv (ev_tab s') \<and> ev_has_previous s' = ev_has_previous s \<and>
    logs clock (map (\<lambda>i. (Event_fork, ev_cells fs P t0 ! i))
      (filter (\<lambda>i. ev_has_previous s \<and> unseen (ev_cells fs P t0) t0 i) [n..<length P])) s s'"
  using assms
proof (induction names arbitrary: pre n s)
  case Nil
  then show ?case by (intro exI[of _ s]) (simp add: ev_pids_def logs_Nil)
next
  case (Cons name names)
  let ?xs = "ev_cells fs P t0"
  show ?case
  proof (cases "is_pid_entry name")
    case False
    then show ?thesis using Cons.IH[OF Cons.prems(1,2) _ Cons.prems(4,5)] Cons.prems(3) by (simp add: ev_pids_def)
  next
    case pid: True
    then have P: "P = take EV_POOL ((pre @ [atoi name]) @ ev_pids names)" using Cons.prems(3) by (simp add: ev_pids_def)
    show ?thesis
    proof (cases "n < EV_POOL")
      case False
      then have "length P = n" "alloc_entry EV_POOL (ev_tab s) = None"
        using Cons.prems by (auto simp: alloc_entry_def in_round_def)
      then show ?thesis using Cons.prems pid by (intro exI[of _ s]) (simp add: logs_Nil)
    next
      case n: True
      have nP: "n < length P" "P ! n = atoi name" using n Cons.prems(4) by (auto simp: P nth_append)
      let ?cmd = "event_cmd fs (atoi name) (c_val (pt_pool t0 n))"
      obtain t1 where t1: "alloc_entry EV_POOL (ev_tab s) = Some (n, t1)"
        and ir: "in_round EV_HASH ?xs (Suc n) t0 (fill_cell EV_HASH n (atoi name) ?cmd t1)"
        using in_round_put[OF Cons.prems(1) n, of "atoi name" ?cmd] nP by auto
      have old: "pt_pool t1 n = pt_pool t0 n"
        using t1 Cons.prems(1) by (auto simp: alloc_entry_def in_round_def split: if_splits)
      define t2 where "t2 = fill_cell EV_HASH n (atoi name) ?cmd t1"
      define s2 where "s2 = s\<lparr>ev_tab := t2\<rparr>"
      have pt2: "pt_inv t2" unfolding t2_def by (rule pt_inv_put[OF Cons.prems(2) t1])
      have tab: "t2 = round_table EV_HASH ?xs (Suc n) t0" using ir by (simp add: t2_def in_round_table)
      have prev: "pt_prev t2 = pt_prev t0" by (simp add: tab round_table_def)
      obtain r where r: "find_in_hash EV_HASH t2 (pt_prev t2) (atoi name) = Some r"
        using find_in_hash_returns[OF pt2] by blast
      define new where "new \<longleftrightarrow> ev_has_previous s \<and> unseen ?xs t0 n"
      have new: "new \<longleftrightarrow> ev_has_previous s \<and> r = None"
        using r nP by (auto simp: new_def unseen_def tab[symmetric] prev)
      define s3 where "s3 = (if new then add_event clock Event_fork (atoi name) 0 (Some ?cmd) 0 s2 else s2)"
      have scan: "scan_proc clock fs (name # names) s = scan_proc clock fs names s3"
        using pid t1 r new
        by (cases "ev_has_previous s"; cases r) (simp_all add: Let_def old t2_def[symmetric] s2_def s3_def)
      have s3: "ev_tab s3 = t2" "ev_has_previous s3 = ev_has_previous s" by (simp_all add: s3_def s2_def)
      have same: "event_log.truncate s2 = event_log.truncate s" "ev_tick s2 = ev_tick s" by (simp_all add: s2_def event_log.defs)
      have xn: "?xs ! n = (atoi name, ?cmd)" using nP by simp
      have e: "logs clock (if new then [(Event_fork, ?xs ! n)] else []) s s3"
        unfolding xn s3_def using logs_same[OF same logs_add] logs_Nil[OF same] by simp
      obtain s' where IH: "scan_proc clock fs names s3 = Some s'" "in_round EV_HASH ?xs (length P) t0 (ev_tab s')"
        "pt_inv (ev_tab s')" "ev_has_previous s' = ev_has_previous s3"
        "logs clock (map (\<lambda>i. (Event_fork, ?xs ! i)) (filter (\<lambda>i. ev_has_previous s3 \<and> unseen ?xs t0 i) [Suc n..<length P])) s3 s'"
        using Cons.IH[of "Suc n" s3 "pre @ [atoi name]"] ir pt2 P Cons.prems(4) n by (auto simp: s3 t2_def)
      have "[n..<length P] = n # [Suc n..<length P]" using nP by (simp add: upt_rec)
      then show ?thesis
        using scan IH(1-4) logs_trans[OF e IH(5)] s3(2)
        by (intro exI[of _ s']) (auto simp: new_def[symmetric] simp del: ev_cells_simps split: if_splits)
    qed
  qed
qed

section \<open>Exits\<close>

text \<open>The cells of a chain that have no current cell, as they are reported.\<close>

definition gone :: "string ptable \<Rightarrow> nat list \<Rightarrow> (proc_event_type \<times> int \<times> string) list" where
  "gone t is = map (\<lambda>i. (Event_exit, c_pid (pt_pool t i), c_val (pt_pool t i)))
     (filter (\<lambda>i. find_in_hash EV_HASH t (pt_cur t) (c_pid (pt_pool t i)) = Some None) is)"

lemma gone_append: "gone t (as @ bs) = gone t as @ gone t bs"
  by (simp add: gone_def)

lemma exit_chain_result:
  assumes "pt_inv t" and "ev_tab s = t" and "\<forall>i. e = Some i \<longrightarrow> i < k"
  shows "\<exists>s'. exit_chain clock e s = Some s' \<and> ev_tab s' = t \<and> ev_has_previous s' = ev_has_previous s \<and>
    logs clock (gone t (chain_from (pt_pool t) k e)) s s'"
  using assms(2,3)
proof (induction k arbitrary: e s)
  case 0
  then show ?case by (cases e) (simp_all add: exit_chain.simps gone_def logs_Nil)
next
  case (Suc k)
  show ?case
  proof (cases "e = Some k")
    case False
    then show ?thesis using Suc by (auto simp: less_Suc_eq)
  next
    case True
    let ?c = "pt_pool t k"
    obtain r where r: "find_in_hash EV_HASH t (pt_cur t) (c_pid ?c) = Some r"
      using find_in_hash_returns[OF assms(1)] by blast
    define s1 where "s1 = (if r = None then add_event clock Event_exit (c_pid ?c) 0 (Some (c_val ?c)) 0 s else s)"
    have step: "exit_chain clock e s = exit_chain clock (c_next ?c) s1"
      unfolding True using r Suc.prems by (subst exit_chain.simps) (simp add: Let_def s1_def)
    have s1: "ev_tab s1 = t" "ev_has_previous s1 = ev_has_previous s" using Suc.prems by (simp_all add: s1_def)
    have x: "logs clock (gone t [k]) s s1"
      unfolding s1_def using r logs_add logs_Nil[OF refl refl] by (simp add: gone_def)
    have "\<forall>i. c_next ?c = Some i \<longrightarrow> i < k" using assms(1) by (simp add: pt_inv_def)
    then obtain s' where s': "exit_chain clock (c_next ?c) s1 = Some s'" "ev_tab s' = t" "ev_has_previous s' = ev_has_previous s1"
      "logs clock (gone t (chain_from (pt_pool t) k (c_next ?c))) s1 s'"
      using Suc.IH[OF s1(1)] by blast
    then show ?thesis
      using step s1 logs_trans[OF x s'(4)] True by (intro exI[of _ s']) (simp add: gone_append[symmetric])
  qed
qed

lemma exit_heads_result:
  assumes "pt_inv t" and "ev_tab s = t" and "\<forall>h i. pt_prev t h = Some i \<longrightarrow> i < k"
  shows "\<exists>s'. exit_heads clock hs s = Some s' \<and> ev_tab s' = t \<and> ev_has_previous s' = ev_has_previous s \<and>
    logs clock (gone t (concat (map (\<lambda>h. chain_from (pt_pool t) k (pt_prev t h)) hs))) s s'"
  using assms(2)
proof (induction hs arbitrary: s)
  case Nil
  then show ?case by (intro exI[of _ s]) (simp add: logs_Nil gone_def)
next
  case (Cons h hs)
  obtain s1 where s1: "exit_chain clock (pt_prev t h) s = Some s1" "ev_tab s1 = t" "ev_has_previous s1 = ev_has_previous s"
    "logs clock (gone t (chain_from (pt_pool t) k (pt_prev t h))) s s1"
    using exit_chain_result[OF assms(1) Cons.prems, of "pt_prev t h" k] assms(3) by blast
  obtain s2 where s2: "exit_heads clock hs s1 = Some s2" "ev_tab s2 = t" "ev_has_previous s2 = ev_has_previous s1"
    "logs clock (gone t (concat (map (\<lambda>h. chain_from (pt_pool t) k (pt_prev t h)) hs))) s1 s2"
    using Cons.IH[OF s1(2)] by blast
  show ?case using s1 s2 logs_trans[OF s1(4) s2(4)] Cons.prems by (simp add: gone_append)
qed

section \<open>Whole collections\<close>

lemma last_pos_missing: "find_in_hash N (round_table N xs n t0) (pt_cur (round_table N xs n t0)) p = Some (last_pos (\<lambda>j. fst (xs ! j) = p) n)"
  by (rule in_round_find_current) (simp add: in_round_table)

text \<open>
  The events that a listing of the processes \<open>P\<close> shows against the table \<open>t\<close> of the round before: the starts in the order of the
  listing, each against the previous chain of its hash value as it is when the cell of the process has been filled; then the exits in the
  order of the previous chains as they are at the end of the scan. The pool of a round is reused, so a chain leads
  through cells that the scan has overwritten.
\<close>

definition shown_events :: "proc_fs \<Rightarrow> int list \<Rightarrow> string ptable \<Rightarrow> (proc_event_type \<times> int \<times> string) list" where
  "shown_events fs P t =
     (let xs = ev_cells fs P (start_round t); pool = (\<lambda>n. pt_pool (round_table EV_HASH xs n (start_round t))); last = pool (length P)
      in map (\<lambda>i. (Event_fork, xs ! i)) (filter (\<lambda>i. cell_before EV_HASH t (pool (Suc i)) (P ! i) = None) [0..<length P]) @
         map (\<lambda>j. (Event_exit, c_pid (last j), c_val (last j)))
           (filter (\<lambda>j. c_pid (last j) \<notin> set P) (concat (map (\<lambda>h. chain_from last (pt_idx t) (pt_cur t h)) [0..<EV_HASH]))))"

lemma unseen_before:
  assumes "pt_inv t"
  shows "unseen xs (start_round t) i \<longleftrightarrow>
    cell_before EV_HASH t (pt_pool (round_table EV_HASH xs (Suc i) (start_round t))) (fst (xs ! i)) = None"
proof -
  have "pt_prev (round_table EV_HASH xs (Suc i) (start_round t)) = pt_prev (start_round t)" by (simp add: round_table_def)
  then show ?thesis
    using in_round_cell_before[OF assms, of EV_HASH xs "Suc i" "round_table EV_HASH xs (Suc i) (start_round t)" "fst (xs ! i)"]
    by (simp add: unseen_def in_round_table)
qed

lemma collect_exact:
  fixes fs :: proc_fs and s :: procevent and names :: "string list"
  assumes pt: "pt_inv (ev_tab s)"
  defines "P \<equiv> take EV_POOL (ev_pids names)" and "t0 \<equiv> start_round (ev_tab s)"
  defines "xs \<equiv> ev_cells fs P t0"
  defines "t' \<equiv> round_table EV_HASH xs (length P) t0"
  shows "\<exists>s'. procevent_collect clock fs (Some names) s = Some (0, s') \<and> ev_tab s' = t' \<and> pt_inv t' \<and> ev_has_previous s' \<and>
    logs clock (map (\<lambda>i. (Event_fork, xs ! i)) (filter (\<lambda>i. ev_has_previous s \<and> unseen xs t0 i) [0..<length P]) @
      (if ev_has_previous s then gone t' (concat (map (\<lambda>h. chain_from (pt_pool t') (pt_idx (ev_tab s)) (pt_cur (ev_tab s) h)) [0..<EV_HASH]))
       else [])) s s'"
proof -
  define s0 where "s0 = s\<lparr>ev_tab := t0\<rparr>"
  have s0: "ev_tab s0 = t0" "ev_has_previous s0 = ev_has_previous s" "pt_inv t0"
    and same: "event_log.truncate s0 = event_log.truncate s" "ev_tick s0 = ev_tick s"
    using pt by (simp_all add: s0_def t0_def event_log.defs)
  let ?forks = "map (\<lambda>i. (Event_fork, xs ! i)) (filter (\<lambda>i. ev_has_previous s \<and> unseen xs t0 i) [0..<length P])"
  let ?exits = "gone t' (concat (map (\<lambda>h. chain_from (pt_pool t') (pt_idx (ev_tab s)) (pt_cur (ev_tab s) h)) [0..<EV_HASH]))"
  have "\<exists>s1. scan_proc clock fs names s0 = Some s1 \<and> in_round EV_HASH xs (length P) t0 (ev_tab s1) \<and> pt_inv (ev_tab s1) \<and>
    ev_has_previous s1 = ev_has_previous s0 \<and> logs clock (map (\<lambda>i. (Event_fork, xs ! i))
      (filter (\<lambda>i. ev_has_previous s0 \<and> unseen xs t0 i) [0..<length P])) s0 s1"
    unfolding xs_def
  proof (rule scan_result[where pre = "[]" and names = names])
    show "in_round EV_HASH (ev_cells fs P t0) 0 t0 (ev_tab s0)" unfolding s0(1) t0_def by (rule in_round_start)
  qed (simp_all add: s0 P_def)
  then obtain s1 where s1: "scan_proc clock fs names s0 = Some s1" "in_round EV_HASH xs (length P) t0 (ev_tab s1)"
    "pt_inv (ev_tab s1)" "ev_has_previous s1 = ev_has_previous s" "logs clock ?forks s0 s1"
    unfolding s0(2) by blast
  have tab: "ev_tab s1 = t'" using s1(2) by (simp add: in_round_table t'_def)
  have prev: "pt_prev t' = pt_cur (ev_tab s)" by (simp add: t'_def round_table_def t0_def start_round_def)
  have heads: "\<forall>h i. pt_prev t' h = Some i \<longrightarrow> i < pt_idx (ev_tab s)" using pt by (simp add: prev pt_inv_def)
  obtain s2 where s2: "(if ev_has_previous s1 then exit_heads clock [0..<EV_HASH] s1 else Some s1) = Some s2"
    "ev_tab s2 = t'" "ev_has_previous s2 = ev_has_previous s1" "logs clock (if ev_has_previous s then ?exits else []) s1 s2"
  proof (cases "ev_has_previous s1")
    case False
    then show ?thesis using that[of s1] s1(4) tab by (simp add: logs_Nil)
  next
    case True
    then show ?thesis
      using that exit_heads_result[OF s1(3)[unfolded tab] tab heads, of clock "[0..<EV_HASH]"] s1(4) unfolding prev by auto
  qed
  define s' where "s' = s2\<lparr>ev_has_previous := True\<rparr>"
  have t2: "event_log.truncate s' = event_log.truncate s2" "ev_tick s' = ev_tick s2" by (simp_all add: s'_def event_log.defs)
  have "logs clock (?forks @ (if ev_has_previous s then ?exits else [])) s s'"
    using logs_trans[OF logs_same[OF same s1(5)] s2(4)] t2 by (simp add: logs_def logged_def)
  moreover have "procevent_collect clock fs (Some names) s = Some (0, s')"
    using s1(1) s2(1) by (simp add: procevent_collect_def s0_def t0_def s'_def)
  ultimately show ?thesis using s2(2) s1(3) tab by (intro exI[of _ s']) (simp add: s'_def)
qed

lemma gone_unlisted:
  fixes fs :: proc_fs and P :: "int list" and t1 :: "string ptable"
  assumes "pt_inv t0"
  defines "t' \<equiv> round_table EV_HASH (ev_cells fs P t1) (length P) t0"
  shows "gone t' is = map (\<lambda>i. (Event_exit, c_pid (pt_pool t' i), c_val (pt_pool t' i))) (filter (\<lambda>i. c_pid (pt_pool t' i) \<notin> set P) is)"
proof -
  have "find_in_hash EV_HASH t' (pt_cur t') p = Some None \<longleftrightarrow> p \<notin> set P" for p
    unfolding t'_def last_pos_missing by (auto simp: last_pos_None in_set_conv_nth)
  then show ?thesis by (simp add: gone_def)
qed

lemma collect_names:
  fixes fs :: proc_fs and s :: procevent and names :: "string list"
  assumes pt: "pt_inv (ev_tab s)"
  defines "P \<equiv> take EV_POOL (ev_pids names)" and "t0 \<equiv> start_round (ev_tab s)"
  defines "xs \<equiv> ev_cells fs P t0"
  shows "\<exists>s' fe xe. procevent_collect clock fs (Some names) s = Some (0, s') \<and>
    ev_tab s' = round_table EV_HASH xs (length P) t0 \<and> pt_inv (ev_tab s') \<and> ev_has_previous s' \<and> logged (fe @ xe) s s' \<and>
    map (\<lambda>e. (ev_type e, ev_pid e)) fe = map (\<lambda>i. (Event_fork, P ! i)) (filter (\<lambda>i. ev_has_previous s \<and> unseen xs t0 i) [0..<length P]) \<and>
    (\<forall>x \<in> set xe. ev_type x = Event_exit \<and> ev_has_previous s \<and> ev_pid x \<notin> set P \<and>
      (\<exists>i < pt_idx (ev_tab s). ev_pid x = c_pid (pt_pool (ev_tab s') i)))"
proof -
  define t' where "t' = round_table EV_HASH xs (length P) t0"
  define fr where "fr = map (\<lambda>i. (Event_fork, xs ! i)) (filter (\<lambda>i. ev_has_previous s \<and> unseen xs t0 i) [0..<length P])"
  define xr where "xr = (if ev_has_previous s then
    gone t' (concat (map (\<lambda>h. chain_from (pt_pool t') (pt_idx (ev_tab s)) (pt_cur (ev_tab s) h)) [0..<EV_HASH])) else [])"
  obtain s' where s': "procevent_collect clock fs (Some names) s = Some (0, s')" "ev_tab s' = t'" "pt_inv t'" "ev_has_previous s'"
    "logs clock (fr @ xr) s s'"
    using collect_exact[OF pt, of clock fs names]
    unfolding P_def[symmetric] t0_def[symmetric] xs_def[symmetric] t'_def[symmetric] fr_def[symmetric] xr_def[symmetric] by blast
  define fe where "fe = made_events clock (ev_tick s) fr"
  define xe where "xe = made_events clock (ev_tick s + length fr) xr"
  have lg: "logged (fe @ xe) s s'" using s'(5) by (simp add: logs_def made_events_append fe_def xe_def)
  have fe: "map (\<lambda>e. (ev_type e, ev_pid e)) fe = map (\<lambda>i. (Event_fork, P ! i)) (filter (\<lambda>i. ev_has_previous s \<and> unseen xs t0 i) [0..<length P])"
    unfolding fe_def made_events_kinds fr_def by (auto simp: xs_def)
  have "(ev_type x, ev_pid x) \<in> (\<lambda>r. (fst r, fst (snd r))) ` set xr" if "x \<in> set xe" for x
  proof -
    from that have "(ev_type x, ev_pid x) \<in> set (map (\<lambda>e. (ev_type e, ev_pid e)) xe)" by auto
    then show ?thesis unfolding xe_def made_events_kinds by simp
  qed
  moreover have "fst r = Event_exit \<and> ev_has_previous s \<and> fst (snd r) \<notin> set P \<and>
      (\<exists>i < pt_idx (ev_tab s). fst (snd r) = c_pid (pt_pool t' i))" if "r \<in> set xr" for r
  proof -
    have "pt_inv t0" using pt by (simp add: t0_def)
    from that have "ev_has_previous s" and r: "r \<in> set (gone t' (concat (map (\<lambda>h. chain_from (pt_pool t') (pt_idx (ev_tab s)) (pt_cur (ev_tab s) h)) [0..<EV_HASH])))"
      by (simp_all add: xr_def split: if_splits)
    then show ?thesis
      unfolding gone_unlisted[OF \<open>pt_inv t0\<close>, of fs P t0, folded xs_def, folded t'_def] by (auto dest: chain_from_bound)
  qed
  ultimately have "\<forall>x \<in> set xe. ev_type x = Event_exit \<and> ev_has_previous s \<and> ev_pid x \<notin> set P \<and>
      (\<exists>i < pt_idx (ev_tab s). ev_pid x = c_pid (pt_pool t' i))"
    by fastforce
  then show ?thesis using s' lg fe unfolding t'_def by (intro exI[of _ s'] exI[of _ fe] exI[of _ xe]) simp
qed

definition ev_inv :: "procevent \<Rightarrow> bool" where
  "ev_inv s \<longleftrightarrow> pt_inv (ev_tab s) \<and> ev_ring_inv s"

lemma ev_inv_init [simp]: "ev_inv procevent_init"
  by (simp add: ev_inv_def procevent_init_def ev_ring_inv_def)

lemma collect_shown:
  assumes "pt_inv (ev_tab s)"
  shows "\<exists>s'. procevent_collect clock fs (Some names) s = Some (0, s') \<and> pt_inv (ev_tab s') \<and>
    ev_tab s' = round_table EV_HASH (ev_cells fs (take EV_POOL (ev_pids names)) (start_round (ev_tab s)))
      (length (take EV_POOL (ev_pids names))) (start_round (ev_tab s)) \<and> ev_has_previous s' \<and>
    logs clock (if ev_has_previous s then shown_events fs (take EV_POOL (ev_pids names)) (ev_tab s) else []) s s'"
proof -
  define P where "P = take EV_POOL (ev_pids names)"
  define t0 where "t0 = start_round (ev_tab s)"
  define xs where "xs = ev_cells fs P t0"
  define t' where "t' = round_table EV_HASH xs (length P) t0"
  have p0: "pt_inv t0" and len: "length xs = length P" using assms by (simp_all add: t0_def xs_def)
  have fst_xs: "fst (xs ! i) = P ! i" if "i < length P" for i using that by (simp add: xs_def)
  let ?fork = "map (\<lambda>i. (Event_fork, xs ! i)) (filter (\<lambda>i. ev_has_previous s \<and> unseen xs t0 i) [0..<length P])"
  let ?exit = "gone t' (concat (map (\<lambda>h. chain_from (pt_pool t') (pt_idx (ev_tab s)) (pt_cur (ev_tab s) h)) [0..<EV_HASH]))"
  have un: "filter (unseen xs t0) [0..<length P] =
      filter (\<lambda>i. cell_before EV_HASH (ev_tab s) (pt_pool (round_table EV_HASH xs (Suc i) t0)) (P ! i) = None) [0..<length P]"
    by (rule filter_cong[OF refl]) (simp add: unseen_before[OF assms, folded t0_def] fst_xs)
  have eq: "?fork @ (if ev_has_previous s then ?exit else []) = (if ev_has_previous s then shown_events fs P (ev_tab s) else [])"
    unfolding shown_events_def Let_def t0_def[symmetric] xs_def[symmetric] t'_def[symmetric]
    using un gone_unlisted[OF p0, of fs P t0, folded xs_def, folded t'_def] by (simp add: comp_def del: set_map)
  show ?thesis
    using collect_exact[OF assms, of clock fs names]
    unfolding P_def[symmetric] t0_def[symmetric] xs_def[symmetric] t'_def[symmetric] eq by blast
qed

text \<open>
  C12 (what a collection reports). From every state the service reaches and for every listing of \<open>/proc\<close>, a collection
  returns and keeps the invariant. The events it logs are exactly these, in this order and with these names: nothing in the first round; later a
  start for each process of the listing that the previous chain of its hash value does not lead to, then an exit for each
  cell of the previous chains whose process is not listed. The history gets them at its end and keeps the latest
  hundred, each is counted once, and the table then holds the processes of the listing. Without a listing the collection
  returns -1 and logs nothing.
\<close>

theorem procevent_collect_reports:
  assumes "ev_inv s"
  shows "\<exists>s'. procevent_collect clock fs dir s = Some (if dir = None then -1 else 0, s') \<and> ev_inv s' \<and>
    (let evs = (case dir of None \<Rightarrow> [] | Some names \<Rightarrow>
         if ev_has_previous s then shown_events fs (take 8192 (ev_pids names)) (ev_tab s) else [])
     in ev_items s' = drop (length (ev_items s @ made_events clock (ev_tick s) evs) - 100) (ev_items s @ made_events clock (ev_tick s) evs) \<and>
        ev_forks s' = ev_forks s + of_nat (length (filter (\<lambda>e. fst e = Event_fork) evs)) \<and>
        ev_exits s' = ev_exits s + of_nat (length (filter (\<lambda>e. fst e = Event_exit) evs)) \<and>
        ev_execs s' = ev_execs s + of_nat (length (filter (\<lambda>e. fst e = Event_exec) evs)) \<and>
        ev_tick s' = ev_tick s + length evs) \<and>
    ev_has_previous s' = (dir \<noteq> None \<or> ev_has_previous s) \<and>
    ev_tab s' = (case dir of None \<Rightarrow> start_round (ev_tab s)
       | Some names \<Rightarrow> round_table EV_HASH (ev_cells fs (take 8192 (ev_pids names)) (start_round (ev_tab s)))
           (length (take 8192 (ev_pids names))) (start_round (ev_tab s)))"
proof (cases dir)
  case None
  have "ev_items s = drop (length (ev_items s) - 100) (ev_items s)" using assms
    by (auto simp: ev_inv_def ev_items_def ev_ring_inv_def)
  then show ?thesis using None assms
    by (intro exI[of _ "s\<lparr>ev_tab := start_round (ev_tab s)\<rparr>"])
      (simp add: procevent_collect_def ev_inv_def ev_ring_inv_def ev_items_def Let_def)
next
  case (Some names)
  have pt: "pt_inv (ev_tab s)" using assms by (simp add: ev_inv_def)
  define evs where "evs = (if ev_has_previous s then shown_events fs (take EV_POOL (ev_pids names)) (ev_tab s) else [])"
  obtain s' where c: "procevent_collect clock fs (Some names) s = Some (0, s')" "pt_inv (ev_tab s')"
    "ev_tab s' = round_table EV_HASH (ev_cells fs (take EV_POOL (ev_pids names)) (start_round (ev_tab s)))
      (length (take EV_POOL (ev_pids names))) (start_round (ev_tab s))" "ev_has_previous s'" "logs clock evs s s'"
    using collect_shown[OF pt, of clock fs names] unfolding evs_def[symmetric] by blast
  have lg: "logged (made_events clock (ev_tick s) evs) s s'" "ev_tick s' = ev_tick s + length evs" using c(5) by (simp_all add: logs_def)
  have r: "ev_ring_inv s" using assms by (simp add: ev_inv_def)
  note eff = logged_effect[OF lg(1) r, unfolded made_events_count]
  have e8192: "EV_POOL = 8192" by (simp add: EV_POOL_def)
  show ?thesis
    unfolding Some option.case Let_def evs_def[unfolded e8192, symmetric]
    using c(1-4) lg(2) eff unfolding e8192 ev_inv_def by (intro exI[of _ s']) simp
qed

lemma ev_pids_demo: "ev_pids [''5'', ''self'', ''6''] = [5, 6]" "ev_pids [''3'', ''5'', ''6''] = [3, 5, 6]"
  by (simp_all add: ev_pids_def is_pid_entry_def isdigit_def atoi_def strtoll_def isspace_def digit_val_def clamp64_def to_int32_def)

text \<open>One process that starts after an empty first round and ends before the third.\<close>

lemma one_head: "concat (map (\<lambda>h. if h = a then [x] else []) [0..<n]) = (if a < n then [x] else [])"
  by (induction n) auto

lemma shown_start: "pt_idx t = 0 \<Longrightarrow> shown_events fs [p] t = [(Event_fork, ev_cells fs [p] (start_round t) ! 0)]"
  by (simp add: shown_events_def cell_before_def Let_def)

lemma shown_exit:
  assumes "pt_idx t = 1" and "pt_cur t = (\<lambda>h. if h = hash_pid EV_HASH p then Some 0 else None)"
  shows "shown_events fs [] t = [(Event_exit, c_pid (pt_pool t 0), c_val (pt_pool t 0))]"
proof -
  have "hash_pid EV_HASH p < EV_HASH" by (simp add: hash_pid_def EV_HASH_def)
  moreover have "chain_from (pt_pool t) (pt_idx t) (pt_cur t h) = (if h = hash_pid EV_HASH p then [0] else [])" for h
    by (simp add: assms)
  ultimately have "concat (map (\<lambda>h. chain_from (pt_pool t) (pt_idx t) (pt_cur t h)) [0..<EV_HASH]) = [0]"
    by (simp only: one_head if_True)
  then show ?thesis
    by (simp add: shown_events_def Let_def round_table_def start_round_def)
qed

theorem procevent_collect_reports_witness:
  "\<exists>s1 s2 s3. procevent_collect (\<lambda>n. 0) (\<lambda>p. None) (Some []) procevent_init = Some (0, s1) \<and>
     procevent_collect (\<lambda>n. 0) (\<lambda>p. None) (Some [''5'']) s1 = Some (0, s2) \<and> procevent_collect (\<lambda>n. 0) (\<lambda>p. None) (Some []) s2 = Some (0, s3) \<and>
     (ev_forks s1, ev_exits s1) = (0, 0) \<and> (ev_forks s2, ev_exits s2) = (1, 0) \<and> (ev_forks s3, ev_exits s3) = (1, 1)"
proof -
  have i: "\<not> ev_has_previous procevent_init" "ev_forks procevent_init = 0" "ev_exits procevent_init = 0"
    by (simp_all add: procevent_init_def)
  have p: "ev_pids [] = []" "ev_pids [''5''] = [5]"
    by (simp_all add: ev_pids_def is_pid_entry_def isdigit_def atoi_def strtoll_def isspace_def digit_val_def clamp64_def to_int32_def)
  obtain s1 where s1: "procevent_collect (\<lambda>n. 0) (\<lambda>p. None) (Some []) procevent_init = Some (0, s1)" "ev_inv s1" "ev_has_previous s1"
    "ev_forks s1 = 0" "ev_exits s1 = 0" "pt_idx (ev_tab s1) = 0"
    using procevent_collect_reports[OF ev_inv_init, of "\<lambda>n. 0" "\<lambda>p. None" "Some []"] i p by (auto simp: Let_def round_table_def)
  obtain s2 where s2: "procevent_collect (\<lambda>n. 0) (\<lambda>p. None) (Some [''5'']) s1 = Some (0, s2)" "ev_inv s2" "ev_has_previous s2"
    "ev_forks s2 = 1" "ev_exits s2 = 0"
    "ev_tab s2 = round_table EV_HASH (ev_cells (\<lambda>p. None) [5] (start_round (ev_tab s1))) 1 (start_round (ev_tab s1))"
    using procevent_collect_reports[OF s1(2), of "\<lambda>n. 0" "\<lambda>p. None" "Some [''5'']"] s1 p by (auto simp: Let_def shown_start)
  have t2: "pt_idx (ev_tab s2) = 1" "pt_cur (ev_tab s2) = (\<lambda>h. if h = hash_pid EV_HASH 5 then Some 0 else None)"
    by (auto simp: s2(6) round_table_def)
  obtain s3 where "procevent_collect (\<lambda>n. 0) (\<lambda>p. None) (Some []) s2 = Some (0, s3)" "ev_forks s3 = 1" "ev_exits s3 = 1"
    using procevent_collect_reports[OF s2(2), of "\<lambda>n. 0" "\<lambda>p. None" "Some []"] s2(3-5) p by (auto simp: Let_def shown_exit[OF t2])
  then show ?thesis using s1 s2 by auto
qed

text \<open>Two collections from the start.\<close>

lemma two_rounds:
  "\<exists>s1 s2. procevent_collect clock fs (Some n1) procevent_init = Some (0, s1) \<and>
     procevent_collect clock fs (Some n2) s1 = Some (0, s2)"
proof -
  obtain s1 where s1: "procevent_collect clock fs (Some n1) procevent_init = Some (0, s1)" "pt_inv (ev_tab s1)"
    using collect_names[of procevent_init clock fs n1] ev_inv_init unfolding ev_inv_def by blast
  then show ?thesis using collect_names[OF s1(2), of clock fs n2] by blast
qed

section \<open>What the reuse of the pool does to the reports\<close>

text \<open>
  Also (a stable set of processes is silent). When a collection lists the same processes in the same order as the one before, it
  reports nothing.
\<close>

theorem procevent_stable_silent:
  assumes "ev_inv s0" and "procevent_collect clock fs1 (Some names1) s0 = Some (r1, s1)"
    and "procevent_collect clock fs2 (Some names2) s1 = Some (r2, s2)" and "ev_pids names2 = ev_pids names1"
  shows "ev_items s2 = ev_items s1 \<and> procevent_get_counters s2 = procevent_get_counters s1"
proof -
  let ?P = "take EV_POOL (ev_pids names1)" and ?t0 = "start_round (ev_tab s0)" and ?t1 = "start_round (ev_tab s1)"
  let ?xs = "ev_cells fs1 ?P ?t0" and ?ys = "ev_cells fs2 ?P ?t1"
  have s1: "ev_tab s1 = round_table EV_HASH ?xs (length ?P) ?t0" "pt_inv (ev_tab s1)"
    using collect_names[of s0 clock fs1 names1] assms(1,2) unfolding ev_inv_def by fastforce+
  obtain fe xe where s2: "logged (fe @ xe) s1 s2" "ev_tab s2 = round_table EV_HASH ?ys (length ?P) ?t1"
    "map (\<lambda>e. (ev_type e, ev_pid e)) fe = map (\<lambda>i. (Event_fork, ?P ! i)) (filter (\<lambda>i. ev_has_previous s1 \<and> unseen ?ys ?t1 i) [0..<length ?P])"
    "\<forall>x \<in> set xe. ev_pid x \<notin> set ?P \<and> (\<exists>i < pt_idx (ev_tab s1). ev_pid x = c_pid (pt_pool (ev_tab s2) i))"
    using collect_names[OF s1(2), of clock fs2 names2] assms(3) unfolding assms(4) by fastforce
  have "\<not> unseen ?ys ?t1 i" if "i < length ?P" for i
  proof -
    have "find_in_hash EV_HASH (round_table EV_HASH ?ys (Suc i) ?t1) (pt_prev (round_table EV_HASH ?ys (Suc i) ?t1)) (fst (?ys ! i))
        = Some (last_pos (\<lambda>j. fst (?xs ! j) = fst (?ys ! i)) (length ?xs))"
      using that s1(1) by (intro in_round_find_previous[of _ _ ?t0 "ev_tab s1" ?ys]) (auto simp: in_round_table)
    moreover have "last_pos (\<lambda>j. fst (?xs ! j) = fst (?ys ! i)) (length ?xs) \<noteq> None"
    proof
      assume "last_pos (\<lambda>j. fst (?xs ! j) = fst (?ys ! i)) (length ?xs) = None"
      then have "fst (?xs ! i) \<noteq> fst (?ys ! i)" using that unfolding last_pos_None ev_cells_simps(1) by blast
      then show False using that by simp
    qed
    ultimately show ?thesis by (simp add: unseen_def round_table_def)
  qed
  then have "filter (\<lambda>i. ev_has_previous s1 \<and> unseen ?ys ?t1 i) [0..<length ?P] = []" by (auto simp: filter_empty_conv)
  then have "fe = []" using s2(3) by simp
  moreover have "c_pid (pt_pool (ev_tab s2) i) \<in> set ?P" if "i < pt_idx (ev_tab s1)" for i
  proof -
    have "i < length ?P" using that unfolding s1(1) by (simp add: round_table_def)
    then have "c_pid (pt_pool (ev_tab s2) i) = ?P ! i" unfolding s2(2) by (simp add: round_table_def)
    then show ?thesis using nth_mem[OF \<open>i < length ?P\<close>] by simp
  qed
  then have "xe = []" using s2(4) by (cases xe) auto
  ultimately have "event_log.truncate s2 = event_log.truncate s1" using s2(1) by (simp add: logged_def)
  then show ?thesis
    unfolding procevent_get_counters_def by (metis truncate_fields(1,3,4,5))
qed

theorem procevent_stable_silent_witness:
  "\<exists>s1 s2. procevent_collect (\<lambda>n. 0) (\<lambda>p. None) (Some [''5'', ''self'', ''6'']) procevent_init = Some (0, s1) \<and>
     procevent_collect (\<lambda>n. 0) (\<lambda>p. None) (Some [''5'', ''self'', ''6'']) s1 = Some (0, s2) \<and> ev_items s2 = ev_items s1"
  using two_rounds procevent_stable_silent[OF ev_inv_init _ _ refl] by meson

text \<open>
  Also (exits are missed). Unless a listing is shorter than the one before, no exit is reported, whatever processes have
  ended: every cell that the previous chains lead to has been overwritten by a running process.
\<close>

theorem procevent_exits_missed:
  assumes "ev_inv s0" and "procevent_collect clock fs1 (Some names1) s0 = Some (r1, s1)"
    and "procevent_collect clock fs2 (Some names2) s1 = Some (r2, s2)" and "length (ev_pids names1) \<le> length (ev_pids names2)"
  shows "ev_exits s2 = ev_exits s1"
proof -
  let ?P1 = "take EV_POOL (ev_pids names1)" and ?P2 = "take EV_POOL (ev_pids names2)"
  have s1: "ev_tab s1 = round_table EV_HASH (ev_cells fs1 ?P1 (start_round (ev_tab s0))) (length ?P1) (start_round (ev_tab s0))"
    "pt_inv (ev_tab s1)" and i1: "ev_ring_inv s1"
    using collect_names[of s0 clock fs1 names1] assms(1,2) logged_effect(1) unfolding ev_inv_def by fastforce+
  obtain fe xe where s2: "logged (fe @ xe) s1 s2"
    "ev_tab s2 = round_table EV_HASH (ev_cells fs2 ?P2 (start_round (ev_tab s1))) (length ?P2) (start_round (ev_tab s1))"
    "map (\<lambda>e. (ev_type e, ev_pid e)) fe = map (\<lambda>i. (Event_fork, ?P2 ! i)) (filter (\<lambda>i. ev_has_previous s1 \<and>
      unseen (ev_cells fs2 ?P2 (start_round (ev_tab s1))) (start_round (ev_tab s1)) i) [0..<length ?P2])"
    "\<forall>x \<in> set xe. ev_pid x \<notin> set ?P2 \<and> (\<exists>i < pt_idx (ev_tab s1). ev_pid x = c_pid (pt_pool (ev_tab s2) i))"
    using collect_names[OF s1(2), of clock fs2 names2] assms(3) by fastforce
  have "c_pid (pt_pool (ev_tab s2) i) \<in> set ?P2" if "i < pt_idx (ev_tab s1)" for i
  proof -
    have "i < length ?P2" using that assms(4) unfolding s1(1) by (simp add: round_table_def)
    then have "c_pid (pt_pool (ev_tab s2) i) = ?P2 ! i" unfolding s2(2) by (simp add: round_table_def)
    then show ?thesis using nth_mem[OF \<open>i < length ?P2\<close>] by simp
  qed
  then have "xe = []" using s2(4) by (cases xe) auto
  moreover have "ev_type e = Event_fork" if "e \<in> set fe" for e
  proof -
    from that have "(ev_type e, ev_pid e) \<in> set (map (\<lambda>e. (ev_type e, ev_pid e)) fe)" by auto
    then show ?thesis unfolding s2(3) by auto
  qed
  ultimately show ?thesis using logged_effect(5)[OF s2(1) i1] by simp
qed

theorem procevent_exits_missed_witness:
  "\<exists>s1 s2. procevent_collect (\<lambda>n. 0) (\<lambda>p. None) (Some [''5'', ''self'', ''6'']) procevent_init = Some (0, s1) \<and>
     procevent_collect (\<lambda>n. 0) (\<lambda>p. None) (Some [''3'', ''5'', ''6'']) s1 = Some (0, s2) \<and> ev_exits s2 = ev_exits s1"
proof -
  have "length (ev_pids [''5'', ''self'', ''6'']) \<le> length (ev_pids [''3'', ''5'', ''6''])" by (simp add: ev_pids_demo)
  then show ?thesis using two_rounds procevent_exits_missed[OF ev_inv_init] by meson
qed

text \<open>
  Also (one start is reported as many). When a single process is listed before all those of the round before, and their hash
  values differ, every process of the listing is reported as started: each is compared with a cell that
  the process before it in the listing has just overwritten.
\<close>

theorem procevent_false_forks:
  assumes "ev_inv s0" and "procevent_collect clock fs1 (Some names1) s0 = Some (r1, s1)"
    and "procevent_collect clock fs2 (Some names2) s1 = Some (r2, s2)" and "ev_pids names2 = q # ev_pids names1"
    and "distinct (map (hash_pid 4096) (ev_pids names2))" and "length (ev_pids names2) \<le> 8192"
  shows "ev_forks s2 = ev_forks s1 + of_nat (length (ev_pids names2))"
proof -
  let ?P1 = "ev_pids names1" and ?P2 = "ev_pids names2" and ?t0 = "start_round (ev_tab s0)" and ?t1 = "start_round (ev_tab s1)"
  let ?ys = "ev_cells fs2 ?P2 ?t1"
  have len: "take EV_POOL ?P1 = ?P1" "take EV_POOL ?P2 = ?P2" using assms(4,6) by (simp_all add: EV_POOL_def)
  have s1: "ev_tab s1 = round_table EV_HASH (ev_cells fs1 ?P1 ?t0) (length ?P1) ?t0" "pt_inv (ev_tab s1)"
    "ev_has_previous s1" and i1: "ev_ring_inv s1"
    using collect_names[of s0 clock fs1 names1] assms(1,2) logged_effect(1) unfolding ev_inv_def len by fastforce+
  obtain fe xe where s2: "logged (fe @ xe) s1 s2"
    "map (\<lambda>e. (ev_type e, ev_pid e)) fe = map (\<lambda>i. (Event_fork, ?P2 ! i)) (filter (\<lambda>i. ev_has_previous s1 \<and> unseen ?ys ?t1 i) [0..<length ?P2])"
    "\<forall>x \<in> set xe. ev_type x = Event_exit"
    using collect_names[OF s1(2), of clock fs2 names2] assms(3) unfolding len by fastforce
  have h: "hash_pid EV_HASH (?P2 ! i) = hash_pid EV_HASH (?P2 ! j) \<longleftrightarrow> i = j" if "i < length ?P2" "j < length ?P2" for i j
    using assms(5) that by (auto simp: EV_HASH_def distinct_conv_nth)
  have P1: "?P1 ! k = ?P2 ! Suc k" for k using assms(4) by simp
  have l2: "length ?P2 = Suc (length ?P1)" using assms(4) by simp
  have un: "unseen ?ys ?t1 i" if i: "i < length ?P2" for i
  proof (cases i)
    case 0
    have "last_pos (\<lambda>j. hash_pid EV_HASH (fst (ev_cells fs1 ?P1 ?t0 ! j)) = hash_pid EV_HASH (?P2 ! 0)) (length ?P1) = None"
      unfolding last_pos_None
    proof (intro allI impI)
      fix j assume "j < length ?P1"
      then show "hash_pid EV_HASH (fst (ev_cells fs1 ?P1 ?t0 ! j)) \<noteq> hash_pid EV_HASH (?P2 ! 0)"
        using h[of "Suc j" 0] l2 by (simp add: P1)
    qed
    then show ?thesis using 0 i
      by (simp add: unseen_def find_in_hash_def start_round_def s1(1) round_table_def find_chain.simps)
  next
    case (Suc k)
    have k: "k < length ?P1" using Suc i assms(4) by simp
    have head: "last_pos (\<lambda>j. hash_pid EV_HASH (fst (ev_cells fs1 ?P1 ?t0 ! j)) = hash_pid EV_HASH (?P2 ! Suc k)) (length ?P1) = Some k"
      unfolding last_pos_Some
    proof (intro conjI allI impI)
      show "k < length ?P1" by (rule k)
      show "hash_pid EV_HASH (fst (ev_cells fs1 ?P1 ?t0 ! k)) = hash_pid EV_HASH (?P2 ! Suc k)" using k by (simp add: P1)
      show "hash_pid EV_HASH (fst (ev_cells fs1 ?P1 ?t0 ! j)) \<noteq> hash_pid EV_HASH (?P2 ! Suc k)" if "k < j \<and> j < length ?P1" for j
        using h[of "Suc j" "Suc k"] k l2 that by (simp add: P1)
    qed
    have nxt: "last_pos (\<lambda>j. hash_pid EV_HASH (fst (?ys ! j)) = hash_pid EV_HASH (fst (?ys ! k))) k = None"
      unfolding last_pos_None
    proof (intro allI impI)
      fix j assume "j < k"
      then show "hash_pid EV_HASH (fst (?ys ! j)) \<noteq> hash_pid EV_HASH (fst (?ys ! k))" using h[of j k] i Suc by simp
    qed
    have "?P2 ! k \<noteq> ?P2 ! Suc k" using h[of k "Suc k"] i Suc by auto
    then show ?thesis using Suc i head nxt
      by (simp add: unseen_def find_in_hash_def start_round_def s1(1) round_table_def find_chain.simps)
  qed
  then have "filter (\<lambda>i. ev_has_previous s1 \<and> unseen ?ys ?t1 i) [0..<length ?P2] = [0..<length ?P2]"
    using s1(3) by simp
  with s2(2) have fe: "map (\<lambda>e. (ev_type e, ev_pid e)) fe = map (\<lambda>i. (Event_fork, ?P2 ! i)) [0..<length ?P2]" by simp
  from arg_cong[OF fe, of length] have l: "length fe = length ?P2" by simp
  have "ev_type e = Event_fork" if "e \<in> set fe" for e
  proof -
    from that have "(ev_type e, ev_pid e) \<in> set (map (\<lambda>e. (ev_type e, ev_pid e)) fe)" by auto
    then show ?thesis unfolding fe by auto
  qed
  then have "filter (\<lambda>e. ev_type e = Event_fork) (fe @ xe) = fe" using s2(3) by (auto simp: filter_empty_conv)
  then show ?thesis using logged_effect(3)[OF s2(1) i1] l by simp
qed

theorem procevent_false_forks_witness:
  "\<exists>s1 s2. procevent_collect (\<lambda>n. 0) (\<lambda>p. None) (Some [''5'', ''self'', ''6'']) procevent_init = Some (0, s1) \<and>
     procevent_collect (\<lambda>n. 0) (\<lambda>p. None) (Some [''3'', ''5'', ''6'']) s1 = Some (0, s2) \<and> ev_forks s2 = ev_forks s1 + 3"
proof -
  have d: "ev_pids [''3'', ''5'', ''6''] = 3 # ev_pids [''5'', ''self'', ''6'']"
    "distinct (map (hash_pid 4096) (ev_pids [''3'', ''5'', ''6'']))" "length (ev_pids [''3'', ''5'', ''6'']) \<le> 8192"
    by (simp_all add: ev_pids_demo hash_pid_def)
  obtain s1 s2 where r: "procevent_collect (\<lambda>n. 0) (\<lambda>p. None) (Some [''5'', ''self'', ''6'']) procevent_init = Some (0, s1)"
    "procevent_collect (\<lambda>n. 0) (\<lambda>p. None) (Some [''3'', ''5'', ''6'']) s1 = Some (0, s2)"
    using two_rounds by blast
  then show ?thesis using procevent_false_forks[OF ev_inv_init r d] by (auto simp: ev_pids_demo)
qed

section \<open>What is shown\<close>

text \<open>The recent events are the latest ones of the history, newest first.\<close>

lemma recent_event_item:
  assumes "ev_ring_inv s" and "int i < ev_count s"
  shows "recent_event s i = ev_items s ! nat (ev_count s - 1 - int i)"
proof -
  have "ev_items s ! nat (ev_count s - 1 - int i) = ev_events s ! nat ((ev_head s - ev_count s + int (nat (ev_count s - 1 - int i))) mod MAX_EVENTS)"
    unfolding ev_items_def using assms by (intro ring_list_nth) simp
  also have "ev_head s - ev_count s + int (nat (ev_count s - 1 - int i)) = ev_head s - 1 - int i" using assms by simp
  finally have items: "ev_items s ! nat (ev_count s - 1 - int i) = ev_events s ! nat ((ev_head s - 1 - int i) mod MAX_EVENTS)" .
  have "trem (ev_head s - 1 - int i + MAX_EVENTS) MAX_EVENTS = (ev_head s - 1 - int i + MAX_EVENTS) mod MAX_EVENTS"
    using assms by (intro trem_nonneg) (simp_all add: ev_ring_inv_def MAX_EVENTS_def)
  then show ?thesis unfolding recent_event_def items by simp
qed

lemma rev_items: "ev_ring_inv s \<Longrightarrow> n \<le> nat (ev_count s) \<Longrightarrow> map (recent_event s) [0..<n] = take n (rev (ev_items s))"
  by (intro nth_equalityI) (auto simp: recent_event_item rev_nth ev_items_def nat_diff_distrib' intro!: arg_cong[where f = "\<lambda>i. ring_list _ _ _ _ ! i"])

text \<open>
  Also (recent events). \<open>procevent_get_recent\<close> copies the latest events, newest first, at most as many as it
  is asked for and as there are; a negative limit is returned as a negative number of events.
\<close>

theorem procevent_recent_latest:
  assumes "ev_ring_inv s"
  shows "snd (procevent_get_recent s n) = take (nat n) (rev (ev_items s)) \<and>
    (0 \<le> n \<longrightarrow> fst (procevent_get_recent s n) = int (length (snd (procevent_get_recent s n)))) \<and>
    (n < 0 \<longrightarrow> fst (procevent_get_recent s n) = n)"
proof -
  have c: "0 \<le> ev_count s" "length (ev_items s) = nat (ev_count s)" using assms by (auto simp: ev_ring_inv_def ev_items_def)
  have m: "map (recent_event s) [0..<nat k] = take (nat k) (rev (ev_items s))" if "k \<le> ev_count s" for k
    using that by (intro rev_items[OF assms]) simp
  show ?thesis using c m[of n] m[of "ev_count s"] by (auto simp: procevent_get_recent_def Let_def)
qed

theorem procevent_recent_latest_witness:
  "snd (procevent_get_recent procevent_init 5) = []"
  using procevent_recent_latest[of procevent_init 5] ev_inv_init
  by (simp add: ev_inv_def) (simp add: ev_items_def procevent_init_def ring_list_def)

definition event_tree :: "proc_event \<Rightarrow> jval" where
  "event_tree e = JObj [(''pid'', JInt (ev_pid e)), (''cmd'', JStr (ev_cmd e)), (''type'', JStr (type_str (ev_type e))),
     (''timestamp'', JUint (ev_timestamp e))]"

definition procevent_tree :: "procevent \<Rightarrow> jval" where
  "procevent_tree s = JObj [(''counters'', JObj [(''forks'', JUint (ev_forks s)), (''execs'', JUint (ev_execs s)),
      (''exits'', JUint (ev_exits s))]),
     (''recent_events'', JArr (map event_tree (take 20 (rev (ev_items s)))))]"

lemma emits_event [json_rules]: "emits_elts (event_obj e) [event_tree e]"
  unfolding event_obj_def event_tree_def by (rule emits_elts_cong, (rule json_rules)+, simp)

interpretation procevent_out: snapshot_writer procevent_snapshot procevent_tree ev_ring_inv "\<lambda>s. True"
proof
  fix s :: procevent
  assume s: "ev_ring_inv s"
  let ?n = "nat (if ev_count s > 20 then 20 else ev_count s)"
  have "map (recent_event s) [0..<?n] = take 20 (rev (ev_items s))"
    using s rev_items[OF s, of ?n] by (auto simp: ev_ring_inv_def ev_items_def)
  then have "map event_tree (map (recent_event s) [0..<?n]) = map event_tree (take 20 (rev (ev_items s)))" by simp
  then have m: "map (\<lambda>i. event_tree (recent_event s i)) [0..<?n] = map event_tree (take 20 (rev (ev_items s)))"
    unfolding map_map comp_def .
  show "emits_val (procevent_snapshot s) (procevent_tree s)"
    unfolding procevent_snapshot_def procevent_tree_def Let_def
    by (rule emits_val_cong, (rule json_rules)+) (simp add: m)
  show "jval_ok (procevent_tree s)"
    by (simp add: procevent_tree_def event_tree_def key_ok_def)
qed

end
