(* ===== verification/Scanf.thy ===== *)
theory Scanf
  imports Prelude
begin

text \<open>
  \<open>sscanf\<close> and \<open>strtoul\<close> of the C library, as far as the sources use them. A format is the list of its
  directives; the result is the list of the values assigned, so the number \<open>sscanf\<close> returns is its length. As in
  the C library, white space in front of a directive, line ends included, is skipped, numbers too large for
  \<open>long\<close> or \<open>unsigned long\<close> saturate, and are then cut to the type of the argument.
\<close>

named_theorems scan_simps \<open>evaluation of sscanf on printed numbers and words\<close>

section \<open>Directives\<close>

datatype num_kind = K_int | K_long | K_uint | K_ulong | K_hex | K_lhex

datatype directive = D_space | D_lit char | D_str nat | D_num num_kind

datatype sval = SStr string | SNum int

section \<open>Numbers\<close>

definition isxdigit :: "char \<Rightarrow> bool" where
  "isxdigit c \<longleftrightarrow> (let n = (of_char c :: nat) in isdigit c \<or> (65 \<le> n \<and> n \<le> 70) \<or> (97 \<le> n \<and> n \<le> 102))"

definition xdigit_val :: "char \<Rightarrow> nat" where
  "xdigit_val c = (let n = (of_char c :: nat) in if isdigit c then n - 48 else if n \<le> 70 then n - 55 else n - 87)"

fun xdigits_val :: "nat \<Rightarrow> string \<Rightarrow> nat" where
  "xdigits_val acc [] = acc"
| "xdigits_val acc (c # cs) = xdigits_val (16 * acc + xdigit_val c) cs"

text \<open>The value of \<open>strtoul\<close> for a sign and a magnitude: saturated, or negated modulo $2^{64}$.\<close>

definition ulong_of :: "bool \<Rightarrow> nat \<Rightarrow> int" where
  "ulong_of neg m = (if int m \<ge> 2 ^ 64 then 2 ^ 64 - 1 else if neg then (- int m) mod 2 ^ 64 else int m)"

definition long_of :: "bool \<Rightarrow> nat \<Rightarrow> int" where
  "long_of neg m = clamp64 (if neg then - int m else int m)"

definition split_sign :: "string \<Rightarrow> bool \<times> string" where
  "split_sign t = (t \<noteq> [] \<and> hd t = CHR ''-'', if t \<noteq> [] \<and> (hd t = CHR ''-'' \<or> hd t = CHR ''+'') then tl t else t)"

text \<open>The digits of a number and what follows; an \<open>0x\<close> in front of hexadecimal digits is skipped.\<close>

definition split_digits :: "bool \<Rightarrow> string \<Rightarrow> string \<times> string" where
  "split_digits hex t =
     (let P = (if hex then isxdigit else isdigit)
      in if hex \<and> starts_with ''0'' t \<and> tl t \<noteq> [] \<and> (hd (tl t) = CHR ''x'' \<or> hd (tl t) = CHR ''X'')
         then (CHR ''0'' # takeWhile P (tl (tl t)), dropWhile P (tl (tl t)))
         else (takeWhile P t, dropWhile P t))"

definition num_value :: "num_kind \<Rightarrow> bool \<Rightarrow> string \<Rightarrow> int" where
  "num_value k neg ds =
     (case k of
        K_long \<Rightarrow> long_of neg (digits_val 0 ds)
      | K_int \<Rightarrow> to_int32 (long_of neg (digits_val 0 ds))
      | K_ulong \<Rightarrow> ulong_of neg (digits_val 0 ds)
      | K_uint \<Rightarrow> ulong_of neg (digits_val 0 ds) mod 2 ^ 32
      | K_lhex \<Rightarrow> ulong_of neg (xdigits_val 0 ds)
      | K_hex \<Rightarrow> ulong_of neg (xdigits_val 0 ds) mod 2 ^ 32)"

definition scan_num :: "num_kind \<Rightarrow> string \<Rightarrow> (int \<times> string) option" where
  "scan_num k s =
     (case split_sign (dropWhile isspace s) of
        (neg, t) \<Rightarrow>
          (case split_digits (k = K_hex \<or> k = K_lhex) t of
             (ds, r) \<Rightarrow> if ds = [] then None else Some (num_value k neg ds, r)))"

section \<open>Words and formats\<close>

definition scan_str :: "nat \<Rightarrow> string \<Rightarrow> (string \<times> string) option" where
  "scan_str n s =
     (let t = dropWhile isspace s; w = take n (takeWhile (\<lambda>c. \<not> isspace c) t)
      in if w = [] then None else Some (w, drop (length w) t))"

fun sscanf :: "directive list \<Rightarrow> string \<Rightarrow> sval list" where
  "sscanf [] s = []"
| "sscanf (D_space # ds) s = sscanf ds (dropWhile isspace s)"
| "sscanf (D_lit c # ds) s = (if s \<noteq> [] \<and> hd s = c then sscanf ds (tl s) else [])"
| "sscanf (D_str n # ds) s = (case scan_str n s of None \<Rightarrow> [] | Some (w, r) \<Rightarrow> SStr w # sscanf ds r)"
| "sscanf (D_num k # ds) s = (case scan_num k s of None \<Rightarrow> [] | Some (v, r) \<Rightarrow> SNum v # sscanf ds r)"

text \<open>\<open>strtoul(s, &end, 10)\<close>: the value and the text behind it, which is the whole text when there is no number.\<close>

definition strtoul :: "string \<Rightarrow> int \<times> string" where
  "strtoul s = (case scan_num K_ulong s of None \<Rightarrow> (0, s) | Some (v, r) \<Rightarrow> (v, r))"

section \<open>Scanning what was printed\<close>

text \<open>What may follow a number or a word.\<close>

definition delimited :: "string \<Rightarrow> bool" where
  "delimited r \<longleftrightarrow> r = [] \<or> isspace (hd r)"

lemma delimited_simps [scan_simps, simp]:
  "delimited []" "isspace c \<Longrightarrow> delimited (c # r)"
  by (simp_all add: delimited_def)

lemma isspace_literals [scan_simps, simp]: "isspace CHR '' ''" "isspace LF" "isspace CHR 0x09"
  by (simp_all add: isspace_def)

lemma delimited_not_digit: "delimited r \<Longrightarrow> r \<noteq> [] \<longrightarrow> \<not> isdigit (hd r)"
  using isdigit_not_isspace by (auto simp: delimited_def)

lemma dropWhile_nat_str: "delimited r \<Longrightarrow> dropWhile isdigit (nat_str n @ r) = r"
proof -
  assume "delimited r"
  then have "r \<noteq> [] \<longrightarrow> \<not> isdigit (hd r)" by (rule delimited_not_digit)
  then show ?thesis by (cases r) (auto simp: dropWhile_append2 nat_str_digits)
qed

lemma scan_num_space [scan_simps, simp]: "isspace c \<Longrightarrow> scan_num k (c # s) = scan_num k s"
  by (simp add: scan_num_def)

lemma scan_str_space [scan_simps, simp]: "isspace c \<Longrightarrow> scan_str n (c # s) = scan_str n s"
  by (simp add: scan_str_def)

lemma split_nat_str: "split_sign (nat_str n @ r) = (False, nat_str n @ r)"
proof -
  obtain c cs where "nat_str n = c # cs" "isdigit c" using nat_str_hd by blast
  then show ?thesis using isdigit_not_sign by (simp add: split_sign_def)
qed

lemma dropWhile_space_nat_str: "dropWhile isspace (nat_str n @ r) = nat_str n @ r"
proof -
  obtain c cs where "nat_str n = c # cs" "isdigit c" using nat_str_hd by blast
  then show ?thesis using isdigit_not_isspace by simp
qed

lemma split_digits_nat_str: "delimited r \<Longrightarrow> split_digits False (nat_str n @ r) = (nat_str n, r)"
  by (simp add: split_digits_def takeWhile_nat_str delimited_not_digit dropWhile_nat_str)

lemma scan_num_nat_str:
  "delimited r \<Longrightarrow> k \<noteq> K_hex \<Longrightarrow> k \<noteq> K_lhex \<Longrightarrow> scan_num k (nat_str n @ r) = Some (num_value k False (nat_str n), r)"
  by (simp add: scan_num_def dropWhile_space_nat_str split_nat_str split_digits_nat_str)

lemma scan_ulong_nat_str [scan_simps]:
  "delimited r \<Longrightarrow> n < 2 ^ 64 \<Longrightarrow> scan_num K_ulong (nat_str n @ r) = Some (int n, r)"
  by (simp add: scan_num_nat_str num_value_def ulong_of_def digits_val_nat_str)

lemma scan_uint_nat_str [scan_simps]:
  "delimited r \<Longrightarrow> n < 2 ^ 32 \<Longrightarrow> scan_num K_uint (nat_str n @ r) = Some (int n, r)"
  by (simp add: scan_num_nat_str num_value_def ulong_of_def digits_val_nat_str)

lemma scan_neg_nat_str:
  "delimited r \<Longrightarrow> k \<noteq> K_hex \<Longrightarrow> k \<noteq> K_lhex \<Longrightarrow>
   scan_num k (CHR ''-'' # nat_str n @ r) = Some (num_value k True (nat_str n), r)"
  by (simp add: scan_num_def split_sign_def split_digits_nat_str isspace_def)

lemma scan_long_int_str [scan_simps]:
  "delimited r \<Longrightarrow> in_int64 i \<Longrightarrow> scan_num K_long (int_str i @ r) = Some (i, r)"
  by (cases "i < 0")
    (simp_all add: int_str_def scan_num_nat_str scan_neg_nat_str num_value_def long_of_def digits_val_nat_str clamp64_def in_int64_def)

lemma scan_int_int_str [scan_simps]:
  "delimited r \<Longrightarrow> - 2147483648 \<le> i \<Longrightarrow> i \<le> INT32_MAX \<Longrightarrow> scan_num K_int (int_str i @ r) = Some (i, r)"
  by (cases "i < 0")
    (simp_all add: int_str_def scan_num_nat_str scan_neg_nat_str num_value_def long_of_def digits_val_nat_str clamp64_def to_int32_id)

text \<open>A word: not empty and without white space.\<close>

definition word_ok :: "nat \<Rightarrow> string \<Rightarrow> bool" where
  "word_ok n w \<longleftrightarrow> w \<noteq> [] \<and> length w \<le> n \<and> (\<forall>c \<in> set w. \<not> isspace c)"

lemma scan_str_word [scan_simps]: "word_ok n w \<Longrightarrow> delimited r \<Longrightarrow> scan_str n (w @ r) = Some (w, r)"
proof -
  assume w: "word_ok n w" and r: "delimited r"
  have "takeWhile (\<lambda>c. \<not> isspace c) (w @ r) = w"
    using w r by (cases r) (auto simp: word_ok_def delimited_def takeWhile_append2)
  moreover have "dropWhile isspace (w @ r) = w @ r" using w by (cases w) (auto simp: word_ok_def)
  moreover have "0 < n" using w by (cases w) (auto simp: word_ok_def)
  ultimately show ?thesis using w by (simp add: scan_str_def word_ok_def)
qed

lemma scan_str_bound: "scan_str n s = Some (w, r) \<Longrightarrow> word_ok n w"
  by (auto simp: scan_str_def word_ok_def Let_def dest!: in_set_takeD set_takeWhileD split: if_splits)

text \<open>The blanks a formatted column is padded with.\<close>

definition blanks :: "nat \<Rightarrow> string" where
  "blanks n = replicate n CHR '' ''"

lemma blanks_skip [scan_simps, simp]:
  "dropWhile isspace (blanks n @ s) = dropWhile isspace s" "scan_num k (blanks n @ s) = scan_num k s" "scan_str m (blanks n @ s) = scan_str m s"
proof -
  show "dropWhile isspace (blanks n @ s) = dropWhile isspace s" by (induction n) (simp_all add: blanks_def)
  then show "scan_num k (blanks n @ s) = scan_num k s" "scan_str m (blanks n @ s) = scan_str m s"
    by (simp_all add: scan_num_def scan_str_def)
qed

lemma blanks_delimited [scan_simps, simp]: "0 < n \<Longrightarrow> delimited (blanks n @ r)"
  by (cases n) (simp_all add: blanks_def)

lemma blanks_set: "c \<in> set (blanks n) \<longleftrightarrow> 0 < n \<and> c = CHR '' ''"
  by (auto simp: blanks_def)

lemma blanks_length [simp]: "length (blanks n) = n"
  by (simp add: blanks_def)

lemma scan_num_range:
  "scan_num K_int s = Some (v, r) \<Longrightarrow> - 2147483648 \<le> v \<and> v \<le> INT32_MAX"
  "scan_num K_long s = Some (v, r) \<Longrightarrow> in_int64 v"
  "scan_num K_ulong s = Some (v, r) \<Longrightarrow> 0 \<le> v \<and> v < 2 ^ 64"
  "scan_num K_uint s = Some (v, r) \<Longrightarrow> 0 \<le> v \<and> v < 2 ^ 32"
  "scan_num K_hex s = Some (v, r) \<Longrightarrow> 0 \<le> v \<and> v < 2 ^ 32"
  using to_int32_range
  by (auto simp: scan_num_def num_value_def long_of_def ulong_of_def clamp64_def in_int64_def split: prod.splits if_splits)

end
