(* ===== verification/Http.thy ===== *)
theory Http
  imports Config Scanf "HOL-Library.Word"
begin

text \<open>
  The embedded HTTP server (\<open>src/web/http_server.c\<close>): routes, the request line, the answer, the life cycle. A handler is a value of a type
  \<open>'h\<close> of function pointers, \<open>run\<close> calls it. A connection is what the one \<open>recv\<close> returns, and what is sent; \<open>None\<close> is a read behind
  the header array.
\<close>

section \<open>State\<close>

record http_request =
  rq_method :: string
  rq_path :: string
  rq_query :: string
  rq_body :: "string option"

record http_response =
  rp_status_code :: int
  rp_content_type :: "string option"
  rp_body :: "string option"
  rp_body_len :: "64 word"

text \<open>
  \<open>ws_bound\<close> is the address and the port of the listening socket, \<open>ws_thread\<close> says whether the server thread is in its loop, \<open>ws_sent\<close> is what
  it has sent, one text for each connection.
\<close>

record 'h web_state =
  ws_running :: bool
  ws_bound :: "(int \<times> int) option"
  ws_thread :: bool
  ws_routes :: "(string \<times> 'h) list"
  ws_default :: "'h option"
  ws_sent :: "string list"

definition MAX_ROUTES :: nat where "MAX_ROUTES = 32"
definition MAX_REQUEST_SIZE :: nat where "MAX_REQUEST_SIZE = 65536"

definition web_initial :: "'h web_state" where
  "web_initial = \<lparr>ws_running = False, ws_bound = None, ws_thread = False, ws_routes = [], ws_default = None, ws_sent = []\<rparr>"

section \<open>Routes\<close>

definition http_register_handler :: "string \<Rightarrow> 'h \<Rightarrow> 'h web_state \<Rightarrow> 'h web_state" where
  "http_register_handler path handler s =
     (if length (ws_routes s) \<ge> MAX_ROUTES then s
      else s\<lparr>ws_routes := ws_routes s @ [(bounded_copy 128 path, handler)]\<rparr>)"

definition http_set_default_handler :: "'h \<Rightarrow> 'h web_state \<Rightarrow> 'h web_state" where
  "http_set_default_handler handler s = s\<lparr>ws_default := Some handler\<rparr>"

text \<open>A route is met exactly, or by its prefix when it ends in a star.\<close>

definition route_matches :: "string \<Rightarrow> string \<Rightarrow> bool" where
  "route_matches route path \<longleftrightarrow> route = path \<or> (route \<noteq> [] \<and> last route = CHR ''*'' \<and> starts_with (butlast route) path)"

fun find_route :: "(string \<times> 'h) list \<Rightarrow> 'h option \<Rightarrow> string \<Rightarrow> 'h option" where
  "find_route [] dflt path = dflt"
| "find_route ((route, handler) # routes) dflt path =
     (if route_matches route path then Some handler else find_route routes dflt path)"

definition find_handler :: "'h web_state \<Rightarrow> string \<Rightarrow> 'h option" where
  "find_handler s path = find_route (ws_routes s) (ws_default s) path"

section \<open>Requests and answers\<close>

definition CRLF :: string where "CRLF = [CR, LF]"

text \<open>\<open>buf\<close> is what was received, of any bytes; the string functions see it up to its first zero byte.\<close>

definition parse_request :: "string \<Rightarrow> http_request option" where
  "parse_request buf =
     (case strstr CRLF (cstr buf) of
        None \<Rightarrow> None
      | Some line_end \<Rightarrow>
          (case sscanf [D_str 15, D_space, D_str 1023] (cstr buf) of
             [SStr method, SStr target] \<Rightarrow>
               (let (path, query) = (case strchr (CHR ''?'') target of
                      Some q \<Rightarrow> (takeWhile (\<lambda>c. c \<noteq> CHR ''?'') target, bounded_copy 1024 (tl q))
                    | None \<Rightarrow> (target, []));
                    body = (case strstr (CRLF @ CRLF) (cstr buf) of
                        None \<Rightarrow> None
                      | Some b \<Rightarrow> Some (drop (length (cstr buf) - length b + 4) buf))
                in Some \<lparr>rq_method = method, rq_path = path, rq_query = query, rq_body = body\<rparr>)
           | _ \<Rightarrow> None))"

definition status_text :: "int \<Rightarrow> string" where
  "status_text code =
     (if code = 200 then ''OK'' else if code = 201 then ''Created'' else if code = 400 then ''Bad Request''
      else if code = 404 then ''Not Found'' else if code = 500 then ''Internal Server Error'' else ''Unknown'')"

definition response_header :: "http_response \<Rightarrow> string" where
  "response_header resp =
     ''HTTP/1.1 '' @ int_str (rp_status_code resp) @ '' '' @ status_text (rp_status_code resp) @ CRLF @
     ''Content-Type: '' @ (case rp_content_type resp of Some t \<Rightarrow> t | None \<Rightarrow> ''text/plain'') @ CRLF @
     ''Content-Length: '' @ nat_str (unat (rp_body_len resp)) @ CRLF @
     ''Connection: close'' @ CRLF @ ''Access-Control-Allow-Origin: *'' @ CRLF @ CRLF"

text \<open>\<open>snprintf\<close> returns the full length, and so many bytes of the array are sent.\<close>

definition send_response :: "http_response \<Rightarrow> string option" where
  "send_response resp =
     (if length (response_header resp) \<ge> 1024 then None
      else Some (response_header resp @
        (case rp_body resp of None \<Rightarrow> [] | Some b \<Rightarrow> if rp_body_len resp > 0 then take (unat (rp_body_len resp)) b else [])))"

definition http_handle_client ::
    "('h \<Rightarrow> http_request \<Rightarrow> http_response \<Rightarrow> http_response) \<Rightarrow> 'h web_state \<Rightarrow> string \<Rightarrow> string option" where
  "http_handle_client run s inp =
     (let buf = take (MAX_REQUEST_SIZE - 1) inp
      in if buf = [] then Some []
         else case parse_request buf of
             None \<Rightarrow> send_response \<lparr>rp_status_code = 400, rp_content_type = Some ''text/plain'', rp_body = Some ''Bad Request'', rp_body_len = 11\<rparr>
           | Some req \<Rightarrow>
               (case find_handler s (rq_path req) of
                  None \<Rightarrow> send_response \<lparr>rp_status_code = 404, rp_content_type = Some ''text/plain'', rp_body = Some ''Not Found'', rp_body_len = 9\<rparr>
                | Some handler \<Rightarrow>
                    send_response (run handler req
                      \<lparr>rp_status_code = 200, rp_content_type = Some ''application/json'', rp_body = Some [], rp_body_len = 0\<rparr>)))"

section \<open>Life cycle\<close>

text \<open>What one turn of the loop meets; a connection brings the bytes of its first \<open>recv\<close>, none when that fails.\<close>

datatype web_poll = WInterrupted | WPollFailed | WTimeout | WOther | WAcceptFailed | WConnection string

definition web_turn ::
    "('h \<Rightarrow> http_request \<Rightarrow> http_response \<Rightarrow> http_response) \<Rightarrow> web_poll \<Rightarrow> 'h web_state \<Rightarrow> 'h web_state option" where
  "web_turn run ev s =
     (case ev of
        WPollFailed \<Rightarrow> Some (s\<lparr>ws_thread := False\<rparr>)
      | WConnection inp \<Rightarrow> map_option (\<lambda>out. s\<lparr>ws_sent := ws_sent s @ [out]\<rparr>) (http_handle_client run s inp)
      | _ \<Rightarrow> Some s)"

fun web_server_thread ::
    "('h \<Rightarrow> http_request \<Rightarrow> http_response \<Rightarrow> http_response) \<Rightarrow> web_poll list \<Rightarrow> 'h web_state \<Rightarrow> 'h web_state option" where
  "web_server_thread run [] s = Some s"
| "web_server_thread run (ev # evs) s =
     (if ws_running s \<and> ws_thread s
      then case web_turn run ev s of None \<Rightarrow> None | Some s' \<Rightarrow> web_server_thread run evs s'
      else Some s)"

text \<open>
  The outcomes of the system calls are arguments. \<open>inet_pton\<close> gives the address a text stands for, \<open>None\<close> for a text that is none; its
  result is not looked at, and the address stays zero, which is every interface.
\<close>

definition http_server_start ::
    "bool \<Rightarrow> (int \<times> int \<Rightarrow> bool) \<Rightarrow> bool \<Rightarrow> bool \<Rightarrow> (string \<Rightarrow> int option) \<Rightarrow> qmem_config \<Rightarrow> 'h web_state \<Rightarrow> int \<times> 'h web_state" where
  "http_server_start socket_ok bind_ok listen_ok thread_ok inet_pton cfg s =
     (if \<not> web_enabled cfg then (0, s)
      else if \<not> socket_ok then (-1, s\<lparr>ws_bound := None\<rparr>)
      else let addr = (case inet_pton (web_listen cfg) of Some a \<Rightarrow> a | None \<Rightarrow> 0); port = web_port cfg mod 65536
           in if \<not> bind_ok (addr, port) then (-1, s\<lparr>ws_bound := None\<rparr>)
              else if \<not> listen_ok then (-1, s\<lparr>ws_bound := None\<rparr>)
              else if \<not> thread_ok then (-1, s\<lparr>ws_bound := None, ws_running := False\<rparr>)
              else (0, s\<lparr>ws_bound := Some (addr, port), ws_running := True, ws_thread := True\<rparr>))"

definition http_server_stop :: "'h web_state \<Rightarrow> 'h web_state" where
  "http_server_stop s = (if \<not> ws_running s then s else s\<lparr>ws_running := False, ws_bound := None, ws_thread := False\<rparr>)"

definition http_server_is_running :: "'h web_state \<Rightarrow> bool" where
  "http_server_is_running s = ws_running s"

section \<open>Every connection is answered\<close>

lemma nat_str_word_length: "length (nat_str (unat (w :: 64 word))) \<le> 20"
proof -
  have "unat w < 2 ^ 64" using unsigned_less[of w, where 'a = nat] by simp
  then have "unat w < 10 ^ 20" by simp
  then show ?thesis by (rule nat_str_length) simp
qed

lemma int_str_length32: "- 2147483648 \<le> i \<Longrightarrow> i \<le> INT32_MAX \<Longrightarrow> length (int_str i) \<le> 11"
proof -
  assume "- 2147483648 \<le> i" "i \<le> INT32_MAX"
  then have "nat i < 10 ^ 10" "nat (- i) < 10 ^ 10" by (auto simp: nat_less_iff)
  then have "length (nat_str (nat i)) \<le> 10" "length (nat_str (nat (- i))) \<le> 10"
    using nat_str_length[of "nat i" 10] nat_str_length[of "nat (- i)" 10] by simp_all
  then show ?thesis by (simp add: int_str_def)
qed

lemma response_header_length:
  assumes "- 2147483648 \<le> rp_status_code r" "rp_status_code r \<le> INT32_MAX" "\<And>t. rp_content_type r = Some t \<Longrightarrow> length t \<le> 256"
  shows "length (response_header r) < 1024"
proof -
  have "length (status_text (rp_status_code r)) \<le> 21" by (simp add: status_text_def)
  moreover have "length (case rp_content_type r of Some t \<Rightarrow> t | None \<Rightarrow> ''text/plain'') \<le> 256"
    using assms(3) by (simp split: option.split)
  ultimately show ?thesis
    using int_str_length32[OF assms(1,2)] nat_str_word_length[of "rp_body_len r"]
    by (simp add: response_header_def CRLF_def)
qed

text \<open>The contract of handlers: the status is an \<open>int\<close> and the type is short enough for the header array.\<close>

locale web_handlers =
  fixes run :: "'h \<Rightarrow> http_request \<Rightarrow> http_response \<Rightarrow> http_response"
  assumes status: "- 2147483648 \<le> rp_status_code r \<and> rp_status_code r \<le> INT32_MAX \<Longrightarrow>
      - 2147483648 \<le> rp_status_code (run h req r) \<and> rp_status_code (run h req r) \<le> INT32_MAX"
    and content_type: "rp_content_type r = Some ''application/json'' \<Longrightarrow> rp_content_type (run h req r) = Some t \<Longrightarrow> length t \<le> 256"
begin

lemma send_returns:
  assumes "rp_content_type r = Some ''application/json''" "- 2147483648 \<le> rp_status_code r \<and> rp_status_code r \<le> INT32_MAX"
  shows "\<exists>out. send_response (run h req r) = Some out"
proof -
  have "length (response_header (run h req r)) < 1024"
    using response_header_length[of "run h req r"] status[OF assms(2)] content_type[OF assms(1)] by blast
  then show ?thesis by (simp add: send_response_def)
qed

lemma handle_client_returns: "\<exists>out. http_handle_client run s inp = Some out"
proof -
  have fixed: "\<exists>out. send_response r = Some out"
    if "rp_content_type r = Some ''text/plain''" "rp_status_code r = 400 \<or> rp_status_code r = 404" for r
  proof -
    have "length (response_header r) < 1024" using that by (intro response_header_length) auto
    then show ?thesis by (simp add: send_response_def)
  qed
  show ?thesis
    by (auto simp: http_handle_client_def Let_def intro!: fixed send_returns split: option.split)
qed

lemma serves_in_order:
  assumes "ws_running s" "ws_thread s"
  shows "\<exists>s'. web_server_thread run evs s = Some s' \<and> ws_running s' \<and> (ws_thread s' \<longleftrightarrow> WPollFailed \<notin> set evs) \<and>
    ws_routes s' = ws_routes s \<and> ws_default s' = ws_default s \<and>
    ws_sent s' = ws_sent s @ concat (map (\<lambda>e. case e of WConnection inp \<Rightarrow> [the (http_handle_client run s inp)] | _ \<Rightarrow> [])
      (takeWhile (\<lambda>e. e \<noteq> WPollFailed) evs))"
  using assms
proof (induction evs arbitrary: s)
  case (Cons ev evs)
  have done_: "web_server_thread run evs t = Some t" if "\<not> ws_thread t" for t evs using that by (cases evs) simp_all
  show ?case
  proof (cases ev)
    case (WConnection inp)
    obtain out where out: "http_handle_client run s inp = Some out" using handle_client_returns by blast
    let ?t = "s\<lparr>ws_sent := ws_sent s @ [out]\<rparr>"
    have "find_handler ?t = find_handler s" by (intro ext) (simp add: find_handler_def)
    then have same: "http_handle_client run ?t = http_handle_client run s"
      by (intro ext) (simp only: http_handle_client_def)
    from Cons.IH[of ?t] Cons.prems obtain s' where "web_server_thread run evs ?t = Some s'" "ws_running s'"
      "ws_thread s' \<longleftrightarrow> WPollFailed \<notin> set evs" "ws_routes s' = ws_routes s" "ws_default s' = ws_default s"
      "ws_sent s' = ws_sent ?t @ concat (map (\<lambda>e. case e of WConnection inp \<Rightarrow> [the (http_handle_client run s inp)] | _ \<Rightarrow> [])
        (takeWhile (\<lambda>e. e \<noteq> WPollFailed) evs))"
      unfolding same by auto
    then show ?thesis using Cons.prems out WConnection by (simp add: web_turn_def)
  next
    case WPollFailed
    then show ?thesis using Cons.prems done_[of "s\<lparr>ws_thread := False\<rparr>" evs] by (simp add: web_turn_def)
  qed (use Cons.IH[OF Cons.prems] Cons.prems in \<open>simp_all add: web_turn_def\<close>)
qed simp

end

end
