(* ===== verification/StaticFiles.thy ===== *)
theory StaticFiles
  imports Http
begin

text \<open>
  The files of the dashboard that are compiled into the daemon (\<open>src/web/static_files.c\<close>): the texts, one list element for each line of the
  source, and the table of paths.
\<close>

section \<open>The texts\<close>

definition text_lines :: "string list \<Rightarrow> string" where
  "text_lines ls = concat (map (\<lambda>l. l @ [LF]) ls)"

definition INDEX_LINES :: "string list" where \<open>
  INDEX_LINES = [
    ''<!DOCTYPE html>'',
    ''<html lang="en">'',
    ''<head>'',
    ''    <meta charset="UTF-8">'',
    ''    <meta name="viewport" content="width=device-width, initial-scale=1.0">'',
    ''    <title>QMem - Memory Monitor</title>'',
    ''    <link rel="stylesheet" href="/style.css">'',
    ''</head>'',
    ''<body>'',
    ''    <div class="container">'',
    ''        <header>'',
    ''            <h1>QMem Memory Monitor</h1>'',
    ''            <div id="status" class="status">Connecting...</div>'',
    ''        </header>'',
    [],
    ''        <section class="card">'',
    ''            <h2>System Memory</h2>'',
    ''            <div class="stat-grid">'',
    ''                <div class="stat">'',
    ''                    <span class="label">Usage</span>'',
    ''                    <span id="usage" class="value">--</span>'',
    ''                </div>'',
    ''                <div class="stat">'',
    ''                    <span class="label">Available</span>'',
    ''                    <span id="available" class="value">--</span>'',
    ''                </div>'',
    ''                <div class="stat">'',
    ''                    <span class="label">Cached</span>'',
    ''                    <span id="cached" class="value">--</span>'',
    ''                </div>'',
    ''                <div class="stat">'',
    ''                    <span class="label">Slab</span>'',
    ''                    <span id="slab" class="value">--</span>'',
    ''                </div>'',
    ''            </div>'',
    ''            <div class="progress-container">'',
    ''                <div id="usage-bar" class="progress-bar"></div>'',
    ''            </div>'',
    ''        </section>'',
    [],
    ''        <section class="card">'',
    ''            <h2>Top RSS Growers</h2>'',
    ''            <table id="proc-table">'',
    ''                <thead>'',
    ''                    <tr>'',
    ''                        <th>PID</th>'',
    ''                        <th>RSS Delta</th>'',
    ''                        <th>RSS</th>'',
    ''                        <th>Command</th>'',
    ''                    </tr>'',
    ''                </thead>'',
    ''                <tbody id="proc-body">'',
    ''                </tbody>'',
    ''            </table>'',
    ''        </section>'',
    [],
    ''        <section class="card">'',
    ''            <h2>Slab Cache Changes</h2>'',
    ''            <table id="slab-table">'',
    ''                <thead>'',
    ''                    <tr>'',
    ''                        <th>Cache</th>'',
    ''                        <th>Delta</th>'',
    ''                        <th>Current</th>'',
    ''                    </tr>'',
    ''                </thead>'',
    ''                <tbody id="slab-body">'',
    ''                </tbody>'',
    ''            </table>'',
    ''        </section>'',
    ''    </div>'',
    ''    <script src="/app.js"></script>'',
    ''</body>'',
    ''</html>'']\<close>

definition STYLE_LINES :: "string list" where \<open>
  STYLE_LINES = [
    '':root {'',
    ''    --bg-primary: #0d1117;'',
    ''    --bg-secondary: #161b22;'',
    ''    --bg-tertiary: #21262d;'',
    ''    --text-primary: #c9d1d9;'',
    ''    --text-secondary: #8b949e;'',
    ''    --accent: #58a6ff;'',
    ''    --success: #3fb950;'',
    ''    --warning: #d29922;'',
    ''    --danger: #f85149;'',
    ''    --border: #30363d;'',
    ''}'',
    [],
    ''* {'',
    ''    margin: 0;'',
    ''    padding: 0;'',
    ''    box-sizing: border-box;'',
    ''}'',
    [],
    ''body {'',
    ''    font-family: -apple-system, BlinkMacSystemFont, 'Segoe UI', Helvetica, Arial, sans-serif;'',
    ''    background: var(--bg-primary);'',
    ''    color: var(--text-primary);'',
    ''    line-height: 1.5;'',
    ''}'',
    [],
    ''.container {'',
    ''    max-width: 1200px;'',
    ''    margin: 0 auto;'',
    ''    padding: 20px;'',
    ''}'',
    [],
    ''header {'',
    ''    display: flex;'',
    ''    justify-content: space-between;'',
    ''    align-items: center;'',
    ''    margin-bottom: 24px;'',
    ''    padding-bottom: 16px;'',
    ''    border-bottom: 1px solid var(--border);'',
    ''}'',
    [],
    ''header h1 {'',
    ''    font-size: 24px;'',
    ''    font-weight: 600;'',
    ''}'',
    [],
    ''.status {'',
    ''    padding: 4px 12px;'',
    ''    border-radius: 12px;'',
    ''    font-size: 12px;'',
    ''    background: var(--bg-tertiary);'',
    ''}'',
    [],
    ''.status.connected {'',
    ''    background: rgba(63, 185, 80, 0.2);'',
    ''    color: var(--success);'',
    ''}'',
    [],
    ''.card {'',
    ''    background: var(--bg-secondary);'',
    ''    border: 1px solid var(--border);'',
    ''    border-radius: 8px;'',
    ''    padding: 20px;'',
    ''    margin-bottom: 16px;'',
    ''}'',
    [],
    ''.card h2 {'',
    ''    font-size: 16px;'',
    ''    font-weight: 600;'',
    ''    margin-bottom: 16px;'',
    ''    color: var(--text-secondary);'',
    ''}'',
    [],
    ''.stat-grid {'',
    ''    display: grid;'',
    ''    grid-template-columns: repeat(auto-fit, minmax(140px, 1fr));'',
    ''    gap: 16px;'',
    ''    margin-bottom: 16px;'',
    ''}'',
    [],
    ''.stat {'',
    ''    display: flex;'',
    ''    flex-direction: column;'',
    ''}'',
    [],
    ''.stat .label {'',
    ''    font-size: 12px;'',
    ''    color: var(--text-secondary);'',
    ''    margin-bottom: 4px;'',
    ''}'',
    [],
    ''.stat .value {'',
    ''    font-size: 24px;'',
    ''    font-weight: 600;'',
    ''    font-variant-numeric: tabular-nums;'',
    ''}'',
    [],
    ''.progress-container {'',
    ''    height: 8px;'',
    ''    background: var(--bg-tertiary);'',
    ''    border-radius: 4px;'',
    ''    overflow: hidden;'',
    ''}'',
    [],
    ''.progress-bar {'',
    ''    height: 100%;'',
    ''    background: linear-gradient(90deg, var(--success), var(--warning));'',
    ''    transition: width 0.5s ease;'',
    ''    border-radius: 4px;'',
    ''}'',
    [],
    ''table {'',
    ''    width: 100%;'',
    ''    border-collapse: collapse;'',
    ''    font-size: 14px;'',
    ''}'',
    [],
    ''th, td {'',
    ''    text-align: left;'',
    ''    padding: 8px 12px;'',
    ''    border-bottom: 1px solid var(--border);'',
    ''}'',
    [],
    ''th {'',
    ''    color: var(--text-secondary);'',
    ''    font-weight: 500;'',
    ''}'',
    [],
    ''tr:hover {'',
    ''    background: var(--bg-tertiary);'',
    ''}'',
    [],
    ''.delta-pos {'',
    ''    color: var(--danger);'',
    ''}'',
    [],
    ''.delta-neg {'',
    ''    color: var(--success);'',
    ''}'',
    [],
    ''.cmd {'',
    ''    max-width: 300px;'',
    ''    overflow: hidden;'',
    ''    text-overflow: ellipsis;'',
    ''    white-space: nowrap;'',
    ''    color: var(--text-secondary);'',
    ''}'']\<close>

definition APP_LINES :: "string list" where \<open>
  APP_LINES = [
    ''(function() {'',
    ''    const API_URL = '/api/status';'',
    ''    const REFRESH_INTERVAL = 5000;'',
    [],
    ''    function formatBytes(kb) {'',
    ''        if (kb >= 1048576) return (kb / 1048576).toFixed(2) + ' GB';'',
    ''        if (kb >= 1024) return (kb / 1024).toFixed(2) + ' MB';'',
    ''        return kb + ' KB';'',
    ''    }'',
    [],
    ''    function formatDelta(kb) {'',
    ''        const abs = Math.abs(kb);'',
    ''        const str = formatBytes(abs);'',
    ''        if (kb > 0) return '+' + str;'',
    ''        if (kb < 0) return '-' + str;'',
    ''        return '0';'',
    ''    }'',
    [],
    ''    function updateUI(data) {'',
    ''        const status = document.getElementById('status');'',
    ''        status.textContent = 'Connected';'',
    ''        status.classList.add('connected');'',
    [],
    ''        // Meminfo'',
    ''        const meminfo = data.services?.meminfo;'',
    ''        if (meminfo) {'',
    ''            document.getElementById('usage').textContent = meminfo.usage_percent?.toFixed(1) + '%';'',
    ''            document.getElementById('usage-bar').style.width = meminfo.usage_percent + '%';'',
    ''            '',
    ''            const mem = meminfo.memory || {};'',
    ''            document.getElementById('available').textContent = formatBytes(mem.available_kb?.value || 0);'',
    ''            document.getElementById('cached').textContent = formatBytes(mem.cached_kb?.value || 0);'',
    ''            '',
    ''            const kern = meminfo.kernel || {};'',
    ''            document.getElementById('slab').textContent = formatBytes(kern.slab_kb?.value || 0);'',
    ''        }'',
    [],
    ''        // Procmem'',
    ''        const procmem = data.services?.procmem;'',
    ''        const procBody = document.getElementById('proc-body');'',
    ''        procBody.innerHTML = '' @ [CHR 0x27, CHR 0x27] @ '';'',
    ''        if (procmem?.top_growers) {'',
    ''            procmem.top_growers.forEach(p => {'',
    ''                const row = document.createElement('tr');'',
    ''                const deltaClass = p.rss_delta_kb > 0 ? 'delta-pos' : 'delta-neg';'',
    ''                row.innerHTML = `'',
    ''                    <td>${p.pid}</td>'',
    ''                    <td class="${deltaClass}">${formatDelta(p.rss_delta_kb)}</td>'',
    ''                    <td>${formatBytes(p.rss_kb)}</td>'',
    ''                    <td class="cmd">${p.cmd || '' @ [CHR 0x27, CHR 0x27] @ ''}</td>'',
    ''                `;'',
    ''                procBody.appendChild(row);'',
    ''            });'',
    ''        }'',
    [],
    ''        // Slabinfo'',
    ''        const slabinfo = data.services?.slabinfo;'',
    ''        const slabBody = document.getElementById('slab-body');'',
    ''        slabBody.innerHTML = '' @ [CHR 0x27, CHR 0x27] @ '';'',
    ''        if (slabinfo?.top_growers) {'',
    ''            slabinfo.top_growers.forEach(s => {'',
    ''                const row = document.createElement('tr');'',
    ''                row.innerHTML = `'',
    ''                    <td>${s.name}</td>'',
    ''                    <td class="delta-pos">${formatDelta(Math.floor(s.delta_bytes / 1024))}</td>'',
    ''                    <td>${formatBytes(Math.floor(s.size_bytes / 1024))}</td>'',
    ''                `;'',
    ''                slabBody.appendChild(row);'',
    ''            });'',
    ''        }'',
    ''    }'',
    [],
    ''    function fetchData() {'',
    ''        fetch(API_URL)'',
    ''            .then(res => res.json())'',
    ''            .then(data => updateUI(data))'',
    ''            .catch(err => {'',
    ''                console.error('Fetch error:', err);'',
    ''                const status = document.getElementById('status');'',
    ''                status.textContent = 'Disconnected';'',
    ''                status.classList.remove('connected');'',
    ''            });'',
    ''    }'',
    [],
    ''    // Initial fetch'',
    ''    fetchData();'',
    [],
    ''    // Periodic refresh'',
    ''    setInterval(fetchData, REFRESH_INTERVAL);'',
    ''})();'']\<close>

definition INDEX_HTML :: string where "INDEX_HTML = text_lines INDEX_LINES"
definition STYLE_CSS :: string where "STYLE_CSS = text_lines STYLE_LINES"
definition APP_JS :: string where "APP_JS = text_lines APP_LINES"

section \<open>The table\<close>

record static_file =
  sf_path :: string
  sf_content :: string
  sf_content_type :: string

definition FILES :: "static_file list" where
  "FILES =
     [\<lparr>sf_path = ''/'', sf_content = INDEX_HTML, sf_content_type = ''text/html''\<rparr>,
      \<lparr>sf_path = ''/index.html'', sf_content = INDEX_HTML, sf_content_type = ''text/html''\<rparr>,
      \<lparr>sf_path = ''/style.css'', sf_content = STYLE_CSS, sf_content_type = ''text/css''\<rparr>,
      \<lparr>sf_path = ''/app.js'', sf_content = APP_JS, sf_content_type = ''application/javascript''\<rparr>]"

fun find_file :: "static_file list \<Rightarrow> string \<Rightarrow> static_file option" where
  "find_file [] path = None"
| "find_file (f # fs) path = (if path = sf_path f then Some f else find_file fs path)"

definition static_files_handler :: "http_request \<Rightarrow> http_response \<Rightarrow> http_response" where
  "static_files_handler req resp =
     (case find_file FILES (rq_path req) of
        Some f \<Rightarrow> resp\<lparr>rp_body := Some (sf_content f), rp_body_len := of_nat (length (sf_content f)),
                       rp_content_type := Some (sf_content_type f), rp_status_code := 200\<rparr>
      | None \<Rightarrow> resp\<lparr>rp_body := Some ''Not Found'', rp_body_len := 9, rp_content_type := Some ''text/plain'', rp_status_code := 404\<rparr>)"

end
