(* ===== verification/WebApi.thy ===== *)
theory WebApi
  imports StaticFiles
begin

text \<open>
  The handlers of the web interface (\<open>src/web/api.c\<close>), and what a browser gets for each path.
\<close>

section \<open>Handlers\<close>

text \<open>The functions that are registered, and the call of one. \<open>cb\<close> is the snapshot callback: \<open>None\<close> when not set, and it may return NULL.\<close>

datatype web_handler = Handle_api_status | Handle_api_health | Static_files_handler

definition no_data_text :: string where \<open>no_data_text = ''{"error":"No data available"}''\<close>
definition health_text :: string where \<open>health_text = ''{"status":"ok"}''\<close>

definition handle_api_status :: "string option option \<Rightarrow> http_request \<Rightarrow> http_response \<Rightarrow> http_response" where
  "handle_api_status cb req resp =
     (case cb of
        Some (Some snapshot) \<Rightarrow> resp\<lparr>rp_body := Some snapshot, rp_body_len := of_nat (length snapshot),
          rp_content_type := Some ''application/json'', rp_status_code := 200\<rparr>
      | _ \<Rightarrow> (let body = no_data_text
             in resp\<lparr>rp_body := Some body, rp_body_len := of_nat (length body), rp_status_code := 503\<rparr>))"

definition handle_api_health :: "http_request \<Rightarrow> http_response \<Rightarrow> http_response" where
  "handle_api_health req resp =
     (let body = health_text
      in resp\<lparr>rp_body := Some body, rp_body_len := of_nat (length body), rp_content_type := Some ''application/json'', rp_status_code := 200\<rparr>)"

definition run_web :: "string option option \<Rightarrow> web_handler \<Rightarrow> http_request \<Rightarrow> http_response \<Rightarrow> http_response" where
  "run_web cb h =
     (case h of Handle_api_status \<Rightarrow> handle_api_status cb | Handle_api_health \<Rightarrow> handle_api_health | Static_files_handler \<Rightarrow> static_files_handler)"

definition api_init :: "web_handler web_state \<Rightarrow> web_handler web_state" where
  "api_init s =
     http_set_default_handler Static_files_handler
       (http_register_handler ''/api/health'' Handle_api_health
         (http_register_handler ''/api/snapshot'' Handle_api_status
           (http_register_handler ''/api/status'' Handle_api_status s)))"

interpretation web: web_handlers "run_web cb"
proof
  show "- 2147483648 \<le> rp_status_code (run_web cb h req r) \<and> rp_status_code (run_web cb h req r) \<le> INT32_MAX"
    if "- 2147483648 \<le> rp_status_code r \<and> rp_status_code r \<le> INT32_MAX" for r h req
    using that by (cases h) (auto simp: run_web_def handle_api_status_def handle_api_health_def static_files_handler_def Let_def split: option.split)
  show "length t \<le> 256"
    if "rp_content_type r = Some ''application/json''" "rp_content_type (run_web cb h req r) = Some t" for r h req t
    using that
    by (cases h) (auto simp: run_web_def handle_api_status_def handle_api_health_def static_files_handler_def FILES_def Let_def
        split: option.splits if_splits)
qed

section \<open>Requests of a browser\<close>

text \<open>A request: method, target and whatever follows the request line.\<close>

definition request_text :: "string \<Rightarrow> string \<Rightarrow> string \<Rightarrow> string" where
  "request_text m target rest = m @ '' '' @ target @ '' HTTP/1.1'' @ CRLF @ rest"

definition target_text :: "string \<Rightarrow> string option \<Rightarrow> string" where
  "target_text path query = path @ (case query of None \<Rightarrow> [] | Some q \<Rightarrow> CHR ''?'' # q)"

text \<open>What the interface has to say about a path: status, type, contents.\<close>

definition web_page :: "string option option \<Rightarrow> string \<Rightarrow> int \<times> string \<times> string" where
  "web_page cb path =
     (if path = ''/api/status'' \<or> path = ''/api/snapshot''
      then (case cb of Some (Some t) \<Rightarrow> (200, ''application/json'', t) | _ \<Rightarrow> (503, ''application/json'', no_data_text))
      else if path = ''/api/health'' then (200, ''application/json'', health_text)
      else case find_file FILES path of
          Some f \<Rightarrow> (200, sf_content_type f, sf_content f)
        | None \<Rightarrow> (404, ''text/plain'', ''Not Found''))"

definition page_response :: "int \<times> string \<times> string \<Rightarrow> http_response" where
  "page_response p = (case p of (st, ty, body) \<Rightarrow>
     \<lparr>rp_status_code = st, rp_content_type = Some ty, rp_body = Some body, rp_body_len = of_nat (length body)\<rparr>)"

lemma parse_request_text:
  assumes "word_ok 15 m" "word_ok 1023 (target_text path query)" "NUL \<notin> set m" "NUL \<notin> set (target_text path query)" "CHR ''?'' \<notin> set path"
  shows "\<exists>req. parse_request (request_text m (target_text path query) rest) = Some req \<and> rq_method req = m \<and> rq_path req = path \<and>
    rq_query req = (case query of None \<Rightarrow> [] | Some q \<Rightarrow> q)"
proof -
  let ?t = "target_text path query"
  have c: "cstr (request_text m ?t rest) = request_text m ?t (cstr rest)"
  proof -
    have "NUL \<notin> set (m @ '' '' @ ?t @ '' HTTP/1.1'' @ CRLF)" using assms(3,4) by (simp add: CRLF_def)
    then have "cstr ((m @ '' '' @ ?t @ '' HTTP/1.1'' @ CRLF) @ rest) = (m @ '' '' @ ?t @ '' HTTP/1.1'' @ CRLF) @ cstr rest"
      unfolding cstr_def by (subst takeWhile_append2) auto
    then show ?thesis by (simp add: request_text_def)
  qed
  have "sublist CRLF (request_text m ?t (cstr rest))"
    unfolding request_text_def sublist_def by (metis append.assoc)
  then obtain l where l: "strstr CRLF (request_text m ?t (cstr rest)) = Some l" using strstr_None by fastforce
  have s: "sscanf [D_str 15, D_space, D_str 1023] (request_text m ?t (cstr rest)) = [SStr m, SStr ?t]"
  proof -
    have d: "dropWhile isspace (?t @ r) = ?t @ r" for r using assms(2) by (cases ?t) (auto simp: word_ok_def)
    show ?thesis using assms(1,2) by (simp add: request_text_def scan_str_word d)
  qed
  have q: "strchr (CHR ''?'') ?t = (case query of None \<Rightarrow> None | Some q \<Rightarrow> Some (CHR ''?'' # q))"
    using assms(5) by (auto simp: target_text_def Prelude.strchr_append strchr_None split: option.split)
  have p: "takeWhile (\<lambda>c. c \<noteq> CHR ''?'') ?t = path" if "query = Some q" for q
    using assms(5) that by (auto simp: target_text_def takeWhile_tail takeWhile_eq_all_conv)
  have t: "?t = path" if "query = None" using that by (simp add: target_text_def)
  have b: "bounded_copy 1024 q' = q'" if "query = Some q'" for q'
    using assms(2) that by (simp add: word_ok_def target_text_def bounded_copy_def)
  show ?thesis
    unfolding parse_request_def c using l s q p b t by (cases query) (simp_all add: Let_def del: sscanf.simps)
qed

lemma find_handler_api:
  "find_handler (api_init web_initial) path =
     Some (if path = ''/api/status'' \<or> path = ''/api/snapshot'' then Handle_api_status
       else if path = ''/api/health'' then Handle_api_health else Static_files_handler)"
  by (auto simp: find_handler_def api_init_def http_register_handler_def http_set_default_handler_def web_initial_def MAX_ROUTES_def
      bounded_copy_def route_matches_def)

lemma run_web_page:
  "rp_content_type r = Some ''application/json'' \<Longrightarrow>
   run_web cb (the (find_handler (api_init web_initial) (rq_path req))) req r = page_response (web_page cb (rq_path req))"
  by (auto simp: find_handler_api run_web_def handle_api_status_def handle_api_health_def static_files_handler_def page_response_def web_page_def
      Let_def split: option.split)

text \<open>Where the header ends: behind the first empty line.\<close>

lemma strstr_line:
  assumes "CR \<notin> set l" "l \<noteq> []"
  shows "strstr (CRLF @ CRLF) (l @ CRLF @ s) = strstr (CRLF @ CRLF) (CRLF @ s)"
    "strstr (CRLF @ CRLF) (CRLF @ l @ s') = strstr (CRLF @ CRLF) (l @ s')"
proof -
  show "strstr (CRLF @ CRLF) (l @ CRLF @ s) = strstr (CRLF @ CRLF) (CRLF @ s)" using assms(1) by (induction l) (auto simp: CRLF_def)
  obtain c t where "l = c # t" "c \<noteq> CR" using assms by (cases l) auto
  then show "strstr (CRLF @ CRLF) (CRLF @ l @ s') = strstr (CRLF @ CRLF) (l @ s')" by (simp add: CRLF_def)
qed

lemma response_header_end:
  assumes "CR \<notin> set ty" "st \<in> {200, 404, 503}"
  shows "strstr (CRLF @ CRLF) (response_header (page_response (st, ty, body)) @ body) = Some (CRLF @ CRLF @ body)"
proof -
  let ?l1 = "''HTTP/1.1 '' @ int_str st @ '' '' @ status_text st" and ?l2 = "''Content-Type: '' @ ty"
    and ?l3 = "''Content-Length: '' @ nat_str (unat (of_nat (length body) :: 64 word))"
    and ?l4 = "''Connection: close''" and ?l5 = "''Access-Control-Allow-Origin: *''"
  have n: "CR \<notin> set (nat_str v)" for v using nat_str_digits[of CR v] by (auto simp: isdigit_def)
  have l: "CR \<notin> set ?l1" "CR \<notin> set ?l2" "CR \<notin> set ?l3" "CR \<notin> set ?l4" "CR \<notin> set ?l5"
    using assms n by (auto simp: int_str_def status_text_def)
  have "response_header (page_response (st, ty, body)) @ body
      = ?l1 @ CRLF @ ?l2 @ CRLF @ ?l3 @ CRLF @ ?l4 @ CRLF @ ?l5 @ CRLF @ CRLF @ body"
    by (simp add: response_header_def page_response_def)
  also have "strstr (CRLF @ CRLF) \<dots> = strstr (CRLF @ CRLF) (CRLF @ CRLF @ body)"
    using strstr_line[OF l(1)] strstr_line[OF l(2)] strstr_line[OF l(3)] strstr_line[OF l(4)] strstr_line[OF l(5)] by simp
  also have "\<dots> = Some (CRLF @ CRLF @ body)" by (simp add: CRLF_def)
  finally show ?thesis .
qed

lemma web_page_kinds:
  "\<exists>st ty body. web_page cb path = (st, ty, body) \<and> st \<in> {200, 404, 503} \<and> CR \<notin> set ty"
  by (auto simp: web_page_def FILES_def split: option.split)

text \<open>The answer to a request, by its path alone.\<close>

lemma web_answer:
  assumes "word_ok 15 m" "word_ok 1023 (target_text path query)" "NUL \<notin> set m" "NUL \<notin> set (target_text path query)" "CHR ''?'' \<notin> set path"
    and "length (request_text m (target_text path query) rest) < 65536" and "web_page cb path = (st, ty, body)" and "length body < 2 ^ 64"
  shows "\<exists>out. http_handle_client (run_web cb) (api_init web_initial) (request_text m (target_text path query) rest) = Some out \<and>
    out = response_header (page_response (st, ty, body)) @ body \<and> strstr (CRLF @ CRLF) out = Some (CRLF @ CRLF @ body)"
proof -
  let ?inp = "request_text m (target_text path query) rest"
  have u: "unat (of_nat (length body) :: 64 word) = length body" using assms(8) by (simp add: unat_of_nat)
  obtain req where req: "parse_request ?inp = Some req" "rq_path req = path"
    using parse_request_text[OF assms(1-5), of rest] by blast
  obtain h where h: "find_handler (api_init web_initial) path = Some h" using find_handler_api by blast
  have "take (MAX_REQUEST_SIZE - 1) ?inp = ?inp" using assms(6) by (simp add: MAX_REQUEST_SIZE_def)
  moreover have "?inp \<noteq> []" by (simp add: request_text_def)
  moreover have "run_web cb h req \<lparr>rp_status_code = 200, rp_content_type = Some ''application/json'', rp_body = Some [], rp_body_len = 0\<rparr>
      = page_response (st, ty, body)"
    using run_web_page[of _ cb req] req(2) h assms(7) by simp
  ultimately have e: "http_handle_client (run_web cb) (api_init web_initial) ?inp = send_response (page_response (st, ty, body))"
    using req h by (simp add: http_handle_client_def Let_def)
  obtain out where out: "send_response (page_response (st, ty, body)) = Some out" using web.handle_client_returns[of cb] e by metis
  moreover have "out = response_header (page_response (st, ty, body)) @ body"
    using out u by (auto simp: send_response_def page_response_def word_gt_0 split: if_splits)
  ultimately show ?thesis
    using e response_header_end[of ty st body] web_page_kinds[of cb path] assms(7) by auto
qed

text \<open>
  C30 (what the web interface answers). Every request whose first line fits, for any method and any query, is answered with
  the page of its path: the snapshot, the health text, a file of the dashboard, or not found; the body of the answer, behind the first
  empty line, is the whole page, and the header gives its length and type.
\<close>

theorem web_serves_pages:
  assumes "word_ok 15 m" and "word_ok 1023 (target_text path query)" and "NUL \<notin> set m" and "NUL \<notin> set (target_text path query)"
    and "CHR ''?'' \<notin> set path" and "length (request_text m (target_text path query) rest) < 65536"
    and "web_page cb path = (st, ty, body)" and "length body < 2 ^ 64"
  shows "\<exists>out. http_handle_client (run_web cb) (api_init web_initial) (request_text m (target_text path query) rest) = Some out \<and>
    out = response_header (page_response (st, ty, body)) @ body \<and> strstr (CRLF @ CRLF) out = Some (CRLF @ CRLF @ body)"
  using assms by (rule web_answer)

theorem web_serves_pages_witness:
  "\<exists>out. http_handle_client (run_web None) (api_init web_initial) (''GET /api/health?x=1 HTTP/1.1'' @ CRLF @ ''Host: a'' @ CRLF @ CRLF) = Some out \<and>
     strstr (CRLF @ CRLF) out = Some (CRLF @ CRLF @ health_text)"
proof -
  have r: "request_text ''GET'' (target_text ''/api/health'' (Some ''x=1'')) (''Host: a'' @ CRLF @ CRLF) =
      ''GET /api/health?x=1 HTTP/1.1'' @ CRLF @ ''Host: a'' @ CRLF @ CRLF"
    by (simp add: request_text_def target_text_def)
  show ?thesis
    using web_serves_pages[of "''GET''" "''/api/health''" "Some ''x=1''" "''Host: a'' @ CRLF @ CRLF" None 200 "''application/json''" health_text]
    unfolding r by (simp add: word_ok_def target_text_def isspace_def CRLF_def web_page_def health_text_def)
qed

section \<open>The dashboard\<close>

text \<open>The texts that stand between \<open>m\<close> and the next character \<open>q\<close>.\<close>

fun quoted_refs :: "char \<Rightarrow> string \<Rightarrow> string \<Rightarrow> string list" where
  "quoted_refs q m [] = []"
| "quoted_refs q m (c # cs) =
     (if starts_with m (c # cs) then takeWhile (\<lambda>x. x \<noteq> q) (drop (length m) (c # cs)) # quoted_refs q m cs else quoted_refs q m cs)"

definition line_refs :: "char \<Rightarrow> string \<Rightarrow> string list \<Rightarrow> string list" where
  "line_refs q m ls = concat (map (quoted_refs q m) ls)"

definition dashboard_refs :: "string list" where
  \<open>dashboard_refs = line_refs CHR 0x22 ''href="'' INDEX_LINES @ line_refs CHR 0x22 ''src="'' INDEX_LINES @
     line_refs CHR 0x27 (''API_URL = '' @ [CHR 0x27]) APP_LINES\<close>

lemma dashboard_refs_list: "dashboard_refs = [''/style.css'', ''/app.js'', ''/api/status'']"
  by code_simp

text \<open>The elements the script looks up, and those the page has.\<close>

definition script_ids :: "string list" where
  \<open>script_ids = line_refs CHR 0x27 (''getElementById('' @ [CHR 0x27]) APP_LINES\<close>

definition page_ids :: "string list" where
  \<open>page_ids = line_refs CHR 0x22 '' id="'' INDEX_LINES\<close>

lemma script_ids_list: "list_all (\<lambda>i. List.member page_ids i) script_ids"
  by code_simp

text \<open>
  Also (the dashboard is complete). Every file and every address the page and its script refer to is served with status 200, and every
  element the script looks up exists in the page.
\<close>

theorem dashboard_complete:
  "list_all (\<lambda>path. fst (web_page (Some (Some t)) path) = 200) dashboard_refs \<and> list_all (\<lambda>i. List.member page_ids i) script_ids"
  unfolding dashboard_refs_list using script_ids_list by (simp add: web_page_def FILES_def)

section \<open>The address of the server\<close>

text \<open>
  Also (bad addresses). A listening address that is no address, a host name for instance, does not keep the server from starting: it
  then listens on every interface of the machine.
\<close>

theorem web_bad_address_listens_everywhere:
  assumes "web_enabled cfg" and "inet_pton (web_listen cfg) = None"
  shows "\<exists>s'. http_server_start True (\<lambda>a. True) True True inet_pton cfg s = (0, s') \<and> http_server_is_running s' \<and>
    ws_bound s' = Some (0, web_port cfg mod 65536)"
  using assms by (simp add: http_server_start_def http_server_is_running_def)

theorem web_bad_address_listens_everywhere_witness:
  "\<exists>s'. http_server_start True (\<lambda>a. True) True True (\<lambda>t. if t = ''127.0.0.1'' then Some 16777343 else None)
     (config_init_defaults\<lparr>web_listen := ''localhost''\<rparr>) (web_initial :: web_handler web_state) = (0, s') \<and> ws_bound s' = Some (0, 8080)"
  using web_bad_address_listens_everywhere[of "config_init_defaults\<lparr>web_listen := ''localhost''\<rparr>"
      "\<lambda>t. if t = ''127.0.0.1'' then Some 16777343 else None" "web_initial :: web_handler web_state"]
  by (auto simp: config_init_defaults_def)

end
