(* ===== verification/Daemon.thy ===== *)
theory Daemon
  imports Ipc PluginLoader Ringbuf Format WebApi
begin

text \<open>
  The daemon (\<open>src/daemon/daemon.c\<close>, \<open>src/daemon/main.c\<close>): start-up, the monitoring loop, shutdown, and the callbacks
  the servers use, over the components of the other theories. What the system does is the input of each step: the outcome of the
  system calls, the times, the directory events, the signals that arrive. The state of the services and of the
  system is the world \<open>'w\<close>. \<open>None\<close> is an access outside an array (a history without capacity). The build is the default
  one, with \<open>QMEM_WEB_ENABLED\<close>; messages written to the log are not part of the state.
\<close>

section \<open>State\<close>

datatype sig = SIGTERM | SIGINT | SIGHUP

record 'w daemon =
  dm_running :: bool
  dm_reload :: bool
  dm_config :: qmem_config
  dm_history :: "ringbuf option"
  dm_snapshot :: string
  dm_loader :: "(qmem_config, 'w) plugin_loader"
  dm_ipc :: ipc_state
  dm_web :: "web_handler web_state"
  dm_log :: log_state
  dm_pids :: "string \<Rightarrow> string option"

definition SNAPSHOT_SIZE :: nat where "SNAPSHOT_SIZE = 256 * 1024"
definition HISTORY_SIZE :: nat where "HISTORY_SIZE = 1024 * 1024"

text \<open>The zeroed statics of the program, with the services \<open>store\<close> that plugins bring, over a world and the files present.\<close>

definition daemon_statics ::
    "(nat \<Rightarrow> (qmem_config, 'w) qmem_service) \<Rightarrow> 'w \<Rightarrow> string set \<Rightarrow> (string \<Rightarrow> string option) \<Rightarrow> 'w daemon" where
  "daemon_statics store w files pids =
     \<lparr>dm_running = False, dm_reload = False, dm_config = config_init_defaults, dm_history = None,
      dm_snapshot = replicate SNAPSHOT_SIZE NUL,
      dm_loader = \<lparr>pl_dir = [], pl_plugins = [], pl_inotify = False, pl_watch = False, pl_running = False,
        pl_mgr = \<lparr>sm_slots = replicate MAX_SERVICES None, sm_count = 0, sm_config = None, sm_store = store, sm_world = w\<rparr>,
        pl_handles = 0\<rparr>,
      dm_ipc = \<lparr>srv_running = False, srv_fd = False, srv_path = [], srv_thread = False, srv_files = files, srv_sent = []\<rparr>,
      dm_web = web_initial,
      dm_log = \<lparr>g_log_level = 1, g_use_syslog = False, log_open = False, log_out = []\<rparr>, dm_pids = pids\<rparr>"

definition signal_handler :: "sig \<Rightarrow> 'w daemon \<Rightarrow> 'w daemon" where
  "signal_handler sg d =
     (case sg of SIGTERM \<Rightarrow> d\<lparr>dm_running := False\<rparr> | SIGINT \<Rightarrow> d\<lparr>dm_running := False\<rparr> | SIGHUP \<Rightarrow> d\<lparr>dm_reload := True\<rparr>)"

section \<open>Start-up\<close>

text \<open>Results of the system calls of a start-up.\<close>

record init_env =
  ie_fork1 :: int
  ie_setsid :: bool
  ie_fork2 :: int
  ie_pid :: int
  ie_pidfile :: bool
  ie_malloc :: bool
  ie_calloc :: bool
  ie_socket :: bool
  ie_bind :: bool
  ie_listen :: bool
  ie_thread :: bool
  ie_web_socket :: bool
  ie_web_bind :: "int \<times> int \<Rightarrow> bool"
  ie_web_listen :: bool
  ie_web_thread :: bool
  ie_inet_pton :: "string \<Rightarrow> int option"
  ie_dl :: linker
  ie_mtime :: "string \<Rightarrow> int"
  ie_dir :: dir_result
  ie_inotify :: bool
  ie_watch :: bool

datatype fork_result = Parent_exits | Forked int

definition daemonize :: "init_env \<Rightarrow> qmem_config \<Rightarrow> fork_result" where
  "daemonize env cfg =
     (if foreground cfg then Forked 0
      else if ie_fork1 env < 0 then Forked (-1)
      else if ie_fork1 env > 0 then Parent_exits
      else if \<not> ie_setsid env then Forked (-1)
      else if ie_fork2 env < 0 then Forked (-1)
      else if ie_fork2 env > 0 then Parent_exits
      else Forked 0)"

definition write_pidfile :: "init_env \<Rightarrow> string \<Rightarrow> 'w daemon \<Rightarrow> int \<times> 'w daemon" where
  "write_pidfile env path d =
     (if \<not> ie_pidfile env then (-1, d)
      else (0, d\<lparr>dm_pids := (dm_pids d)(path \<mapsto> int_str (ie_pid env) @ [LF])\<rparr>))"

abbreviation set_mgr :: "(qmem_config, 'w) svc_manager \<Rightarrow> 'w daemon \<Rightarrow> 'w daemon" where
  "set_mgr m d \<equiv> d\<lparr>dm_loader := (dm_loader d)\<lparr>pl_mgr := m\<rparr>\<rparr>"

datatype 'w init_result = Init_exits | Init_returns int "'w daemon"

text \<open>After the fork: the switch to the system log and the pidfile.\<close>

definition init_prepare :: "init_env \<Rightarrow> qmem_config \<Rightarrow> 'w daemon \<Rightarrow> 'w daemon" where
  "init_prepare env cfg d =
     (let d2 = (if \<not> foreground cfg then d\<lparr>dm_log := log_init (log_level cfg) True (dm_log d)\<rparr> else d)
      in if length (pidfile cfg) > 0 then snd (write_pidfile env (pidfile cfg) d2) else d2)"

text \<open>With the history created: the registry, the IPC server and the web server, whose failures are only logged, and the plugins.\<close>

definition init_services :: "init_env \<Rightarrow> qmem_config \<Rightarrow> ringbuf \<Rightarrow> 'w daemon \<Rightarrow> 'w init_result" where
  "init_services env cfg rb d =
     (case svc_manager_init cfg (pl_mgr (dm_loader d)) of
        (r, m) \<Rightarrow>
          let d4 = set_mgr m (d\<lparr>dm_history := Some rb\<rparr>)
          in if r < 0 then Init_returns (-1) d4
             else
               let d5 = d4\<lparr>dm_ipc := snd (ipc_server_start (ie_socket env) (ie_bind env) (ie_listen env) (ie_thread env)
                              (socket_path cfg) (dm_ipc d4))\<rparr>;
                   dw = d5\<lparr>dm_web := snd (http_server_start (ie_web_socket env) (ie_web_bind env) (ie_web_listen env)
                              (ie_web_thread env) (ie_inet_pton env) cfg (api_init (dm_web d5)))\<rparr>
               in Init_returns 0
                    (if enable_plugins cfg
                     then dw\<lparr>dm_loader := snd (plugin_loader_start_watcher (ie_inotify env) (ie_watch env)
                               (snd (plugin_loader_load_all (ie_dl env) (ie_mtime env) (ie_dir env)
                                 (plugin_loader_init cfg (pl_mgr (dm_loader dw))))))\<rparr>
                     else dw))"

definition daemon_init :: "init_env \<Rightarrow> qmem_config \<Rightarrow> 'w daemon \<Rightarrow> 'w init_result" where
  "daemon_init env cfg d =
     (let d1 = d\<lparr>dm_config := cfg\<rparr>
      in case daemonize env cfg of
           Parent_exits \<Rightarrow> Init_exits
         | Forked r \<Rightarrow>
             if r < 0 then Init_returns (-1) d1
             else let d3 = init_prepare env cfg d1
                  in case ringbuf_create (ie_malloc env) (ie_calloc env) (max_snapshots cfg) of
                       None \<Rightarrow> Init_returns (-1) (d3\<lparr>dm_history := None\<rparr>)
                     | Some rb \<Rightarrow> init_services env cfg rb d3)"

section \<open>The monitoring loop\<close>

text \<open>
  What happens during one turn: changes of the system before the collection, the results of \<open>time\<close> and \<open>malloc\<close>, the
  directory events, and the signals, at the three kinds of places where they make a difference: before
  the test of \<open>g_reload\<close>, before the sleep, and during each second of sleep.
\<close>

record 'w turn_env =
  te_world :: "'w \<Rightarrow> 'w"
  te_now :: int
  te_push_now :: int
  te_malloc :: bool
  te_dl :: linker
  te_mtime :: "string \<Rightarrow> int"
  te_events :: "fs_event list"
  te_work :: "sig list"
  te_check :: "sig list"
  te_sleep :: "sig list list"

text \<open>The sleep of \<open>n\<close> seconds, with the number of seconds slept.\<close>

fun sleep_loop :: "nat \<Rightarrow> sig list list \<Rightarrow> 'w daemon \<Rightarrow> nat \<times> 'w daemon" where
  "sleep_loop 0 sigs d = (0, d)"
| "sleep_loop (Suc n) sigs d =
     (if \<not> dm_running d then (0, d)
      else case sleep_loop n (tl sigs) (if sigs = [] then d else fold signal_handler (hd sigs) d) of
             (k, d') \<Rightarrow> (Suc k, d'))"

text \<open>Collection and snapshot: the new registry and the builder over the snapshot buffer.\<close>

definition turn_collect :: "'w turn_env \<Rightarrow> 'w daemon \<Rightarrow> (qmem_config, 'w) svc_manager" where
  "turn_collect e d =
     (let m = pl_mgr (dm_loader d) in snd (svc_manager_collect_all (m\<lparr>sm_world := te_world e (sm_world m)\<rparr>)))"

definition turn_json :: "'w turn_env \<Rightarrow> 'w daemon \<Rightarrow> json_builder" where
  "turn_json e d = svc_manager_snapshot_all (te_now e) (turn_collect e d) (json_init (dm_snapshot d) SNAPSHOT_SIZE)"

text \<open>What is stored in the history.\<close>

definition turn_text :: "'w turn_env \<Rightarrow> 'w daemon \<Rightarrow> string" where
  "turn_text e d = take (json_length (turn_json e d)) (jb_buf (turn_json e d))"

definition daemon_turn :: "'w turn_env \<Rightarrow> 'w daemon \<Rightarrow> 'w daemon option" where
  "daemon_turn e d =
     (case ringbuf_push (te_malloc e) (te_push_now e) (Some (turn_text e d)) (dm_history d) of
        None \<Rightarrow> None
      | Some (r, h) \<Rightarrow>
          (let d1 = (set_mgr (turn_collect e d) d)\<lparr>dm_snapshot := jb_buf (turn_json e d), dm_history := h\<rparr>;
               d2 = fold signal_handler (te_work e) d1;
               d3 = (if dm_reload d2 then d2\<lparr>dm_reload := False\<rparr> else d2);
               d4 = (if enable_plugins (dm_config d3)
                     then d3\<lparr>dm_loader := plugin_loader_check_updates (te_dl e) (te_mtime e) (te_events e) (dm_loader d3)\<rparr>
                     else d3);
               d5 = fold signal_handler (te_check e) d4
           in Some (snd (sleep_loop (nat (interval_sec (dm_config d5))) (te_sleep e) d5))))"

text \<open>The loop over a sequence of turns. It has returned when \<open>dm_running\<close> is false; else it goes on after them.\<close>

fun run_loop :: "'w turn_env list \<Rightarrow> 'w daemon \<Rightarrow> 'w daemon option" where
  "run_loop [] d = Some d"
| "run_loop (e # es) d =
     (if \<not> dm_running d then Some d
      else case daemon_turn e d of None \<Rightarrow> None | Some d' \<Rightarrow> run_loop es d')"

definition daemon_run :: "'w turn_env list \<Rightarrow> 'w daemon \<Rightarrow> 'w daemon option" where
  "daemon_run es d = run_loop es (d\<lparr>dm_running := True\<rparr>)"

definition daemon_shutdown :: "'w daemon \<Rightarrow> 'w daemon" where
  "daemon_shutdown d =
     (let d1 = d\<lparr>dm_running := False, dm_web := http_server_stop (dm_web d)\<rparr>;
          d2 = (if enable_plugins (dm_config d1) then d1\<lparr>dm_loader := plugin_loader_shutdown (dm_loader d1)\<rparr> else d1);
          d3 = d2\<lparr>dm_ipc := ipc_server_stop (dm_ipc d2)\<rparr>;
          d4 = set_mgr (svc_manager_shutdown (pl_mgr (dm_loader d3))) d3;
          d5 = d4\<lparr>dm_history := None\<rparr>;
          d6 = (if length (pidfile (dm_config d5)) > 0 then d5\<lparr>dm_pids := (dm_pids d5)(pidfile (dm_config d5) := None)\<rparr> else d5)
      in d6\<lparr>dm_log := log_shutdown (dm_log d6)\<rparr>)"

definition daemon_reload :: "'w daemon \<Rightarrow> 'w daemon" where
  "daemon_reload d = d\<lparr>dm_reload := True\<rparr>"

definition daemon_is_running :: "'w daemon \<Rightarrow> bool" where
  "daemon_is_running d = dm_running d"

section \<open>The callbacks of the servers\<close>

definition get_snapshot_callback :: "'w daemon \<Rightarrow> string" where
  "get_snapshot_callback d = cstr (dm_snapshot d)"

text \<open>The member for one entry; an entry without data is skipped.\<close>

definition history_entry :: "ringbuf_entry option \<Rightarrow> nat \<Rightarrow> json_builder \<Rightarrow> json_builder" where
  "history_entry entry i =
     (case entry of
        None \<Rightarrow> jskip
      | Some e \<Rightarrow> if e_data e = None then jskip
                  else jobj [json_kv_int ''timestamp'' (e_timestamp e), json_kv_int ''index'' (int i)])"

definition history_calls :: "int \<Rightarrow> ringbuf option \<Rightarrow> json_builder \<Rightarrow> json_builder" where
  "history_calls cnt rb =
     (let n = ringbuf_count rb; c = (if cnt > n then n else cnt)
      in jobj [jkey ''history'' (jarr [fold (\<lambda>i. history_entry (the (ringbuf_get_recent rb (int i))) i) [0..<nat c]])])"

text \<open>\<open>old\<close> is what the static buffer holds from the call before.\<close>

definition history_json :: "string \<Rightarrow> int \<Rightarrow> ringbuf option \<Rightarrow> json_builder" where
  "history_json old cnt rb = history_calls cnt rb (json_init old HISTORY_SIZE)"

definition get_history_callback :: "string \<Rightarrow> int \<Rightarrow> 'w daemon \<Rightarrow> string" where
  "get_history_callback old cnt d = cstr (jb_buf (history_json old cnt (dm_history d)))"

section \<open>The program\<close>

datatype 'w main_result = Main_exit int "'w daemon" | Main_running "'w daemon" | Main_undefined

definition qmemd_main ::
    "bool \<Rightarrow> (string \<Rightarrow> string option) \<Rightarrow> (char \<times> string) list \<Rightarrow> init_env \<Rightarrow> 'w turn_env list \<Rightarrow> 'w daemon \<Rightarrow> 'w main_result" where
  "qmemd_main root fs opts env es d =
     (if \<not> root then Main_exit 1 d
      else case config_parse_args fs opts config_init_defaults of
          Exited \<Rightarrow> Main_exit 0 d
        | Rejected c \<Rightarrow> Main_exit 1 d
        | Parsed cfg \<Rightarrow>
            (let d1 = d\<lparr>dm_log := log_init (log_level cfg) False (dm_log d)\<rparr>
             in case daemon_init env cfg d1 of
                  Init_exits \<Rightarrow> Main_exit 0 d1
                | Init_returns r d2 \<Rightarrow>
                    if r < 0 then Main_exit 1 d2
                    else case daemon_run es d2 of
                        None \<Rightarrow> Main_undefined
                      | Some d3 \<Rightarrow> if dm_running d3 then Main_running d3 else Main_exit 0 (daemon_shutdown d3)))"

section \<open>What the operations leave alone\<close>

lemma collect_fold_keeps:
  "fold collect_one ss (e, m) = (e', m') \<Longrightarrow>
   sm_slots m' = sm_slots m \<and> sm_count m' = sm_count m \<and> sm_config m' = sm_config m \<and>
   (\<forall>s. svc_snapshot (sm_store m' s) = svc_snapshot (sm_store m s))"
proof (induction ss arbitrary: e m)
  case (Cons s ss)
  obtain e1 m1 where 1: "collect_one s (e, m) = (e1, m1)" by (cases "collect_one s (e, m)")
  then have "sm_slots m1 = sm_slots m \<and> sm_count m1 = sm_count m \<and> sm_config m1 = sm_config m \<and>
      (\<forall>s. svc_snapshot (sm_store m1 s) = svc_snapshot (sm_store m s))"
    by (auto simp: collect_one_def split: if_splits option.splits prod.splits)
  then show ?case using Cons.IH[of e1 m1] Cons.prems 1 by simp
qed simp

lemma turn_collect_keeps:
  "sm_slots (turn_collect e d) = sm_slots (pl_mgr (dm_loader d))" "sm_count (turn_collect e d) = sm_count (pl_mgr (dm_loader d))"
  "svc_snapshot (sm_store (turn_collect e d) s) = svc_snapshot (sm_store (pl_mgr (dm_loader d)) s)"
proof -
  let ?m = "(pl_mgr (dm_loader d))\<lparr>sm_world := te_world e (sm_world (pl_mgr (dm_loader d)))\<rparr>"
  obtain r m' where m': "svc_manager_collect_all ?m = (r, m')" by fastforce
  then have "turn_collect e d = m'" by (simp add: turn_collect_def Let_def)
  then show "sm_slots (turn_collect e d) = sm_slots (pl_mgr (dm_loader d))" "sm_count (turn_collect e d) = sm_count (pl_mgr (dm_loader d))"
    "svc_snapshot (sm_store (turn_collect e d) s) = svc_snapshot (sm_store (pl_mgr (dm_loader d)) s)"
    using collect_fold_keeps[of _ 0 ?m r m'] m' by (simp_all add: svc_manager_collect_all_def)
qed

lemma destroy_one_store [simp]: "sm_store (destroy_one s m) = sm_store m"
  by (simp add: destroy_one_def split: option.splits)

lemma register_store [simp]: "sm_store (snd (svc_manager_register s m)) = sm_store m"
  by (simp add: svc_manager_register_def Let_def split: option.splits prod.splits)

lemma unregister_store [simp]: "sm_store (snd (svc_manager_unregister s m)) = sm_store m"
  by (simp add: svc_manager_unregister_def Let_def split: option.splits)

lemma load_store [simp]: "sm_store (pl_mgr (snd (plugin_loader_load dl mt path L))) = sm_store (pl_mgr L)"
proof -
  have "sm_store m = sm_store (pl_mgr L)" if "svc_manager_register s (pl_mgr L) = (r, m)" for s r m
    using register_store[of s "pl_mgr L"] that by simp
  then show ?thesis by (auto simp: plugin_loader_load_def Let_def split: option.splits prod.splits)
qed

lemma unload_store [simp]: "sm_store (pl_mgr (snd (plugin_loader_unload name L))) = sm_store (pl_mgr L)"
  by (simp add: plugin_loader_unload_def Let_def split: option.splits)

lemma reload_store [simp]: "sm_store (pl_mgr (snd (plugin_loader_reload dl mt path L))) = sm_store (pl_mgr L)"
  by (simp add: plugin_loader_reload_def Let_def)

lemma event_store [simp]: "sm_store (pl_mgr (handle_event dl mt ev L)) = sm_store (pl_mgr L)"
  by (cases ev) (simp_all add: handle_event_def Let_def)

lemma events_store [simp]: "sm_store (pl_mgr (fold (handle_event dl mt) evs L)) = sm_store (pl_mgr L)"
  by (induction evs arbitrary: L) simp_all

lemma entries_store [simp]: "sm_store (pl_mgr (snd (load_entries dl mt es n L))) = sm_store (pl_mgr L)"
proof (induction dl mt es n L rule: load_entries.induct)
  case (2 dl mt e es n L)
  obtain r L' where r: "plugin_loader_load dl mt (plugin_path L e) L = (r, L')" by fastforce
  then have "sm_store (pl_mgr L') = sm_store (pl_mgr L)" using load_store[of dl mt "plugin_path L e" L] by simp
  then show ?case using 2 r by simp
qed simp

lemma signals_fields [simp]:
  "dm_config (fold signal_handler sgs d) = dm_config d" "dm_history (fold signal_handler sgs d) = dm_history d"
  "dm_snapshot (fold signal_handler sgs d) = dm_snapshot d" "dm_loader (fold signal_handler sgs d) = dm_loader d"
  "dm_ipc (fold signal_handler sgs d) = dm_ipc d" "dm_log (fold signal_handler sgs d) = dm_log d"
  "dm_pids (fold signal_handler sgs d) = dm_pids d" "dm_web (fold signal_handler sgs d) = dm_web d"
  by (induction sgs arbitrary: d) (auto simp: signal_handler_def split: sig.splits)

lemma sleep_fields [simp]:
  "dm_config (snd (sleep_loop n sgs d)) = dm_config d" "dm_history (snd (sleep_loop n sgs d)) = dm_history d"
  "dm_snapshot (snd (sleep_loop n sgs d)) = dm_snapshot d" "dm_loader (snd (sleep_loop n sgs d)) = dm_loader d"
  "dm_ipc (snd (sleep_loop n sgs d)) = dm_ipc d" "dm_log (snd (sleep_loop n sgs d)) = dm_log d"
  "dm_pids (snd (sleep_loop n sgs d)) = dm_pids d" "dm_web (snd (sleep_loop n sgs d)) = dm_web d"
  by (induction n sgs d rule: sleep_loop.induct) (auto split: prod.splits)

section \<open>The invariant\<close>

text \<open>Snapshot functions that only use the builder.\<close>

definition store_safe :: "('c, 'w) svc_manager \<Rightarrow> bool" where
  "store_safe m \<longleftrightarrow> (\<forall>s f w. svc_snapshot (sm_store m s) = Some f \<longrightarrow> jb_safe (f w))"

definition daemon_inv :: "'w daemon \<Rightarrow> bool" where
  "daemon_inv d \<longleftrightarrow> loader_inv (dm_loader d) \<and> store_safe (pl_mgr (dm_loader d)) \<and>
     (\<exists>rb. dm_history d = Some rb \<and> rb_inv rb) \<and>
     length (dm_snapshot d) = SNAPSHOT_SIZE \<and> NUL \<in> set (dm_snapshot d)"

lemma jb_safe_obj: "jb_safe (jseq fs) \<Longrightarrow> jb_safe (jobj fs)"
  unfolding jobj_def[abs_def]
  by (rule jb_safe_comp[OF jb_safe_comp[OF jb_safe_brackets(1)] jb_safe_brackets(2)])

lemma jb_safe_member: "jb_safe g \<Longrightarrow> jb_safe (jkey k g)"
  unfolding jkey_def[abs_def] by (rule jb_safe_comp[OF jb_safe_key])

lemma snapshot_all_safe:
  assumes "store_safe m"
  shows "jb_safe (svc_manager_snapshot_all now m)"
proof -
  have one: "jb_safe (snapshot_one m s)" for s
    using assms jb_safe_id jb_safe_scalars(5)
    by (auto simp: snapshot_one_def jskip_def[abs_def] store_safe_def intro!: jb_safe_member split: option.splits)
  then have "jb_safe (jobj [fold (snapshot_one m) (registered m)])"
    by (intro jb_safe_obj jb_safe_jseq) (auto intro: jb_safe_fold)
  then show ?thesis unfolding svc_manager_snapshot_all_def
    by (intro jb_safe_obj jb_safe_jseq) (auto intro: jb_safe_member jb_safe_kv)
qed

lemma turn_json_inv:
  assumes "daemon_inv d"
  shows "jb_inv (turn_json e d) \<and> length (jb_buf (turn_json e d)) = SNAPSHOT_SIZE \<and> jb_size (turn_json e d) = SNAPSHOT_SIZE"
proof -
  have "store_safe (turn_collect e d)" using assms by (auto simp: daemon_inv_def store_safe_def turn_collect_keeps)
  then have "jb_safe (svc_manager_snapshot_all (te_now e) (turn_collect e d))" by (rule snapshot_all_safe)
  moreover have l: "length (dm_snapshot d) = SNAPSHOT_SIZE" using assms by (simp add: daemon_inv_def)
  then have "jb_inv (json_init (dm_snapshot d) SNAPSHOT_SIZE)" by (intro jb_inv_init) simp
  ultimately have "jb_inv (turn_json e d)" "jb_frame (json_init (dm_snapshot d) SNAPSHOT_SIZE) (turn_json e d)"
    by (simp_all add: jb_safe_def turn_json_def)
  then show ?thesis using l by (simp add: jb_frame_def json_init_def length_mem_write SNAPSHOT_SIZE_def)
qed

lemma turn_buffer_nul: "daemon_inv d \<Longrightarrow> NUL \<in> set (jb_buf (turn_json e d))"
proof -
  assume "daemon_inv d"
  then have "jb_pos (turn_json e d) < length (jb_buf (turn_json e d))" "jb_buf (turn_json e d) ! jb_pos (turn_json e d) = NUL"
    using turn_json_inv[of d e] by (auto simp: jb_inv_def SNAPSHOT_SIZE_def)
  then show ?thesis using nth_mem by metis
qed

lemma push_inv:
  assumes "rb_inv rb"
  shows "\<exists>r rb'. ringbuf_push ok now (Some t) (Some rb) = Some (r, Some rb') \<and> rb_inv rb' \<and> (ok \<longrightarrow> rb' = rb_store now t rb)"
proof (cases ok)
  case True
  then show ?thesis using ringbuf_push_ok[OF assms] rb_inv_store[OF assms] by auto
next
  case False
  then show ?thesis using assms by (auto simp: ringbuf_push_def entry_at_def rb_inv_def)
qed

lemma collect_loader_inv:
  assumes "loader_inv (dm_loader d)"
  shows "loader_inv ((dm_loader d)\<lparr>pl_mgr := turn_collect e d\<rparr>)"
  using assms by (simp add: loader_inv_def sm_inv_def registered_def turn_collect_keeps)

text \<open>The state a turn hands to its sleep.\<close>

lemma daemon_turn_state:
  assumes "daemon_inv d"
  shows "\<exists>d'. daemon_turn e d = Some d' \<and> daemon_inv d' \<and> dm_snapshot d' = jb_buf (turn_json e d) \<and>
    dm_config d' = dm_config d \<and> dm_ipc d' = dm_ipc d \<and> dm_log d' = dm_log d \<and> dm_pids d' = dm_pids d \<and>
    dm_web d' = dm_web d \<and>
    (te_malloc e \<longrightarrow> dm_history d' = Some (rb_store (te_push_now e) (turn_text e d) (the (dm_history d))))"
proof -
  obtain rb where rb: "dm_history d = Some rb" "rb_inv rb" using assms by (auto simp: daemon_inv_def)
  obtain r rb' where p: "ringbuf_push (te_malloc e) (te_push_now e) (Some (turn_text e d)) (Some rb) = Some (r, Some rb')" "rb_inv rb'"
    "te_malloc e \<longrightarrow> rb' = rb_store (te_push_now e) (turn_text e d) rb"
    using push_inv[OF rb(2)] by blast
  define d2 where "d2 = fold signal_handler (te_work e)
    ((set_mgr (turn_collect e d) d)\<lparr>dm_snapshot := jb_buf (turn_json e d), dm_history := Some rb'\<rparr>)"
  define d3 where "d3 = (if dm_reload d2 then d2\<lparr>dm_reload := False\<rparr> else d2)"
  define d4 where "d4 = (if enable_plugins (dm_config d3)
    then d3\<lparr>dm_loader := plugin_loader_check_updates (te_dl e) (te_mtime e) (te_events e) (dm_loader d3)\<rparr> else d3)"
  define d5 where "d5 = fold signal_handler (te_check e) d4"
  have d3: "dm_loader d3 = (dm_loader d)\<lparr>pl_mgr := turn_collect e d\<rparr>" "dm_config d3 = dm_config d" "dm_ipc d3 = dm_ipc d"
    "dm_snapshot d3 = jb_buf (turn_json e d)" "dm_history d3 = Some rb'" "dm_log d3 = dm_log d" "dm_pids d3 = dm_pids d" "dm_web d3 = dm_web d"
    by (simp_all add: d3_def d2_def)
  have "loader_inv (dm_loader d3)" using collect_loader_inv[of d e] assms by (simp add: d3 daemon_inv_def)
  moreover have "store_safe (pl_mgr (dm_loader d3))" using assms by (auto simp: d3 daemon_inv_def store_safe_def turn_collect_keeps)
  ultimately have "loader_inv (dm_loader d4)" "store_safe (pl_mgr (dm_loader d4))"
    by (simp_all add: d4_def plugin_loader_check_updates_def loader_inv_events store_safe_def)
  then have d5: "daemon_inv d5" using p(2) turn_json_inv[OF assms] turn_buffer_nul[OF assms]
    by (simp add: d5_def daemon_inv_def d4_def d3)
  have "daemon_turn e d = Some (snd (sleep_loop (nat (interval_sec (dm_config d5))) (te_sleep e) d5))"
    using p(1) rb(1) by (simp add: daemon_turn_def Let_def d2_def d3_def d4_def d5_def)
  then show ?thesis using d5 p(3) rb(1) d3
    by (auto simp: daemon_inv_def d5_def d4_def)
qed

section \<open>Properties of the loop\<close>

lemma run_loop_inv:
  assumes "daemon_inv d"
  shows "\<exists>d'. run_loop es d = Some d' \<and> daemon_inv d' \<and> dm_config d' = dm_config d \<and> dm_ipc d' = dm_ipc d \<and>
    dm_log d' = dm_log d \<and> dm_pids d' = dm_pids d \<and> dm_web d' = dm_web d"
  using assms
proof (induction es arbitrary: d)
  case (Cons e es)
  show ?case
  proof (cases "dm_running d")
    case True
    obtain d1 where d1: "daemon_turn e d = Some d1" "daemon_inv d1" "dm_config d1 = dm_config d" "dm_ipc d1 = dm_ipc d"
      "dm_log d1 = dm_log d" "dm_pids d1 = dm_pids d" "dm_web d1 = dm_web d"
      using daemon_turn_state[OF Cons.prems] by blast
    then show ?thesis using Cons.IH[OF d1(2)] True by simp
  qed (use Cons.prems in simp)
qed simp

lemma daemon_inv_running [simp]: "daemon_inv (d\<lparr>dm_running := b\<rparr>) = daemon_inv d"
  by (simp add: daemon_inv_def)

text \<open>What the turns of a run store in the history, with the times.\<close>

fun run_texts :: "'w turn_env list \<Rightarrow> 'w daemon \<Rightarrow> (int \<times> string) list" where
  "run_texts [] d = []"
| "run_texts (e # es) d =
     (if \<not> dm_running d then []
      else (te_push_now e, turn_text e d) # (case daemon_turn e d of None \<Rightarrow> [] | Some d' \<Rightarrow> run_texts es d'))"

lemma run_loop_history:
  assumes "daemon_inv d" and "\<forall>e \<in> set es. te_malloc e" and "dm_history d = Some rb"
  shows "\<exists>d'. run_loop es d = Some d' \<and>
    dm_history d' = Some (fold (\<lambda>x. rb_store (fst x) (snd x)) (run_texts es d) rb)"
  using assms
proof (induction es arbitrary: d rb)
  case (Cons e es)
  show ?case
  proof (cases "dm_running d")
    case True
    obtain d1 where d1: "daemon_turn e d = Some d1" "daemon_inv d1"
      "dm_history d1 = Some (rb_store (te_push_now e) (turn_text e d) rb)"
      using daemon_turn_state[OF Cons.prems(1), of e] Cons.prems(2,3) by auto
    then show ?thesis using Cons.IH[OF d1(2) _ d1(3)] Cons.prems(2) True by simp
  qed (use Cons.prems in simp)
qed simp

text \<open>
  C6 (the history of a run). However long the daemon runs, the history holds the snapshots of the latest turns, as many as its
  capacity, in order, after those it held at the start; no turn leaves the array.
\<close>

theorem daemon_run_history:
  assumes "daemon_inv d" and "\<forall>e \<in> set es. te_malloc e" and "dm_history d = Some rb"
  shows "\<exists>d' rb'. daemon_run es d = Some d' \<and> dm_history d' = Some rb' \<and> rb_capacity rb' = rb_capacity rb \<and>
    (let xs = history rb @ map mk_entry (run_texts es (d\<lparr>dm_running := True\<rparr>))
     in history rb' = drop (length xs - nat (rb_capacity rb)) xs)"
proof -
  let ?d = "d\<lparr>dm_running := True\<rparr>" and ?rb = "fold (\<lambda>x. rb_store (fst x) (snd x)) (run_texts es (d\<lparr>dm_running := True\<rparr>)) rb"
  obtain d' where d': "run_loop es ?d = Some d'" "dm_history d' = Some ?rb"
    using run_loop_history[of ?d es rb] assms by auto
  have rb: "rb_inv rb" using assms(1,3) by (simp add: daemon_inv_def)
  have "rb_inv ?rb" "nat (rb_capacity ?rb) = nat (rb_capacity rb)"
    using ring.inv_run[OF rb, of "run_texts es ?d"] by simp_all
  moreover have pos: "rb_inv r \<Longrightarrow> 0 \<le> rb_capacity r" for r by (simp add: rb_inv_def)
  ultimately have "rb_capacity ?rb = rb_capacity rb" using rb by (metis eq_nat_nat_iff)
  then show ?thesis using d' ring.items_run[OF rb, of "run_texts es ?d"] by (simp add: daemon_run_def Let_def)
qed

subsection \<open>Stopping\<close>

definition stops :: "sig list \<Rightarrow> bool" where
  "stops sgs \<longleftrightarrow> SIGTERM \<in> set sgs \<or> SIGINT \<in> set sgs"

lemma running_signals: "dm_running (fold signal_handler sgs d) \<longleftrightarrow> dm_running d \<and> \<not> stops sgs"
proof (induction sgs arbitrary: d)
  case (Cons x sgs)
  show ?case using Cons[of "signal_handler x d"] by (cases x) (auto simp: signal_handler_def stops_def)
qed (simp add: stops_def)

lemma sleep_stopped: "\<not> dm_running d \<Longrightarrow> sleep_loop n sgs d = (0, d)"
  by (cases n) simp_all

lemma sleep_running: "dm_running (snd (sleep_loop n sgs d)) \<longleftrightarrow> dm_running d \<and> (\<forall>k < min n (length sgs). \<not> stops (sgs ! k))"
proof (induction n sgs d rule: sleep_loop.induct)
  case (2 n sgs d)
  show ?case
  proof (cases "dm_running d")
    case True
    have "dm_running (snd (sleep_loop (Suc n) sgs d)) \<longleftrightarrow>
        dm_running (snd (sleep_loop n (tl sgs) (if sgs = [] then d else fold signal_handler (hd sgs) d)))"
      using True by (simp split: prod.splits)
    also have "\<dots> \<longleftrightarrow> (sgs = [] \<or> \<not> stops (hd sgs)) \<and> (\<forall>k < min n (length (tl sgs)). \<not> stops (tl sgs ! k))"
      using 2 True by (auto simp: running_signals)
    also have "\<dots> \<longleftrightarrow> (\<forall>k < min (Suc n) (length sgs). \<not> stops (sgs ! k))"
      by (cases sgs) (auto simp: less_Suc_eq_0_disj)
    finally show ?thesis using True by simp
  qed simp
qed simp

lemma sleep_length: "k < length sgs \<Longrightarrow> stops (sgs ! k) \<Longrightarrow> fst (sleep_loop n sgs d) \<le> Suc k"
proof (induction n sgs d arbitrary: k rule: sleep_loop.induct)
  case (2 n sgs d)
  show ?case
  proof (cases "dm_running d")
    case True
    obtain s ss where sgs: "sgs = s # ss" using 2(2) by (cases sgs) auto
    let ?d = "fold signal_handler s d"
    have r: "fst (sleep_loop (Suc n) sgs d) = Suc (fst (sleep_loop n ss ?d))" using True sgs by (simp split: prod.splits)
    show ?thesis
    proof (cases k)
      case 0
      then have "\<not> dm_running ?d" using 2(3) sgs by (simp add: running_signals)
      then show ?thesis using r by (simp add: sleep_stopped)
    next
      case (Suc j)
      then show ?thesis using r 2(1)[of j] 2(2,3) True sgs by simp
    qed
  qed simp
qed simp

lemma sleep_full: "dm_running d \<Longrightarrow> \<forall>k < min n (length sgs). \<not> stops (sgs ! k) \<Longrightarrow> fst (sleep_loop n sgs d) = n"
proof (induction n sgs d rule: sleep_loop.induct)
  case (2 n sgs d)
  then show ?case by (cases sgs) (force simp: running_signals split: prod.splits)+
qed simp

text \<open>
  Also (termination in the sleep). A termination signal in second \<open>k\<close> of the sleep, counted from zero, ends it: at most
  \<open>k + 1\<close> seconds are slept and the loop does not go on. Without such a signal the sleep lasts its whole interval and the loop goes on.
\<close>

theorem sleep_ends_on_signal:
  assumes "dm_running d"
  shows "(k < length sgs \<and> stops (sgs ! k) \<longrightarrow> fst (sleep_loop n sgs d) \<le> k + 1 \<and>
      (k < n \<longrightarrow> \<not> dm_running (snd (sleep_loop n sgs d)))) \<and>
    ((\<forall>j < min n (length sgs). \<not> stops (sgs ! j)) \<longrightarrow>
      fst (sleep_loop n sgs d) = n \<and> dm_running (snd (sleep_loop n sgs d)))"
  using sleep_length[of k sgs n d] sleep_full[OF assms, of n sgs] sleep_running[of n sgs d] assms by auto

definition demo_daemon :: "unit daemon" where
  "demo_daemon = daemon_statics (\<lambda>s. \<lparr>svc_name = ''s'', svc_description = [], svc_init = None, svc_collect = None,
     svc_snapshot = None, svc_destroy = None, svc_enabled = True, svc_collect_count = 0\<rparr>) () {} (\<lambda>p. None)"

theorem sleep_ends_on_signal_witness:
  "fst (sleep_loop 10 [[], [SIGHUP, SIGTERM]] (demo_daemon\<lparr>dm_running := True\<rparr>)) \<le> 2"
  using sleep_ends_on_signal[of "demo_daemon\<lparr>dm_running := True\<rparr>" 1 "[[], [SIGHUP, SIGTERM]]" 10] by (simp add: stops_def)

text \<open>Any termination signal of a turn ends the loop with this turn.\<close>

lemma turn_running:
  assumes "daemon_turn e d = Some d'" and "dm_running d"
  shows "dm_running d' \<longleftrightarrow> \<not> stops (te_work e) \<and> \<not> stops (te_check e) \<and>
    (\<forall>k < min (nat (interval_sec (dm_config d))) (length (te_sleep e)). \<not> stops (te_sleep e ! k))"
  using assms
  by (auto simp: daemon_turn_def Let_def sleep_running running_signals split: option.splits prod.splits if_splits)

text \<open>The turns in which a termination signal arrives, before the sleep or in a second that is slept.\<close>

definition terminates :: "qmem_config \<Rightarrow> 'w turn_env \<Rightarrow> bool" where
  "terminates cfg e \<longleftrightarrow> stops (te_work e) \<or> stops (te_check e) \<or>
     (\<exists>k < min (nat (interval_sec cfg)) (length (te_sleep e)). stops (te_sleep e ! k))"

lemma run_loop_stopped: "\<not> dm_running d \<Longrightarrow> run_loop es d = Some d"
  by (cases es) simp_all

lemma run_loop_turns:
  assumes "daemon_inv d" and "dm_running d"
  shows "length (run_texts es d) = length (takeWhile (\<lambda>e. \<not> terminates (dm_config d) e) es) +
      (if \<exists>e \<in> set es. terminates (dm_config d) e then 1 else 0) \<and>
    (\<exists>d'. run_loop es d = Some d' \<and> (dm_running d' \<longleftrightarrow> (\<forall>e \<in> set es. \<not> terminates (dm_config d) e)))"
  using assms
proof (induction es arbitrary: d)
  case (Cons e es)
  obtain d1 where d1: "daemon_turn e d = Some d1" "daemon_inv d1" "dm_config d1 = dm_config d"
    using daemon_turn_state[OF Cons.prems(1)] by blast
  have r: "dm_running d1 \<longleftrightarrow> \<not> terminates (dm_config d) e" using turn_running[OF d1(1) Cons.prems(2)] by (auto simp: terminates_def)
  have none: "run_texts es d1 = []" if "\<not> dm_running d1" using that by (cases es) simp_all
  show ?case
  proof (cases "terminates (dm_config d) e")
    case True
    then show ?thesis using r Cons.prems(2) d1(1) run_loop_stopped[of d1 es] none by auto
  next
    case False
    then show ?thesis using Cons.IH[OF d1(2)] r Cons.prems(2) d1(1,3) by auto
  qed
qed simp

text \<open>
  C7 (the loop ends exactly with the turn of the first termination signal). The daemon runs every turn up to and with
  the first one in which SIGTERM or SIGINT arrives, and no further one; without such a signal it runs them all and goes on.
\<close>

theorem daemon_run_stops:
  assumes "daemon_inv d"
  shows "length (run_texts es (d\<lparr>dm_running := True\<rparr>)) = length (takeWhile (\<lambda>e. \<not> terminates (dm_config d) e) es) +
      (if \<exists>e \<in> set es. terminates (dm_config d) e then 1 else 0) \<and>
    (\<exists>d'. daemon_run es d = Some d' \<and> (daemon_is_running d' \<longleftrightarrow> (\<forall>e \<in> set es. \<not> terminates (dm_config d) e)))"
  using run_loop_turns[of "d\<lparr>dm_running := True\<rparr>" es] assms by (simp add: daemon_run_def daemon_is_running_def)

text \<open>
  Also (an early signal is lost). A termination signal that arrives after the installation of the handlers and before the loop is
  overwritten by the assignment \<open>g_running = 1\<close>: the run is the one without the signal.
\<close>

theorem early_sigterm_lost:
  "daemon_run es (signal_handler SIGTERM d) = daemon_run es d \<and> daemon_run es (signal_handler SIGINT d) = daemon_run es d"
  by (simp add: daemon_run_def signal_handler_def)

section \<open>What clients get\<close>

lemma cstr_builder:
  assumes "jb_inv j" and "0 < jb_size j" and "NUL \<notin> set (jb_out j)"
  shows "cstr (jb_buf j) = jb_out j"
proof -
  have p: "jb_pos j < length (jb_buf j)" "jb_buf j ! jb_pos j = NUL" using assms by (auto simp: jb_inv_def)
  have "jb_buf j = take (jb_pos j) (jb_buf j) @ NUL # drop (Suc (jb_pos j)) (jb_buf j)"
    using id_take_nth_drop[OF p(1)] p(2) by simp
  then have "cstr (jb_buf j) = cstr (jb_out j @ NUL # drop (Suc (jb_pos j)) (jb_buf j))" by (simp add: jb_out_def)
  then show ?thesis using assms(3) by simp
qed

text \<open>The text of the turn in the snapshot buffer.\<close>

lemma snapshot_text_of_turn:
  fixes d :: "'w daemon"
  assumes "daemon_inv d" and "daemon_turn e d = Some d'"
    and "snapshots_wf (turn_collect e d) tr" and "snapshots_ok (turn_collect e d) tr"
  defines "tree \<equiv> snapshot_tree (te_now e) (turn_collect e d) tr"
  assumes "length (render tree) < 256 * 1024"
  shows "get_snapshot_callback d' = render tree" and "jval_ok tree"
proof -
  let ?j = "turn_json e d"
  have len: "length (dm_snapshot d) = SNAPSHOT_SIZE" using assms(1) by (simp add: daemon_inv_def)
  show ok: "jval_ok tree" unfolding tree_def by (rule snapshot_tree_ok[OF assms(4)])
  have "jb_out ?j = render tree"
    using whole.text_when_fits[of "(te_now e, turn_collect e d, tr)" SNAPSHOT_SIZE "dm_snapshot d"] assms(3,6) len
    by (simp add: turn_json_def tree_def SNAPSHOT_SIZE_def)
  moreover have "jb_inv ?j" "0 < jb_size ?j" using turn_json_inv[OF assms(1)] by (simp_all add: SNAPSHOT_SIZE_def)
  ultimately have "cstr (jb_buf ?j) = render tree" using cstr_builder[of ?j] render_not_nul[OF ok] by simp
  moreover have "dm_snapshot d' = jb_buf ?j" using daemon_turn_state[OF assms(1), of e] assms(2) by auto
  ultimately show "get_snapshot_callback d' = render tree" by (simp add: get_snapshot_callback_def)
qed

text \<open>
  Also (end to end). After a turn of the monitoring loop, what a client of the daemon receives for a snapshot request is the text
  of all enabled services' trees under the time of the turn, and it parses back to them,
  provided that each snapshot function writes its tree and that the whole is shorter than the message size less the header.
\<close>

theorem daemon_serves_snapshot:
  fixes d :: "'w daemon"
  assumes "daemon_inv d" and "daemon_turn e d = Some d'"
    and "snapshots_wf (turn_collect e d) tr" and "snapshots_ok (turn_collect e d) tr"
  defines "tree \<equiv> snapshot_tree (te_now e) (turn_collect e d) tr"
  assumes "length (render tree) < 256 * 1024 - 16"
  shows "client_get_snapshot (Some (serve junk (Some (Some (get_snapshot_callback d'))) hist)) True False = Some (render tree) \<and>
    json_parse (render tree) = Some tree"
proof -
  have len: "length (render tree) < 256 * 1024" using assms(6) by simp
  note written = snapshot_text_of_turn[OF assms(1-4) len[unfolded tree_def], folded tree_def]
  show ?thesis
    using get_snapshot_text[OF render_not_nul[OF written(2)], of junk hist] assms(6) json_parse_render[OF written(2)] written(1) by simp
qed

text \<open>The web server with the routes of the interface, as the start-up leaves it.\<close>

definition web_ready :: "web_handler web_state \<Rightarrow> bool" where
  "web_ready s \<longleftrightarrow> ws_routes s = ws_routes (api_init web_initial) \<and> ws_default s = ws_default (api_init web_initial)"

lemma web_ready_start: "web_ready (snd (http_server_start a b l t p cfg (api_init web_initial)))"
  by (simp add: web_ready_def http_server_start_def Let_def)

lemma web_ready_answers: "web_ready s \<Longrightarrow> http_handle_client run s inp = http_handle_client run (api_init web_initial) inp"
proof -
  assume "web_ready s"
  then have "find_handler s = find_handler (api_init web_initial)" by (intro ext) (simp add: find_handler_def web_ready_def)
  then show ?thesis by (simp only: http_handle_client_def)
qed

text \<open>
  C31 (the dashboard's data). After a turn, what the dashboard's script fetches from \<open>/api/status\<close> is the whole text of the turn, as long as
  it fits the daemon's buffer; the limit of the local protocol does not apply.
\<close>

theorem dashboard_gets_snapshot:
  fixes d :: "'w daemon"
  assumes "daemon_inv d" and "daemon_turn e d = Some d'"
    and "snapshots_wf (turn_collect e d) tr" and "snapshots_ok (turn_collect e d) tr" and "web_ready (dm_web d)"
  defines "tree \<equiv> snapshot_tree (te_now e) (turn_collect e d) tr"
  assumes "length (render tree) < 256 * 1024" and "length (request_text ''GET'' ''/api/status'' rest) < 65536"
  shows "\<exists>out. http_handle_client (run_web (Some (Some (get_snapshot_callback d')))) (dm_web d') (request_text ''GET'' ''/api/status'' rest) = Some out \<and>
    strstr (CRLF @ CRLF) out = Some (CRLF @ CRLF @ render tree) \<and> json_parse (render tree) = Some tree"
proof -
  note written = snapshot_text_of_turn[OF assms(1-4) assms(7)[unfolded tree_def], folded tree_def]
  have w: "web_ready (dm_web d')" using daemon_turn_state[OF assms(1), of e] assms(2,5) by auto
  have t: "target_text ''/api/status'' None = ''/api/status''" by (simp add: target_text_def)
  show ?thesis
    using web_answer[of "''GET''" "''/api/status''" None rest "Some (Some (render tree))" 200 "''application/json''" "render tree"]
      assms(7,8) json_parse_render[OF written(2)]
    unfolding web_ready_answers[OF w] written(1) t by (simp add: word_ok_def isspace_def web_page_def)
qed

text \<open>The list of recent entries as a tree.\<close>

definition history_tree :: "int \<Rightarrow> ringbuf \<Rightarrow> jval" where
  "history_tree cnt rb =
     (let recent = (\<lambda>i. history rb ! nat (rb_count rb - 1 - int i))
      in JObj [(''history'', JArr (map (\<lambda>i. JObj [(''timestamp'', JInt (e_timestamp (recent i))), (''index'', JInt (int i))])
           (filter (\<lambda>i. e_data (recent i) \<noteq> None) [0..<nat (min cnt (rb_count rb))])))])"

lemma recent_entry:
  "rb_inv rb \<Longrightarrow> rb_capacity rb \<le> MAX_CAPACITY \<Longrightarrow> int i < rb_count rb \<Longrightarrow>
   ringbuf_get_recent (Some rb) (int i) = Some (Some (history rb ! nat (rb_count rb - 1 - int i)))"
  by (simp add: ringbuf_get_recent_get ringbuf_get_history)

interpretation history_out: snapshot_writer "\<lambda>(cnt, rb). history_calls cnt (Some rb)" "\<lambda>(cnt, rb). history_tree cnt rb"
  "\<lambda>(cnt, rb). rb_inv rb \<and> rb_capacity rb \<le> MAX_CAPACITY" "\<lambda>(cnt, rb). True"
proof
  fix w :: "int \<times> ringbuf"
  obtain cnt rb where w: "w = (cnt, rb)" by (cases w)
  let ?recent = "\<lambda>i. history rb ! nat (rb_count rb - 1 - int i)"
  let ?obj = "\<lambda>i. JObj [(''timestamp'', JInt (e_timestamp (?recent i))), (''index'', JInt (int i))]"
  have n: "(if cnt > rb_count rb then rb_count rb else cnt) = min cnt (rb_count rb)" by simp
  show "emits_val (case w of (cnt, rb) \<Rightarrow> history_calls cnt (Some rb)) (case w of (cnt, rb) \<Rightarrow> history_tree cnt rb)"
    if "case w of (cnt, rb) \<Rightarrow> rb_inv rb \<and> rb_capacity rb \<le> MAX_CAPACITY"
  proof -
    have inv: "rb_inv rb" "rb_capacity rb \<le> MAX_CAPACITY" using that by (simp_all add: w)
    have one: "emits_elts (history_entry (the (ringbuf_get_recent (Some rb) (int i))) i)
        (if e_data (?recent i) \<noteq> None then [?obj i] else [])" if "i \<in> set [0..<nat (min cnt (rb_count rb))]" for i
    proof -
      have i: "int i < rb_count rb" using that by auto
      have "emits_elts (jobj [json_kv_int ''timestamp'' (e_timestamp (?recent i)), json_kv_int ''index'' (int i)]) [?obj i]"
        by (rule emits_elts_cong, (rule json_rules)+, simp)
      then show ?thesis using emits_elts_skip unfolding recent_entry[OF inv i] by (simp add: history_entry_def)
    qed
    have "emits_elts (fold (\<lambda>i. history_entry (the (ringbuf_get_recent (Some rb) (int i))) i) [0..<nat (min cnt (rb_count rb))])
        (map ?obj (filter (\<lambda>i. e_data (?recent i) \<noteq> None) [0..<nat (min cnt (rb_count rb))]))"
      using emits_elts_fold[OF one] unfolding concat_map_filter .
    from emits_val_obj[OF emits_mems_Cons[OF emits_mems_key[OF emits_val_arr[OF emits_elts_Cons[OF this emits_elts_Nil]]] emits_mems_Nil]]
    show ?thesis by (simp add: w history_calls_def ringbuf_count_def n history_tree_def Let_def)
  qed
  show "jval_ok (case w of (cnt, rb) \<Rightarrow> history_tree cnt rb)"
    by (simp add: w history_tree_def Let_def key_ok_def)
qed

text \<open>
  C20 (history requests end to end). A client that asks for \<open>cnt\<close> entries receives the times of the latest \<open>cnt\<close> snapshots with data,
  newest first, with their indices, all of them when there are fewer, as long as the text fits the message. The capacity is at most the
  $2^{30}$ beyond which the computation of an index may overflow.
\<close>

theorem daemon_serves_history:
  fixes d :: "'w daemon"
  assumes "daemon_inv d" and "dm_history d = Some rb" and "rb_capacity rb \<le> 1073741824" and "- 2147483648 \<le> cnt" "cnt \<le> INT32_MAX"
    and "length old = 1024 * 1024" and "length (render (history_tree cnt rb)) < 256 * 1024 - 16"
  shows "client_get_history (Some (serve junk snap (Some (\<lambda>c. Some (get_history_callback old c d))))) True False cnt =
      Some (render (history_tree cnt rb)) \<and>
    json_parse (render (history_tree cnt rb)) = Some (history_tree cnt rb)"
proof -
  let ?j = "history_json old cnt (Some rb)" and ?t = "history_tree cnt rb"
  have rb: "rb_inv rb" "rb_capacity rb \<le> MAX_CAPACITY" using assms(1-3) by (simp_all add: daemon_inv_def)
  have ok: "jval_ok ?t" using history_out.tree_ok[of "(cnt, rb)"] rb by simp
  have "jb_out ?j = render ?t" "jb_inv ?j \<and> 0 < jb_size ?j"
  proof -
    show "jb_out ?j = render ?t"
      using history_out.text_when_fits[of "(cnt, rb)" HISTORY_SIZE old] rb assms(6,7) by (simp add: history_json_def HISTORY_SIZE_def)
    have "jb_frame (json_init old HISTORY_SIZE) ?j \<and> jb_inv ?j"
    proof -
      have "emits_val (history_calls cnt (Some rb)) ?t" using history_out.emits[of "(cnt, rb)"] rb by simp
      moreover have "jb_inv (json_init old HISTORY_SIZE)" "0 < jb_size (json_init old HISTORY_SIZE)"
        using jb_inv_init[of HISTORY_SIZE old] assms(6) by (simp_all add: HISTORY_SIZE_def json_init_def)
      ultimately show ?thesis by (auto simp: emits_val_def denotes_def jb_step_def history_json_def)
    qed
    then show "jb_inv ?j \<and> 0 < jb_size ?j" by (simp add: jb_frame_def json_init_def HISTORY_SIZE_def)
  qed
  then have "get_history_callback old cnt d = render ?t"
    using cstr_builder[of ?j] render_not_nul[OF ok] by (simp add: get_history_callback_def assms(2))
  then show ?thesis
    using get_history_text[OF assms(4,5), of "\<lambda>c. Some (get_history_callback old c d)" "render ?t" junk snap]
      render_not_nul[OF ok] json_parse_render[OF ok] assms(7) by simp
qed

text \<open>
  Also (a request during a turn). The server thread reads the buffer that the loop is writing: a request served after the loop has
  opened the object gets a lone bracket, which is not a JSON text, whatever the last complete snapshot was.
\<close>

theorem snapshot_read_race:
  fixes d :: "'w daemon"
  assumes "daemon_inv d"
  defines "d' \<equiv> d\<lparr>dm_snapshot := jb_buf (json_object_start (json_init (dm_snapshot d) SNAPSHOT_SIZE))\<rparr>"
  shows "client_get_snapshot (Some (serve junk (Some (Some (get_snapshot_callback d'))) hist)) True False = Some ''{'' \<and>
    json_parse ''{'' = None"
proof -
  have len: "length (dm_snapshot d) = 262144" using assms(1) by (simp add: daemon_inv_def SNAPSHOT_SIZE_def)
  then have "take 2 (jb_buf (json_object_start (json_init (dm_snapshot d) SNAPSHOT_SIZE))) = [CHR ''{'', NUL]"
    by (simp add: json_object_start_def json_comma_if_needed_def json_write_def json_init_def mem_write_def SNAPSHOT_SIZE_def Let_def)
  then have "\<exists>r. dm_snapshot d' = ''{'' @ NUL # r"
    unfolding d'_def by (metis append_Cons append_Nil append_take_drop_id daemon.select_convs(5) daemon.update_convs(5) daemon.surjective)
  then have "get_snapshot_callback d' = ''{''" by (auto simp: get_snapshot_callback_def cstr_def)
  moreover have "json_parse ''{'' = None" by (simp add: json_parse_def)
  ultimately show ?thesis using get_snapshot_text[of "''{''" junk hist] by simp
qed

section \<open>The whole program\<close>

lemma manager_init_inv:
  "sm_inv (snd (svc_manager_init cfg m))" "registered (snd (svc_manager_init cfg m)) = []"
  "sm_store (snd (svc_manager_init cfg m)) = sm_store m" "fst (svc_manager_init cfg m) = 0"
  by (simp_all add: svc_manager_init_def sm_inv_def registered_def)

lemma loader_start_inv:
  assumes "sm_inv m" "registered m = []"
    and L: "L = snd (plugin_loader_start_watcher i w (snd (plugin_loader_load_all dl mt dir (plugin_loader_init cfg m))))"
  shows "loader_inv L \<and> sm_store (pl_mgr L) = sm_store m"
proof -
  have "loader_inv (plugin_loader_init cfg m)" using assms by (simp add: plugin_loader_init_def loader_inv_def)
  then have "loader_inv (snd (plugin_loader_load_all dl mt dir (plugin_loader_init cfg m)))"
    by (cases dir) (simp_all add: plugin_loader_load_all_def loader_inv_entries)
  moreover have "sm_store (pl_mgr (snd (plugin_loader_load_all dl mt dir (plugin_loader_init cfg m)))) = sm_store m"
    by (cases dir) (simp_all add: plugin_loader_load_all_def, simp_all add: plugin_loader_init_def)
  ultimately show ?thesis by (simp add: L plugin_loader_start_watcher_def)
qed

text \<open>The server's part of a start: it runs with a thread, or neither.\<close>

lemma server_start_thread:
  "\<not> srv_running s \<and> \<not> srv_thread s \<Longrightarrow>
   srv_thread (snd (ipc_server_start a b c t p s)) = srv_running (snd (ipc_server_start a b c t p s))"
  by (simp add: ipc_server_start_def Let_def)

lemma ringbuf_create_ok: "0 < n \<Longrightarrow> \<exists>rb. ringbuf_create True True n = Some rb \<and> rb_inv rb"
  using ringbuf_create_inv by blast

lemma init_prepare_fields:
  "dm_loader (init_prepare env cfg d) = dm_loader d" "dm_config (init_prepare env cfg d) = dm_config d"
  "dm_snapshot (init_prepare env cfg d) = dm_snapshot d" "dm_ipc (init_prepare env cfg d) = dm_ipc d"
  "dm_web (init_prepare env cfg d) = dm_web d"
  "dm_log (init_prepare env cfg d) = (if foreground cfg then dm_log d else log_init (log_level cfg) True (dm_log d))"
  "pidfile cfg \<noteq> [] \<Longrightarrow> ie_pidfile env \<Longrightarrow> dm_pids (init_prepare env cfg d) (pidfile cfg) = Some (int_str (ie_pid env) @ [LF])"
  by (simp_all add: init_prepare_def write_pidfile_def Let_def)

lemma web_start_thread:
  assumes "\<not> ws_running s \<and> \<not> ws_thread s"
  shows "ws_thread (snd (http_server_start a b l t p cfg (api_init s))) = ws_running (snd (http_server_start a b l t p cfg (api_init s)))"
  using assms
  by (simp add: http_server_start_def api_init_def http_register_handler_def http_set_default_handler_def Let_def)

lemma daemon_init_state:
  fixes d :: "'w daemon"
  assumes "store_safe (pl_mgr (dm_loader d))" and "pl_plugins (dm_loader d) = []" and "pl_handles (dm_loader d) = 0"
    and "length (dm_snapshot d) = SNAPSHOT_SIZE" and "NUL \<in> set (dm_snapshot d)" and "\<not> srv_running (dm_ipc d) \<and> \<not> srv_thread (dm_ipc d)"
    and "0 < max_snapshots cfg" and "daemonize env cfg = Forked 0" and "\<not> ws_running (dm_web d) \<and> \<not> ws_thread (dm_web d)"
    and "ie_malloc env" "ie_calloc env"
  shows "\<exists>d'. daemon_init env cfg d = Init_returns 0 d' \<and> daemon_inv d' \<and> dm_config d' = cfg \<and>
    dm_log d' = (if foreground cfg then dm_log d else log_init (log_level cfg) True (dm_log d)) \<and>
    (\<not> enable_plugins cfg \<longrightarrow> pl_plugins (dm_loader d') = [] \<and> pl_inotify (dm_loader d') = pl_inotify (dm_loader d)) \<and>
    srv_thread (dm_ipc d') = srv_running (dm_ipc d') \<and> ws_thread (dm_web d') = ws_running (dm_web d')"
proof -
  obtain rb where rb: "ringbuf_create (ie_malloc env) (ie_calloc env) (max_snapshots cfg) = Some rb" "rb_inv rb"
    using ringbuf_create_ok[OF assms(7)] assms(10,11) by auto
  define d3 where "d3 = init_prepare env cfg (d\<lparr>dm_config := cfg\<rparr>)"
  have d3: "dm_loader d3 = dm_loader d" "dm_config d3 = cfg" "dm_snapshot d3 = dm_snapshot d" "dm_ipc d3 = dm_ipc d" "dm_web d3 = dm_web d"
    "dm_log d3 = (if foreground cfg then dm_log d else log_init (log_level cfg) True (dm_log d))"
    unfolding d3_def by (simp_all add: init_prepare_fields)
  obtain m where m: "svc_manager_init cfg (pl_mgr (dm_loader d)) = (0, m)"
    using manager_init_inv(4)[of cfg "pl_mgr (dm_loader d)"] by (metis prod.collapse)
  have mi: "sm_inv m" "registered m = []" "sm_store m = sm_store (pl_mgr (dm_loader d))"
    using manager_init_inv(1-3)[of cfg "pl_mgr (dm_loader d)"] m by simp_all
  define d4 where "d4 = set_mgr m (d3\<lparr>dm_history := Some rb\<rparr>)"
  define d5 where "d5 = d4\<lparr>dm_ipc := snd (ipc_server_start (ie_socket env) (ie_bind env) (ie_listen env) (ie_thread env) (socket_path cfg) (dm_ipc d4)),
      dm_web := snd (http_server_start (ie_web_socket env) (ie_web_bind env) (ie_web_listen env) (ie_web_thread env) (ie_inet_pton env) cfg
        (api_init (dm_web d4)))\<rparr>"
  define d6 where "d6 = (if enable_plugins cfg then d5\<lparr>dm_loader := snd (plugin_loader_start_watcher (ie_inotify env) (ie_watch env)
      (snd (plugin_loader_load_all (ie_dl env) (ie_mtime env) (ie_dir env) (plugin_loader_init cfg (pl_mgr (dm_loader d5))))))\<rparr> else d5)"
  have "daemon_init env cfg d = Init_returns 0 d6"
    using assms(8) rb(1) m d3(1) by (simp add: daemon_init_def d3_def[symmetric] init_services_def d4_def d5_def d6_def Let_def)
  moreover have "loader_inv (dm_loader d5)" using mi assms(2,3) by (simp add: d5_def d4_def d3 loader_inv_def)
  then have "loader_inv (dm_loader d6) \<and> store_safe (pl_mgr (dm_loader d6))"
    using loader_start_inv[OF mi(1,2) refl] mi(3) assms(1) by (simp add: d6_def d5_def d4_def store_safe_def)
  then have "daemon_inv d6" using rb(2) assms(4,5) by (simp add: daemon_inv_def d6_def d5_def d4_def d3)
  moreover have "srv_thread (dm_ipc d6) = srv_running (dm_ipc d6)"
    using server_start_thread[OF assms(6)] by (simp add: d6_def d5_def d4_def d3)
  moreover have "ws_thread (dm_web d6) = ws_running (dm_web d6)"
    using web_start_thread[OF assms(9)] by (simp add: d6_def d5_def d4_def d3)
  moreover have "dm_config d6 = cfg" "dm_log d6 = (if foreground cfg then dm_log d else log_init (log_level cfg) True (dm_log d))"
    "\<not> enable_plugins cfg \<longrightarrow> pl_plugins (dm_loader d6) = [] \<and> pl_inotify (dm_loader d6) = pl_inotify (dm_loader d)"
    by (simp_all add: d6_def d5_def d4_def d3 assms(2))
  ultimately show ?thesis by blast
qed

lemma SNAPSHOT_SIZE_pos: "SNAPSHOT_SIZE \<noteq> 0"
  by (simp add: SNAPSHOT_SIZE_def)

lemma statics_facts:
  "pl_plugins (dm_loader (daemon_statics store w files pids)) = []" "pl_handles (dm_loader (daemon_statics store w files pids)) = 0"
  "length (dm_snapshot (daemon_statics store w files pids)) = SNAPSHOT_SIZE" "NUL \<in> set (dm_snapshot (daemon_statics store w files pids))"
  "\<not> srv_running (dm_ipc (daemon_statics store w files pids)) \<and> \<not> srv_thread (dm_ipc (daemon_statics store w files pids))"
  "sm_store (pl_mgr (dm_loader (daemon_statics store w files pids))) = store"
  "\<not> pl_inotify (dm_loader (daemon_statics store w files pids))" "\<not> log_open (dm_log (daemon_statics store w files pids))"
  "\<not> ws_running (dm_web (daemon_statics store w files pids)) \<and> \<not> ws_thread (dm_web (daemon_statics store w files pids))"
  using SNAPSHOT_SIZE_pos by (simp_all add: daemon_statics_def web_initial_def)

lemma shutdown_facts:
  fixes d :: "'a daemon"
  shows
  "registered (pl_mgr (dm_loader (daemon_shutdown d))) = []" "dm_history (daemon_shutdown d) = None"
  "\<not> dm_running (daemon_shutdown d)" "\<not> srv_running (dm_ipc (daemon_shutdown d))"
  "srv_thread (dm_ipc d) = srv_running (dm_ipc d) \<Longrightarrow> \<not> srv_thread (dm_ipc (daemon_shutdown d))"
  "pidfile (dm_config d) \<noteq> [] \<Longrightarrow> dm_pids (daemon_shutdown d) (pidfile (dm_config d)) = None"
  "\<not> ws_running (dm_web (daemon_shutdown d))" "ws_thread (dm_web d) = ws_running (dm_web d) \<Longrightarrow> \<not> ws_thread (dm_web (daemon_shutdown d))"
proof -
  define L where "L = (if enable_plugins (dm_config d) then plugin_loader_shutdown (dm_loader d) else dm_loader d)"
  have m: "registered (svc_manager_shutdown m) = []" for m :: "(qmem_config, 'a) svc_manager"
    by (simp add: svc_manager_shutdown_def registered_def)
  have s: "\<exists>P G. daemon_shutdown d = d\<lparr>dm_running := False, dm_history := None,
      dm_loader := L\<lparr>pl_mgr := svc_manager_shutdown (pl_mgr L)\<rparr>, dm_ipc := ipc_server_stop (dm_ipc d),
      dm_web := http_server_stop (dm_web d), dm_log := G, dm_pids := P\<rparr> \<and>
      (pidfile (dm_config d) \<noteq> [] \<longrightarrow> P (pidfile (dm_config d)) = None)"
    unfolding daemon_shutdown_def Let_def L_def
    by (cases "enable_plugins (dm_config d)"; cases "pidfile (dm_config d) = []") (auto intro!: exI daemon.equality)
  have stop: "\<not> srv_running (ipc_server_stop i)" "srv_thread i = srv_running i \<Longrightarrow> \<not> srv_thread (ipc_server_stop i)" for i
    by (simp_all add: ipc_server_stop_def)
  have web_stop: "\<not> ws_running (http_server_stop w)" "ws_thread w = ws_running w \<Longrightarrow> \<not> ws_thread (http_server_stop w)" for w :: "web_handler web_state"
    by (simp_all add: http_server_stop_def)
  show "registered (pl_mgr (dm_loader (daemon_shutdown d))) = []" "dm_history (daemon_shutdown d) = None"
    "\<not> dm_running (daemon_shutdown d)" "\<not> srv_running (dm_ipc (daemon_shutdown d))"
    "srv_thread (dm_ipc d) = srv_running (dm_ipc d) \<Longrightarrow> \<not> srv_thread (dm_ipc (daemon_shutdown d))"
    "pidfile (dm_config d) \<noteq> [] \<Longrightarrow> dm_pids (daemon_shutdown d) (pidfile (dm_config d)) = None"
  "\<not> ws_running (dm_web (daemon_shutdown d))" "ws_thread (dm_web d) = ws_running (dm_web d) \<Longrightarrow> \<not> ws_thread (dm_web (daemon_shutdown d))"
    using s m stop web_stop by auto
qed

text \<open>Without plugins the loader stays as it is.\<close>

lemma turn_plain:
  assumes "\<not> enable_plugins (dm_config d)" and "daemon_turn e d = Some d1"
  shows "dm_loader d1 = (dm_loader d)\<lparr>pl_mgr := turn_collect e d\<rparr>"
proof -
  obtain r h where p: "ringbuf_push (te_malloc e) (te_push_now e) (Some (turn_text e d)) (dm_history d) = Some (r, h)"
    using assms(2) by (auto simp: daemon_turn_def split: option.splits)
  have plain: "dm_config (if b then u\<lparr>dm_reload := False\<rparr> else u) = dm_config u" "dm_loader (if b then u\<lparr>dm_reload := False\<rparr> else u) = dm_loader u"
    for b and u :: "'a daemon" by simp_all
  show ?thesis using assms unfolding daemon_turn_def p option.case prod.case Let_def by (auto simp: plain)
qed

lemma run_loop_plain:
  assumes "\<not> enable_plugins (dm_config d)" and "daemon_inv d" and "run_loop es d = Some d'"
  shows "pl_plugins (dm_loader d') = pl_plugins (dm_loader d) \<and> pl_inotify (dm_loader d') = pl_inotify (dm_loader d)"
  using assms
proof (induction es arbitrary: d)
  case (Cons e es)
  show ?case
  proof (cases "dm_running d")
    case True
    obtain d1 where d1: "daemon_turn e d = Some d1" "daemon_inv d1" "dm_config d1 = dm_config d"
      using daemon_turn_state[OF Cons.prems(2)] by blast
    then show ?thesis using Cons.IH[OF _ d1(2)] turn_plain[OF Cons.prems(1) d1(1)] Cons.prems(1,3) True by simp
  qed (use Cons.prems in simp)
qed simp

text \<open>What the shutdown does with the plugins: every service that is still registered is destroyed exactly once.\<close>

lemma loaded_by_slot: "map lp_service (filter lp_loaded ps) = map (\<lambda>i. lp_service (ps ! i)) (filter (\<lambda>i. lp_loaded (ps ! i)) [0..<length ps])"
proof -
  have "filter lp_loaded (map ((!) ps) [0..<length ps]) = map ((!) ps) (filter (lp_loaded \<circ> (!) ps) [0..<length ps])" by (rule filter_map)
  then show ?thesis by (simp add: map_nth comp_def)
qed

lemma shutdown_releases:
  fixes d :: "'w daemon"
  assumes "daemon_inv d" and "\<not> enable_plugins (dm_config d) \<Longrightarrow> pl_plugins (dm_loader d) = [] \<and> \<not> pl_inotify (dm_loader d)"
  defines "m \<equiv> pl_mgr (dm_loader d)" and "L' \<equiv> dm_loader (daemon_shutdown d)"
  shows "(\<exists>order. mset order = mset (registered m) \<and> sm_world (pl_mgr L') = destroy_world m order (sm_world m)) \<and>
    \<not> pl_inotify L' \<and> pl_handles L' = length (shadowed (pl_plugins (dm_loader d))) \<and>
    (distinct (map lp_name (pl_plugins (dm_loader d))) \<longrightarrow> shadowed (pl_plugins (dm_loader d)) = [])"
proof -
  let ?ps = "pl_plugins (dm_loader d)"
  define L where "L = (if enable_plugins (dm_config d) then plugin_loader_shutdown (dm_loader d) else dm_loader d)"
  have inv: "loader_inv (dm_loader d)" using assms(1) by (simp add: daemon_inv_def)
  have L': "L' = L\<lparr>pl_mgr := svc_manager_shutdown (pl_mgr L)\<rparr>"
    unfolding L'_def daemon_shutdown_def Let_def L_def by simp
  have reg: "mset (registered m) = mset (map (\<lambda>i. lp_service (?ps ! i)) (filter (\<lambda>i. lp_loaded (?ps ! i)) [0..<length ?ps]))"
    using inv by (simp add: loader_inv_def loaded_services_def m_def loaded_by_slot)
  have sh: "sm_world (svc_manager_shutdown k) = destroy_world k (registered k) (sm_world k)" for k :: "(qmem_config, 'w) svc_manager"
    using destroy_fold_world[of "registered k" k] by (simp add: svc_manager_shutdown_def)
  have eff: "\<exists>order. mset (order @ registered (pl_mgr L)) = mset (registered m) \<and> sm_world (pl_mgr L) = destroy_world m order (sm_world m) \<and>
    sm_store (pl_mgr L) = sm_store m \<and> \<not> pl_inotify L \<and> pl_handles L = length (shadowed ?ps) \<and>
    (distinct (map lp_name ?ps) \<longrightarrow> shadowed ?ps = [])"
  proof (cases "enable_plugins (dm_config d)")
    case True
    note e = loader_shutdown_effect[OF inv]
    have "mset (map (\<lambda>i. lp_service (?ps ! i)) (closing ?ps) @ registered (pl_mgr L)) = mset (map (\<lambda>i. lp_service (?ps ! i)) (closing ?ps @ shadowed ?ps))"
      using e True by (simp add: L_def)
    also have "\<dots> = mset (registered m)" unfolding reg mset_map using e by simp
    finally show ?thesis
      using e True by (intro exI[of _ "map (\<lambda>i. lp_service (?ps ! i)) (closing ?ps)"]) (simp add: L_def m_def)
  next
    case False
    then have "?ps = []" "\<not> pl_inotify (dm_loader d)" "L = dm_loader d" using assms(2) by (simp_all add: L_def)
    then show ?thesis using inv by (intro exI[of _ "[]"]) (simp add: m_def shadowed_def loader_inv_def loaded_services_def)
  qed
  then obtain order where o: "mset (order @ registered (pl_mgr L)) = mset (registered m)" "sm_world (pl_mgr L) = destroy_world m order (sm_world m)"
    "sm_store (pl_mgr L) = sm_store m" by blast
  have "destroy_world (pl_mgr L) = destroy_world m" by (rule destroy_world_cong[OF o(3)])
  then have "sm_world (pl_mgr L') = destroy_world m (order @ registered (pl_mgr L)) (sm_world m)"
    by (simp add: L' sh o(2))
  with o(1) have "\<exists>order. mset order = mset (registered m) \<and> sm_world (pl_mgr L') = destroy_world m order (sm_world m)" by blast
  moreover have "\<not> pl_inotify L' \<and> pl_handles L' = length (shadowed ?ps) \<and> (distinct (map lp_name ?ps) \<longrightarrow> shadowed ?ps = [])"
    using eff unfolding L' by auto
  ultimately show ?thesis by blast
qed

text \<open>
  C5 (the program runs and ends clean). Started as root with a history of positive capacity whose memory can be allocated, whatever the plugins do and whatever
  happens, \<open>qmemd\<close> never leaves an array; it goes on as long as no termination signal arrives; and it returns 0 when one has
  arrived. Then every service that was registered at the end of the loop has been destroyed exactly once, none is registered, the directory is
  not watched, the history is freed, both servers are stopped, the pidfile is removed and the log is closed. The libraries are closed, except those of plugins that
  came back under another file name: one handle stays for each loaded plugin in a later slot of its name.
\<close>

theorem qmemd_runs_and_ends_clean:
  assumes "\<forall>s f w. svc_snapshot (store s) = Some f \<longrightarrow> jb_safe (f w)"
    and "config_parse_args fs opts config_init_defaults = Parsed cfg" and "0 < max_snapshots cfg" and "daemonize env cfg = Forked 0"
    and "ie_malloc env" "ie_calloc env"
  shows "\<exists>d2 d3. daemon_init env cfg ((daemon_statics store w files pids)\<lparr>dm_log := log_init (log_level cfg) False (dm_log (daemon_statics store w files pids))\<rparr>) =
      Init_returns 0 d2 \<and> daemon_run es d2 = Some d3 \<and> daemon_inv d3 \<and>
    (case qmemd_main True fs opts env es (daemon_statics store w files pids) of
      Main_undefined \<Rightarrow> False
    | Main_running d \<Rightarrow> d = d3 \<and> (\<forall>e \<in> set es. \<not> terminates cfg e)
    | Main_exit c d \<Rightarrow> c = 0 \<and> (\<exists>e \<in> set es. terminates cfg e) \<and> registered (pl_mgr (dm_loader d)) = [] \<and>
        (\<exists>order. mset order = mset (registered (pl_mgr (dm_loader d3))) \<and>
          sm_world (pl_mgr (dm_loader d)) = destroy_world (pl_mgr (dm_loader d3)) order (sm_world (pl_mgr (dm_loader d3)))) \<and>
        \<not> pl_inotify (dm_loader d) \<and> pl_handles (dm_loader d) = length (shadowed (pl_plugins (dm_loader d3))) \<and>
        (distinct (map lp_name (pl_plugins (dm_loader d3))) \<longrightarrow> pl_handles (dm_loader d) = 0) \<and>
        dm_history d = None \<and> \<not> srv_running (dm_ipc d) \<and> \<not> srv_thread (dm_ipc d) \<and>
        \<not> ws_running (dm_web d) \<and> \<not> ws_thread (dm_web d) \<and> \<not> log_open (dm_log d) \<and>
        (pidfile cfg \<noteq> [] \<longrightarrow> dm_pids d (pidfile cfg) = None))"
proof -
  let ?d = "daemon_statics store w files pids"
  define d1 where "d1 = ?d\<lparr>dm_log := log_init (log_level cfg) False (dm_log ?d)\<rparr>"
  have f: "pl_plugins (dm_loader d1) = []" "pl_handles (dm_loader d1) = 0" "length (dm_snapshot d1) = SNAPSHOT_SIZE"
    "NUL \<in> set (dm_snapshot d1)" "\<not> srv_running (dm_ipc d1) \<and> \<not> srv_thread (dm_ipc d1)" "store_safe (pl_mgr (dm_loader d1))"
    "\<not> ws_running (dm_web d1) \<and> \<not> ws_thread (dm_web d1)" "\<not> pl_inotify (dm_loader d1)" "\<not> log_open (dm_log d1)"
    using statics_facts[of store w files pids] assms(1) by (simp_all add: d1_def store_safe_def log_init_def)
  obtain d2 where d2: "daemon_init env cfg d1 = Init_returns 0 d2" "daemon_inv d2" "dm_config d2 = cfg"
    "srv_thread (dm_ipc d2) = srv_running (dm_ipc d2)" "ws_thread (dm_web d2) = ws_running (dm_web d2)"
    "dm_log d2 = (if foreground cfg then dm_log d1 else log_init (log_level cfg) True (dm_log d1))"
    "\<not> enable_plugins cfg \<longrightarrow> pl_plugins (dm_loader d2) = [] \<and> \<not> pl_inotify (dm_loader d2)"
    using daemon_init_state[OF f(6,1-5) assms(3,4) f(7) assms(5,6)] f(8) by blast
  obtain d3 where d3: "daemon_run es d2 = Some d3" "daemon_inv d3" "dm_config d3 = cfg" "dm_ipc d3 = dm_ipc d2" "dm_web d3 = dm_web d2"
    "dm_log d3 = dm_log d2"
    using run_loop_inv[of "d2\<lparr>dm_running := True\<rparr>" es] d2(2,3) by (auto simp: daemon_run_def)
  have "\<not> enable_plugins cfg \<Longrightarrow> pl_plugins (dm_loader d3) = [] \<and> \<not> pl_inotify (dm_loader d3)"
    using run_loop_plain[of "d2\<lparr>dm_running := True\<rparr>" es d3] d2(2,3,7) d3(1) by (simp add: daemon_run_def)
  then have rel: "(\<exists>order. mset order = mset (registered (pl_mgr (dm_loader d3))) \<and>
      sm_world (pl_mgr (dm_loader (daemon_shutdown d3))) = destroy_world (pl_mgr (dm_loader d3)) order (sm_world (pl_mgr (dm_loader d3)))) \<and>
    \<not> pl_inotify (dm_loader (daemon_shutdown d3)) \<and> pl_handles (dm_loader (daemon_shutdown d3)) = length (shadowed (pl_plugins (dm_loader d3))) \<and>
    (distinct (map lp_name (pl_plugins (dm_loader d3))) \<longrightarrow> shadowed (pl_plugins (dm_loader d3)) = [])"
    using shutdown_releases[OF d3(2)] d3(3) by blast
  have lg: "\<not> log_open (dm_log (daemon_shutdown d3))"
    using d3(6) d2(6) f(9) by (simp add: daemon_shutdown_def Let_def log_shutdown_def log_init_def)
  have r: "dm_running d3 \<longleftrightarrow> (\<forall>e \<in> set es. \<not> terminates cfg e)"
    using run_loop_turns[of "d2\<lparr>dm_running := True\<rparr>" es] d2(2,3) d3(1) by (auto simp: daemon_run_def)
  have main: "qmemd_main True fs opts env es ?d = (if dm_running d3 then Main_running d3 else Main_exit 0 (daemon_shutdown d3))"
    using assms(2) d2(1) d3(1) by (simp add: qmemd_main_def d1_def[symmetric])
  have init: "daemon_init env cfg (?d\<lparr>dm_log := log_init (log_level cfg) False (dm_log ?d)\<rparr>) = Init_returns 0 d2"
    using d2(1) unfolding d1_def .
  show ?thesis
    unfolding main using init r d3 shutdown_facts[of d3] d2(4,5) rel lg
    by (intro exI[of _ d2] exI[of _ d3]) (cases "dm_running d3"; simp)
qed

text \<open>
  Also (a history without capacity). With \<open>max_snapshots = 0\<close> the daemon starts, and its first turn leaves the history's array.
\<close>

theorem qmemd_zero_history:
  assumes "config_parse_args fs opts config_init_defaults = Parsed cfg" and "max_snapshots cfg = 0" and "daemonize env cfg = Forked 0"
    and "ie_malloc env" "ie_calloc env"
  shows "qmemd_main True fs opts env (e # es) (daemon_statics store w files pids) = Main_undefined"
proof -
  let ?d = "daemon_statics store w files pids"
  define d1 where "d1 = ?d\<lparr>dm_log := log_init (log_level cfg) False (dm_log ?d)\<rparr>"
  have c: "ringbuf_create True True 0 = Some \<lparr>rb_entries = [], rb_capacity = 0, rb_head = 0, rb_count = 0\<rparr>" by (simp add: ringbuf_create_def)
  obtain d2 where d2: "daemon_init env cfg d1 = Init_returns 0 d2"
    "dm_history d2 = Some \<lparr>rb_entries = [], rb_capacity = 0, rb_head = 0, rb_count = 0\<rparr>"
    using assms(2-5) c by (auto simp: daemon_init_def init_services_def Let_def svc_manager_init_def)
  have "daemon_turn e d = None" if "dm_history d = dm_history d2" for d
    using that d2(2) by (simp add: daemon_turn_def ringbuf_push_def entry_at_def)
  then have "daemon_run (e # es) d2 = None" by (simp add: daemon_run_def)
  then show ?thesis using assms(1) d2(1) by (simp add: qmemd_main_def d1_def[symmetric])
qed

text \<open>
  Also (a failed start leaves its pidfile). When the history cannot be created, because its capacity is negative or an allocation fails, \<open>main\<close>
  returns 1 without a shutdown, after the pidfile has been written.
\<close>

theorem failed_start_keeps_pidfile:
  assumes "config_parse_args fs opts config_init_defaults = Parsed cfg" and "max_snapshots cfg < 0 \<or> \<not> ie_malloc env \<or> \<not> ie_calloc env"
    and "daemonize env cfg = Forked 0"
    and "pidfile cfg \<noteq> []" and "ie_pidfile env"
  shows "\<exists>d. qmemd_main True fs opts env es (daemon_statics store w files pids) = Main_exit 1 d \<and>
    dm_pids d (pidfile cfg) = Some (int_str (ie_pid env) @ [LF])"
proof -
  have "ringbuf_create (ie_malloc env) (ie_calloc env) (max_snapshots cfg) = None"
    using assms(2) by (auto simp: ringbuf_create_def)
  then show ?thesis using assms init_prepare_fields(7)[OF assms(4,5)] by (simp add: qmemd_main_def daemon_init_def Let_def)
qed

section \<open>Concrete runs\<close>

definition demo_turn :: "sig list \<Rightarrow> unit turn_env" where
  "demo_turn sgs = \<lparr>te_world = (\<lambda>w. w), te_now = 7, te_push_now = 8, te_malloc = True, te_dl = (\<lambda>p. None), te_mtime = (\<lambda>p. 0),
     te_events = [], te_work = sgs, te_check = [], te_sleep = []\<rparr>"

definition demo_init :: init_env where
  "demo_init = \<lparr>ie_fork1 = 0, ie_setsid = True, ie_fork2 = 0, ie_pid = 42, ie_pidfile = True, ie_malloc = True, ie_calloc = True, ie_socket = True, ie_bind = True, ie_listen = True,
     ie_thread = True, ie_web_socket = True, ie_web_bind = (\<lambda>a. True), ie_web_listen = True, ie_web_thread = True, ie_inet_pton = (\<lambda>t. None), ie_dl = (\<lambda>p. None), ie_mtime = (\<lambda>p. 0), ie_dir = NoDir, ie_inotify = True, ie_watch = True\<rparr>"

definition demo_ring :: ringbuf where
  "demo_ring = \<lparr>rb_entries = replicate 2 empty_entry, rb_capacity = 2, rb_head = 0, rb_count = 0\<rparr>"

definition demo_ready :: "unit daemon" where
  "demo_ready = demo_daemon\<lparr>dm_history := Some demo_ring, dm_web := api_init web_initial\<rparr>"

lemma demo_ready_inv: "daemon_inv demo_ready"
proof -
  have l: "dm_loader demo_ready = \<lparr>pl_dir = [], pl_plugins = [], pl_inotify = False, pl_watch = False, pl_running = False,
        pl_mgr = \<lparr>sm_slots = replicate MAX_SERVICES None, sm_count = 0, sm_config = None, sm_store = (\<lambda>s. \<lparr>svc_name = ''s'', svc_description = [],
          svc_init = None, svc_collect = None, svc_snapshot = None, svc_destroy = None, svc_enabled = True, svc_collect_count = 0\<rparr>), sm_world = ()\<rparr>,
        pl_handles = 0\<rparr>" by (simp add: demo_ready_def demo_daemon_def daemon_statics_def)
  have "loader_inv (dm_loader demo_ready)" "store_safe (pl_mgr (dm_loader demo_ready))"
    unfolding l by (simp_all add: loader_inv_def sm_inv_def registered_def store_safe_def)
  moreover have "rb_inv demo_ring" by (simp add: demo_ring_def rb_inv_def)
  moreover have "length (dm_snapshot demo_ready) = SNAPSHOT_SIZE" "NUL \<in> set (dm_snapshot demo_ready)"
    using statics_facts(3,4) by (simp_all add: demo_ready_def demo_daemon_def)
  ultimately show ?thesis by (simp add: daemon_inv_def) (simp add: demo_ready_def)
qed

lemma demo_registered: "registered (turn_collect e demo_ready) = []"
  using turn_collect_keeps(2)[of e demo_ready]
  by (simp add: registered_def demo_ready_def demo_daemon_def daemon_statics_def)

theorem daemon_run_history_witness:
  "\<exists>d' rb'. daemon_run [demo_turn [], demo_turn []] demo_ready = Some d' \<and> dm_history d' = Some rb' \<and> rb_capacity rb' = 2"
  using daemon_run_history[OF demo_ready_inv, of "[demo_turn [], demo_turn []]" demo_ring]
  by (auto simp: demo_turn_def demo_ready_def demo_ring_def)

theorem daemon_run_stops_witness:
  "length (run_texts [demo_turn [], demo_turn [SIGHUP, SIGTERM], demo_turn []] (demo_ready\<lparr>dm_running := True\<rparr>)) = 2"
proof -
  have t: "terminates c (demo_turn sgs) \<longleftrightarrow> stops sgs" for c sgs by (simp add: terminates_def demo_turn_def stops_def)
  show ?thesis
    using daemon_run_stops[OF demo_ready_inv, of "[demo_turn [], demo_turn [SIGHUP, SIGTERM], demo_turn []]"]
    unfolding t by (simp add: t stops_def)
qed

theorem daemon_serves_snapshot_witness:
  "\<exists>d'. daemon_turn (demo_turn []) demo_ready = Some d' \<and>
     client_get_snapshot (Some (serve [] (Some (Some (get_snapshot_callback d'))) None)) True False =
       Some (render (JObj [(''timestamp'', JInt 7), (''services'', JObj [])]))"
proof -
  obtain d' where d': "daemon_turn (demo_turn []) demo_ready = Some d'"
    using daemon_turn_state[OF demo_ready_inv] by blast
  have t: "snapshot_tree (te_now (demo_turn [])) (turn_collect (demo_turn []) demo_ready) (\<lambda>s. JNull) =
      JObj [(''timestamp'', JInt 7), (''services'', JObj [])]"
    by (simp add: snapshot_tree_def demo_registered) (simp add: demo_turn_def)
  have "length (render (JObj [(''timestamp'', JInt 7), (''services'', JObj [])])) < 256 * 1024 - 16"
    by (simp add: key_text_def key_char_def int_str_def nat_str.simps)
  then show ?thesis
    using daemon_serves_snapshot[OF demo_ready_inv d', of "\<lambda>s. JNull" "[]" None] d'
    unfolding t by (simp add: snapshots_wf_def snapshots_ok_def demo_registered)
qed

theorem dashboard_gets_snapshot_witness:
  "\<exists>d' out. daemon_turn (demo_turn []) demo_ready = Some d' \<and>
     http_handle_client (run_web (Some (Some (get_snapshot_callback d')))) (dm_web d') (request_text ''GET'' ''/api/status'' CRLF) = Some out \<and>
     strstr (CRLF @ CRLF) out = Some (CRLF @ CRLF @ render (JObj [(''timestamp'', JInt 7), (''services'', JObj [])]))"
proof -
  obtain d' where d': "daemon_turn (demo_turn []) demo_ready = Some d'"
    using daemon_turn_state[OF demo_ready_inv] by blast
  have w: "web_ready (dm_web demo_ready)" by (simp add: web_ready_def demo_ready_def)
  have t: "snapshot_tree (te_now (demo_turn [])) (turn_collect (demo_turn []) demo_ready) (\<lambda>s. JNull) =
      JObj [(''timestamp'', JInt 7), (''services'', JObj [])]"
    by (simp add: snapshot_tree_def demo_registered) (simp add: demo_turn_def)
  have "length (render (JObj [(''timestamp'', JInt 7), (''services'', JObj [])])) < 256 * 1024"
    by (simp add: key_text_def key_char_def int_str_def nat_str.simps)
  moreover have "length (request_text ''GET'' ''/api/status'' CRLF) < 65536" by (simp add: request_text_def CRLF_def)
  ultimately show ?thesis
    using dashboard_gets_snapshot[OF demo_ready_inv d', of "\<lambda>s. JNull" CRLF] d' w
    unfolding t by (auto simp: snapshots_wf_def snapshots_ok_def demo_registered)
qed

theorem daemon_serves_history_witness:
  "client_get_history (Some (serve [] None (Some (\<lambda>c. Some (get_history_callback (replicate (1024 * 1024) NUL) c demo_ready))))) True False 5 =
     Some (render (history_tree 5 demo_ring))"
proof -
  have "render (history_tree 5 demo_ring) = render (JObj [(''history'', JArr [])])"
    by (simp add: history_tree_def demo_ring_def)
  moreover have "length (render (JObj [(''history'', JArr [])])) < 256 * 1024 - 16" by (simp add: key_text_def key_char_def)
  moreover have "length (replicate (1024 * 1024) NUL) = 1024 * 1024" "rb_capacity demo_ring \<le> 1073741824"
    by (rule length_replicate) (simp add: demo_ring_def)
  ultimately show ?thesis
    using daemon_serves_history[OF demo_ready_inv, of demo_ring 5 "replicate (1024 * 1024) NUL" "[]" None]
    by (simp only: demo_ready_def daemon.simps) simp
qed

theorem snapshot_read_race_witness:
  "client_get_snapshot (Some (serve [] (Some (Some (get_snapshot_callback (demo_ready\<lparr>dm_snapshot :=
     jb_buf (json_object_start (json_init (dm_snapshot demo_ready) SNAPSHOT_SIZE))\<rparr>)))) None)) True False = Some ''{''"
  using snapshot_read_race[OF demo_ready_inv, of "[]" None] by simp

text \<open>A configuration file that sets the capacity of the history.\<close>

definition demo_file :: "string \<Rightarrow> string \<Rightarrow> string option" where
  "demo_file v = (\<lambda>p. Some (ini_text [(''history'', [(''max_snapshots'', v)])]))"

definition demo_store :: "nat \<Rightarrow> (qmem_config, unit) qmem_service" where
  "demo_store = (\<lambda>s. \<lparr>svc_name = ''s'', svc_description = [], svc_init = None, svc_collect = None,
     svc_snapshot = None, svc_destroy = None, svc_enabled = True, svc_collect_count = 0\<rparr>)"

lemma demo_file_args:
  assumes "trimmed v" "LF \<notin> set v" "NUL \<notin> set v" "length v < 100"
  shows "config_parse_args (demo_file v) [(CHR ''c'', ''q.conf''), (CHR ''f'', [])] config_init_defaults =
    Parsed (config_init_defaults\<lparr>max_snapshots := atoi v, foreground := True\<rparr>)"
proof -
  let ?s = "[(''history'', [(''max_snapshots'', v)])]"
  have "\<forall>(sec, kvs) \<in> set ?s. section_ok sec \<and> (\<forall>kv \<in> set kvs. key_line_ok kv)"
    using assms by (simp add: section_ok_def key_line_ok_def) (simp add: trimmed_def isspace_def)
  from config_load_ini_text[OF this, of config_init_defaults] show ?thesis
    by (simp add: config_parse_args_def config_file_of_def demo_file_def config_set_def)
qed

lemma demo_values: "atoi ''3'' = 3" "atoi ''0'' = 0" "atoi ''-1'' = -1" "trimmed ''3''" "trimmed ''0''" "trimmed ''-1''"
  by (simp_all add: atoi_def strtoll_def isspace_def isdigit_def digit_val_def clamp64_def to_int32_def trimmed_def Let_def)

theorem qmemd_runs_and_ends_clean_witness:
  "case qmemd_main True (demo_file ''3'') [(CHR ''c'', ''q.conf''), (CHR ''f'', [])] demo_init [demo_turn [], demo_turn [SIGINT], demo_turn []]
     (daemon_statics demo_store () {} (\<lambda>p. None)) of
   Main_exit c d \<Rightarrow> c = 0 \<and> dm_pids d ''/run/qmem.pid'' = None \<and> \<not> pl_inotify (dm_loader d) | _ \<Rightarrow> False"
proof -
  let ?cfg = "config_init_defaults\<lparr>max_snapshots := 3, foreground := True\<rparr>"
  have a: "config_parse_args (demo_file ''3'') [(CHR ''c'', ''q.conf''), (CHR ''f'', [])] config_init_defaults = Parsed ?cfg"
    using demo_file_args[of "''3''"] demo_values by simp
  have t: "terminates ?cfg (demo_turn [SIGINT])" by (simp add: terminates_def demo_turn_def stops_def)
  have "pidfile ?cfg = ''/run/qmem.pid''" by (simp add: config_init_defaults_def bounded_copy_def)
  moreover have "daemonize demo_init ?cfg = Forked 0" "ie_malloc demo_init" "ie_calloc demo_init"
    "\<forall>s f w. svc_snapshot (demo_store s) = Some f \<longrightarrow> jb_safe (f w)" "0 < max_snapshots ?cfg"
    by (simp_all add: demo_init_def demo_store_def daemonize_def)
  ultimately show ?thesis
    using qmemd_runs_and_ends_clean[where store = demo_store and env = demo_init and es = "[demo_turn [], demo_turn [SIGINT], demo_turn []]"
        and w = "()" and files = "{}" and pids = "\<lambda>p. None", OF _ a] t
    by (auto split: main_result.splits)
qed

theorem qmemd_zero_history_witness:
  "qmemd_main True (demo_file ''0'') [(CHR ''c'', ''q.conf''), (CHR ''f'', [])] demo_init [demo_turn []]
     (daemon_statics demo_store () {} (\<lambda>p. None)) = Main_undefined"
proof -
  have "ie_malloc demo_init" "ie_calloc demo_init" by (simp_all add: demo_init_def)
  then show ?thesis
    using qmemd_zero_history[OF demo_file_args[of "''0''"], of demo_init "demo_turn []" "[]" demo_store "()" "{}" "\<lambda>p. None"]
    by (simp add: demo_values daemonize_def)
qed

theorem failed_start_keeps_pidfile_witness:
  "\<exists>d. qmemd_main True (demo_file ''-1'') [(CHR ''c'', ''q.conf''), (CHR ''f'', [])] demo_init []
     (daemon_statics demo_store () {} (\<lambda>p. None)) = Main_exit 1 d \<and> dm_pids d ''/run/qmem.pid'' \<noteq> None"
proof -
  have "pidfile (config_init_defaults\<lparr>max_snapshots := atoi ''-1'', foreground := True\<rparr>) = ''/run/qmem.pid''"
    by (simp add: config_init_defaults_def bounded_copy_def)
  then show ?thesis
    using failed_start_keeps_pidfile[OF demo_file_args[of "''-1''"], of demo_init "[]" demo_store "()" "{}" "\<lambda>p. None"]
    by (simp add: demo_values daemonize_def) (auto simp: demo_init_def)
qed

end
