(* ===== verification/ProcFields.thy ===== *)
theory ProcFields
  imports ProcUtils Scanf JsonObj
begin

text \<open>
  What the services that read name-value files share: reading such a file line by line, and records whose
  members are set by name. The contract \<open>keyed_record\<close> says that an assignment changes the member of its
  name and no other; inside it, reading the lines of a file leaves in each member the last value the file has for it.
\<close>

section \<open>Records set by name\<close>

definition last_value :: "(string \<times> int) list \<Rightarrow> string \<Rightarrow> int \<Rightarrow> int" where
  "last_value kvs name old = (case map_of (rev kvs) name of None \<Rightarrow> old | Some v \<Rightarrow> v)"

locale keyed_record =
  fixes assign :: "string \<Rightarrow> int \<Rightarrow> 'd \<Rightarrow> 'd" and fields :: "(string \<times> ('d \<Rightarrow> int)) list"
  assumes assign_field: "(name, get) \<in> set fields \<Longrightarrow> get (assign k v d) = (if k = name then v else get d)"
begin

lemma after_lines:
  assumes "(name, get) \<in> set fields"
  shows "get (fold (\<lambda>(k, v). assign k v) kvs d) = last_value kvs name (get d)"
proof (induction kvs rule: rev_induct)
  case (snoc kv kvs)
  obtain k v where "kv = (k, v)" by (cases kv)
  then show ?case using snoc assign_field[OF assms] by (auto simp: last_value_def)
qed (simp add: last_value_def)

end

lemma last_value_distinct: "distinct (map fst kvs) \<Longrightarrow> last_value kvs = (\<lambda>name old. case map_of kvs name of None \<Rightarrow> old | Some v \<Rightarrow> v)"
proof -
  assume d: "distinct (map fst kvs)"
  then have "map_of (rev kvs) = map_of kvs"
    by (intro map_of_eqI[THEN ext, THEN fun_cong] ext) (auto simp: rev_map[symmetric] map_of_eq_None_iff)
  then show ?thesis by (simp add: last_value_def[abs_def])
qed

section \<open>Name-value lines\<close>

text \<open>A name that \<open>proc_parse_kv_kb\<close> returns as it is.\<close>

definition plain_key :: "nat \<Rightarrow> string \<Rightarrow> bool" where
  "plain_key n k \<longleftrightarrow> k \<noteq> [] \<and> length k < n \<and> CHR '':'' \<notin> set k \<and> LF \<notin> set k \<and> NUL \<notin> set k \<and> \<not> isspace (hd k) \<and> \<not> isspace (last k)"

lemma trim_trailing_id: "k \<noteq> [] \<Longrightarrow> \<not> P (last k) \<Longrightarrow> trim_trailing P k = k"
  by (cases k rule: rev_cases) (simp_all add: trim_trailing_def)

lemma dropWhile_hd_id: "k \<noteq> [] \<Longrightarrow> \<not> P (hd k) \<Longrightarrow> dropWhile P k = k"
  by (cases k) simp_all

lemma proc_parse_kv_line:
  assumes "plain_key n k" "plain_num v"
  shows "proc_parse_kv_kb (k @ CHR '':'' # v @ LF # r) n = (strtoll v, Some k)"
  using assms strtoll_line[OF assms(2), of r] strchr_append[of "CHR '':''" k "v @ LF # r"]
  by (simp add: proc_parse_kv_kb_def plain_key_def Let_def trim_trailing_id dropWhile_hd_id)

lemma kv_text_suffixes:
  assumes "kv_ok ((k, v) # kvs)"
  shows "line_suffixes (kv_text ((k, v) # kvs)) = (k @ CHR '':'' # v @ LF # kv_text kvs) # line_suffixes (kv_text kvs)"
proof -
  have "LF \<notin> set (k @ CHR '':'' # v)" using assms by (auto simp: kv_ok_def)
  from line_suffixes_line[OF this, of "kv_text kvs"] show ?thesis by simp
qed

lemma kv_text_no_nul: "kv_ok kvs \<Longrightarrow> NUL \<notin> set (kv_text kvs)"
  by (induction kvs) (auto simp: kv_ok_def)

text \<open>Lines of a word and a number.\<close>

definition wv_text :: "(string \<times> int) list \<Rightarrow> string" where
  "wv_text kvs = concat (map (\<lambda>(k, v). k @ CHR '' '' # int_str v @ [LF]) kvs)"

definition wv_ok :: "nat \<Rightarrow> (string \<times> int) list \<Rightarrow> bool" where
  "wv_ok n kvs \<longleftrightarrow> (\<forall>(k, v) \<in> set kvs. word_ok n k \<and> NUL \<notin> set k \<and> in_int64 v)"

lemma int_str_chars: "c \<in> set (int_str v) \<Longrightarrow> isdigit c \<or> c = CHR ''-''"
  using nat_str_digits by (auto simp: int_str_def split: if_splits)

lemma int_str_no_LF: "LF \<notin> set (int_str v)" "NUL \<notin> set (int_str v)"
  using int_str_chars by (fastforce simp: isdigit_def)+

lemma wv_text_suffixes:
  assumes "wv_ok n ((k, v) # kvs)"
  shows "line_suffixes (wv_text ((k, v) # kvs)) = (k @ CHR '' '' # int_str v @ LF # wv_text kvs) # line_suffixes (wv_text kvs)"
proof -
  have "LF \<notin> set (k @ CHR '' '' # int_str v)" using assms int_str_no_LF by (auto simp: wv_ok_def word_ok_def)
  from line_suffixes_line[OF this, of "wv_text kvs"] show ?thesis by (simp add: wv_text_def)
qed

lemma wv_text_no_nul: "wv_ok n kvs \<Longrightarrow> NUL \<notin> set (wv_text kvs)"
  by (induction kvs) (auto simp: wv_ok_def wv_text_def int_str_no_LF)

lemma sscanf_word_number:
  assumes "word_ok n k" "in_int64 v"
  shows "sscanf [D_str n, D_space, D_num K_long] (k @ CHR '' '' # int_str v @ LF # r) = [SStr k, SNum v]"
proof -
  have "dropWhile isspace (int_str v @ LF # r) = int_str v @ LF # r"
    using dropWhile_space_nat_str[of "nat v"] by (auto simp: int_str_def isspace_def)
  then show ?thesis using assms by (simp add: scan_simps)
qed

end
