(* ===== verification/Heapmon.thy ===== *)
theory Heapmon
  imports Procmem ProcFields "HOL-Library.Product_Lexorder"
begin

text \<open>
  The heap service (\<open>src/services/heapmon.c\<close>): for at most twelve processes that the memory service of the same plugin points out, the sizes
  read from \<open>/proc/<pid>/smaps\<close>, with a baseline kept for the first 48 processes ever seen. The memory service is
  the argument \<open>pm\<close>. \<open>None\<close> as a result is a traversal of its tables that does not end.
\<close>

section \<open>State\<close>

text \<open>The member \<open>rss_kb\<close> of a record is only written and read in the baselines.\<close>

record heap_data =
  hd_pid :: int
  hd_heap_size :: int
  hd_heap_rss :: int
  hd_heap_pd :: int

record heap_init = heap_data +
  hd_rss :: int

text \<open>An entry; the baselines are not set by \<open>heapmon_get_top_consumers\<close>.\<close>

record heap_usage =
  he_pid :: int
  he_cmd :: string
  he_heap_size :: int
  he_heap_rss :: int
  he_heap_pd :: int
  he_rss :: int
  he_rss_delta :: int
  he_heap_rss_delta :: int
  he_heap_pd_delta :: int

record heapmon_entry = heap_usage +
  he_initial_rss :: int
  he_initial_heap_rss :: int

text \<open>\<open>hm_results\<close> is the whole array, of which the first \<open>hm_result_count\<close> entries count.\<close>

record heapmon =
  hm_targets :: "int list"
  hm_current :: "heap_data list"
  hm_previous :: "heap_data list"
  hm_has_previous :: bool
  hm_initial :: "heap_init list"
  hm_results :: "heapmon_entry list"
  hm_result_count :: nat

definition MAX_TARGETS :: nat where "MAX_TARGETS = 12"

definition no_heap_entry :: heapmon_entry where
  "no_heap_entry = \<lparr>he_pid = 0, he_cmd = [], he_heap_size = 0, he_heap_rss = 0, he_heap_pd = 0, he_rss = 0, he_rss_delta = 0,
     he_heap_rss_delta = 0, he_heap_pd_delta = 0, he_initial_rss = 0, he_initial_heap_rss = 0\<rparr>"

definition heapmon_init :: heapmon where
  "heapmon_init = \<lparr>hm_targets = [], hm_current = [], hm_previous = [], hm_has_previous = False, hm_initial = [],
     hm_results = replicate MAX_TARGETS no_heap_entry, hm_result_count = 0\<rparr>"

section \<open>Reading the mappings\<close>

record heap_scan =
  hs_in_heap :: bool
  hs_size :: int
  hs_rss :: int
  hs_pd :: int

text \<open>\<open>line\<close> is the rest of the buffer from the start of a line on, and \<open>strstr\<close> searches all of it.\<close>

definition heap_line :: "string \<Rightarrow> heap_scan \<Rightarrow> heap_scan" where
  "heap_line line a =
     (let n = (of_char (hd line) :: nat);
          a1 = (if (48 \<le> n \<and> n \<le> 57) \<or> (97 \<le> n \<and> n \<le> 102) then a\<lparr>hs_in_heap := strstr ''[heap]'' line \<noteq> None\<rparr> else a)
      in if hs_in_heap a1
         then if starts_with ''Size:'' line then a1\<lparr>hs_size := hs_size a1 + strtoll (drop 5 line)\<rparr>
              else if starts_with ''Rss:'' line then a1\<lparr>hs_rss := hs_rss a1 + strtoll (drop 4 line)\<rparr>
              else if starts_with ''Private_Dirty:'' line then a1\<lparr>hs_pd := hs_pd a1 + strtoll (drop 14 line)\<rparr>
              else a1
         else a1)"

definition parse_heap_smaps :: "proc_fs \<Rightarrow> int \<Rightarrow> (int \<times> int \<times> int) option" where
  "parse_heap_smaps fs pid =
     (case proc_read_file fs (''/proc/'' @ int_str pid @ ''/smaps'') 65536 of
        None \<Rightarrow> None
      | Some buf \<Rightarrow>
          (let a = fold heap_line (line_suffixes (cstr buf)) \<lparr>hs_in_heap = False, hs_size = 0, hs_rss = 0, hs_pd = 0\<rparr>
           in Some (hs_size a, hs_rss a, hs_pd a)))"

section \<open>Collection\<close>

definition find_pid :: "'a heap_data_scheme list \<Rightarrow> int \<Rightarrow> 'a heap_data_scheme option" where
  "find_pid ds pid = List.find (\<lambda>d. hd_pid d = pid) ds"

definition find_or_create_initial :: "heap_init \<Rightarrow> heap_init list \<Rightarrow> heap_init option \<times> heap_init list" where
  "find_or_create_initial new inits =
     (case find_pid inits (hd_pid new) of
        Some i \<Rightarrow> (Some i, inits)
      | None \<Rightarrow> if length inits < MAX_TARGETS * 4 then (Some new, inits @ [new]) else (None, inits))"

text \<open>The growers, then the largest that are not among them.\<close>

fun add_targets :: "int list \<Rightarrow> int list \<Rightarrow> int list" where
  "add_targets ts [] = ts"
| "add_targets ts (p # ps) = add_targets (if p \<notin> set ts \<and> length ts < MAX_TARGETS then ts @ [p] else ts) ps"

definition choose_targets :: "procmem \<Rightarrow> int list option" where
  "choose_targets pm =
     (case (procmem_get_top_growers pm (int (MAX_TARGETS div 2)), procmem_get_top_rss pm (int (MAX_TARGETS div 2))) of
        (Some (_, growers), Some (_, top_rss)) \<Rightarrow> Some (add_targets (map pe_pid growers) (map pe_pid top_rss))
      | _ \<Rightarrow> None)"

definition heap_result :: "string \<Rightarrow> heap_data \<Rightarrow> heap_data option \<Rightarrow> procmem_entry option \<Rightarrow> heap_init option \<Rightarrow> heapmon_entry" where
  "heap_result cmd cur prev info init =
     (let rss = (case info of None \<Rightarrow> 0 | Some pe \<Rightarrow> pe_rss pe)
      in \<lparr>he_pid = hd_pid cur, he_cmd = cmd, he_heap_size = hd_heap_size cur, he_heap_rss = hd_heap_rss cur, he_heap_pd = hd_heap_pd cur,
          he_rss = rss, he_rss_delta = (case info of None \<Rightarrow> 0 | Some pe \<Rightarrow> pe_rss_delta pe),
          he_heap_rss_delta = (case prev of None \<Rightarrow> 0 | Some p \<Rightarrow> hd_heap_rss cur - hd_heap_rss p),
          he_heap_pd_delta = (case prev of None \<Rightarrow> 0 | Some p \<Rightarrow> hd_heap_pd cur - hd_heap_pd p),
          he_initial_rss = (case init of None \<Rightarrow> rss | Some i \<Rightarrow> hd_rss i),
          he_initial_heap_rss = (case init of None \<Rightarrow> hd_heap_rss cur | Some i \<Rightarrow> hd_heap_rss i)\<rparr>)"

text \<open>The body of the loop over the targets; a process that cannot be read is skipped.\<close>

definition scan_target :: "proc_fs \<Rightarrow> procmem \<Rightarrow> int \<Rightarrow> heapmon \<Rightarrow> heapmon option" where
  "scan_target fs pm pid s =
     (case parse_heap_smaps fs pid of
        None \<Rightarrow> Some s
      | Some (size_kb, rss_kb, pd_kb) \<Rightarrow>
          (case procmem_get_pid_info pm pid of
             None \<Rightarrow> None
           | Some info \<Rightarrow>
               (let cur = \<lparr>hd_pid = pid, hd_heap_size = size_kb, hd_heap_rss = rss_kb, hd_heap_pd = pd_kb\<rparr>;
                    k = hm_result_count s;
                    cmd = entry_cmd fs pid (he_cmd (hm_results s ! k));
                    total = (case info of None \<Rightarrow> 0 | Some pe \<Rightarrow> pe_rss pe);
                    (init, inits) = find_or_create_initial
                      \<lparr>hd_pid = pid, hd_heap_size = size_kb, hd_heap_rss = rss_kb, hd_heap_pd = pd_kb, hd_rss = total\<rparr> (hm_initial s)
                in Some (s\<lparr>hm_current := hm_current s @ [cur],
                     hm_results := (hm_results s)[k := heap_result cmd cur (find_pid (hm_previous s) pid) info init],
                     hm_result_count := k + 1, hm_initial := inits\<rparr>))))"

fun scan_targets :: "proc_fs \<Rightarrow> procmem \<Rightarrow> int list \<Rightarrow> heapmon \<Rightarrow> heapmon option" where
  "scan_targets fs pm [] s = Some s"
| "scan_targets fs pm (p # ps) s = (case scan_target fs pm p s of None \<Rightarrow> None | Some s' \<Rightarrow> scan_targets fs pm ps s')"

text \<open>The two nested loops that order the results.\<close>

definition rss_change :: "heapmon_entry \<Rightarrow> int" where
  "rss_change e = he_rss e - he_initial_rss e"

definition sort_swap :: "('a \<Rightarrow> int) \<Rightarrow> nat \<Rightarrow> nat \<Rightarrow> 'a list \<Rightarrow> 'a list" where
  "sort_swap key i j xs = (if key (xs ! j) > key (xs ! i) then xs[i := xs ! j, j := xs ! i] else xs)"

definition exchange_sort :: "('a \<Rightarrow> int) \<Rightarrow> nat \<Rightarrow> 'a list \<Rightarrow> 'a list" where
  "exchange_sort key n xs = fold (\<lambda>i. fold (sort_swap key i) [Suc i..<n]) [0..<n - 1] xs"

definition heapmon_collect :: "proc_fs \<Rightarrow> procmem \<Rightarrow> heapmon \<Rightarrow> heapmon option" where
  "heapmon_collect fs pm s =
     (case choose_targets pm of
        None \<Rightarrow> None
      | Some ts \<Rightarrow>
          (case scan_targets fs pm ts (s\<lparr>hm_previous := hm_current s, hm_targets := ts, hm_current := [], hm_result_count := 0\<rparr>) of
             None \<Rightarrow> None
           | Some s' \<Rightarrow> Some (s'\<lparr>hm_results := exchange_sort rss_change (hm_result_count s') (hm_results s'),
               hm_targets := [], hm_has_previous := True\<rparr>)))"

section \<open>Results\<close>

definition heap_obj :: "heapmon_entry \<Rightarrow> json_builder \<Rightarrow> json_builder" where
  "heap_obj e = jobj [json_kv_int ''pid'' (he_pid e), json_kv_string ''cmd'' (Some (he_cmd e)), json_kv_int ''rss_kb'' (he_rss e),
     json_kv_int ''rss_delta_kb'' (he_rss_delta e), json_kv_int ''initial_rss_kb'' (he_initial_rss e),
     json_kv_int ''heap_size_kb'' (he_heap_size e), json_kv_int ''heap_rss_kb'' (he_heap_rss e),
     json_kv_int ''initial_heap_rss_kb'' (he_initial_heap_rss e), json_kv_int ''heap_pd_kb'' (he_heap_pd e),
     json_kv_int ''heap_rss_delta_kb'' (he_heap_rss_delta e), json_kv_int ''heap_pd_delta_kb'' (he_heap_pd_delta e)]"

definition heap_entries :: "heapmon \<Rightarrow> heapmon_entry list" where
  "heap_entries s = take (hm_result_count s) (hm_results s)"

definition heapmon_snapshot :: "heapmon \<Rightarrow> json_builder \<Rightarrow> json_builder" where
  "heapmon_snapshot s = jobj [jkey ''heap_entries'' (jarr [fold heap_obj (heap_entries s)])]"

text \<open>A negative count is a negative length for \<open>memcpy\<close>.\<close>

definition heapmon_set_targets :: "int list \<Rightarrow> int \<Rightarrow> heapmon \<Rightarrow> heapmon option" where
  "heapmon_set_targets pids cnt s =
     (let n = (if cnt > int MAX_TARGETS then int MAX_TARGETS else cnt)
      in if n < 0 then None else Some (s\<lparr>hm_targets := take (nat n) pids\<rparr>))"

definition compare_heap_consumers :: "heap_usage \<Rightarrow> heap_usage \<Rightarrow> int" where
  "compare_heap_consumers a b =
     (if he_heap_rss b > he_heap_rss a then 1 else if he_heap_rss b < he_heap_rss a then -1
      else if he_rss b > he_rss a then 1 else if he_rss b < he_rss a then -1 else 0)"

definition heap_consumer :: "procmem \<Rightarrow> heapmon \<Rightarrow> heap_data \<Rightarrow> heap_usage option" where
  "heap_consumer pm s cur =
     (case procmem_get_pid_info pm (hd_pid cur) of
        None \<Rightarrow> None
      | Some info \<Rightarrow>
          (let prev = find_pid (hm_previous s) (hd_pid cur)
           in Some \<lparr>he_pid = hd_pid cur,
               he_cmd = (case info of None \<Rightarrow> ''(unknown)'' | Some pe \<Rightarrow> bounded_copy 128 (pe_cmd pe)),
               he_heap_size = hd_heap_size cur, he_heap_rss = hd_heap_rss cur, he_heap_pd = hd_heap_pd cur,
               he_rss = (case info of None \<Rightarrow> hd_heap_rss cur | Some pe \<Rightarrow> pe_rss pe),
               he_rss_delta = (case (prev, info) of (Some p, Some pe) \<Rightarrow> pe_rss_delta pe | _ \<Rightarrow> 0),
               he_heap_rss_delta = (case prev of None \<Rightarrow> 0 | Some p \<Rightarrow> hd_heap_rss cur - hd_heap_rss p),
               he_heap_pd_delta = (case prev of None \<Rightarrow> 0 | Some p \<Rightarrow> hd_heap_pd cur - hd_heap_pd p)\<rparr>))"

fun heap_consumers :: "procmem \<Rightarrow> heapmon \<Rightarrow> heap_data list \<Rightarrow> heap_usage list option" where
  "heap_consumers pm s [] = Some []"
| "heap_consumers pm s (c # cs) =
     (case heap_consumer pm s c of None \<Rightarrow> None
      | Some e \<Rightarrow> (case heap_consumers pm s cs of None \<Rightarrow> None | Some es \<Rightarrow> Some (e # es)))"

definition heapmon_get_top_consumers :: "procmem \<Rightarrow> heapmon \<Rightarrow> int \<Rightarrow> (int \<times> heap_usage list) option" where
  "heapmon_get_top_consumers pm s max_entries =
     (case heap_consumers pm s (hm_current s) of
        None \<Rightarrow> None
      | Some all_entries \<Rightarrow> copy_top (c_qsort compare_heap_consumers all_entries) max_entries)"

definition heapmon_get_entries :: "heapmon \<Rightarrow> int \<Rightarrow> (int \<times> heapmon_entry list) option" where
  "heapmon_get_entries s max_entries = copy_top (heap_entries s) max_entries"

section \<open>The exchange sort\<close>

lemma sort_swap_mset: "i < length xs \<Longrightarrow> j < length xs \<Longrightarrow> mset (sort_swap key i j xs) = mset xs"
  using mset_swap[of j xs i] by (auto simp: sort_swap_def list_update_swap)

lemma sort_swap_length [simp]: "length (sort_swap key i j xs) = length xs"
  by (simp add: sort_swap_def)

text \<open>The first \<open>i\<close> are in order and no later one is larger; among the rest, \<open>i\<close> is the largest up to \<open>j\<close>.\<close>

definition ordered_upto :: "('a \<Rightarrow> int) \<Rightarrow> nat \<Rightarrow> nat \<Rightarrow> 'a list \<Rightarrow> bool" where
  "ordered_upto key n i xs \<longleftrightarrow> (\<forall>a b. a < i \<longrightarrow> a < b \<longrightarrow> b < n \<longrightarrow> key (xs ! b) \<le> key (xs ! a))"

definition largest_upto :: "('a \<Rightarrow> int) \<Rightarrow> nat \<Rightarrow> nat \<Rightarrow> 'a list \<Rightarrow> bool" where
  "largest_upto key i j xs \<longleftrightarrow> (\<forall>b. i < b \<longrightarrow> b < j \<longrightarrow> key (xs ! b) \<le> key (xs ! i))"

definition same_rest :: "nat \<Rightarrow> 'a list \<Rightarrow> 'a list \<Rightarrow> bool" where
  "same_rest n xs ys \<longleftrightarrow> length ys = length xs \<and> mset (take n ys) = mset (take n xs) \<and> drop n ys = drop n xs"

lemma sort_swap_rest: "i < j \<Longrightarrow> j < n \<Longrightarrow> n \<le> length xs \<Longrightarrow> same_rest n xs (sort_swap key i j xs)"
proof -
  assume l: "i < j" "j < n" "n \<le> length xs"
  have "take n (sort_swap key i j xs) = sort_swap key i j (take n xs)"
    using l by (simp add: sort_swap_def take_update_swap)
  then show ?thesis using l sort_swap_mset[of i "take n xs" j key] by (simp add: same_rest_def) (simp add: sort_swap_def)
qed

lemma sort_swap_step:
  assumes "i < j" "j < n" "n \<le> length xs" "ordered_upto key n i xs" "largest_upto key i j xs"
  shows "ordered_upto key n i (sort_swap key i j xs) \<and> largest_upto key i (Suc j) (sort_swap key i j xs)"
proof -
  have "key (xs ! j) \<le> key (xs ! a)" "key (xs ! i) \<le> key (xs ! a)" if "a < i" for a
    using assms(1,2,4) that unfolding ordered_upto_def by (meson order.strict_trans)+
  then show ?thesis using assms
    by (auto simp: sort_swap_def ordered_upto_def largest_upto_def nth_list_update less_Suc_eq) (force+)?
qed

lemma inner_loop:
  assumes "j \<le> n" "n \<le> length xs" "ordered_upto key n i xs" "i < j"
  shows "ordered_upto key n i (fold (sort_swap key i) [Suc i..<j] xs) \<and> largest_upto key i j (fold (sort_swap key i) [Suc i..<j] xs) \<and>
    same_rest n xs (fold (sort_swap key i) [Suc i..<j] xs)"
  using assms
proof (induction j)
  case (Suc j)
  show ?case
  proof (cases "i = j")
    case True
    then show ?thesis using Suc.prems by (simp add: largest_upto_def same_rest_def)
  next
    case False
    let ?ys = "fold (sort_swap key i) [Suc i..<j] xs"
    have ij: "i < j" using False Suc.prems by simp
    then have IH: "ordered_upto key n i ?ys" "largest_upto key i j ?ys" "same_rest n xs ?ys" using Suc by simp_all
    then have "n \<le> length ?ys" using Suc.prems by (simp add: same_rest_def)
    then show ?thesis
      using sort_swap_step[of i j n ?ys key] sort_swap_rest[of i j n ?ys key] IH ij Suc.prems
      by (simp add: same_rest_def Suc_le_eq)
  qed
qed simp

lemma outer_loop:
  assumes "n \<le> length xs" "m \<le> n - 1"
  shows "ordered_upto key n m (fold (\<lambda>i. fold (sort_swap key i) [Suc i..<n]) [0..<m] xs) \<and>
    same_rest n xs (fold (\<lambda>i. fold (sort_swap key i) [Suc i..<n]) [0..<m] xs)"
  using assms(2)
proof (induction m)
  case (Suc m)
  let ?ys = "fold (\<lambda>i. fold (sort_swap key i) [Suc i..<n]) [0..<m] xs"
  let ?zs = "fold (sort_swap key m) [Suc m..<n] ?ys"
  have IH: "ordered_upto key n m ?ys" "same_rest n xs ?ys" using Suc by simp_all
  then have "ordered_upto key n m ?zs \<and> largest_upto key m n ?zs \<and> same_rest n ?ys ?zs"
    using inner_loop[of n n ?ys key m] Suc.prems assms(1) by (simp add: same_rest_def)
  then show ?case using IH by (auto simp: ordered_upto_def largest_upto_def same_rest_def less_Suc_eq)
qed (simp add: ordered_upto_def same_rest_def)

lemma exchange_sort_sorts:
  assumes "n \<le> length xs"
  shows "length (exchange_sort key n xs) = length xs" "mset (take n (exchange_sort key n xs)) = mset (take n xs)"
    "drop n (exchange_sort key n xs) = drop n xs" "sorted_wrt (\<lambda>a b. key b \<le> key a) (take n (exchange_sort key n xs))"
proof -
  let ?ys = "exchange_sort key n xs"
  have o: "ordered_upto key n (n - 1) ?ys" "same_rest n xs ?ys"
    using outer_loop[OF assms, of "n - 1" key] by (simp_all add: exchange_sort_def)
  then show "length ?ys = length xs" "mset (take n ?ys) = mset (take n xs)" "drop n ?ys = drop n xs" by (simp_all add: same_rest_def)
  then show "sorted_wrt (\<lambda>a b. key b \<le> key a) (take n ?ys)"
    using o(1) assms by (auto simp: sorted_wrt_iff_nth_less ordered_upto_def)
qed

section \<open>Which mappings are counted\<close>

record mapping =
  mp_header :: string
  mp_fields :: "(string \<times> string) list"

definition is_heap :: "mapping \<Rightarrow> bool" where
  "is_heap m \<longleftrightarrow> sublist ''[heap]'' (mp_header m)"

definition hex_start :: "string \<Rightarrow> bool" where
  "hex_start l \<longleftrightarrow> (let n = (of_char (hd l) :: nat) in (48 \<le> n \<and> n \<le> 57) \<or> (97 \<le> n \<and> n \<le> 102))"

definition mapping_ok :: "mapping \<Rightarrow> bool" where
  "mapping_ok m \<longleftrightarrow> mp_header m \<noteq> [] \<and> hex_start (mp_header m) \<and> LF \<notin> set (mp_header m) \<and> NUL \<notin> set (mp_header m) \<and>
     kv_ok (mp_fields m) \<and> (\<forall>(k, v) \<in> set (mp_fields m). k \<noteq> [] \<and> \<not> hex_start k \<and> plain_num v \<and> \<not> sublist ''[heap]'' (k @ CHR '':'' # v))"

definition smaps_text :: "mapping list \<Rightarrow> string" where
  "smaps_text ms = concat (map (\<lambda>m. mp_header m @ LF # kv_text (mp_fields m)) ms)"

definition field_sum :: "string \<Rightarrow> (string \<times> string) list \<Rightarrow> int" where
  "field_sum name kvs = sum_list (map (\<lambda>(k, v). if k = name then strtoll v else 0) kvs)"

text \<open>All mappings up to the last one of the heap.\<close>

definition counted :: "mapping list \<Rightarrow> mapping list" where
  "counted ms = rev (dropWhile (\<lambda>m. \<not> is_heap m) (rev ms))"

lemma counted_Cons: "counted (m # ms) = (if \<exists>x \<in> set (m # ms). is_heap x then m # counted ms else [])"
  by (auto simp: counted_def dropWhile_append)

lemma counted_none: "\<forall>x \<in> set ms. \<not> is_heap x \<Longrightarrow> counted ms = []"
  by (simp add: counted_def)

lemma sublist_line: "sublist ''[heap]'' (a @ LF # b) \<longleftrightarrow> sublist ''[heap]'' a \<or> sublist ''[heap]'' b"
proof -
  have "\<not> prefix q (LF # b)" if "''[heap]'' = p @ q" "q \<noteq> []" for p q
  proof
    assume "prefix q (LF # b)"
    then have "LF \<in> set q" using that(2) by (cases q) auto
    then have "LF \<in> set ''[heap]''" using that(1) by (metis Un_iff set_append)
    then show False by simp
  qed
  then have "sublist ''[heap]'' a" if "''[heap]'' = p @ q" "suffix p a" "prefix q (LF # b)" for p q
    using that by (cases "q = []") (auto intro: suffix_imp_sublist)
  moreover have "sublist ''[heap]'' (LF # b) \<longleftrightarrow> sublist ''[heap]'' b" by (simp add: sublist_Cons_right)
  ultimately show ?thesis unfolding sublist_append by blast
qed

lemma sublist_fields:
  "\<forall>(k, v) \<in> set kvs. \<not> sublist ''[heap]'' (k @ CHR '':'' # v) \<Longrightarrow> sublist ''[heap]'' (kv_text kvs @ r) \<longleftrightarrow> sublist ''[heap]'' r"
proof (induction kvs)
  case (Cons kv kvs)
  then show ?case using sublist_line[of "fst kv @ CHR '':'' # snd kv" "kv_text kvs @ r"] by (cases kv) auto
qed simp

lemma sublist_smaps: "\<forall>m \<in> set ms. mapping_ok m \<Longrightarrow> sublist ''[heap]'' (smaps_text ms) \<longleftrightarrow> (\<exists>m \<in> set ms. is_heap m)"
proof (induction ms)
  case (Cons m ms)
  have "\<forall>(k, v) \<in> set (mp_fields m). \<not> sublist ''[heap]'' (k @ CHR '':'' # v)" using Cons.prems by (auto simp: mapping_ok_def)
  from sublist_fields[OF this, of "smaps_text ms"] show ?case
    using Cons sublist_line[of "mp_header m" "kv_text (mp_fields m) @ smaps_text ms"] by (simp add: smaps_text_def is_heap_def)
qed (simp add: smaps_text_def)

definition add_fields :: "(string \<times> string) list \<Rightarrow> heap_scan \<Rightarrow> heap_scan" where
  "add_fields kvs a =
     (if hs_in_heap a then \<lparr>hs_in_heap = True, hs_size = hs_size a + field_sum ''Size'' kvs, hs_rss = hs_rss a + field_sum ''Rss'' kvs,
        hs_pd = hs_pd a + field_sum ''Private_Dirty'' kvs\<rparr> else a)"

lemma heap_field_line:
  assumes "k \<noteq> []" "\<not> hex_start k" "plain_num v" "CHR '':'' \<notin> set k"
  shows "heap_line (k @ CHR '':'' # v @ LF # r) a = add_fields [(k, v)] a"
proof -
  have n: "\<not> (let n = (of_char (hd (k @ CHR '':'' # v @ LF # r)) :: nat) in (48 \<le> n \<and> n \<le> 57) \<or> (97 \<le> n \<and> n \<le> 102))"
    using assms(1,2) by (simp add: hex_start_def)
  have s: "starts_with ''Size:'' (k @ CHR '':'' # v @ LF # r) \<longleftrightarrow> ''Size'' = k" "starts_with ''Rss:'' (k @ CHR '':'' # v @ LF # r) \<longleftrightarrow> ''Rss'' = k"
    "starts_with ''Private_Dirty:'' (k @ CHR '':'' # v @ LF # r) \<longleftrightarrow> ''Private_Dirty'' = k"
    using starts_with_key[OF assms(4), of "''Size''" "v @ LF # r"] starts_with_key[OF assms(4), of "''Rss''" "v @ LF # r"]
      starts_with_key[OF assms(4), of "''Private_Dirty''" "v @ LF # r"] by simp_all
  show ?thesis
    using n strtoll_line[OF assms(3), of r]
    by (cases "hs_in_heap a") (auto simp: heap_line_def s Let_def add_fields_def field_sum_def)
qed

lemma heap_fields:
  assumes "kv_ok kvs" "\<forall>(k, v) \<in> set kvs. k \<noteq> [] \<and> \<not> hex_start k \<and> plain_num v"
  shows "fold heap_line (line_suffixes (kv_text kvs @ r)) a = fold heap_line (line_suffixes r) (add_fields kvs a)"
  using assms
proof (induction kvs arbitrary: a)
  case (Cons kv kvs)
  obtain k v where kv: "kv = (k, v)" by (cases kv)
  have k: "LF \<notin> set (k @ CHR '':'' # v)" "k \<noteq> []" "\<not> hex_start k" "plain_num v" "CHR '':'' \<notin> set k" "kv_ok kvs"
    using Cons.prems by (auto simp: kv kv_ok_def)
  have l: "line_suffixes (kv_text (kv # kvs) @ r) = (k @ CHR '':'' # v @ LF # kv_text kvs @ r) # line_suffixes (kv_text kvs @ r)"
    using line_suffixes_line[OF k(1), of "kv_text kvs @ r"] by (simp add: kv)
  have "add_fields kvs (add_fields [(k, v)] a) = add_fields (kv # kvs) a" by (simp add: add_fields_def field_sum_def kv)
  then show ?case using Cons.IH[OF k(6), of "add_fields [(k, v)] a"] Cons.prems(2) heap_field_line[OF k(2-5), of "kv_text kvs @ r" a]
    by (simp add: l)
next
  case Nil
  have "add_fields [] a = a" by (cases a) (simp add: add_fields_def field_sum_def)
  then show ?case by simp
qed

definition mappings_sum :: "string \<Rightarrow> mapping list \<Rightarrow> int" where
  "mappings_sum name ms = sum_list (map (\<lambda>m. field_sum name (mp_fields m)) ms)"

lemma heap_mappings:
  assumes "\<forall>m \<in> set ms. mapping_ok m"
  shows "\<exists>b. fold heap_line (line_suffixes (smaps_text ms)) a =
    \<lparr>hs_in_heap = b, hs_size = hs_size a + mappings_sum ''Size'' (counted ms), hs_rss = hs_rss a + mappings_sum ''Rss'' (counted ms),
     hs_pd = hs_pd a + mappings_sum ''Private_Dirty'' (counted ms)\<rparr>"
  using assms
proof (induction ms arbitrary: a)
  case Nil
  show ?case by (intro exI[of _ "hs_in_heap a"]) (simp add: smaps_text_def counted_def mappings_sum_def)
next
  case (Cons m ms)
  let ?r = "kv_text (mp_fields m) @ smaps_text ms" and ?h = "\<exists>x \<in> set (m # ms). is_heap x"
  have m: "mp_header m \<noteq> []" "hex_start (mp_header m)" "LF \<notin> set (mp_header m)" "kv_ok (mp_fields m)"
    "\<forall>(k, v) \<in> set (mp_fields m). k \<noteq> [] \<and> \<not> hex_start k \<and> plain_num v"
    using Cons.prems by (auto simp: mapping_ok_def)
  have t: "smaps_text (m # ms) = mp_header m @ LF # ?r" by (simp add: smaps_text_def)
  have hd: "hex_start (mp_header m @ LF # ?r)" using m(1,2) by (simp add: hex_start_def)
  have "\<not> starts_with ''Size:'' (mp_header m @ LF # ?r)" "\<not> starts_with ''Rss:'' (mp_header m @ LF # ?r)"
    "\<not> starts_with ''Private_Dirty:'' (mp_header m @ LF # ?r)"
    using m(1,2) by (cases "mp_header m"; auto simp: hex_start_def Let_def)+
  moreover have "strstr ''[heap]'' (mp_header m @ LF # ?r) \<noteq> None \<longleftrightarrow> ?h"
    using sublist_smaps[OF Cons.prems] by (simp add: strstr_None t)
  ultimately have "heap_line (mp_header m @ LF # ?r) a = a\<lparr>hs_in_heap := ?h\<rparr>"
    using hd unfolding hex_start_def heap_line_def Let_def by simp
  then have f: "fold heap_line (line_suffixes (smaps_text (m # ms))) a =
      fold heap_line (line_suffixes (smaps_text ms)) (add_fields (mp_fields m) (a\<lparr>hs_in_heap := ?h\<rparr>))"
    using heap_fields[OF m(4,5), of "smaps_text ms"] by (simp add: t line_suffixes_line[OF m(3)])
  have "\<forall>x \<in> set ms. mapping_ok x" using Cons.prems by simp
  from Cons.IH[OF this, of "add_fields (mp_fields m) (a\<lparr>hs_in_heap := ?h\<rparr>)"] show ?case
    unfolding f counted_Cons
    by (cases ?h) (auto simp: add_fields_def mappings_sum_def counted_none)
qed

lemma parse_heap_smaps_counted:
  assumes "fs (''/proc/'' @ int_str pid @ ''/smaps'') = Some (smaps_text ms, evs)" "Eio \<notin> set evs"
    and "length (smaps_text ms) < 65536" "\<forall>m \<in> set ms. mapping_ok m"
  shows "parse_heap_smaps fs pid = Some (mappings_sum ''Size'' (counted ms), mappings_sum ''Rss'' (counted ms),
    mappings_sum ''Private_Dirty'' (counted ms))"
proof -
  have "proc_read_file fs (''/proc/'' @ int_str pid @ ''/smaps'') 65536 = Some (smaps_text ms)"
    using proc_read_file_take[of fs _ "smaps_text ms" evs 65536, OF assms(1,2)] assms(3) by simp
  moreover have "NUL \<notin> set (smaps_text ms)"
    using assms(4) kv_text_no_nul by (auto simp: smaps_text_def mapping_ok_def)
  moreover obtain b where "fold heap_line (line_suffixes (smaps_text ms)) \<lparr>hs_in_heap = False, hs_size = 0, hs_rss = 0, hs_pd = 0\<rparr> =
    \<lparr>hs_in_heap = b, hs_size = mappings_sum ''Size'' (counted ms), hs_rss = mappings_sum ''Rss'' (counted ms),
     hs_pd = mappings_sum ''Private_Dirty'' (counted ms)\<rparr>"
    using heap_mappings[OF assms(4), of "\<lparr>hs_in_heap = False, hs_size = 0, hs_rss = 0, hs_pd = 0\<rparr>"] by auto
  ultimately show ?thesis by (simp add: parse_heap_smaps_def)
qed

lemma counted_split: "is_heap h \<Longrightarrow> \<forall>m \<in> set post. \<not> is_heap m \<Longrightarrow> counted (pre @ h # post) = pre @ [h]"
  by (simp add: counted_def dropWhile_append3)

text \<open>
  Also (which mappings count as heap). In a readable file with one heap mapping, the sizes reported for the heap are the sums over all mappings up to and
  including it: the search for the name of a mapping is not limited to its line, so every mapping before the heap,
  those of the program's own file for example, counts as heap.
\<close>

theorem heap_counts_preceding:
  assumes "fs (''/proc/'' @ int_str pid @ ''/smaps'') = Some (smaps_text (pre @ h # post), evs)" "Eio \<notin> set evs"
    and "length (smaps_text (pre @ h # post)) < 65536" "\<forall>m \<in> set (pre @ h # post). mapping_ok m"
    and "is_heap h" "\<forall>m \<in> set (pre @ post). \<not> is_heap m"
  shows "parse_heap_smaps fs pid = Some (mappings_sum ''Size'' (pre @ [h]), mappings_sum ''Rss'' (pre @ [h]),
    mappings_sum ''Private_Dirty'' (pre @ [h]))"
  using parse_heap_smaps_counted[of fs pid "pre @ h # post" evs] counted_split[of h post pre] assms by simp

definition demo_smaps :: "mapping list" where
  "demo_smaps = [\<lparr>mp_header = ''55a0-55b0 r-xp /bin/sh'', mp_fields = [(''Size'', ''100 kB''), (''Rss'', ''90 kB'')]\<rparr>,
     \<lparr>mp_header = ''55c0-55d0 rw-p [heap]'', mp_fields = [(''Size'', ''8 kB''), (''Rss'', ''4 kB''), (''Private_Dirty'', ''4 kB'')]\<rparr>]"

lemma demo_smaps_ok: "\<forall>m \<in> set demo_smaps. mapping_ok m"
  by code_simp

theorem heap_counts_preceding_witness:
  "parse_heap_smaps [''/proc/7/smaps'' \<mapsto> (smaps_text demo_smaps, [])] 7 = Some (108, 94, 4)"
proof -
  have d: "demo_smaps = [demo_smaps ! 0] @ demo_smaps ! 1 # []" by (simp add: demo_smaps_def)
  have p: "''/proc/'' @ int_str 7 @ ''/smaps'' = ''/proc/7/smaps''" by (simp add: int_str_def nat_str.simps)
  have h: "is_heap (demo_smaps ! 1)" "\<forall>m \<in> set ([demo_smaps ! 0] @ []). \<not> is_heap m" by code_simp+
  have "length (smaps_text demo_smaps) < 200" by code_simp
  then have l: "length (smaps_text demo_smaps) < 65536" by simp
  have v: "mappings_sum ''Size'' demo_smaps = 108" "mappings_sum ''Rss'' demo_smaps = 94" "mappings_sum ''Private_Dirty'' demo_smaps = 4"
    by code_simp+
  have "parse_heap_smaps [''/proc/7/smaps'' \<mapsto> (smaps_text demo_smaps, [])] 7 =
    Some (mappings_sum ''Size'' ([demo_smaps ! 0] @ [demo_smaps ! 1]), mappings_sum ''Rss'' ([demo_smaps ! 0] @ [demo_smaps ! 1]),
      mappings_sum ''Private_Dirty'' ([demo_smaps ! 0] @ [demo_smaps ! 1]))"
    by (rule heap_counts_preceding[where post = "[]" and evs = "[]"]) (use d p h l demo_smaps_ok in simp_all)
  then show ?thesis using d v by simp
qed

section \<open>Collections\<close>

text \<open>Two lists of the same elements, both in the order of a key, agree on the key.\<close>

lemma same_keys:
  fixes key :: "'a \<Rightarrow> int"
  assumes "mset xs = mset ys" "sorted_wrt (\<lambda>a b. key b \<le> key a) xs" "sorted_wrt (\<lambda>a b. key b \<le> key a) ys"
  shows "map key xs = map key ys"
proof -
  have s: "sorted (map key (rev zs))" if "sorted_wrt (\<lambda>a b. key b \<le> key a) zs" for zs
    using that by (simp add: rev_map[symmetric] sorted_wrt_rev sorted_wrt_map)
  have "mset (map key (rev xs)) = mset (map key (rev ys))" using assms(1) by simp
  then have "map key (rev xs) = map key (rev ys)"
    using s[OF assms(2)] s[OF assms(3)] by (metis properties_for_sort)
  then show ?thesis by (simp add: rev_map[symmetric])
qed

text \<open>
  C36 (the hand-written sort). The two nested loops order the first entries as \<open>qsort\<close> with a comparison by decreasing change would: the same
  entries, with the same sequence of changes, and nothing behind them is touched.
\<close>

theorem exchange_sort_as_qsort:
  assumes "n \<le> length xs"
  shows "mset (take n (exchange_sort key n xs)) = mset (c_qsort (cmp_desc key) (take n xs)) \<and>
    map key (take n (exchange_sort key n xs)) = map key (c_qsort (cmp_desc key) (take n xs)) \<and>
    drop n (exchange_sort key n xs) = drop n xs"
proof -
  have "sorted_wrt (\<lambda>a b. key b \<le> key a) (c_qsort (cmp_desc key) (take n xs))" by (rule desc.ordered)
  with exchange_sort_sorts[OF assms, of key] show ?thesis
    by (intro conjI same_keys) simp_all
qed

theorem exchange_sort_as_qsort_witness:
  "map nat (take 2 (exchange_sort id 2 [3, 5, 9])) = [5, 3]"
  using exchange_sort_as_qsort[of 2 "[3, 5, 9]" id] by (simp add: c_qsort_def cmp_desc_def)

definition heapmon_inv :: "heapmon \<Rightarrow> bool" where
  "heapmon_inv s \<longleftrightarrow> length (hm_results s) = 12 \<and> hm_result_count s = length (hm_current s) \<and> hm_result_count s \<le> 12 \<and>
     length (hm_initial s) \<le> 48 \<and> distinct (map hd_pid (hm_initial s))"

lemma heapmon_inv_init: "heapmon_inv heapmon_init"
  by (simp add: heapmon_inv_def heapmon_init_def MAX_TARGETS_def)

lemma pid_info_returns: "procmem_inv pm \<Longrightarrow> \<exists>i. procmem_get_pid_info pm pid = Some i"
  using find_in_hash_returns[of "pm_tab pm" PM_HASH "pt_cur (pm_tab pm)" pid] find_in_hash_returns[of "pm_tab pm" PM_HASH "pt_prev (pm_tab pm)" pid]
  by (auto simp: procmem_inv_def procmem_get_pid_info_def Let_def split: option.splits)

lemma baseline_grows:
  assumes "find_or_create_initial new inits = (i, inits')" "length inits \<le> 48" "distinct (map hd_pid inits)"
  shows "prefix inits inits' \<and> length inits' \<le> 48 \<and> distinct (map hd_pid inits')"
proof (cases "find_pid inits (hd_pid new)")
  case None
  then have "hd_pid new \<notin> set (map hd_pid inits)" by (auto simp: find_pid_def find_None_iff)
  then show ?thesis using assms None by (auto simp: find_or_create_initial_def MAX_TARGETS_def split: if_splits)
qed (use assms in \<open>auto simp: find_or_create_initial_def\<close>)

lemma add_targets_length: "length ts \<le> 12 \<Longrightarrow> length (add_targets ts ps) \<le> 12"
  by (induction ts ps rule: add_targets.induct) (simp_all add: MAX_TARGETS_def)

lemma add_targets_set: "set (add_targets ts ps) \<subseteq> set ts \<union> set ps"
  by (induction ts ps rule: add_targets.induct) (auto split: if_splits)

lemma choose_targets_ok:
  "choose_targets pm = Some (add_targets (map pe_pid (take 6 (pm_growers pm))) (map pe_pid (take 6 (pm_top_rss pm))))"
  by (simp add: choose_targets_def procmem_get_top_growers_def procmem_get_top_rss_def MAX_TARGETS_def copy_top_def Let_def)

text \<open>The state within a collection: after \<open>k\<close> targets at most \<open>k\<close> results.\<close>

lemma scan_targets_ok:
  assumes "procmem_inv pm" "heapmon_inv s" "hm_result_count s + length ts \<le> 12"
  shows "\<exists>s'. scan_targets fs pm ts s = Some s' \<and> heapmon_inv s' \<and> prefix (hm_initial s) (hm_initial s') \<and>
    set (map hd_pid (hm_current s')) \<subseteq> set (map hd_pid (hm_current s)) \<union> set ts"
  using assms(2,3)
proof (induction ts arbitrary: s)
  case (Cons p ps)
  have "\<exists>s1. scan_target fs pm p s = Some s1 \<and> heapmon_inv s1 \<and> hm_result_count s1 \<le> Suc (hm_result_count s) \<and>
      prefix (hm_initial s) (hm_initial s1) \<and> set (map hd_pid (hm_current s1)) \<subseteq> insert p (set (map hd_pid (hm_current s)))"
  proof (cases "parse_heap_smaps fs p")
    case None
    then show ?thesis using Cons.prems by (auto simp: scan_target_def)
  next
    case (Some v)
    obtain a b c where v: "v = (a, b, c)" by (cases v)
    obtain i where i: "procmem_get_pid_info pm p = Some i" using pid_info_returns[OF assms(1)] by blast
    let ?new = "\<lparr>hd_pid = p, hd_heap_size = a, hd_heap_rss = b, hd_heap_pd = c, hd_rss = (case i of None \<Rightarrow> 0 | Some pe \<Rightarrow> pe_rss pe)\<rparr>"
    obtain j inits where f: "find_or_create_initial ?new (hm_initial s) = (j, inits)" by fastforce
    have "prefix (hm_initial s) inits \<and> length inits \<le> 48 \<and> distinct (map hd_pid inits)"
      using baseline_grows[OF f] Cons.prems by (simp add: heapmon_inv_def)
    then show ?thesis using Cons.prems by (simp add: scan_target_def Some v i f heapmon_inv_def Let_def)
  qed
  then obtain s1 where s1: "scan_target fs pm p s = Some s1" "heapmon_inv s1" "hm_result_count s1 \<le> Suc (hm_result_count s)"
    "prefix (hm_initial s) (hm_initial s1)" "set (map hd_pid (hm_current s1)) \<subseteq> insert p (set (map hd_pid (hm_current s)))"
    by blast
  then have "hm_result_count s1 + length ps \<le> 12" using Cons.prems by simp
  from Cons.IH[OF s1(2) this] obtain s2 where s2: "scan_targets fs pm ps s1 = Some s2" "heapmon_inv s2" "prefix (hm_initial s1) (hm_initial s2)"
    "set (map hd_pid (hm_current s2)) \<subseteq> set (map hd_pid (hm_current s1)) \<union> set ps" by blast
  have "set (map hd_pid (hm_current s2)) \<subseteq> set (map hd_pid (hm_current s)) \<union> set (p # ps)" using s1(5) s2(4) unfolding list.set(2) by blast
  moreover have "scan_targets fs pm (p # ps) s = Some s2" using s1(1) s2(1) by simp
  ultimately show ?case using s2(2) prefix_order.trans[OF s1(4) s2(3)] by blast
qed simp

lemma heapmon_collect_step:
  assumes "procmem_inv pm" "heapmon_inv s"
  shows "\<exists>s'. heapmon_collect fs pm s = Some s' \<and> heapmon_inv s' \<and> length (heap_entries s') \<le> 12 \<and>
    set (map hd_pid (hm_current s')) \<subseteq> pe_pid ` set (take 6 (pm_growers pm) @ take 6 (pm_top_rss pm)) \<and>
    sorted_wrt (\<lambda>a b. rss_change b \<le> rss_change a) (heap_entries s') \<and> prefix (hm_initial s) (hm_initial s')"
proof -
  let ?ts = "add_targets (map pe_pid (take 6 (pm_growers pm))) (map pe_pid (take 6 (pm_top_rss pm)))"
  let ?s0 = "s\<lparr>hm_previous := hm_current s, hm_targets := ?ts, hm_current := [], hm_result_count := 0\<rparr>"
  have "length ?ts \<le> 12" by (rule add_targets_length) simp
  moreover have "heapmon_inv ?s0" using assms(2) by (simp add: heapmon_inv_def)
  ultimately obtain s1 where s1: "scan_targets fs pm ?ts ?s0 = Some s1" "heapmon_inv s1" "prefix (hm_initial s) (hm_initial s1)"
    "set (map hd_pid (hm_current s1)) \<subseteq> set ?ts"
    using scan_targets_ok[OF assms(1), of ?s0 ?ts fs] by auto
  let ?r = "exchange_sort rss_change (hm_result_count s1) (hm_results s1)"
  have "hm_result_count s1 \<le> length (hm_results s1)" using s1(2) by (simp add: heapmon_inv_def)
  note r = exchange_sort_sorts[OF this, of rss_change]
  have c: "heapmon_collect fs pm s = Some (s1\<lparr>hm_results := ?r, hm_targets := [], hm_has_previous := True\<rparr>)"
    by (simp add: heapmon_collect_def choose_targets_ok s1(1))
  have "set ?ts \<subseteq> pe_pid ` set (take 6 (pm_growers pm) @ take 6 (pm_top_rss pm))"
    using add_targets_set[of "map pe_pid (take 6 (pm_growers pm))" "map pe_pid (take 6 (pm_top_rss pm))"] by (simp add: image_Un)
  then show ?thesis using c r s1 by (auto simp: heapmon_inv_def heap_entries_def)
qed

text \<open>
  C37 (collections). From every state it reaches, with a memory service in a state it reaches, a collection returns, stays within its arrays and
  watches at most twelve processes, each one of the first six growers or the first six by size; the
  results are in the order of decreasing change, and the baselines of the processes seen before stay as they are.
\<close>

theorem heapmon_collect_bounded:
  assumes "procmem_inv pm" "heapmon_inv s"
  shows "\<exists>s'. heapmon_collect fs pm s = Some s' \<and> heapmon_inv s' \<and> length (heap_entries s') \<le> 12 \<and>
    set (map hd_pid (hm_current s')) \<subseteq> pe_pid ` set (take 6 (pm_growers pm) @ take 6 (pm_top_rss pm)) \<and>
    sorted_wrt (\<lambda>a b. rss_change b \<le> rss_change a) (heap_entries s') \<and> prefix (hm_initial s) (hm_initial s')"
  using assms by (rule heapmon_collect_step)

theorem heapmon_collect_bounded_witness:
  "\<exists>s'. heapmon_collect (\<lambda>p. None) procmem_init heapmon_init = Some s' \<and> heapmon_inv s'"
  using heapmon_collect_bounded[OF procmem_inv_init heapmon_inv_init, of "\<lambda>p. None"] by blast

text \<open>
  Also (the service on its own). The plugin of the heap service has a memory service of its own that nothing initialises or collects from; with
  its zeroed state no collection finds a process, whatever the system is doing.
\<close>

theorem heapmon_alone_empty:
  "\<exists>s'. heapmon_collect fs procmem_init s = Some s' \<and> heap_entries s' = []"
  by (simp add: heapmon_collect_def choose_targets_ok procmem_init_def heap_entries_def)

text \<open>
  Also (targets set from outside). \<open>heapmon_set_targets\<close> has no effect on the collections: each one chooses its targets anew.
\<close>

theorem heapmon_targets_ignored:
  assumes "heapmon_set_targets pids n s = Some s'"
  shows "heapmon_collect fs pm s' = heapmon_collect fs pm s"
  using assms by (auto simp: heapmon_set_targets_def heapmon_collect_def choose_targets_ok Let_def split: if_splits)

theorem heapmon_targets_ignored_witness:
  "heapmon_collect fs procmem_init (heapmon_init\<lparr>hm_targets := [1, 2]\<rparr>) = heapmon_collect fs procmem_init heapmon_init"
  using heapmon_targets_ignored[of "[1, 2]" 2 heapmon_init _ fs procmem_init] by (simp add: heapmon_set_targets_def MAX_TARGETS_def)

section \<open>What is shown\<close>

definition heap_tree :: "heapmon_entry \<Rightarrow> jval" where
  "heap_tree e = JObj [(''pid'', JInt (he_pid e)), (''cmd'', JStr (he_cmd e)), (''rss_kb'', JInt (he_rss e)),
     (''rss_delta_kb'', JInt (he_rss_delta e)), (''initial_rss_kb'', JInt (he_initial_rss e)), (''heap_size_kb'', JInt (he_heap_size e)),
     (''heap_rss_kb'', JInt (he_heap_rss e)), (''initial_heap_rss_kb'', JInt (he_initial_heap_rss e)), (''heap_pd_kb'', JInt (he_heap_pd e)),
     (''heap_rss_delta_kb'', JInt (he_heap_rss_delta e)), (''heap_pd_delta_kb'', JInt (he_heap_pd_delta e))]"

definition heapmon_tree :: "heapmon \<Rightarrow> jval" where
  "heapmon_tree s = JObj [(''heap_entries'', JArr (map heap_tree (heap_entries s)))]"

lemma emits_heap [json_rules]: "emits_elts (heap_obj e) [heap_tree e]"
  unfolding heap_obj_def heap_tree_def by (rule emits_elts_cong, (rule json_rules)+, simp)

interpretation heapmon_out: snapshot_writer heapmon_snapshot heapmon_tree "\<lambda>s. True" "\<lambda>s. True"
proof
  fix s
  show "emits_val (heapmon_snapshot s) (heapmon_tree s)"
    unfolding heapmon_snapshot_def heapmon_tree_def by (rule emits_val_cong, (rule json_rules)+) simp
  show "jval_ok (heapmon_tree s)" by (auto simp: heapmon_tree_def heap_tree_def key_ok_def)
qed

end
