(* ===== verification/Slabinfo.thy ===== *)
theory Slabinfo
  imports ProcFields Sorting
begin

text \<open>
  The slab service (\<open>src/services/slabinfo.c\<close>): the caches of \<open>/proc/slabinfo\<close>, at most 512, and the twenty that grew and shrank most since
  the collection before. The arrays with their counts are lists.
\<close>

section \<open>State\<close>

record slab_cache_info =
  sc_name :: string
  sc_size_bytes :: int
  sc_num_objs :: int
  sc_obj_size :: int

record slab_entry =
  se_name :: string
  se_size_bytes :: int
  se_delta_bytes :: int
  se_num_objs :: int
  se_delta_objs :: int
  se_obj_size :: int

record slabinfo =
  sl_current :: "slab_cache_info list"
  sl_previous :: "slab_cache_info list"
  sl_has_previous :: bool
  sl_growers :: "slab_entry list"
  sl_shrinkers :: "slab_entry list"

definition MAX_SLABS :: nat where "MAX_SLABS = 512"
definition SLAB_TOP_N :: nat where "SLAB_TOP_N = 20"
definition MIN_DELTA_BYTES :: int where "MIN_DELTA_BYTES = 512 * 1024"

definition slabinfo_init :: slabinfo where
  "slabinfo_init = \<lparr>sl_current = [], sl_previous = [], sl_has_previous = False, sl_growers = [], sl_shrinkers = []\<rparr>"

section \<open>Operations\<close>

text \<open>The loop over the lines; \<open>slabs\<close> are the entries stored so far.\<close>

fun slab_lines :: "string list \<Rightarrow> slab_cache_info list \<Rightarrow> slab_cache_info list" where
  "slab_lines [] slabs = slabs"
| "slab_lines (line # ls) slabs =
     (if length slabs \<ge> MAX_SLABS then slabs
      else if starts_with ''slabinfo'' line \<or> starts_with ''#'' line then slab_lines ls slabs
      else case sscanf [D_str 63, D_space, D_num K_int, D_space, D_num K_int, D_space, D_num K_int] line of
          [SStr name, SNum active_objs, SNum num_objs, SNum objsize] \<Rightarrow>
            slab_lines ls (slabs @ [\<lparr>sc_name = name, sc_size_bytes = num_objs * objsize, sc_num_objs = num_objs, sc_obj_size = objsize\<rparr>])
        | _ \<Rightarrow> slab_lines ls slabs)"

definition parse_slabinfo :: "proc_fs \<Rightarrow> slab_cache_info list \<Rightarrow> int \<times> slab_cache_info list" where
  "parse_slabinfo fs slabs =
     (case proc_read_file fs ''/proc/slabinfo'' 65536 of
        None \<Rightarrow> (-1, slabs)
      | Some buf \<Rightarrow> (0, slab_lines (line_suffixes (cstr buf)) []))"

definition find_slab :: "slab_cache_info list \<Rightarrow> string \<Rightarrow> slab_cache_info option" where
  "find_slab slabs name = List.find (\<lambda>s. sc_name s = name) slabs"

definition compare_growers :: "slab_entry \<Rightarrow> slab_entry \<Rightarrow> int" where
  "compare_growers a b =
     (if se_delta_bytes b > se_delta_bytes a then 1 else if se_delta_bytes b < se_delta_bytes a then -1 else 0)"

definition compare_shrinkers :: "slab_entry \<Rightarrow> slab_entry \<Rightarrow> int" where
  "compare_shrinkers a b =
     (if se_delta_bytes a < se_delta_bytes b then -1 else if se_delta_bytes a > se_delta_bytes b then 1 else 0)"

definition slab_entry_of :: "slab_cache_info \<Rightarrow> int \<Rightarrow> int \<Rightarrow> slab_entry" where
  "slab_entry_of cur delta delta_objs =
     \<lparr>se_name = bounded_copy 64 (sc_name cur), se_size_bytes = sc_size_bytes cur, se_delta_bytes = delta, se_num_objs = sc_num_objs cur,
      se_delta_objs = delta_objs, se_obj_size = sc_obj_size cur\<rparr>"

text \<open>The entry for one cache of the collection, when the cache was there before and changed enough.\<close>

definition slab_change :: "slab_cache_info list \<Rightarrow> slab_cache_info \<Rightarrow> slab_entry option" where
  "slab_change previous cur =
     (case find_slab previous (sc_name cur) of
        None \<Rightarrow> None
      | Some prev \<Rightarrow>
          (let delta = sc_size_bytes cur - sc_size_bytes prev;
               abs_delta = (if delta < 0 then - delta else delta)
           in if abs_delta \<ge> MIN_DELTA_BYTES
              then Some (slab_entry_of cur delta (sc_num_objs cur - sc_num_objs prev)) else None))"

definition slab_changes :: "slab_cache_info list \<Rightarrow> slab_cache_info list \<Rightarrow> slab_entry list" where
  "slab_changes previous current = List.map_filter (slab_change previous) current"

definition slabinfo_collect :: "proc_fs \<Rightarrow> slabinfo \<Rightarrow> int \<times> slabinfo" where
  "slabinfo_collect fs s =
     (let s1 = s\<lparr>sl_previous := sl_current s\<rparr>
      in case parse_slabinfo fs (sl_current s1) of
           (ret, cur) \<Rightarrow>
             if ret < 0 then (ret, s1\<lparr>sl_current := cur\<rparr>)
             else
               let s2 = s1\<lparr>sl_current := cur, sl_growers := [], sl_shrinkers := []\<rparr>;
                   s3 = (if sl_has_previous s2
                         then let changes = c_qsort compare_growers (slab_changes (sl_previous s2) (sl_current s2));
                                  changes' = c_qsort compare_shrinkers changes
                              in s2\<lparr>sl_growers := select_first SLAB_TOP_N (\<lambda>e. se_delta_bytes e > 0) changes,
                                    sl_shrinkers := select_first SLAB_TOP_N (\<lambda>e. se_delta_bytes e < 0) changes'\<rparr>
                         else s2)
               in (0, s3\<lparr>sl_has_previous := True\<rparr>))"

definition slab_obj :: "slab_entry \<Rightarrow> json_builder \<Rightarrow> json_builder" where
  "slab_obj e = jobj [json_kv_string ''name'' (Some (se_name e)), json_kv_int ''size_bytes'' (se_size_bytes e),
     json_kv_int ''delta_bytes'' (se_delta_bytes e), json_kv_int ''num_objs'' (se_num_objs e),
     json_kv_int ''delta_objs'' (se_delta_objs e), json_kv_int ''obj_size'' (se_obj_size e)]"

definition slabinfo_snapshot :: "slabinfo \<Rightarrow> json_builder \<Rightarrow> json_builder" where
  "slabinfo_snapshot s =
     jobj [json_kv_int ''total_caches'' (int (length (sl_current s))),
           jkey ''top_growers'' (jarr [fold slab_obj (sl_growers s)]),
           jkey ''top_shrinkers'' (jarr [fold slab_obj (sl_shrinkers s)])]"

definition compare_slab_consumers :: "slab_entry \<Rightarrow> slab_entry \<Rightarrow> int" where
  "compare_slab_consumers a b =
     (if se_size_bytes b > se_size_bytes a then 1 else if se_size_bytes b < se_size_bytes a then -1 else 0)"

text \<open>The entry of one cache with its change, 0 when there is nothing to compare with.\<close>

definition consumer_entry :: "slabinfo \<Rightarrow> slab_cache_info \<Rightarrow> slab_entry" where
  "consumer_entry s cur =
     (case (if sl_has_previous s then find_slab (sl_previous s) (sc_name cur) else None) of
        None \<Rightarrow> slab_entry_of cur 0 0
      | Some prev \<Rightarrow> slab_entry_of cur (sc_size_bytes cur - sc_size_bytes prev) (sc_num_objs cur - sc_num_objs prev))"

definition slabinfo_get_top_consumers :: "slabinfo \<Rightarrow> int \<Rightarrow> (int \<times> slab_entry list) option" where
  "slabinfo_get_top_consumers s max_entries =
     copy_top (c_qsort compare_slab_consumers
       (map (consumer_entry s) (filter (\<lambda>c. sc_size_bytes c \<noteq> 0) (sl_current s)))) max_entries"

definition slabinfo_get_top_growers :: "slabinfo \<Rightarrow> int \<Rightarrow> (int \<times> slab_entry list) option" where
  "slabinfo_get_top_growers s n = copy_top (sl_growers s) n"

definition slabinfo_get_top_shrinkers :: "slabinfo \<Rightarrow> int \<Rightarrow> (int \<times> slab_entry list) option" where
  "slabinfo_get_top_shrinkers s n = copy_top (sl_shrinkers s) n"

section \<open>Reading the file\<close>

text \<open>
  A row of the file: name, the three numbers, and the rest of the line, and how many blanks stand in front of each number. The kernel prints
  \<open>%-17s %6lu %6lu %6u\<close>, so the columns are padded.
\<close>

record slab_row =
  sr_name :: string
  sr_active :: int
  sr_num :: int
  sr_size :: int
  sr_rest :: string
  sr_gaps :: "nat \<times> nat \<times> nat"

definition int32_ok :: "int \<Rightarrow> bool" where
  "int32_ok i \<longleftrightarrow> - 2147483648 \<le> i \<and> i \<le> INT32_MAX"

definition slab_row_ok :: "slab_row \<Rightarrow> bool" where
  "slab_row_ok r \<longleftrightarrow> word_ok 63 (sr_name r) \<and> NUL \<notin> set (sr_name r) \<and> \<not> prefix ''slabinfo'' (sr_name r) \<and> hd (sr_name r) \<noteq> CHR ''#'' \<and>
     int32_ok (sr_active r) \<and> int32_ok (sr_num r) \<and> int32_ok (sr_size r) \<and> LF \<notin> set (sr_rest r) \<and> NUL \<notin> set (sr_rest r) \<and>
     delimited (sr_rest r) \<and> (case sr_gaps r of (a, b, c) \<Rightarrow> 0 < a \<and> 0 < b \<and> 0 < c)"

definition slab_row_text :: "slab_row \<Rightarrow> string" where
  "slab_row_text r = (case sr_gaps r of (a, b, c) \<Rightarrow>
     sr_name r @ blanks a @ int_str (sr_active r) @ blanks b @ int_str (sr_num r) @ blanks c @ int_str (sr_size r) @ sr_rest r)"

text \<open>A header line starts with \<open>slabinfo\<close> or \<open>#\<close>.\<close>

definition header_ok :: "string \<Rightarrow> bool" where
  "header_ok h \<longleftrightarrow> (prefix ''slabinfo'' h \<or> prefix ''#'' h) \<and> LF \<notin> set h \<and> NUL \<notin> set h"

definition slab_text :: "string list \<Rightarrow> slab_row list \<Rightarrow> string" where
  "slab_text hs rows = concat (map (\<lambda>h. h @ [LF]) hs) @ concat (map (\<lambda>r. slab_row_text r @ [LF]) rows)"

definition slab_of :: "slab_row \<Rightarrow> slab_cache_info" where
  "slab_of r = \<lparr>sc_name = sr_name r, sc_size_bytes = sr_num r * sr_size r, sc_num_objs = sr_num r, sc_obj_size = sr_size r\<rparr>"

lemma int_str_start: "dropWhile isspace (int_str v @ r) = int_str v @ r"
  using dropWhile_space_nat_str[of "nat v" r] by (simp add: int_str_def isspace_def)

lemma scan_slab_row:
  assumes "slab_row_ok r"
  shows "sscanf [D_str 63, D_space, D_num K_int, D_space, D_num K_int, D_space, D_num K_int] (slab_row_text r @ LF # t) =
    [SStr (sr_name r), SNum (sr_active r), SNum (sr_num r), SNum (sr_size r)]"
proof -
  obtain a b c where g: "sr_gaps r = (a, b, c)" by (cases "sr_gaps r")
  have d: "delimited (sr_rest r @ LF # t)" using assms by (cases "sr_rest r") (auto simp: slab_row_ok_def delimited_def)
  show ?thesis using assms d by (simp add: g slab_row_ok_def slab_row_text_def int32_ok_def scan_simps int_str_start)
qed

lemma slab_row_no_header:
  assumes "slab_row_ok r"
  shows "\<not> starts_with ''slabinfo'' (slab_row_text r @ t)" "\<not> starts_with ''#'' (slab_row_text r @ t)"
proof -
  obtain a b c where g: "sr_gaps r = (a, b, c)" by (cases "sr_gaps r")
  have n: "\<not> prefix ''slabinfo'' (sr_name r)" "sr_name r \<noteq> []" "hd (sr_name r) \<noteq> CHR ''#''" "0 < a"
    using assms by (simp_all add: slab_row_ok_def word_ok_def g)
  have "prefix ''slabinfo'' (sr_name r @ CHR '' '' # u) \<Longrightarrow> prefix ''slabinfo'' (sr_name r)" for u
    by (auto simp: prefix_append prefix_Cons Cons_eq_append_conv)
  moreover obtain u where "slab_row_text r @ t = sr_name r @ CHR '' '' # u"
    using n(4) by (cases a) (simp_all add: slab_row_text_def g blanks_def)
  ultimately show "\<not> starts_with ''slabinfo'' (slab_row_text r @ t)" using n by (auto simp: starts_with_iff)
  show "\<not> starts_with ''#'' (slab_row_text r @ t)" using n by (cases "sr_name r") (auto simp: slab_row_text_def g)
qed

lemma slab_row_chars:
  assumes "slab_row_ok r"
  shows "LF \<notin> set (slab_row_text r)" "NUL \<notin> set (slab_row_text r)"
proof -
  obtain a b c where g: "sr_gaps r = (a, b, c)" by (cases "sr_gaps r")
  show "LF \<notin> set (slab_row_text r)" "NUL \<notin> set (slab_row_text r)"
    using assms by (auto simp: slab_row_ok_def slab_row_text_def int_str_no_LF word_ok_def g blanks_set)
qed

lemma slab_lines_rows:
  assumes "\<forall>r \<in> set rows. slab_row_ok r"
  shows "slab_lines (line_suffixes (slab_text [] rows)) slabs =
    slabs @ take (MAX_SLABS - length slabs) (map slab_of rows)"
  using assms
proof (induction rows arbitrary: slabs)
  case (Cons r rows)
  then have r: "slab_row_ok r" by simp
  have t: "slab_text [] (r # rows) = slab_row_text r @ LF # slab_text [] rows" by (simp add: slab_text_def)
  have l: "line_suffixes (slab_row_text r @ LF # slab_text [] rows) = (slab_row_text r @ LF # slab_text [] rows) # line_suffixes (slab_text [] rows)"
    by (rule line_suffixes_line[OF slab_row_chars(1)[OF r]])
  show ?case
  proof (cases "length slabs \<ge> MAX_SLABS")
    case False
    then have "MAX_SLABS - length slabs = Suc (MAX_SLABS - Suc (length slabs))" by simp
    then show ?thesis
      using False Cons.IH[of "slabs @ [slab_of r]"] Cons.prems slab_row_no_header[OF r, of "LF # slab_text [] rows"]
      by (simp add: t l scan_slab_row[OF r] slab_of_def del: sscanf.simps starts_with.simps)
  qed (simp add: t l)
qed (simp add: slab_text_def)

lemma slab_lines_headers:
  assumes "\<forall>h \<in> set hs. header_ok h"
  shows "slab_lines (line_suffixes (slab_text hs rows)) slabs = slab_lines (line_suffixes (slab_text [] rows)) slabs"
  using assms
proof (induction hs)
  case (Cons h hs)
  then have h: "LF \<notin> set h" "starts_with ''slabinfo'' (h @ t) \<or> starts_with ''#'' (h @ t)" for t
    by (auto simp: header_ok_def starts_with_iff)
  have t: "slab_text (h # hs) rows = h @ LF # slab_text hs rows" by (simp add: slab_text_def)
  have full: "slab_lines ls slabs = slabs" if "length slabs \<ge> MAX_SLABS" for ls
    using that by (cases ls) simp_all
  show ?case
  proof (cases "length slabs \<ge> MAX_SLABS")
    case True
    then show ?thesis by (simp add: full)
  next
    case False
    then show ?thesis using Cons h(2)[of "LF # slab_text hs rows"]
      by (simp add: t line_suffixes_line[OF h(1)] del: starts_with.simps)
  qed
qed simp

text \<open>A readable file of headers and rows.\<close>

definition slab_file :: "proc_fs \<Rightarrow> slab_row list \<Rightarrow> bool" where
  "slab_file fs rows \<longleftrightarrow> (\<exists>hs evs. fs ''/proc/slabinfo'' = Some (slab_text hs rows, evs) \<and> Eio \<notin> set evs \<and>
     (\<forall>h \<in> set hs. header_ok h) \<and> length (slab_text hs rows) < 65536) \<and> (\<forall>r \<in> set rows. slab_row_ok r)"

definition slabs_of :: "slab_row list \<Rightarrow> slab_cache_info list" where
  "slabs_of rows = take 512 (map slab_of rows)"

lemma parse_slabinfo_file: "slab_file fs rows \<Longrightarrow> parse_slabinfo fs slabs = (0, slabs_of rows)"
proof -
  assume f: "slab_file fs rows"
  then obtain hs evs where e: "fs ''/proc/slabinfo'' = Some (slab_text hs rows, evs)" "Eio \<notin> set evs"
    and h: "\<forall>h \<in> set hs. header_ok h" "length (slab_text hs rows) < 65536"
    by (auto simp: slab_file_def)
  have r: "\<forall>r \<in> set rows. slab_row_ok r" using f by (simp add: slab_file_def)
  have "proc_read_file fs ''/proc/slabinfo'' 65536 = Some (slab_text hs rows)"
    using proc_read_file_take[of fs _ "slab_text hs rows" evs 65536, OF e] h(2) by simp
  moreover have "NUL \<notin> set (slab_text hs rows)" using h(1) r slab_row_chars(2) by (auto simp: slab_text_def header_ok_def)
  ultimately show ?thesis
    using slab_lines_headers[OF h(1), of rows "[]"] slab_lines_rows[OF r, of "[]"]
    by (simp add: parse_slabinfo_def slabs_of_def MAX_SLABS_def)
qed

section \<open>What a collection reports\<close>

lemma set_map_filter_iff: "y \<in> set (List.map_filter f xs) \<longleftrightarrow> (\<exists>x \<in> set xs. f x = Some y)"
  by (induction xs) (auto simp: map_filter_simps split: option.splits)

lemma slab_change_iff:
  "slab_change previous c = Some e \<longleftrightarrow> (\<exists>p. find_slab previous (sc_name c) = Some p \<and> \<bar>sc_size_bytes c - sc_size_bytes p\<bar> \<ge> 524288 \<and>
     e = slab_entry_of c (sc_size_bytes c - sc_size_bytes p) (sc_num_objs c - sc_num_objs p))"
  by (cases "find_slab previous (sc_name c)") (auto simp: slab_change_def MIN_DELTA_BYTES_def Let_def)

lemma slab_changes_iff:
  "e \<in> set (slab_changes previous current) \<longleftrightarrow> (\<exists>c \<in> set current. \<exists>p. find_slab previous (sc_name c) = Some p \<and>
     \<bar>sc_size_bytes c - sc_size_bytes p\<bar> \<ge> 524288 \<and>
     e = slab_entry_of c (sc_size_bytes c - sc_size_bytes p) (sc_num_objs c - sc_num_objs p))"
  by (simp add: slab_changes_def set_map_filter_iff slab_change_iff)

lemma slab_compare_eqs:
  "compare_growers = cmp_desc se_delta_bytes" "compare_shrinkers = cmp_asc se_delta_bytes" "compare_slab_consumers = cmp_desc se_size_bytes"
  by (intro ext; simp add: compare_growers_def compare_shrinkers_def compare_slab_consumers_def cmp_desc_def cmp_asc_def)+

definition grown :: "slab_entry list \<Rightarrow> slab_entry list" where
  "grown changes = select_first 20 (\<lambda>e. se_delta_bytes e > 0) (c_qsort compare_growers changes)"

definition shrunk :: "slab_entry list \<Rightarrow> slab_entry list" where
  "shrunk changes = select_first 20 (\<lambda>e. se_delta_bytes e < 0) (c_qsort compare_shrinkers (c_qsort compare_growers changes))"

lemma slabinfo_collect_file:
  assumes "slab_file fs rows"
  shows "slabinfo_collect fs s = (0, \<lparr>sl_current = slabs_of rows, sl_previous = sl_current s, sl_has_previous = True,
    sl_growers = (if sl_has_previous s then grown (slab_changes (sl_current s) (slabs_of rows)) else []),
    sl_shrinkers = (if sl_has_previous s then shrunk (slab_changes (sl_current s) (slabs_of rows)) else [])\<rparr>)"
  by (simp add: slabinfo_collect_def parse_slabinfo_file[OF assms] Let_def grown_def shrunk_def SLAB_TOP_N_def)

lemma grown_best: "best 20 (\<lambda>e. se_delta_bytes e > 0) (\<lambda>a b. se_delta_bytes b \<le> se_delta_bytes a) changes (grown changes)"
  unfolding grown_def slab_compare_eqs by (rule best_desc)

lemma shrunk_best: "best 20 (\<lambda>e. se_delta_bytes e < 0) (\<lambda>a b. se_delta_bytes a \<le> se_delta_bytes b) changes (shrunk changes)"
  using best_asc[of 20 "\<lambda>e. se_delta_bytes e < 0" se_delta_bytes "c_qsort compare_growers changes"]
  unfolding shrunk_def slab_compare_eqs best_c_qsort .

text \<open>
  C24 (growth between two collections). After two collections of readable files, headers and rows whose columns are padded with any number of blanks, as the
  kernel prints them, the growers are the best twenty, by growth, of the caches of
  the second file, among its first 512, that the first file also has and whose size changed by half a megabyte or more; the
  shrinkers likewise.
\<close>

theorem slabinfo_reports_growth:
  assumes "slab_file fs1 rows1" "slab_file fs2 rows2"
    and s2: "s2 = snd (slabinfo_collect fs2 (snd (slabinfo_collect fs1 s)))"
  shows "\<exists>changes. best 20 (\<lambda>e. se_delta_bytes e > 0) (\<lambda>a b. se_delta_bytes b \<le> se_delta_bytes a) changes (sl_growers s2) \<and>
    best 20 (\<lambda>e. se_delta_bytes e < 0) (\<lambda>a b. se_delta_bytes a \<le> se_delta_bytes b) changes (sl_shrinkers s2) \<and>
    (\<forall>e. e \<in> set changes \<longleftrightarrow> (\<exists>c \<in> set (slabs_of rows2). \<exists>p. find_slab (slabs_of rows1) (sc_name c) = Some p \<and>
      \<bar>sc_size_bytes c - sc_size_bytes p\<bar> \<ge> 524288 \<and>
      e = slab_entry_of c (sc_size_bytes c - sc_size_bytes p) (sc_num_objs c - sc_num_objs p)))"
proof -
  let ?ch = "slab_changes (slabs_of rows1) (slabs_of rows2)"
  have "sl_growers s2 = grown ?ch" "sl_shrinkers s2 = shrunk ?ch"
    by (simp_all add: s2 slabinfo_collect_file[OF assms(1)] slabinfo_collect_file[OF assms(2)])
  then show ?thesis by (intro exI[of _ ?ch]) (simp only: grown_best shrunk_best slab_changes_iff simp_thms)
qed

text \<open>Rows as the kernel prints them, and a file with one of them.\<close>

definition demo_row :: "int \<Rightarrow> slab_row" where
  "demo_row n = \<lparr>sr_name = ''dentry'', sr_active = 1, sr_num = n, sr_size = 1024, sr_rest = ''   32    8 : tunables    0    0    0'', sr_gaps = (17, 4, 3)\<rparr>"

definition demo_slab :: "int \<Rightarrow> proc_fs" where
  "demo_slab n = [''/proc/slabinfo'' \<mapsto> (slab_text [''slabinfo - version: 2.1'', ''# name''] [demo_row n], [])]"

lemma demo_slab_file: "slab_file (demo_slab 10) [demo_row 10]" "slab_file (demo_slab 700) [demo_row 700]"
  by (auto simp: slab_file_def demo_slab_def demo_row_def slab_row_ok_def header_ok_def word_ok_def isspace_def int32_ok_def slab_text_def slab_row_text_def
      int_str_def nat_str.simps delimited_def intro!: exI[of _ "[''slabinfo - version: 2.1'', ''# name'']"])

theorem slabinfo_reports_growth_witness:
  "map se_delta_bytes (sl_growers (snd (slabinfo_collect (demo_slab 700) (snd (slabinfo_collect (demo_slab 10) slabinfo_init))))) = [706560]"
proof -
  let ?r = demo_row
  let ?s = "snd (slabinfo_collect (demo_slab 700) (snd (slabinfo_collect (demo_slab 10) slabinfo_init)))"
  have f: "find_slab (slabs_of [?r 10]) ''dentry'' = Some (slab_of (?r 10))" "slabs_of [?r 700] = [slab_of (?r 700)]"
    by (simp_all add: find_slab_def slabs_of_def slab_of_def demo_row_def)
  have g: "slab_changes (slabs_of [?r 10]) (slabs_of [?r 700]) = [slab_entry_of (slab_of (?r 700)) 706560 690]"
    unfolding slab_changes_def f(2) using f(1)
    by (simp add: slab_change_def MIN_DELTA_BYTES_def map_filter_simps slab_of_def demo_row_def Let_def)
  have "sl_growers ?s = grown (slab_changes (slabs_of [?r 10]) (slabs_of [?r 700]))"
    by (simp add: slabinfo_collect_file[OF demo_slab_file(1)] slabinfo_collect_file[OF demo_slab_file(2)])
  then have "map se_delta_bytes (sl_growers ?s) = [706560]"
    by (simp add: g grown_def c_qsort_def slab_entry_of_def numeral_eq_Suc)
  with slabinfo_reports_growth[OF demo_slab_file(1) demo_slab_file(2) refl, of slabinfo_init] show ?thesis by blast
qed

text \<open>
  Also (the largest caches). \<open>slabinfo_get_top_consumers\<close> returns the best caches by size, at most as many as it is asked for; a cache of
  size 0 is left out, and the change of a cache that was not there before is 0.
\<close>

theorem slabinfo_top_consumers_best:
  assumes "0 \<le> n"
  shows "\<exists>xs. slabinfo_get_top_consumers s n = Some (int (length xs), xs) \<and>
    best (nat n) (\<lambda>e. True) (\<lambda>a b. se_size_bytes b \<le> se_size_bytes a)
      (map (consumer_entry s) (filter (\<lambda>c. sc_size_bytes c \<noteq> 0) (sl_current s))) xs"
proof -
  let ?all = "map (consumer_entry s) (filter (\<lambda>c. sc_size_bytes c \<noteq> 0) (sl_current s))"
  let ?xs = "take (nat n) (c_qsort compare_slab_consumers ?all)"
  have "best (nat n) (\<lambda>e. True) (\<lambda>a b. se_size_bytes b \<le> se_size_bytes a) ?all ?xs"
    using best_desc[of "nat n" "\<lambda>e. True" se_size_bytes ?all] by (simp add: slab_compare_eqs select_first_eq)
  moreover have "slabinfo_get_top_consumers s n = Some (int (length ?xs), ?xs)"
    unfolding slabinfo_get_top_consumers_def copy_top_length[OF assms] using assms by (simp add: min_def) linarith
  ultimately show ?thesis by blast
qed

theorem slabinfo_top_consumers_best_witness:
  "slabinfo_get_top_consumers slabinfo_init 3 = Some (0, [])"
  using slabinfo_top_consumers_best[of 3 slabinfo_init] by (auto simp: slabinfo_init_def best_def)

definition slab_tree :: "slab_entry \<Rightarrow> jval" where
  "slab_tree e = JObj [(''name'', JStr (se_name e)), (''size_bytes'', JInt (se_size_bytes e)), (''delta_bytes'', JInt (se_delta_bytes e)),
     (''num_objs'', JInt (se_num_objs e)), (''delta_objs'', JInt (se_delta_objs e)), (''obj_size'', JInt (se_obj_size e))]"

definition slabinfo_tree :: "slabinfo \<Rightarrow> jval" where
  "slabinfo_tree s = JObj [(''total_caches'', JInt (int (length (sl_current s)))), (''top_growers'', JArr (map slab_tree (sl_growers s))),
     (''top_shrinkers'', JArr (map slab_tree (sl_shrinkers s)))]"

lemma emits_slab [json_rules]: "emits_elts (slab_obj e) [slab_tree e]"
  unfolding slab_obj_def slab_tree_def by (rule emits_elts_cong, (rule json_rules)+, simp)

interpretation slabinfo_out: snapshot_writer slabinfo_snapshot slabinfo_tree "\<lambda>s. True" "\<lambda>s. True"
proof
  fix s
  show "emits_val (slabinfo_snapshot s) (slabinfo_tree s)"
    unfolding slabinfo_snapshot_def slabinfo_tree_def by (rule emits_val_cong, (rule json_rules)+) simp
  show "jval_ok (slabinfo_tree s)" by (auto simp: slabinfo_tree_def slab_tree_def key_ok_def)
qed

end
