(* ===== verification/Meminfo.thy ===== *)
theory Meminfo
  imports ProcFields
begin

text \<open>
  The memory service (\<open>src/services/meminfo.c\<close>): sixteen values of \<open>/proc/meminfo\<close>, with those of the collection before. The
  usage percentage is a \<open>double\<close>: its type is \<open>'d\<close>, \<open>pct used total\<close> is the quotient the code computes and \<open>zero\<close> the
  bytes \<open>memset\<close> leaves, and the formatting of the builder is the parameter \<open>fmt\<close>.
\<close>

section \<open>State\<close>

record 'd meminfo_data =
  mem_total_kb :: int
  mem_available_kb :: int
  mem_free_kb :: int
  buffers_kb :: int
  cached_kb :: int
  slab_kb :: int
  sreclaimable_kb :: int
  sunreclaim_kb :: int
  active_kb :: int
  inactive_kb :: int
  anon_pages_kb :: int
  vmalloc_used_kb :: int
  page_tables_kb :: int
  kernel_stack_kb :: int
  dirty_kb :: int
  mapped_kb :: int
  usage_percent :: 'd

record 'd meminfo =
  mi_current :: "'d meminfo_data"
  mi_previous :: "'d meminfo_data"
  mi_has_previous :: bool

definition meminfo_zero :: "'d \<Rightarrow> 'd meminfo_data" where
  "meminfo_zero zero =
     \<lparr>mem_total_kb = 0, mem_available_kb = 0, mem_free_kb = 0, buffers_kb = 0, cached_kb = 0, slab_kb = 0,
      sreclaimable_kb = 0, sunreclaim_kb = 0, active_kb = 0, inactive_kb = 0, anon_pages_kb = 0, vmalloc_used_kb = 0,
      page_tables_kb = 0, kernel_stack_kb = 0, dirty_kb = 0, mapped_kb = 0, usage_percent = zero\<rparr>"

definition meminfo_init :: "'d \<Rightarrow> 'd meminfo" where
  "meminfo_init zero = \<lparr>mi_current = meminfo_zero zero, mi_previous = meminfo_zero zero, mi_has_previous = False\<rparr>"

section \<open>Operations\<close>

definition meminfo_set :: "string \<Rightarrow> int \<Rightarrow> 'd meminfo_data \<Rightarrow> 'd meminfo_data" where
  "meminfo_set key v d =
     (if key = ''MemTotal'' then d\<lparr>mem_total_kb := v\<rparr>
      else if key = ''MemAvailable'' then d\<lparr>mem_available_kb := v\<rparr>
      else if key = ''MemFree'' then d\<lparr>mem_free_kb := v\<rparr>
      else if key = ''Buffers'' then d\<lparr>buffers_kb := v\<rparr>
      else if key = ''Cached'' then d\<lparr>cached_kb := v\<rparr>
      else if key = ''Slab'' then d\<lparr>slab_kb := v\<rparr>
      else if key = ''SReclaimable'' then d\<lparr>sreclaimable_kb := v\<rparr>
      else if key = ''SUnreclaim'' then d\<lparr>sunreclaim_kb := v\<rparr>
      else if key = ''Active'' then d\<lparr>active_kb := v\<rparr>
      else if key = ''Inactive'' then d\<lparr>inactive_kb := v\<rparr>
      else if key = ''AnonPages'' then d\<lparr>anon_pages_kb := v\<rparr>
      else if key = ''VmallocUsed'' then d\<lparr>vmalloc_used_kb := v\<rparr>
      else if key = ''PageTables'' then d\<lparr>page_tables_kb := v\<rparr>
      else if key = ''KernelStack'' then d\<lparr>kernel_stack_kb := v\<rparr>
      else if key = ''Dirty'' then d\<lparr>dirty_kb := v\<rparr>
      else if key = ''Mapped'' then d\<lparr>mapped_kb := v\<rparr>
      else d)"

definition meminfo_line :: "string \<Rightarrow> 'd meminfo_data \<Rightarrow> 'd meminfo_data" where
  "meminfo_line line d =
     (case proc_parse_kv_kb line 64 of
        (value, key) \<Rightarrow> if value \<ge> 0 then (case key of None \<Rightarrow> d | Some k \<Rightarrow> meminfo_set k value d) else d)"

definition meminfo_usage :: "(int \<Rightarrow> int \<Rightarrow> 'd) \<Rightarrow> 'd meminfo_data \<Rightarrow> 'd meminfo_data" where
  "meminfo_usage pct d =
     (if mem_total_kb d > 0 then d\<lparr>usage_percent := pct (mem_total_kb d - mem_available_kb d) (mem_total_kb d)\<rparr> else d)"

text \<open>The result and the new contents of \<open>*data\<close>, which a failing read leaves alone.\<close>

definition parse_meminfo ::
    "(int \<Rightarrow> int \<Rightarrow> 'd) \<Rightarrow> 'd \<Rightarrow> proc_fs \<Rightarrow> 'd meminfo_data \<Rightarrow> int \<times> 'd meminfo_data" where
  "parse_meminfo pct zero fs d =
     (case proc_read_file fs ''/proc/meminfo'' 8192 of
        None \<Rightarrow> (-1, d)
      | Some buf \<Rightarrow> (0, meminfo_usage pct (fold meminfo_line (line_suffixes (cstr buf)) (meminfo_zero zero))))"

definition meminfo_collect :: "(int \<Rightarrow> int \<Rightarrow> 'd) \<Rightarrow> 'd \<Rightarrow> proc_fs \<Rightarrow> 'd meminfo \<Rightarrow> int \<times> 'd meminfo" where
  "meminfo_collect pct zero fs s =
     (case parse_meminfo pct zero fs (mi_current s) of
        (r, d) \<Rightarrow> (r, s\<lparr>mi_previous := mi_current s, mi_has_previous := True, mi_current := d\<rparr>))"

definition write_delta :: "string \<Rightarrow> int \<Rightarrow> int \<Rightarrow> bool \<Rightarrow> json_builder \<Rightarrow> json_builder" where
  "write_delta name current previous has_prev =
     jkey name (jobj [json_kv_int ''value'' current,
                      if has_prev then json_kv_int ''delta'' (current - previous) else jskip])"

definition meminfo_snapshot :: "('d \<Rightarrow> string) \<Rightarrow> 'd meminfo \<Rightarrow> json_builder \<Rightarrow> json_builder" where
  "meminfo_snapshot fmt s =
     (let cur = mi_current s; prev = mi_previous s;
          w = (\<lambda>name get. write_delta name (get cur) (get prev) (mi_has_previous s))
      in jobj [json_kv_double fmt ''usage_percent'' (usage_percent cur),
           jkey ''memory'' (jobj [w ''total_kb'' mem_total_kb, w ''available_kb'' mem_available_kb, w ''free_kb'' mem_free_kb,
             w ''buffers_kb'' buffers_kb, w ''cached_kb'' cached_kb]),
           jkey ''kernel'' (jobj [w ''slab_kb'' slab_kb, w ''sreclaimable_kb'' sreclaimable_kb, w ''sunreclaim_kb'' sunreclaim_kb,
             w ''vmalloc_used_kb'' vmalloc_used_kb, w ''page_tables_kb'' page_tables_kb, w ''kernel_stack_kb'' kernel_stack_kb]),
           jkey ''activity'' (jobj [w ''active_kb'' active_kb, w ''inactive_kb'' inactive_kb, w ''anon_pages_kb'' anon_pages_kb,
             w ''dirty_kb'' dirty_kb, w ''mapped_kb'' mapped_kb])])"

record meminfo_status =
  st_total_kb :: int
  st_free_kb :: int
  st_available_kb :: int
  st_buffers_kb :: int
  st_cached_kb :: int

definition meminfo_get_status :: "'d meminfo \<Rightarrow> meminfo_status" where
  "meminfo_get_status s = \<lparr>st_total_kb = mem_total_kb (mi_current s), st_free_kb = mem_free_kb (mi_current s),
     st_available_kb = mem_available_kb (mi_current s), st_buffers_kb = buffers_kb (mi_current s), st_cached_kb = cached_kb (mi_current s)\<rparr>"

definition meminfo_get_current :: "'d meminfo \<Rightarrow> 'd meminfo_data" where
  "meminfo_get_current s = mi_current s"

definition meminfo_get_previous :: "'d meminfo \<Rightarrow> 'd meminfo_data option" where
  "meminfo_get_previous s = (if mi_has_previous s then Some (mi_previous s) else None)"

section \<open>What a collection reads\<close>

definition meminfo_fields :: "(string \<times> ('d meminfo_data \<Rightarrow> int)) list" where
  "meminfo_fields =
     [(''MemTotal'', mem_total_kb), (''MemAvailable'', mem_available_kb), (''MemFree'', mem_free_kb), (''Buffers'',
      buffers_kb), (''Cached'', cached_kb), (''Slab'', slab_kb), (''SReclaimable'', sreclaimable_kb), (''SUnreclaim'',
      sunreclaim_kb), (''Active'', active_kb), (''Inactive'', inactive_kb), (''AnonPages'', anon_pages_kb),
      (''VmallocUsed'', vmalloc_used_kb), (''PageTables'', page_tables_kb), (''KernelStack'', kernel_stack_kb),
      (''Dirty'', dirty_kb), (''Mapped'', mapped_kb)]"

lemma meminfo_set_get:
  "mem_total_kb (meminfo_set k v d) = (if k = ''MemTotal'' then v else mem_total_kb d)"
  "mem_available_kb (meminfo_set k v d) = (if k = ''MemAvailable'' then v else mem_available_kb d)"
  "mem_free_kb (meminfo_set k v d) = (if k = ''MemFree'' then v else mem_free_kb d)"
  "buffers_kb (meminfo_set k v d) = (if k = ''Buffers'' then v else buffers_kb d)"
  "cached_kb (meminfo_set k v d) = (if k = ''Cached'' then v else cached_kb d)"
  "slab_kb (meminfo_set k v d) = (if k = ''Slab'' then v else slab_kb d)"
  "sreclaimable_kb (meminfo_set k v d) = (if k = ''SReclaimable'' then v else sreclaimable_kb d)"
  "sunreclaim_kb (meminfo_set k v d) = (if k = ''SUnreclaim'' then v else sunreclaim_kb d)"
  "active_kb (meminfo_set k v d) = (if k = ''Active'' then v else active_kb d)"
  "inactive_kb (meminfo_set k v d) = (if k = ''Inactive'' then v else inactive_kb d)"
  "anon_pages_kb (meminfo_set k v d) = (if k = ''AnonPages'' then v else anon_pages_kb d)"
  "vmalloc_used_kb (meminfo_set k v d) = (if k = ''VmallocUsed'' then v else vmalloc_used_kb d)"
  "page_tables_kb (meminfo_set k v d) = (if k = ''PageTables'' then v else page_tables_kb d)"
  "kernel_stack_kb (meminfo_set k v d) = (if k = ''KernelStack'' then v else kernel_stack_kb d)"
  "dirty_kb (meminfo_set k v d) = (if k = ''Dirty'' then v else dirty_kb d)"
  "mapped_kb (meminfo_set k v d) = (if k = ''Mapped'' then v else mapped_kb d)"
  unfolding meminfo_set_def
  by simp_all

interpretation mi: keyed_record meminfo_set meminfo_fields
proof
  fix name and get :: "'d meminfo_data \<Rightarrow> int" and k v d
  assume "(name, get) \<in> set meminfo_fields"
  then show "get (meminfo_set k v d) = (if k = name then v else get d)"
    unfolding meminfo_fields_def by (simp only: list.set insert_iff empty_iff prod.inject simp_thms) (elim disjE conjE; simp only: meminfo_set_get)
qed

text \<open>The values the file has: those that are not negative.\<close>

definition kv_values :: "(string \<times> string) list \<Rightarrow> (string \<times> int) list" where
  "kv_values kvs = filter (\<lambda>kv. snd kv \<ge> 0) (map (\<lambda>(k, v). (k, strtoll v)) kvs)"

lemma meminfo_lines:
  assumes "kv_ok kvs" "\<forall>(k, v) \<in> set kvs. plain_key 64 k \<and> plain_num v"
  shows "fold meminfo_line (line_suffixes (kv_text kvs)) d = fold (\<lambda>(k, v). meminfo_set k v) (kv_values kvs) d"
  using assms
proof (induction kvs arbitrary: d)
  case (Cons kv kvs)
  obtain k v where kv: "kv = (k, v)" by (cases kv)
  have "meminfo_line (k @ CHR '':'' # v @ LF # kv_text kvs) d = (if strtoll v \<ge> 0 then meminfo_set k (strtoll v) d else d)"
    using Cons.prems(2) proc_parse_kv_line[of 64 k v "kv_text kvs"] by (simp add: kv meminfo_line_def)
  moreover have "kv_ok kvs" using Cons.prems(1) by (simp add: kv_ok_def)
  ultimately show ?case
    using Cons.IH Cons.prems kv_text_suffixes[of k v kvs] by (simp add: kv kv_values_def del: kv_text_simps)
qed (simp add: kv_values_def)

lemma meminfo_usage_field: "(name, get) \<in> set meminfo_fields \<Longrightarrow> get (meminfo_usage pct d) = get d"
  by (auto simp: meminfo_fields_def meminfo_usage_def)

lemma meminfo_zero_field: "(name, get) \<in> set meminfo_fields \<Longrightarrow> get (meminfo_zero zero) = 0"
  by (auto simp: meminfo_fields_def meminfo_zero_def)

text \<open>A readable file: each name once, values that end at the line end, and less than the buffer.\<close>

definition meminfo_file :: "proc_fs \<Rightarrow> (string \<times> string) list \<Rightarrow> bool" where
  "meminfo_file fs kvs \<longleftrightarrow> (\<exists>evs. fs ''/proc/meminfo'' = Some (kv_text kvs, evs) \<and> Eio \<notin> set evs) \<and>
     length (kv_text kvs) < 8192 \<and> kv_ok kvs \<and> distinct (map fst kvs) \<and> (\<forall>(k, v) \<in> set kvs. plain_key 64 k \<and> plain_num v)"

definition kb_of :: "(string \<times> string) list \<Rightarrow> string \<Rightarrow> int" where
  "kb_of kvs name = (case map_of kvs name of None \<Rightarrow> 0 | Some v \<Rightarrow> max 0 (strtoll v))"

lemma map_of_kv_values:
  "distinct (map fst kvs) \<Longrightarrow> map_of (kv_values kvs) name =
    (case map_of kvs name of None \<Rightarrow> None | Some v \<Rightarrow> if strtoll v \<ge> 0 then Some (strtoll v) else None)"
proof (induction kvs)
  case (Cons kv kvs)
  have "fst ` set (kv_values kvs) \<subseteq> fst ` set kvs" by (auto simp: kv_values_def image_iff split: prod.splits) (metis fst_conv)
  then have "map_of (kv_values kvs) (fst kv) = None" using Cons.prems by (auto simp: map_of_eq_None_iff)
  then show ?case using Cons by (cases kv) (auto simp: kv_values_def split: option.splits)
qed (simp add: kv_values_def)

lemma kv_values_distinct: "distinct (map fst kvs) \<Longrightarrow> distinct (map fst (kv_values kvs))"
  by (induction kvs) (auto simp: kv_values_def image_iff)

lemma meminfo_collect_values:
  assumes f: "meminfo_file fs kvs"
  shows "\<exists>d. meminfo_collect pct zero fs s = (0, \<lparr>mi_current = d, mi_previous = mi_current s, mi_has_previous = True\<rparr>) \<and>
    (\<forall>(name, get) \<in> set meminfo_fields. get d = kb_of kvs name) \<and>
    usage_percent d = (if mem_total_kb d > 0 then pct (mem_total_kb d - mem_available_kb d) (mem_total_kb d) else zero)"
proof -
  obtain evs where e: "fs ''/proc/meminfo'' = Some (kv_text kvs, evs)" "Eio \<notin> set evs" using f by (auto simp: meminfo_file_def)
  have k: "length (kv_text kvs) < 8192" "kv_ok kvs" "distinct (map fst kvs)" "\<forall>(k, v) \<in> set kvs. plain_key 64 k \<and> plain_num v"
    using f by (simp_all add: meminfo_file_def)
  have r: "proc_read_file fs ''/proc/meminfo'' 8192 = Some (kv_text kvs)" using proc_read_file_take[of fs _ "kv_text kvs" evs 8192, OF e] k(1) by simp
  let ?d0 = "fold (\<lambda>(k, v). meminfo_set k v) (kv_values kvs) (meminfo_zero zero)"
  have p: "parse_meminfo pct zero fs (mi_current s) = (0, meminfo_usage pct ?d0)"
    using meminfo_lines[OF k(2,4), of "meminfo_zero zero"] kv_text_no_nul[OF k(2)] by (simp add: parse_meminfo_def r)
  have u: "usage_percent ?d0 = zero"
  proof -
    have "usage_percent (meminfo_set k v d) = usage_percent d" for k v and d :: "'a meminfo_data" by (simp add: meminfo_set_def)
    then have "usage_percent (fold (\<lambda>(k, v). meminfo_set k v) l d) = usage_percent d" for l and d :: "'a meminfo_data"
      by (induction l arbitrary: d) auto
    then show ?thesis by (simp add: meminfo_zero_def)
  qed
  have v: "get (meminfo_usage pct ?d0) = kb_of kvs name" if "(name, get) \<in> set meminfo_fields" for name get
    unfolding meminfo_usage_field[OF that] mi.after_lines[OF that] meminfo_zero_field[OF that]
      last_value_distinct[OF kv_values_distinct[OF k(3)]] map_of_kv_values[OF k(3)]
    by (auto simp: kb_of_def split: option.splits)
  have w: "usage_percent (meminfo_usage pct d) = (let d' = meminfo_usage pct d in if mem_total_kb d' > 0
      then pct (mem_total_kb d' - mem_available_kb d') (mem_total_kb d') else usage_percent d)" for d
    by (simp add: meminfo_usage_def)
  have c: "meminfo_collect pct zero fs s = (0, \<lparr>mi_current = meminfo_usage pct ?d0, mi_previous = mi_current s, mi_has_previous = True\<rparr>)"
    by (simp add: meminfo_collect_def p)
  show ?thesis
    by (intro exI[of _ "meminfo_usage pct ?d0"] conjI c) (use v w[of ?d0] u in \<open>auto simp: Let_def\<close>)
qed

section \<open>What a snapshot shows\<close>

text \<open>One member with its value and its change, for values and previous values given by their names in the kernel's file.\<close>

definition delta_member :: "string \<Rightarrow> int \<Rightarrow> int option \<Rightarrow> string \<times> jval" where
  "delta_member name cur prev =
     (name, JObj ((''value'', JInt cur) # (case prev of None \<Rightarrow> [] | Some p \<Rightarrow> [(''delta'', JInt (cur - p))])))"

definition meminfo_view :: "string \<Rightarrow> (string \<Rightarrow> int) \<Rightarrow> (string \<Rightarrow> int) option \<Rightarrow> jval" where
  "meminfo_view usage cur prev =
     (let m = (\<lambda>name key. delta_member name (cur key) (map_option (\<lambda>f. f key) prev))
      in JObj [(''usage_percent'', JNum usage),
           (''memory'', JObj [m ''total_kb'' ''MemTotal'', m ''available_kb'' ''MemAvailable'', m ''free_kb'' ''MemFree'',
             m ''buffers_kb'' ''Buffers'', m ''cached_kb'' ''Cached'']),
           (''kernel'', JObj [m ''slab_kb'' ''Slab'', m ''sreclaimable_kb'' ''SReclaimable'', m ''sunreclaim_kb'' ''SUnreclaim'',
             m ''vmalloc_used_kb'' ''VmallocUsed'', m ''page_tables_kb'' ''PageTables'', m ''kernel_stack_kb'' ''KernelStack'']),
           (''activity'', JObj [m ''active_kb'' ''Active'', m ''inactive_kb'' ''Inactive'', m ''anon_pages_kb'' ''AnonPages'',
             m ''dirty_kb'' ''Dirty'', m ''mapped_kb'' ''Mapped''])])"

definition meminfo_get :: "'d meminfo_data \<Rightarrow> string \<Rightarrow> int" where
  "meminfo_get d name = (case map_of meminfo_fields name of None \<Rightarrow> 0 | Some get \<Rightarrow> get d)"

definition meminfo_tree :: "('d \<Rightarrow> string) \<Rightarrow> 'd meminfo \<Rightarrow> jval" where
  "meminfo_tree fmt s = meminfo_view (fmt (usage_percent (mi_current s))) (meminfo_get (mi_current s))
     (if mi_has_previous s then Some (meminfo_get (mi_previous s)) else None)"

lemma emits_write_delta [json_rules]:
  "emits_mems (write_delta name cur prev has) [delta_member name cur (if has then Some prev else None)]"
  unfolding write_delta_def delta_member_def
  by (rule emits_mems_cong, (rule json_rules)+) simp

lemma meminfo_get_simps:
  "meminfo_get d ''MemTotal'' = mem_total_kb d"
  "meminfo_get d ''MemAvailable'' = mem_available_kb d"
  "meminfo_get d ''MemFree'' = mem_free_kb d"
  "meminfo_get d ''Buffers'' = buffers_kb d"
  "meminfo_get d ''Cached'' = cached_kb d"
  "meminfo_get d ''Slab'' = slab_kb d"
  "meminfo_get d ''SReclaimable'' = sreclaimable_kb d"
  "meminfo_get d ''SUnreclaim'' = sunreclaim_kb d"
  "meminfo_get d ''Active'' = active_kb d"
  "meminfo_get d ''Inactive'' = inactive_kb d"
  "meminfo_get d ''AnonPages'' = anon_pages_kb d"
  "meminfo_get d ''VmallocUsed'' = vmalloc_used_kb d"
  "meminfo_get d ''PageTables'' = page_tables_kb d"
  "meminfo_get d ''KernelStack'' = kernel_stack_kb d"
  "meminfo_get d ''Dirty'' = dirty_kb d"
  "meminfo_get d ''Mapped'' = mapped_kb d"
  by (simp_all add: meminfo_get_def meminfo_fields_def)

lemma delta_member_ok: "fst (delta_member name c p) = name" "jval_ok (snd (delta_member name c p))"
  by (cases p; simp add: delta_member_def key_ok_def)+

interpretation meminfo_out: snapshot_writer "meminfo_snapshot fmt" "meminfo_tree fmt" "\<lambda>s. True"
  "\<lambda>s. num_ok (fmt (usage_percent (mi_current s)))"
proof
  fix s :: "'a meminfo"
  show "emits_val (meminfo_snapshot fmt s) (meminfo_tree fmt s)"
    unfolding meminfo_snapshot_def Let_def
    by (rule emits_val_cong, (rule json_rules)+)
      (simp add: meminfo_tree_def meminfo_view_def Let_def meminfo_get_simps)
  assume "num_ok (fmt (usage_percent (mi_current s)))"
  then show "jval_ok (meminfo_tree fmt s)"
    by (simp add: meminfo_tree_def meminfo_view_def Let_def delta_member_ok key_ok_def)
qed

text \<open>The values of a record, by name.\<close>

definition meminfo_has :: "'d meminfo_data \<Rightarrow> (string \<Rightarrow> int) \<Rightarrow> bool" where
  "meminfo_has d f \<longleftrightarrow> (\<forall>(name, get) \<in> set meminfo_fields. get d = f name)"

lemma meminfo_has_init: "meminfo_has (meminfo_zero zero) (\<lambda>_. 0)"
  by (auto simp: meminfo_has_def meminfo_zero_field)

lemma meminfo_has_get:
  assumes "meminfo_has d f"
  shows
  "meminfo_get d ''MemTotal'' = f ''MemTotal''"
  "meminfo_get d ''MemAvailable'' = f ''MemAvailable''"
  "meminfo_get d ''MemFree'' = f ''MemFree''"
  "meminfo_get d ''Buffers'' = f ''Buffers''"
  "meminfo_get d ''Cached'' = f ''Cached''"
  "meminfo_get d ''Slab'' = f ''Slab''"
  "meminfo_get d ''SReclaimable'' = f ''SReclaimable''"
  "meminfo_get d ''SUnreclaim'' = f ''SUnreclaim''"
  "meminfo_get d ''Active'' = f ''Active''"
  "meminfo_get d ''Inactive'' = f ''Inactive''"
  "meminfo_get d ''AnonPages'' = f ''AnonPages''"
  "meminfo_get d ''VmallocUsed'' = f ''VmallocUsed''"
  "meminfo_get d ''PageTables'' = f ''PageTables''"
  "meminfo_get d ''KernelStack'' = f ''KernelStack''"
  "meminfo_get d ''Dirty'' = f ''Dirty''"
  "meminfo_get d ''Mapped'' = f ''Mapped''"
  using assms by (simp_all add: meminfo_has_def meminfo_fields_def meminfo_get_simps)

lemma meminfo_view_has:
  assumes "meminfo_has c f" "meminfo_has p g"
  shows "meminfo_view u (meminfo_get c) (Some (meminfo_get p)) = meminfo_view u f (Some g)"
  by (simp only: meminfo_view_def Let_def option.map meminfo_has_get[OF assms(1)] meminfo_has_get[OF assms(2)])

definition usage_of :: "(int \<Rightarrow> int \<Rightarrow> 'd) \<Rightarrow> 'd \<Rightarrow> (string \<times> string) list \<Rightarrow> 'd" where
  "usage_of pct zero kvs =
     (let t = kb_of kvs ''MemTotal'' in if t > 0 then pct (t - kb_of kvs ''MemAvailable'') t else zero)"

lemma meminfo_collect_has:
  assumes "meminfo_file fs kvs"
  obtains d where "meminfo_collect pct zero fs s = (0, \<lparr>mi_current = d, mi_previous = mi_current s, mi_has_previous = True\<rparr>)"
    "meminfo_has d (kb_of kvs)" "usage_percent d = usage_of pct zero kvs"
proof (rule exE[OF meminfo_collect_values[OF assms, of pct zero s]], elim conjE)
  fix d
  assume d: "meminfo_collect pct zero fs s = (0, \<lparr>mi_current = d, mi_previous = mi_current s, mi_has_previous = True\<rparr>)"
    "\<forall>(name, get) \<in> set meminfo_fields. get d = kb_of kvs name"
    "usage_percent d = (if mem_total_kb d > 0 then pct (mem_total_kb d - mem_available_kb d) (mem_total_kb d) else zero)"
  have h: "meminfo_has d (kb_of kvs)" using d(2) by (simp only: meminfo_has_def)
  have "usage_percent d = usage_of pct zero kvs"
    unfolding usage_of_def Let_def d(3) meminfo_has_get(1)[OF h, symmetric] meminfo_has_get(2)[OF h, symmetric] meminfo_get_simps ..
  then show thesis by (rule that[OF d(1) h])
qed

lemma meminfo_snapshot_view:
  assumes "meminfo_file fs kvs" "meminfo_has (mi_current s) g" "num_ok (fmt (usage_of pct zero kvs))"
    and "view = meminfo_view (fmt (usage_of pct zero kvs)) (kb_of kvs) (Some g)" "length (render view) < sz" "sz \<le> length buf"
  shows "json_parse (jb_out (meminfo_snapshot fmt (snd (meminfo_collect pct zero fs s)) (json_init buf sz))) = Some view"
proof -
  obtain d where d: "meminfo_collect pct zero fs s = (0, \<lparr>mi_current = d, mi_previous = mi_current s, mi_has_previous = True\<rparr>)"
    "meminfo_has d (kb_of kvs)" "usage_percent d = usage_of pct zero kvs"
    using meminfo_collect_has[OF assms(1)] by metis
  let ?s = "snd (meminfo_collect pct zero fs s)"
  have "meminfo_tree fmt ?s = view"
    using meminfo_view_has[OF d(2) assms(2)] d assms(4) by (simp add: meminfo_tree_def)
  then show ?thesis using meminfo_out.parses_back[where fmt = fmt and w = ?s and sz = sz and buf = buf] assms(3,5,6) d by simp
qed

text \<open>
  C25 (two collections). After two collections of readable files, the snapshot parses back to the values of the second
  file and their differences from the first; a value the file does not have, or a negative one, counts as 0.
\<close>

theorem meminfo_reports_changes:
  assumes "meminfo_file fs1 kvs1" "meminfo_file fs2 kvs2" "num_ok (fmt (usage_of pct zero kvs2))"
    and "view = meminfo_view (fmt (usage_of pct zero kvs2)) (kb_of kvs2) (Some (kb_of kvs1))" "length (render view) < sz" "sz \<le> length buf"
  shows "json_parse (jb_out (meminfo_snapshot fmt
      (snd (meminfo_collect pct zero fs2 (snd (meminfo_collect pct zero fs1 s)))) (json_init buf sz))) = Some view"
proof -
  obtain d where "meminfo_collect pct zero fs1 s = (0, \<lparr>mi_current = d, mi_previous = mi_current s, mi_has_previous = True\<rparr>)"
    "meminfo_has d (kb_of kvs1)"
    using meminfo_collect_has[OF assms(1)] by metis
  then show ?thesis using assms by (intro meminfo_snapshot_view) simp_all
qed

definition demo_meminfo :: "int \<Rightarrow> int \<Rightarrow> proc_fs" where
  "demo_meminfo t a = [''/proc/meminfo'' \<mapsto> (kv_text [(''MemTotal'', int_str t), (''MemAvailable'', int_str a)], [])]"

lemma demo_meminfo_file:
  "meminfo_file (demo_meminfo 200 50) [(''MemTotal'', ''200''), (''MemAvailable'', ''50'')]"
  "meminfo_file (demo_meminfo 100 80) [(''MemTotal'', ''100''), (''MemAvailable'', ''80'')]"
  by (simp_all add: meminfo_file_def demo_meminfo_def kv_ok_def plain_key_def plain_num_def isspace_def int_str_def nat_str.simps)

theorem meminfo_reports_changes_witness:
  "json_parse (jb_out (meminfo_snapshot int_str
      (snd (meminfo_collect (\<lambda>u t. 100 * u div t) 0 (demo_meminfo 100 80)
        (snd (meminfo_collect (\<lambda>u t. 100 * u div t) 0 (demo_meminfo 200 50) (meminfo_init 0))))) (json_init (replicate 4096 NUL) 4096))) =
    Some (meminfo_view ''20'' (kb_of [(''MemTotal'', ''100''), (''MemAvailable'', ''80'')])
      (Some (kb_of [(''MemTotal'', ''200''), (''MemAvailable'', ''50'')])))"
proof -
  let ?u = "usage_of (\<lambda>u t. 100 * u div t) 0 [(''MemTotal'', ''100''), (''MemAvailable'', ''80'')]"
  have n: "strtoll ''100'' = 100" "strtoll ''80'' = 80" "strtoll ''200'' = 200" "strtoll ''50'' = 50"
    by (simp_all add: strtoll_def isspace_def isdigit_def clamp64_def digit_val_def Let_def)
  have u: "?u = 20" by (simp add: usage_of_def kb_of_def n)
  have i: "int_str ?u = ''20''" by (simp add: u int_str_def nat_str.simps)
  have l: "length (render (meminfo_view ''20'' (kb_of [(''MemTotal'', ''100''), (''MemAvailable'', ''80'')])
      (Some (kb_of [(''MemTotal'', ''200''), (''MemAvailable'', ''50'')])))) < 4096"
    by code_simp
  have o7: "num_ok ''20''" using num_ok_int[of 20] by (simp add: int_str_def nat_str.simps)
  show ?thesis
    by (rule meminfo_reports_changes[OF demo_meminfo_file(1,2), where pct = "\<lambda>u t. 100 * u div t" and zero = 0 and fmt = int_str])
      (simp_all only: i l o7 length_replicate order_refl)
qed

text \<open>
  Also (the first collection). The first snapshot already has differences: each one is the full value, because the collection
  marks the zeroed record as the previous one.
\<close>

theorem meminfo_first_deltas:
  assumes "meminfo_file fs kvs" "num_ok (fmt (usage_of pct zero kvs))"
    and "view = meminfo_view (fmt (usage_of pct zero kvs)) (kb_of kvs) (Some (\<lambda>_. 0))" "length (render view) < sz" "sz \<le> length buf"
  shows "json_parse (jb_out (meminfo_snapshot fmt (snd (meminfo_collect pct zero fs (meminfo_init zero))) (json_init buf sz))) = Some view"
  using assms meminfo_has_init by (intro meminfo_snapshot_view) (simp_all add: meminfo_init_def)

theorem meminfo_first_deltas_witness:
  "json_parse (jb_out (meminfo_snapshot int_str (snd (meminfo_collect (\<lambda>u t. 7) 0 (demo_meminfo 200 50) (meminfo_init 0)))
      (json_init (replicate 4096 NUL) 4096))) =
    Some (meminfo_view ''7'' (kb_of [(''MemTotal'', ''200''), (''MemAvailable'', ''50'')]) (Some (\<lambda>_. 0)))"
proof -
  have n: "strtoll ''200'' = 200" "strtoll ''50'' = 50"
    by (simp_all add: strtoll_def isspace_def isdigit_def clamp64_def digit_val_def Let_def)
  have i: "int_str (usage_of (\<lambda>u t. 7) 0 [(''MemTotal'', ''200''), (''MemAvailable'', ''50'')]) = ''7''"
    by (simp add: usage_of_def kb_of_def n int_str_def nat_str.simps)
  have l: "length (render (meminfo_view ''7'' (kb_of [(''MemTotal'', ''200''), (''MemAvailable'', ''50'')]) (Some (\<lambda>_. 0)))) < 4096"
    by code_simp
  have o7: "num_ok ''7''" using num_ok_int[of 7] by (simp add: int_str_def nat_str.simps)
  show ?thesis
    by (rule meminfo_first_deltas[OF demo_meminfo_file(1), where pct = "\<lambda>u t. 7" and zero = 0 and fmt = int_str])
      (simp_all only: i l o7 length_replicate order_refl)
qed

text \<open>
  Also (an unreadable file). A failing collection returns -1 and leaves the old values, but as values of both collections: the snapshot
  that follows shows them as current, with differences of 0.
\<close>

theorem meminfo_unreadable:
  assumes "proc_read_file fs ''/proc/meminfo'' 8192 = None"
  shows "fst (meminfo_collect pct zero fs s) = -1 \<and>
    meminfo_tree fmt (snd (meminfo_collect pct zero fs s)) =
      meminfo_view (fmt (usage_percent (mi_current s))) (meminfo_get (mi_current s)) (Some (meminfo_get (mi_current s)))"
  using assms by (simp add: meminfo_collect_def parse_meminfo_def meminfo_tree_def)

theorem meminfo_unreadable_witness:
  "fst (meminfo_collect (\<lambda>u t. 0) 0 (\<lambda>p. None) (meminfo_init (0 :: int))) = -1"
  using meminfo_unreadable[of "\<lambda>p. None" "\<lambda>u t. 0" "0 :: int" "meminfo_init 0"] by (simp add: proc_read_file_def)

end
