(* ===== verification/Memleak.thy ===== *)
theory Memleak
  imports Heapmon Slabinfo Meminfo
begin

text \<open>
  The leak service (\<open>src/services/memleak.c\<close>): one plugin that contains the memory, slab, heap and system memory services, runs them in this
  order and reports their results together. Its state is the states of the four. \<open>None\<close> is a traversal of the process
  tables that does not end.
\<close>

section \<open>Operations\<close>

record 'd memleak =
  ml_procmem :: procmem
  ml_slabinfo :: slabinfo
  ml_heapmon :: heapmon
  ml_meminfo :: "'d meminfo"

definition memleak_init :: "'d \<Rightarrow> 'd memleak" where
  "memleak_init zero = \<lparr>ml_procmem = procmem_init, ml_slabinfo = slabinfo_init, ml_heapmon = heapmon_init, ml_meminfo = meminfo_init zero\<rparr>"

text \<open>The results of the four collections are ignored.\<close>

definition memleak_collect ::
    "(int \<Rightarrow> int \<Rightarrow> 'd) \<Rightarrow> 'd \<Rightarrow> proc_fs \<Rightarrow> string list option \<Rightarrow> 'd memleak \<Rightarrow> (int \<times> 'd memleak) option" where
  "memleak_collect pct zero fs dir s =
     (case procmem_collect fs dir (ml_procmem s) of
        None \<Rightarrow> None
      | Some pm \<Rightarrow>
          (let sl = snd (slabinfo_collect fs (ml_slabinfo s))
           in case heapmon_collect fs pm (ml_heapmon s) of
                None \<Rightarrow> None
              | Some hm \<Rightarrow> Some (0, \<lparr>ml_procmem = pm, ml_slabinfo = sl, ml_heapmon = hm,
                  ml_meminfo = snd (meminfo_collect pct zero fs (ml_meminfo s))\<rparr>)))"

definition kernel_leak_obj :: "slab_entry \<Rightarrow> json_builder \<Rightarrow> json_builder" where
  "kernel_leak_obj e = jobj [json_kv_string ''cache'' (Some (se_name e)), json_kv_int ''delta_bytes'' (se_delta_bytes e),
     json_kv_int ''total_bytes'' (se_size_bytes e)]"

definition user_leak_obj :: "heapmon_entry \<Rightarrow> json_builder \<Rightarrow> json_builder" where
  "user_leak_obj e = jobj [json_kv_int ''pid'' (he_pid e), json_kv_string ''cmd'' (Some (he_cmd e)), json_kv_int ''rss_kb'' (he_rss e),
     json_kv_int ''rss_delta_kb'' (he_rss_delta e), json_kv_int ''heap_rss_kb'' (he_heap_rss e),
     json_kv_int ''heap_delta_kb'' (he_heap_rss_delta e), json_kv_int ''heap_pd_kb'' (he_heap_pd e),
     json_kv_int ''heap_pd_delta_kb'' (he_heap_pd_delta e), json_kv_int ''heap_size_kb'' (he_heap_size e)]"

definition process_usage_obj :: "heap_usage \<Rightarrow> json_builder \<Rightarrow> json_builder" where
  "process_usage_obj e = jobj [json_kv_int ''pid'' (he_pid e), json_kv_string ''cmd'' (Some (he_cmd e)), json_kv_int ''rss_kb'' (he_rss e),
     json_kv_int ''rss_delta_kb'' (he_rss_delta e), json_kv_int ''heap_rss_kb'' (he_heap_rss e),
     json_kv_int ''heap_delta_kb'' (he_heap_rss_delta e), json_kv_int ''heap_pd_kb'' (he_heap_pd e),
     json_kv_int ''heap_size_kb'' (he_heap_size e)]"

definition kernel_usage_obj :: "slab_entry \<Rightarrow> json_builder \<Rightarrow> json_builder" where
  "kernel_usage_obj e = jobj [json_kv_string ''cache'' (Some (se_name e)), json_kv_int ''total_bytes'' (se_size_bytes e),
     json_kv_int ''delta_bytes'' (se_delta_bytes e), json_kv_int ''active_objs'' (se_num_objs e),
     json_kv_int ''delta_objs'' (se_delta_objs e)]"

definition memory_summary_obj :: "meminfo_status \<Rightarrow> json_builder \<Rightarrow> json_builder" where
  "memory_summary_obj st = jobj [json_kv_int ''total_kb'' (st_total_kb st), json_kv_int ''free_kb'' (st_free_kb st),
     json_kv_int ''available_kb'' (st_available_kb st), json_kv_int ''cached_kb'' (st_cached_kb st)]"

text \<open>The four lists the snapshot asks for, ten entries each.\<close>

definition memleak_lists :: "'d memleak \<Rightarrow> (slab_entry list \<times> heapmon_entry list \<times> heap_usage list \<times> slab_entry list) option" where
  "memleak_lists s =
     (case (slabinfo_get_top_growers (ml_slabinfo s) 10, heapmon_get_entries (ml_heapmon s) 10,
            heapmon_get_top_consumers (ml_procmem s) (ml_heapmon s) 10, slabinfo_get_top_consumers (ml_slabinfo s) 10) of
        (Some (_, a), Some (_, b), Some (_, c), Some (_, d)) \<Rightarrow> Some (a, b, c, d)
      | _ \<Rightarrow> None)"

definition memleak_json ::
    "meminfo_status \<Rightarrow> slab_entry list \<times> heapmon_entry list \<times> heap_usage list \<times> slab_entry list \<Rightarrow> json_builder \<Rightarrow> json_builder" where
  "memleak_json st l =
     (case l of (growers, entries, consumers, caches) \<Rightarrow>
        jobj [jkey ''memory_summary'' (memory_summary_obj st),
              jkey ''kernel_leaks'' (jarr [fold kernel_leak_obj growers]),
              jkey ''user_leaks'' (jarr [fold user_leak_obj entries]),
              jkey ''process_usage'' (jarr [fold process_usage_obj consumers]),
              jkey ''kernel_usage'' (jarr [fold kernel_usage_obj caches])])"

definition memleak_snapshot :: "'d memleak \<Rightarrow> json_builder \<Rightarrow> json_builder option" where
  "memleak_snapshot s j = map_option (\<lambda>l. memleak_json (meminfo_get_status (ml_meminfo s)) l j) (memleak_lists s)"

section \<open>Collections\<close>

definition memleak_inv :: "'d memleak \<Rightarrow> bool" where
  "memleak_inv s \<longleftrightarrow> procmem_inv (ml_procmem s) \<and> heapmon_inv (ml_heapmon s)"

lemma memleak_inv_init: "memleak_inv (memleak_init zero)"
  by (simp add: memleak_inv_def memleak_init_def procmem_inv_init heapmon_inv_init)

lemma heapmon_collect_keeps: "procmem_inv pm \<Longrightarrow> heapmon_inv s \<Longrightarrow> \<exists>s'. heapmon_collect fs pm s = Some s' \<and> heapmon_inv s'"
  using heapmon_collect_step by blast

lemma heap_consumers_return:
  "procmem_inv pm \<Longrightarrow> \<exists>es. heap_consumers pm s cs = Some es \<and> map he_pid es = map hd_pid cs"
proof (induction cs)
  case (Cons c cs)
  then obtain es where es: "heap_consumers pm s cs = Some es" "map he_pid es = map hd_pid cs" by blast
  obtain i where "procmem_get_pid_info pm (hd_pid c) = Some i" using pid_info_returns[OF Cons.prems] by blast
  then obtain e where "heap_consumer pm s c = Some e" "he_pid e = hd_pid c" by (simp add: heap_consumer_def Let_def)
  then show ?case using es by simp
qed simp

lemma compare_heap_consumers_eq: "compare_heap_consumers = cmp_desc (\<lambda>e. (he_heap_rss e, he_rss e))"
  by (intro ext) (auto simp: compare_heap_consumers_def cmp_desc_def)

lemma memleak_collect_returns:
  assumes "memleak_inv s" "length (stored_pids fs dir) \<le> 8192"
  shows "\<exists>s'. memleak_collect pct zero fs dir s = Some (0, s') \<and> memleak_inv s' \<and>
    procmem_collect fs dir (ml_procmem s) = Some (ml_procmem s') \<and>
    ml_slabinfo s' = snd (slabinfo_collect fs (ml_slabinfo s)) \<and>
    heapmon_collect fs (ml_procmem s') (ml_heapmon s) = Some (ml_heapmon s') \<and>
    ml_meminfo s' = snd (meminfo_collect pct zero fs (ml_meminfo s))"
proof -
  obtain pm where pm: "procmem_collect fs dir (ml_procmem s) = Some pm" "procmem_inv pm"
    using collect_inv[of "ml_procmem s" fs dir] assms by (auto simp: memleak_inv_def)
  obtain hm where hm: "heapmon_collect fs pm (ml_heapmon s) = Some hm" "heapmon_inv hm"
    using heapmon_collect_keeps[OF pm(2), of "ml_heapmon s"] assms(1) by (auto simp: memleak_inv_def)
  then show ?thesis using pm by (auto simp: memleak_collect_def memleak_inv_def)
qed

section \<open>What a report says of a process\<close>

text \<open>The sizes of a reading of the heap, with the changes since the reading of the same process in the round before.\<close>

definition measured :: "heap_data list \<Rightarrow> heap_data \<Rightarrow> 'a heap_usage_scheme \<Rightarrow> bool" where
  "measured previous c u \<longleftrightarrow> he_pid u = hd_pid c \<and> he_heap_size u = hd_heap_size c \<and> he_heap_rss u = hd_heap_rss c \<and>
     he_heap_pd u = hd_heap_pd c \<and>
     (case List.find (\<lambda>p. hd_pid p = hd_pid c) previous of
        None \<Rightarrow> he_heap_rss_delta u = 0 \<and> he_heap_pd_delta u = 0
      | Some p \<Rightarrow> he_heap_rss_delta u = hd_heap_rss c - hd_heap_rss p \<and> he_heap_pd_delta u = hd_heap_pd c - hd_heap_pd p)"

text \<open>The two kinds of entries: a process with a large heap, with the name in the table of processes, and a result of the heap service.\<close>

definition consumer_shows :: "procmem \<Rightarrow> heap_data list \<Rightarrow> heap_data \<Rightarrow> heap_usage \<Rightarrow> bool" where
  "consumer_shows pm previous c u \<longleftrightarrow> measured previous c u \<and>
     (case procmem_get_pid_info pm (hd_pid c) of
        Some (Some pe) \<Rightarrow> he_cmd u = bounded_copy 128 (pe_cmd pe) \<and> he_rss u = pe_rss pe \<and>
          he_rss_delta u = (if \<exists>p \<in> set previous. hd_pid p = hd_pid c then pe_rss_delta pe else 0)
      | _ \<Rightarrow> he_cmd u = ''(unknown)'' \<and> he_rss u = hd_heap_rss c \<and> he_rss_delta u = 0)"

definition result_shows :: "proc_fs \<Rightarrow> procmem \<Rightarrow> heap_data list \<Rightarrow> heap_data \<Rightarrow> heapmon_entry \<Rightarrow> bool" where
  "result_shows fs pm previous c e \<longleftrightarrow> measured previous c e \<and> (\<exists>old. he_cmd e = entry_cmd fs (hd_pid c) old) \<and>
     (case procmem_get_pid_info pm (hd_pid c) of
        Some (Some pe) \<Rightarrow> he_rss e = pe_rss pe \<and> he_rss_delta e = pe_rss_delta pe
      | _ \<Rightarrow> he_rss e = 0 \<and> he_rss_delta e = 0)"

lemma find_none: "List.find (\<lambda>p. hd_pid p = k) ds = None \<longleftrightarrow> \<not> (\<exists>p \<in> set ds. hd_pid p = k)"
  by (auto simp: find_None_iff)

lemma heap_consumers_show:
  "heap_consumers pm s cs = Some es \<Longrightarrow> list_all2 (consumer_shows pm (hm_previous s)) cs es"
proof (induction cs arbitrary: es)
  case (Cons c cs)
  then obtain e es' where e: "heap_consumer pm s c = Some e" "heap_consumers pm s cs = Some es'" "es = e # es'"
    by (auto split: option.splits)
  obtain info where info: "procmem_get_pid_info pm (hd_pid c) = Some info" using e(1)
    by (auto simp: heap_consumer_def split: option.splits)
  have "consumer_shows pm (hm_previous s) c e"
  proof (cases "List.find (\<lambda>p. hd_pid p = hd_pid c) (hm_previous s)")
    case None
    moreover from this have "\<not> (\<exists>p \<in> set (hm_previous s). hd_pid p = hd_pid c)" unfolding find_none .
    ultimately show ?thesis using e(1) info
      by (cases info) (auto simp: consumer_shows_def measured_def heap_consumer_def find_pid_def Let_def)
  next
    case (Some p)
    moreover have "\<exists>p \<in> set (hm_previous s). hd_pid p = hd_pid c" using Some find_none by (metis option.distinct(1))
    ultimately show ?thesis using e(1) info
      by (cases info) (auto simp: consumer_shows_def measured_def heap_consumer_def find_pid_def Let_def)
  qed
  then show ?case using Cons.IH[OF e(2)] e(3) by simp
qed simp

text \<open>The readings of a round of the heap service: one for each target whose file can be read.\<close>

definition reading :: "proc_fs \<Rightarrow> int \<Rightarrow> heap_data option" where
  "reading fs pid = map_option (\<lambda>(a, b, c). \<lparr>hd_pid = pid, hd_heap_size = a, hd_heap_rss = b, hd_heap_pd = c\<rparr>) (parse_heap_smaps fs pid)"

lemma scan_target_shows:
  assumes "scan_target fs pm p s = Some s1" "heapmon_inv s" "hm_result_count s < 12"
    and "list_all2 (result_shows fs pm (hm_previous s)) (hm_current s) (take (hm_result_count s) (hm_results s))"
  shows "hm_current s1 = hm_current s @ List.map_filter (reading fs) [p] \<and> hm_previous s1 = hm_previous s \<and>
    list_all2 (result_shows fs pm (hm_previous s)) (hm_current s1) (take (hm_result_count s1) (hm_results s1))"
proof (cases "parse_heap_smaps fs p")
  case None
  then show ?thesis using assms by (simp add: scan_target_def reading_def map_filter_simps)
next
  case (Some v)
  obtain a b c where v: "v = (a, b, c)" by (cases v)
  obtain i where i: "procmem_get_pid_info pm p = Some i" using assms(1) by (auto simp: scan_target_def Some v split: option.splits)
  let ?cur = "\<lparr>hd_pid = p, hd_heap_size = a, hd_heap_rss = b, hd_heap_pd = c\<rparr>"
  let ?new = "\<lparr>hd_pid = p, hd_heap_size = a, hd_heap_rss = b, hd_heap_pd = c, hd_rss = (case i of None \<Rightarrow> 0 | Some pe \<Rightarrow> pe_rss pe)\<rparr>"
  obtain j inits where f: "find_or_create_initial ?new (hm_initial s) = (j, inits)" by fastforce
  let ?k = "hm_result_count s"
  let ?e = "heap_result (entry_cmd fs p (he_cmd (hm_results s ! ?k))) ?cur (find_pid (hm_previous s) p) i j"
  have s1: "s1 = s\<lparr>hm_current := hm_current s @ [?cur], hm_results := (hm_results s)[?k := ?e], hm_result_count := ?k + 1, hm_initial := inits\<rparr>"
    using assms(1) by (simp add: scan_target_def Some v i f Let_def)
  have "?k < length (hm_results s)" using assms(2,3) by (simp add: heapmon_inv_def)
  then have "take (?k + 1) ((hm_results s)[?k := ?e]) = take ?k (hm_results s) @ [?e]"
    by (simp add: take_Suc_conv_app_nth)
  moreover have "result_shows fs pm (hm_previous s) ?cur ?e"
    by (cases i) (auto simp: result_shows_def measured_def heap_result_def i find_pid_def Let_def split: option.splits)
  ultimately show ?thesis using assms(4)
    by (simp add: s1 reading_def map_filter_simps Some v list_all2_appendI)
qed

lemma scan_targets_show:
  assumes "procmem_inv pm"
  shows "scan_targets fs pm ts s = Some s' \<Longrightarrow> heapmon_inv s \<Longrightarrow> hm_result_count s + length ts \<le> 12 \<Longrightarrow>
    list_all2 (result_shows fs pm (hm_previous s)) (hm_current s) (take (hm_result_count s) (hm_results s)) \<Longrightarrow>
    hm_current s' = hm_current s @ List.map_filter (reading fs) ts \<and> hm_previous s' = hm_previous s \<and> heapmon_inv s' \<and>
    list_all2 (result_shows fs pm (hm_previous s)) (hm_current s') (take (hm_result_count s') (hm_results s'))"
proof (induction ts arbitrary: s)
  case (Cons p ps)
  obtain s1 where s1: "scan_target fs pm p s = Some s1" "scan_targets fs pm ps s1 = Some s'"
    using Cons.prems(1) by (auto split: option.splits)
  obtain s1' where "scan_targets fs pm [p] s = Some s1'" "heapmon_inv s1'"
    using scan_targets_ok[OF assms Cons.prems(2), of "[p]" fs] Cons.prems(3) by auto
  then have i1: "heapmon_inv s1" using s1(1) by simp
  have "hm_result_count s < 12" using Cons.prems(3) by simp
  note h = scan_target_shows[OF s1(1) Cons.prems(2) this Cons.prems(4)]
  have c: "hm_result_count s1 \<le> hm_result_count s + 1"
    using i1 Cons.prems(2) h by (cases "reading fs p") (simp_all add: heapmon_inv_def map_filter_simps)
  have "hm_current s' = hm_current s1 @ List.map_filter (reading fs) ps \<and> hm_previous s' = hm_previous s1 \<and> heapmon_inv s' \<and>
    list_all2 (result_shows fs pm (hm_previous s1)) (hm_current s') (take (hm_result_count s') (hm_results s'))"
    by (rule Cons.IH[OF s1(2) i1]) (use c Cons.prems(3) h in auto)
  then show ?case using h by (cases "reading fs p") (auto simp: map_filter_simps)
qed (simp add: map_filter_simps)

lemma heapmon_collect_shows:
  assumes "procmem_inv pm" "heapmon_inv s" "heapmon_collect fs pm s = Some s'"
  shows "hm_previous s' = hm_current s \<and>
    hm_current s' = List.map_filter (reading fs) (add_targets (map pe_pid (take 6 (pm_growers pm))) (map pe_pid (take 6 (pm_top_rss pm)))) \<and>
    (\<exists>rs. mset rs = mset (heap_entries s') \<and> list_all2 (result_shows fs pm (hm_current s)) (hm_current s') rs)"
proof -
  let ?ts = "add_targets (map pe_pid (take 6 (pm_growers pm))) (map pe_pid (take 6 (pm_top_rss pm)))"
  let ?s0 = "s\<lparr>hm_previous := hm_current s, hm_targets := ?ts, hm_current := [], hm_result_count := 0\<rparr>"
  obtain s1 where s1: "scan_targets fs pm ?ts ?s0 = Some s1"
    and s': "s' = s1\<lparr>hm_results := exchange_sort rss_change (hm_result_count s1) (hm_results s1), hm_targets := [], hm_has_previous := True\<rparr>"
    using assms(3) by (auto simp: heapmon_collect_def choose_targets_ok split: option.splits)
  have "length ?ts \<le> 12" by (rule add_targets_length) simp
  moreover have "heapmon_inv ?s0" using assms(2) by (simp add: heapmon_inv_def)
  ultimately have h: "hm_current s1 = List.map_filter (reading fs) ?ts" "hm_previous s1 = hm_current s" "heapmon_inv s1"
    "list_all2 (result_shows fs pm (hm_current s)) (hm_current s1) (take (hm_result_count s1) (hm_results s1))"
    using scan_targets_show[OF assms(1) s1] by auto
  have "hm_result_count s1 \<le> length (hm_results s1)" using h(3) by (simp add: heapmon_inv_def)
  note r = exchange_sort_sorts(2)[OF this, of rss_change]
  show ?thesis using h r unfolding s' by (auto simp: heap_entries_def intro!: exI[of _ "take (hm_result_count s1) (hm_results s1)"])
qed

section \<open>What is shown\<close>

definition kernel_leak_tree :: "slab_entry \<Rightarrow> jval" where
  "kernel_leak_tree e = JObj [(''cache'', JStr (se_name e)), (''delta_bytes'', JInt (se_delta_bytes e)), (''total_bytes'', JInt (se_size_bytes e))]"

definition user_leak_tree :: "heapmon_entry \<Rightarrow> jval" where
  "user_leak_tree e = JObj [(''pid'', JInt (he_pid e)), (''cmd'', JStr (he_cmd e)), (''rss_kb'', JInt (he_rss e)),
     (''rss_delta_kb'', JInt (he_rss_delta e)), (''heap_rss_kb'', JInt (he_heap_rss e)), (''heap_delta_kb'', JInt (he_heap_rss_delta e)),
     (''heap_pd_kb'', JInt (he_heap_pd e)), (''heap_pd_delta_kb'', JInt (he_heap_pd_delta e)), (''heap_size_kb'', JInt (he_heap_size e))]"

definition process_usage_tree :: "heap_usage \<Rightarrow> jval" where
  "process_usage_tree e = JObj [(''pid'', JInt (he_pid e)), (''cmd'', JStr (he_cmd e)), (''rss_kb'', JInt (he_rss e)),
     (''rss_delta_kb'', JInt (he_rss_delta e)), (''heap_rss_kb'', JInt (he_heap_rss e)), (''heap_delta_kb'', JInt (he_heap_rss_delta e)),
     (''heap_pd_kb'', JInt (he_heap_pd e)), (''heap_size_kb'', JInt (he_heap_size e))]"

definition kernel_usage_tree :: "slab_entry \<Rightarrow> jval" where
  "kernel_usage_tree e = JObj [(''cache'', JStr (se_name e)), (''total_bytes'', JInt (se_size_bytes e)), (''delta_bytes'', JInt (se_delta_bytes e)),
     (''active_objs'', JInt (se_num_objs e)), (''delta_objs'', JInt (se_delta_objs e))]"

definition memory_summary_tree :: "meminfo_status \<Rightarrow> jval" where
  "memory_summary_tree st = JObj [(''total_kb'', JInt (st_total_kb st)), (''free_kb'', JInt (st_free_kb st)),
     (''available_kb'', JInt (st_available_kb st)), (''cached_kb'', JInt (st_cached_kb st))]"

definition memleak_tree :: "meminfo_status \<times> slab_entry list \<times> heapmon_entry list \<times> heap_usage list \<times> slab_entry list \<Rightarrow> jval" where
  "memleak_tree w = (case w of (st, growers, entries, consumers, caches) \<Rightarrow>
     JObj [(''memory_summary'', memory_summary_tree st), (''kernel_leaks'', JArr (map kernel_leak_tree growers)),
       (''user_leaks'', JArr (map user_leak_tree entries)), (''process_usage'', JArr (map process_usage_tree consumers)),
       (''kernel_usage'', JArr (map kernel_usage_tree caches))])"

lemma emits_leak_objs [json_rules]:
  "emits_elts (kernel_leak_obj e) [kernel_leak_tree e]" "emits_elts (user_leak_obj h) [user_leak_tree h]"
  "emits_elts (process_usage_obj u) [process_usage_tree u]" "emits_elts (kernel_usage_obj e) [kernel_usage_tree e]"
  "emits_val (memory_summary_obj st) (memory_summary_tree st)"
  unfolding kernel_leak_obj_def kernel_leak_tree_def user_leak_obj_def user_leak_tree_def process_usage_obj_def process_usage_tree_def
    kernel_usage_obj_def kernel_usage_tree_def memory_summary_obj_def memory_summary_tree_def
  by (rule emits_elts_cong, (rule json_rules)+, simp)+ (rule emits_val_cong, (rule json_rules)+, simp)

interpretation memleak_out: snapshot_writer "\<lambda>w. memleak_json (fst w) (snd w)" memleak_tree "\<lambda>w. True" "\<lambda>w. True"
proof
  fix w :: "meminfo_status \<times> slab_entry list \<times> heapmon_entry list \<times> heap_usage list \<times> slab_entry list"
  obtain st a b c d where w: "w = (st, a, b, c, d)" by (cases w)
  show "emits_val (memleak_json (fst w) (snd w)) (memleak_tree w)"
    unfolding w fst_conv snd_conv memleak_json_def memleak_tree_def prod.case
    by (rule emits_val_cong, (rule json_rules)+) simp
  show "jval_ok (memleak_tree w)"
    by (auto simp: w memleak_tree_def kernel_leak_tree_def user_leak_tree_def process_usage_tree_def kernel_usage_tree_def
        memory_summary_tree_def key_ok_def)
qed

lemma memleak_lists_return:
  assumes "memleak_inv s"
  shows "\<exists>es. heap_consumers (ml_procmem s) (ml_heapmon s) (hm_current (ml_heapmon s)) = Some es \<and>
    memleak_lists s = Some (take 10 (sl_growers (ml_slabinfo s)), take 10 (heap_entries (ml_heapmon s)),
      take 10 (c_qsort compare_heap_consumers es),
      take 10 (c_qsort compare_slab_consumers (map (consumer_entry (ml_slabinfo s))
        (filter (\<lambda>c. sc_size_bytes c \<noteq> 0) (sl_current (ml_slabinfo s))))))"
proof -
  obtain es where "heap_consumers (ml_procmem s) (ml_heapmon s) (hm_current (ml_heapmon s)) = Some es"
    using heap_consumers_return[of "ml_procmem s"] assms by (auto simp: memleak_inv_def)
  then show ?thesis
    by (simp add: memleak_lists_def slabinfo_get_top_growers_def heapmon_get_entries_def heapmon_get_top_consumers_def
        slabinfo_get_top_consumers_def copy_top_length)
qed

text \<open>
  C14 (the unified report). From every state the service reaches a collection returns 0 in such a state. Each of the four services
  is then as its own collection leaves it, the heap service over the new table of processes. Its readings are those of the targets that can
  be read, and its results show them: the sizes, the changes since the reading before, the memory of the process in the table. The
  snapshot returns; when it fits the buffer it parses back to the memory summary, the ten first growers of
  the slab service, the ten first heap results, the ten readings with the largest heaps and the ten largest caches, in order, with the fields
  the readings and the table give.
\<close>

theorem memleak_reports:
  assumes "memleak_inv s" "length (stored_pids fs dir) \<le> 8192"
  shows "\<exists>s' us rs cs consumers caches. memleak_collect pct zero fs dir s = Some (0, s') \<and> memleak_inv s' \<and>
    procmem_collect fs dir (ml_procmem s) = Some (ml_procmem s') \<and>
    ml_slabinfo s' = snd (slabinfo_collect fs (ml_slabinfo s)) \<and>
    heapmon_collect fs (ml_procmem s') (ml_heapmon s) = Some (ml_heapmon s') \<and>
    ml_meminfo s' = snd (meminfo_collect pct zero fs (ml_meminfo s)) \<and>
    hm_current (ml_heapmon s') = List.map_filter (reading fs)
      (add_targets (map pe_pid (take 6 (pm_growers (ml_procmem s')))) (map pe_pid (take 6 (pm_top_rss (ml_procmem s'))))) \<and>
    mset rs = mset (heap_entries (ml_heapmon s')) \<and>
    list_all2 (result_shows fs (ml_procmem s') (hm_current (ml_heapmon s))) (hm_current (ml_heapmon s')) rs \<and>
    sorted_wrt (\<lambda>a b. rss_change b \<le> rss_change a) (heap_entries (ml_heapmon s')) \<and>
    list_all2 (consumer_shows (ml_procmem s') (hm_current (ml_heapmon s))) (hm_current (ml_heapmon s')) us \<and>
    best 10 (\<lambda>u. True) (\<lambda>a b. (he_heap_rss b, he_rss b) \<le> (he_heap_rss a, he_rss a)) us consumers \<and>
    cs = map (consumer_entry (ml_slabinfo s')) (filter (\<lambda>c. sc_size_bytes c \<noteq> 0) (sl_current (ml_slabinfo s'))) \<and>
    best 10 (\<lambda>e. True) (\<lambda>a b. se_size_bytes b \<le> se_size_bytes a) cs caches \<and>
    (let tree = memleak_tree (meminfo_get_status (ml_meminfo s'), take 10 (sl_growers (ml_slabinfo s')),
          take 10 (heap_entries (ml_heapmon s')), consumers, caches)
     in length (render tree) < sz \<and> sz \<le> length buf \<longrightarrow>
        (\<exists>j. memleak_snapshot s' (json_init buf sz) = Some j \<and> json_parse (jb_out j) = Some tree))"
proof -
  obtain s' where s': "memleak_collect pct zero fs dir s = Some (0, s')" "memleak_inv s'"
    "procmem_collect fs dir (ml_procmem s) = Some (ml_procmem s')" "ml_slabinfo s' = snd (slabinfo_collect fs (ml_slabinfo s))"
    "heapmon_collect fs (ml_procmem s') (ml_heapmon s) = Some (ml_heapmon s')" "ml_meminfo s' = snd (meminfo_collect pct zero fs (ml_meminfo s))"
    using memleak_collect_returns[OF assms] by blast
  have i: "procmem_inv (ml_procmem s')" "heapmon_inv (ml_heapmon s)" using assms(1) s'(2) by (simp_all add: memleak_inv_def)
  obtain rs where hm: "hm_previous (ml_heapmon s') = hm_current (ml_heapmon s)"
    "hm_current (ml_heapmon s') = List.map_filter (reading fs)
      (add_targets (map pe_pid (take 6 (pm_growers (ml_procmem s')))) (map pe_pid (take 6 (pm_top_rss (ml_procmem s')))))"
    "mset rs = mset (heap_entries (ml_heapmon s'))"
    "list_all2 (result_shows fs (ml_procmem s') (hm_current (ml_heapmon s))) (hm_current (ml_heapmon s')) rs"
    using heapmon_collect_shows[OF i s'(5)] by blast
  have srt: "sorted_wrt (\<lambda>a b. rss_change b \<le> rss_change a) (heap_entries (ml_heapmon s'))"
    using heapmon_collect_step[OF i, of fs] s'(5) by auto
  obtain es where es: "heap_consumers (ml_procmem s') (ml_heapmon s') (hm_current (ml_heapmon s')) = Some es"
    and l: "memleak_lists s' = Some (take 10 (sl_growers (ml_slabinfo s')), take 10 (heap_entries (ml_heapmon s')),
      take 10 (c_qsort compare_heap_consumers es),
      take 10 (c_qsort compare_slab_consumers (map (consumer_entry (ml_slabinfo s'))
        (filter (\<lambda>c. sc_size_bytes c \<noteq> 0) (sl_current (ml_slabinfo s'))))))"
    using memleak_lists_return[OF s'(2)] by blast
  define cs where "cs = map (consumer_entry (ml_slabinfo s')) (filter (\<lambda>c. sc_size_bytes c \<noteq> 0) (sl_current (ml_slabinfo s')))"
  let ?c = "take 10 (c_qsort compare_heap_consumers es)" and ?k = "take 10 (c_qsort compare_slab_consumers cs)"
  let ?w = "(meminfo_get_status (ml_meminfo s'), take 10 (sl_growers (ml_slabinfo s')), take 10 (heap_entries (ml_heapmon s')), ?c, ?k)"
  have "list_all2 (consumer_shows (ml_procmem s') (hm_current (ml_heapmon s))) (hm_current (ml_heapmon s')) es"
    using heap_consumers_show[OF es] by (simp only: hm(1))
  moreover have "best 10 (\<lambda>u. True) (\<lambda>a b. (he_heap_rss b, he_rss b) \<le> (he_heap_rss a, he_rss a)) es ?c"
    using best_desc[of 10 "\<lambda>u. True" "\<lambda>e. (he_heap_rss e, he_rss e)" es] by (simp add: compare_heap_consumers_eq select_first_eq)
  moreover have "best 10 (\<lambda>e. True) (\<lambda>a b. se_size_bytes b \<le> se_size_bytes a) cs ?k"
    using best_desc[of 10 "\<lambda>u. True" se_size_bytes cs] by (simp add: slab_compare_eqs select_first_eq)
  moreover have "memleak_snapshot s' (json_init buf sz) = Some (memleak_json (fst ?w) (snd ?w) (json_init buf sz))"
    by (simp add: memleak_snapshot_def l cs_def)
  moreover have "json_parse (jb_out (memleak_json (fst ?w) (snd ?w) (json_init buf sz))) = Some (memleak_tree ?w)"
    if "length (render (memleak_tree ?w)) < sz" "sz \<le> length buf"
    by (rule memleak_out.parses_back) (use that in simp_all)
  ultimately show ?thesis using s' hm srt unfolding Let_def cs_def by blast
qed

theorem memleak_reports_witness:
  "\<exists>s'. memleak_collect (\<lambda>u t. 0) (0 :: int) (\<lambda>p. None) None (memleak_init 0) = Some (0, s') \<and> memleak_inv s'"
proof -
  have "length (stored_pids (\<lambda>p. None) None) \<le> 8192" by (simp add: stored_pids_def)
  from memleak_reports[OF memleak_inv_init[of "0 :: int"] this, of "\<lambda>u t. 0" 0] show ?thesis by blast
qed

end
