(* ===== verification/Vmstat.thy ===== *)
theory Vmstat
  imports ProcFields
begin

text \<open>
  The virtual memory service (\<open>src/services/vmstat.c\<close>): six counters of \<open>/proc/vmstat\<close>, read with \<open>sscanf\<close> line by line. A line with
  a name alone takes its number from the next line, because \<open>sscanf\<close> skips the line end.
\<close>

section \<open>State and operations\<close>

record vmstat_data =
  nr_slab_unreclaimable :: int
  nr_slab_reclaimable :: int
  nr_vmalloc :: int
  nr_kernel_stack :: int
  nr_page_table_pages :: int
  nr_dirty :: int
  nr_writeback :: int

definition vmstat_zero :: vmstat_data where
  "vmstat_zero = \<lparr>nr_slab_unreclaimable = 0, nr_slab_reclaimable = 0, nr_vmalloc = 0, nr_kernel_stack = 0,
     nr_page_table_pages = 0, nr_dirty = 0, nr_writeback = 0\<rparr>"

definition vmstat_init :: vmstat_data where
  "vmstat_init = vmstat_zero"

definition vmstat_set :: "string \<Rightarrow> int \<Rightarrow> vmstat_data \<Rightarrow> vmstat_data" where
  "vmstat_set key v d =
     (if key = ''nr_slab_unreclaimable'' then d\<lparr>nr_slab_unreclaimable := v\<rparr>
      else if key = ''nr_slab_reclaimable'' then d\<lparr>nr_slab_reclaimable := v\<rparr>
      else if key = ''nr_vmscan_write'' then d
      else if key = ''nr_kernel_stack'' then d\<lparr>nr_kernel_stack := v\<rparr>
      else if key = ''nr_page_table_pages'' then d\<lparr>nr_page_table_pages := v\<rparr>
      else if key = ''nr_dirty'' then d\<lparr>nr_dirty := v\<rparr>
      else if key = ''nr_writeback'' then d\<lparr>nr_writeback := v\<rparr>
      else d)"

definition vmstat_line :: "string \<Rightarrow> vmstat_data \<Rightarrow> vmstat_data" where
  "vmstat_line line d =
     (case sscanf [D_str 63, D_space, D_num K_long] line of [SStr key, SNum v] \<Rightarrow> vmstat_set key v d | _ \<Rightarrow> d)"

definition parse_vmstat :: "proc_fs \<Rightarrow> vmstat_data \<Rightarrow> int \<times> vmstat_data" where
  "parse_vmstat fs d =
     (case proc_read_file fs ''/proc/vmstat'' 32768 of
        None \<Rightarrow> (-1, d)
      | Some buf \<Rightarrow> (0, fold vmstat_line (line_suffixes (cstr buf)) vmstat_zero))"

definition vmstat_collect :: "proc_fs \<Rightarrow> vmstat_data \<Rightarrow> int \<times> vmstat_data" where
  "vmstat_collect fs s = parse_vmstat fs s"

definition vmstat_snapshot :: "vmstat_data \<Rightarrow> json_builder \<Rightarrow> json_builder" where
  "vmstat_snapshot d =
     jobj [json_kv_int ''nr_slab_unreclaimable'' (nr_slab_unreclaimable d),
           json_kv_int ''nr_slab_reclaimable'' (nr_slab_reclaimable d),
           json_kv_int ''nr_vmalloc'' (nr_vmalloc d),
           json_kv_int ''nr_kernel_stack'' (nr_kernel_stack d),
           json_kv_int ''nr_page_table_pages'' (nr_page_table_pages d),
           json_kv_int ''nr_dirty'' (nr_dirty d),
           json_kv_int ''nr_writeback'' (nr_writeback d)]"

definition vmstat_get_current :: "vmstat_data \<Rightarrow> vmstat_data" where
  "vmstat_get_current d = d"

section \<open>What a collection reads\<close>

definition vmstat_fields :: "(string \<times> (vmstat_data \<Rightarrow> int)) list" where
  "vmstat_fields = [(''nr_slab_unreclaimable'', nr_slab_unreclaimable), (''nr_slab_reclaimable'', nr_slab_reclaimable),
     (''nr_kernel_stack'', nr_kernel_stack), (''nr_page_table_pages'', nr_page_table_pages), (''nr_dirty'', nr_dirty),
     (''nr_writeback'', nr_writeback)]"

lemma vmstat_set_get:
  "nr_slab_unreclaimable (vmstat_set k v d) = (if k = ''nr_slab_unreclaimable'' then v else nr_slab_unreclaimable d)"
  "nr_slab_reclaimable (vmstat_set k v d) = (if k = ''nr_slab_reclaimable'' then v else nr_slab_reclaimable d)"
  "nr_kernel_stack (vmstat_set k v d) = (if k = ''nr_kernel_stack'' then v else nr_kernel_stack d)"
  "nr_page_table_pages (vmstat_set k v d) = (if k = ''nr_page_table_pages'' then v else nr_page_table_pages d)"
  "nr_dirty (vmstat_set k v d) = (if k = ''nr_dirty'' then v else nr_dirty d)"
  "nr_writeback (vmstat_set k v d) = (if k = ''nr_writeback'' then v else nr_writeback d)"
  "nr_vmalloc (vmstat_set k v d) = nr_vmalloc d"
  unfolding vmstat_set_def by simp_all

interpretation vm: keyed_record vmstat_set vmstat_fields
proof
  fix name and get :: "vmstat_data \<Rightarrow> int" and k v d
  assume "(name, get) \<in> set vmstat_fields"
  then show "get (vmstat_set k v d) = (if k = name then v else get d)"
    unfolding vmstat_fields_def by (simp only: list.set insert_iff empty_iff prod.inject simp_thms) (elim disjE conjE; simp only: vmstat_set_get)
qed

lemma vmstat_lines:
  "wv_ok 63 kvs \<Longrightarrow> fold vmstat_line (line_suffixes (wv_text kvs)) d = fold (\<lambda>(k, v). vmstat_set k v) kvs d"
proof (induction kvs arbitrary: d)
  case (Cons kv kvs)
  obtain k v where kv: "kv = (k, v)" by (cases kv)
  have "word_ok 63 k" "in_int64 v" "wv_ok 63 kvs" using Cons.prems by (auto simp: kv wv_ok_def)
  then have "vmstat_line (k @ CHR '' '' # int_str v @ LF # wv_text kvs) d = vmstat_set k v d"
    by (simp add: vmstat_line_def sscanf_word_number del: sscanf.simps)
  then show ?case using Cons.IH[OF \<open>wv_ok 63 kvs\<close>] wv_text_suffixes[of 63 k v kvs] Cons.prems by (simp add: kv)
qed (simp add: wv_text_def)

definition vmstat_view :: "(string \<times> int) list \<Rightarrow> jval" where
  "vmstat_view kvs =
     (let v = (\<lambda>name. (name, JInt (last_value kvs name 0)))
      in JObj [v ''nr_slab_unreclaimable'', v ''nr_slab_reclaimable'', (''nr_vmalloc'', JInt 0), v ''nr_kernel_stack'',
           v ''nr_page_table_pages'', v ''nr_dirty'', v ''nr_writeback''])"

definition vmstat_tree :: "vmstat_data \<Rightarrow> jval" where
  "vmstat_tree d =
     JObj [(''nr_slab_unreclaimable'', JInt (nr_slab_unreclaimable d)), (''nr_slab_reclaimable'', JInt (nr_slab_reclaimable d)),
       (''nr_vmalloc'', JInt (nr_vmalloc d)), (''nr_kernel_stack'', JInt (nr_kernel_stack d)),
       (''nr_page_table_pages'', JInt (nr_page_table_pages d)), (''nr_dirty'', JInt (nr_dirty d)), (''nr_writeback'', JInt (nr_writeback d))]"

interpretation vmstat_out: snapshot_writer vmstat_snapshot vmstat_tree "\<lambda>s. True" "\<lambda>s. True"
proof
  fix s
  show "emits_val (vmstat_snapshot s) (vmstat_tree s)"
    unfolding vmstat_snapshot_def by (rule emits_val_cong, (rule json_rules)+) (simp add: vmstat_tree_def)
  show "jval_ok (vmstat_tree s)" by (simp add: vmstat_tree_def key_ok_def)
qed

lemma vmstat_fold_vmalloc: "nr_vmalloc (fold (\<lambda>(k, v). vmstat_set k v) kvs d) = nr_vmalloc d"
  by (induction kvs arbitrary: d) (auto simp: vmstat_set_get)

lemma vmstat_fold_tree: "vmstat_tree (fold (\<lambda>(k, v). vmstat_set k v) kvs vmstat_zero) = vmstat_view kvs"
proof -
  have "get (fold (\<lambda>(k, v). vmstat_set k v) kvs vmstat_zero) = last_value kvs name 0" if "(name, get) \<in> set vmstat_fields" for name get
    using vm.after_lines[OF that, of kvs vmstat_zero] that by (auto simp: vmstat_fields_def vmstat_zero_def)
  then show ?thesis
    by (simp add: vmstat_tree_def vmstat_view_def Let_def vmstat_fold_vmalloc vmstat_fields_def) (simp add: vmstat_zero_def)
qed

text \<open>
  Also (the counters). When \<open>/proc/vmstat\<close> is readable and smaller than the buffer, the snapshot after a collection parses back to the last value the
  file has for each counter, 0 for one it does not have, and 0 for \<open>nr_vmalloc\<close> whatever the file says.
\<close>

theorem vmstat_reports:
  assumes "fs ''/proc/vmstat'' = Some (wv_text kvs, evs)" "Eio \<notin> set evs" "wv_ok 63 kvs" "length (wv_text kvs) < 32768"
    and "length (render (vmstat_view kvs)) < sz" "sz \<le> length buf"
  shows "fst (vmstat_collect fs s) = 0 \<and>
    json_parse (jb_out (vmstat_snapshot (snd (vmstat_collect fs s)) (json_init buf sz))) = Some (vmstat_view kvs)"
proof -
  have "proc_read_file fs ''/proc/vmstat'' 32768 = Some (wv_text kvs)"
    using proc_read_file_take[of fs _ "wv_text kvs" evs 32768, OF assms(1,2)] assms(4) by simp
  then have c: "vmstat_collect fs s = (0, fold (\<lambda>(k, v). vmstat_set k v) kvs vmstat_zero)"
    using vmstat_lines[OF assms(3)] wv_text_no_nul[OF assms(3)] by (simp add: vmstat_collect_def parse_vmstat_def)
  then show ?thesis
    using vmstat_out.parses_back[of "snd (vmstat_collect fs s)" sz buf] assms(5,6) by (simp add: vmstat_fold_tree)
qed

theorem vmstat_reports_witness:
  "json_parse (jb_out (vmstat_snapshot (snd (vmstat_collect [''/proc/vmstat'' \<mapsto> (''nr_dirty 7'' @ [LF], [])] vmstat_init))
     (json_init (replicate 500 NUL) 500))) = Some (vmstat_view [(''nr_dirty'', 7)])"
proof -
  have t: "wv_text [(''nr_dirty'', 7)] = ''nr_dirty 7'' @ [LF]" by (simp add: wv_text_def int_str_def nat_str.simps)
  have l: "length (render (vmstat_view [(''nr_dirty'', 7)])) < 500" by code_simp
  have w: "wv_ok 63 [(''nr_dirty'', 7)]" by (simp add: wv_ok_def word_ok_def isspace_def in_int64_def)
  show ?thesis
    using vmstat_reports[of "[''/proc/vmstat'' \<mapsto> (''nr_dirty 7'' @ [LF], [])]" "[(''nr_dirty'', 7)]" "[]" 500 "replicate 500 NUL" vmstat_init]
    by (simp only: t l w) simp
qed

end
