(* ===== verification/Netstat.thy ===== *)
theory Netstat
  imports ProcFields Sorting
begin

text \<open>
  The network service (\<open>src/services/netstat.c\<close>): the counters of at most 32 interfaces of \<open>/proc/net/dev\<close>, with the differences from the collection
  before, as 64-bit subtractions, and rates. A rate is a \<open>double\<close>: \<open>rate delta elapsed\<close> is the quotient the code
  computes, of type \<open>'d\<close>, and \<open>zero\<close> the bytes \<open>memset\<close> leaves.
\<close>

section \<open>State\<close>

record 'd netstat_iface =
  if_name :: string
  rx_bytes :: "64 word"
  rx_packets :: "64 word"
  rx_errors :: "64 word"
  rx_dropped :: "64 word"
  tx_bytes :: "64 word"
  tx_packets :: "64 word"
  tx_errors :: "64 word"
  tx_dropped :: "64 word"
  rx_bytes_delta :: int
  rx_packets_delta :: int
  tx_bytes_delta :: int
  tx_packets_delta :: int
  rx_rate :: 'd
  tx_rate :: 'd

record 'd netstat =
  ns_current :: "'d netstat_iface list"
  ns_previous :: "'d netstat_iface list"
  ns_has_previous :: bool
  ns_last_collect :: int

definition MAX_INTERFACES :: nat where "MAX_INTERFACES = 32"

definition netstat_init :: "'d netstat" where
  "netstat_init = \<lparr>ns_current = [], ns_previous = [], ns_has_previous = False, ns_last_collect = 0\<rparr>"

section \<open>Operations\<close>

definition net_format :: "directive list" where
  "net_format = D_num K_ulong # concat (replicate 15 [D_space, D_num K_ulong])"

fun snum :: "sval \<Rightarrow> 64 word" where
  "snum (SNum i) = word_of_int i"
| "snum (SStr s) = 0"

text \<open>The zeroed entry with the counters of the sixteen numbers scanned.\<close>

definition iface_of :: "'d \<Rightarrow> string \<Rightarrow> sval list \<Rightarrow> 'd netstat_iface" where
  "iface_of zero name r =
     \<lparr>if_name = name, rx_bytes = snum (r ! 0), rx_packets = snum (r ! 1), rx_errors = snum (r ! 2), rx_dropped = snum (r ! 3),
      tx_bytes = snum (r ! 8), tx_packets = snum (r ! 9), tx_errors = snum (r ! 10), tx_dropped = snum (r ! 11),
      rx_bytes_delta = 0, rx_packets_delta = 0, tx_bytes_delta = 0, tx_packets_delta = 0, rx_rate = zero, tx_rate = zero\<rparr>"

text \<open>The loop: the suffixes of the buffer at the line starts, the number of the line, the entries stored so far.\<close>

fun net_lines :: "'d \<Rightarrow> string list \<Rightarrow> nat \<Rightarrow> 'd netstat_iface list \<Rightarrow> 'd netstat_iface list" where
  "net_lines zero [] line_num ifs = ifs"
| "net_lines zero (line # ls) line_num ifs =
     (if length ifs \<ge> MAX_INTERFACES then ifs
      else if line_num < 2 then net_lines zero ls (line_num + 1) ifs
      else case strchr (CHR '':'') line of
          None \<Rightarrow> net_lines zero ls (line_num + 1) ifs
        | Some colon \<Rightarrow>
            (let name_start = dropWhile (\<lambda>c. c = CHR '' '') line;
                 len0 = length name_start - length colon;
                 name_len = (if len0 \<ge> 32 then 31 else len0);
                 r = sscanf net_format (tl colon)
             in net_lines zero ls (line_num + 1)
                  (if length r = 16 then ifs @ [iface_of zero (take name_len name_start) r] else ifs)))"

definition parse_net_dev :: "'d \<Rightarrow> proc_fs \<Rightarrow> 'd netstat_iface list \<Rightarrow> int \<times> 'd netstat_iface list" where
  "parse_net_dev zero fs ifs =
     (case proc_read_file fs ''/proc/net/dev'' 8192 of
        None \<Rightarrow> (-1, ifs)
      | Some buf \<Rightarrow> (0, net_lines zero (line_suffixes (cstr buf)) 0 []))"

definition find_iface :: "'d netstat_iface list \<Rightarrow> string \<Rightarrow> 'd netstat_iface option" where
  "find_iface ifs name = List.find (\<lambda>i. if_name i = name) ifs"

text \<open>An entry with its differences. The subtraction is unsigned and its result is read as a signed number.\<close>

definition iface_delta :: "(int \<Rightarrow> int \<Rightarrow> 'd) \<Rightarrow> int \<Rightarrow> 'd netstat_iface list \<Rightarrow> 'd netstat_iface \<Rightarrow> 'd netstat_iface" where
  "iface_delta rate elapsed previous cur =
     (case find_iface previous (if_name cur) of
        None \<Rightarrow> cur
      | Some prev \<Rightarrow>
          (let rb = sint (rx_bytes cur - rx_bytes prev); tb = sint (tx_bytes cur - tx_bytes prev)
           in cur\<lparr>rx_bytes_delta := rb, rx_packets_delta := sint (rx_packets cur - rx_packets prev), tx_bytes_delta := tb,
                 tx_packets_delta := sint (tx_packets cur - tx_packets prev), rx_rate := rate rb elapsed, tx_rate := rate tb elapsed\<rparr>))"

definition netstat_collect ::
    "(int \<Rightarrow> int \<Rightarrow> 'd) \<Rightarrow> 'd \<Rightarrow> int \<Rightarrow> proc_fs \<Rightarrow> 'd netstat \<Rightarrow> int \<times> 'd netstat" where
  "netstat_collect rate zero now fs s =
     (let s1 = s\<lparr>ns_previous := ns_current s\<rparr>
      in case parse_net_dev zero fs (ns_current s1) of
           (r, ifs) \<Rightarrow>
             if r < 0 then (-1, s1\<lparr>ns_current := ifs\<rparr>)
             else
               let elapsed = (if now - ns_last_collect s < 1 then 1 else now - ns_last_collect s)
               in (0, s1\<lparr>ns_current := (if ns_has_previous s1 then map (iface_delta rate elapsed (ns_previous s1)) ifs else ifs),
                         ns_last_collect := now, ns_has_previous := True\<rparr>))"

definition iface_obj :: "('d \<Rightarrow> string) \<Rightarrow> 'd netstat_iface \<Rightarrow> json_builder \<Rightarrow> json_builder" where
  "iface_obj fmt i = jobj [json_kv_string ''name'' (Some (if_name i)),
     jkey ''rx'' (jobj [json_kv_uint ''bytes'' (rx_bytes i), json_kv_uint ''packets'' (rx_packets i), json_kv_uint ''errors'' (rx_errors i),
       json_kv_uint ''dropped'' (rx_dropped i), json_kv_int ''bytes_delta'' (rx_bytes_delta i), json_kv_double fmt ''rate'' (rx_rate i)]),
     jkey ''tx'' (jobj [json_kv_uint ''bytes'' (tx_bytes i), json_kv_uint ''packets'' (tx_packets i), json_kv_uint ''errors'' (tx_errors i),
       json_kv_uint ''dropped'' (tx_dropped i), json_kv_int ''bytes_delta'' (tx_bytes_delta i), json_kv_double fmt ''rate'' (tx_rate i)])]"

definition netstat_snapshot :: "('d \<Rightarrow> string) \<Rightarrow> 'd netstat \<Rightarrow> json_builder \<Rightarrow> json_builder" where
  "netstat_snapshot fmt s = jobj [jkey ''interfaces'' (jarr [fold (iface_obj fmt) (ns_current s)])]"

definition netstat_get_interfaces :: "'d netstat \<Rightarrow> int \<Rightarrow> (int \<times> 'd netstat_iface list) option" where
  "netstat_get_interfaces s max_interfaces = copy_top (ns_current s) max_interfaces"

definition netstat_get_interface :: "'d netstat \<Rightarrow> string \<Rightarrow> 'd netstat_iface option" where
  "netstat_get_interface s name = find_iface (ns_current s) name"

section \<open>Reading the file\<close>

text \<open>
  A row: the blanks in front of the name, the name, the sixteen numbers and the blanks in front of each. The kernel prints
  \<open>%6s: %7llu %7llu\<close> and so on, so the columns are padded.
\<close>

record net_row =
  nr_pad :: nat
  nr_name :: string
  nr_vals :: "nat list"
  nr_gaps :: "nat list"

definition net_row_ok :: "net_row \<Rightarrow> bool" where
  "net_row_ok r \<longleftrightarrow> nr_name r \<noteq> [] \<and> length (nr_name r) < 32 \<and> hd (nr_name r) \<noteq> CHR '' '' \<and>
     (\<forall>c \<in> set (nr_name r). c \<noteq> CHR '':'' \<and> c \<noteq> LF \<and> c \<noteq> NUL) \<and> length (nr_vals r) = 16 \<and> (\<forall>v \<in> set (nr_vals r). v < 2 ^ 64) \<and>
     length (nr_gaps r) = 16 \<and> (\<forall>g \<in> set (nr_gaps r). 0 < g)"

definition net_columns :: "nat list \<Rightarrow> nat list \<Rightarrow> string" where
  "net_columns gs vs = concat (map2 (\<lambda>g v. blanks g @ nat_str v) gs vs)"

lemma net_columns_simps [simp]:
  "net_columns [] vs = []" "net_columns (g # gs) (v # vs) = blanks g @ nat_str v @ net_columns gs vs"
  by (simp_all add: net_columns_def)

definition net_row_text :: "net_row \<Rightarrow> string" where
  "net_row_text r = blanks (nr_pad r) @ nr_name r @ CHR '':'' # net_columns (nr_gaps r) (nr_vals r)"

definition net_text :: "string \<Rightarrow> string \<Rightarrow> net_row list \<Rightarrow> string" where
  "net_text h1 h2 rows = h1 @ LF # h2 @ LF # concat (map (\<lambda>r. net_row_text r @ [LF]) rows)"

definition iface_of_row :: "'d \<Rightarrow> net_row \<Rightarrow> 'd netstat_iface" where
  "iface_of_row zero r = iface_of zero (nr_name r) (map (\<lambda>v. SNum (int v)) (nr_vals r))"

lemma scan_ulongs:
  "\<forall>v \<in> set vs. v < 2 ^ 64 \<Longrightarrow> n = length vs \<Longrightarrow> length gs = n \<Longrightarrow> \<forall>g \<in> set gs. 0 < g \<Longrightarrow>
   sscanf (concat (replicate n [D_space, D_num K_ulong])) (net_columns gs vs @ LF # t) = map (\<lambda>v. SNum (int v)) vs"
proof (induction vs arbitrary: n gs)
  case (Cons v vs)
  obtain g gs' where g: "gs = g # gs'" "length gs' = length vs" "\<forall>g \<in> set gs'. 0 < g" using Cons.prems(2-4) by (cases gs) auto
  let ?r = "net_columns gs' vs @ LF # t"
  have d: "delimited ?r" using g(2,3) by (cases gs'; cases vs) simp_all
  show ?case using Cons.IH[of "length vs" gs'] Cons.prems(1,2) g scan_ulong_nat_str[OF d, of v] by (simp add: dropWhile_space_nat_str)
qed simp

lemma scan_net_row:
  assumes "net_row_ok r"
  shows "sscanf net_format (net_columns (nr_gaps r) (nr_vals r) @ LF # t) = map (\<lambda>v. SNum (int v)) (nr_vals r)"
proof -
  obtain v vs where v: "nr_vals r = v # vs" "length vs = 15" using assms by (cases "nr_vals r") (auto simp: net_row_ok_def)
  obtain g gs where g: "nr_gaps r = g # gs" "length gs = 15" "\<forall>g \<in> set gs. 0 < g" using assms by (cases "nr_gaps r") (auto simp: net_row_ok_def)
  have b: "v < 2 ^ 64" "\<forall>v \<in> set vs. v < 2 ^ 64" using assms v by (auto simp: net_row_ok_def)
  let ?r = "net_columns gs vs @ LF # t"
  have d: "delimited ?r" using g(2,3) v(2) by (cases gs; cases vs) simp_all
  have "length gs = 15" "15 = length vs" using g(2) v(2) by simp_all
  then show ?thesis using scan_ulongs[OF b(2) _ _ g(3), of 15 t] scan_ulong_nat_str[OF d b(1)] unfolding v(1) g(1) net_format_def by simp
qed

lemma net_columns_chars: "LF \<notin> set (net_columns gs vs)" "NUL \<notin> set (net_columns gs vs)"
proof -
  have "LF \<notin> set (nat_str v)" "NUL \<notin> set (nat_str v)" for v using int_str_no_LF[of "int v"] by (simp_all add: int_str_def)
  then show "LF \<notin> set (net_columns gs vs)" "NUL \<notin> set (net_columns gs vs)"
    unfolding net_columns_def by (induction gs vs rule: list_induct2') (auto simp: blanks_set)
qed

lemma net_row_chars:
  assumes "net_row_ok r"
  shows "LF \<notin> set (net_row_text r)" "NUL \<notin> set (net_row_text r)"
  using assms net_columns_chars[of "nr_gaps r" "nr_vals r"] by (auto simp: net_row_text_def net_row_ok_def blanks_set)

lemma dropWhile_blanks: "dropWhile (\<lambda>c. c = CHR '' '') (blanks n @ ys) = dropWhile (\<lambda>c. c = CHR '' '') ys"
  by (induction n) (auto simp: blanks_def)

lemma net_lines_rows:
  assumes "\<forall>r \<in> set rows. net_row_ok r" "2 \<le> k"
  shows "net_lines zero (line_suffixes (concat (map (\<lambda>r. net_row_text r @ [LF]) rows))) k ifs =
    ifs @ take (MAX_INTERFACES - length ifs) (map (iface_of_row zero) rows)"
  using assms
proof (induction rows arbitrary: ifs k)
  case (Cons r rows)
  then have r: "net_row_ok r" by simp
  let ?t = "concat (map (\<lambda>r. net_row_text r @ [LF]) rows)"
  let ?v = "net_columns (nr_gaps r) (nr_vals r) @ LF # ?t"
  have l: "line_suffixes (concat (map (\<lambda>r. net_row_text r @ [LF]) (r # rows))) = (net_row_text r @ LF # ?t) # line_suffixes ?t"
    using line_suffixes_line[OF net_row_chars(1)[OF r], of ?t] by simp
  have "CHR '':'' \<notin> set (blanks (nr_pad r) @ nr_name r)" using r by (auto simp: net_row_ok_def blanks_set)
  from strchr_append[OF this, of ?v] have c: "strchr (CHR '':'') (net_row_text r @ LF # ?t) = Some (CHR '':'' # ?v)"
    by (simp add: net_row_text_def)
  have "dropWhile (\<lambda>c. c = CHR '' '') (nr_name r @ CHR '':'' # ?v) = nr_name r @ CHR '':'' # ?v"
    using r by (cases "nr_name r") (auto simp: net_row_ok_def)
  then have n: "dropWhile (\<lambda>c. c = CHR '' '') (net_row_text r @ LF # ?t) = nr_name r @ CHR '':'' # ?v"
    by (simp add: net_row_text_def dropWhile_blanks)
  have len: "length (nr_name r) < 32" "length (nr_vals r) = 16" using r by (simp_all add: net_row_ok_def)
  show ?case
  proof (cases "length ifs \<ge> MAX_INTERFACES")
    case False
    then have "MAX_INTERFACES - length ifs = Suc (MAX_INTERFACES - Suc (length ifs))" by simp
    then show ?thesis
      using False Cons.IH[of "Suc k" "ifs @ [iface_of_row zero r]"] Cons.prems len
      unfolding l by (simp add: c n scan_net_row[OF r] Let_def iface_of_row_def)
  qed (simp add: line_suffixes_line[OF net_row_chars(1)[OF r]])
qed simp

text \<open>A readable file: two header lines and the rows.\<close>

definition net_file :: "proc_fs \<Rightarrow> net_row list \<Rightarrow> bool" where
  "net_file fs rows \<longleftrightarrow> (\<exists>h1 h2 evs. fs ''/proc/net/dev'' = Some (net_text h1 h2 rows, evs) \<and> Eio \<notin> set evs \<and>
     LF \<notin> set h1 \<and> LF \<notin> set h2 \<and> NUL \<notin> set h1 \<and> NUL \<notin> set h2 \<and> length (net_text h1 h2 rows) < 8192) \<and> (\<forall>r \<in> set rows. net_row_ok r)"

definition ifaces_of :: "'d \<Rightarrow> net_row list \<Rightarrow> 'd netstat_iface list" where
  "ifaces_of zero rows = take 32 (map (iface_of_row zero) rows)"

lemma parse_net_dev_file: "net_file fs rows \<Longrightarrow> parse_net_dev zero fs ifs = (0, ifaces_of zero rows)"
proof -
  assume f: "net_file fs rows"
  then obtain h1 h2 evs where e: "fs ''/proc/net/dev'' = Some (net_text h1 h2 rows, evs)" "Eio \<notin> set evs"
    and h: "LF \<notin> set h1" "LF \<notin> set h2" "NUL \<notin> set h1" "NUL \<notin> set h2" "length (net_text h1 h2 rows) < 8192"
    by (auto simp: net_file_def)
  have r: "\<forall>r \<in> set rows. net_row_ok r" using f by (simp add: net_file_def)
  have "proc_read_file fs ''/proc/net/dev'' 8192 = Some (net_text h1 h2 rows)"
    using proc_read_file_take[of fs _ "net_text h1 h2 rows" evs 8192, OF e] h(5) by simp
  moreover have "NUL \<notin> set (net_text h1 h2 rows)" using h(3,4) r net_row_chars(2) by (auto simp: net_text_def)
  moreover have "net_lines zero (line_suffixes (net_text h1 h2 rows)) 0 [] = ifaces_of zero rows"
    using net_lines_rows[OF r, of 2 zero "[]"]
    by (simp add: net_text_def line_suffixes_line[OF h(1)] line_suffixes_line[OF h(2)] MAX_INTERFACES_def ifaces_of_def numeral_2_eq_2)
  ultimately show ?thesis by (simp add: parse_net_dev_def)
qed

section \<open>What a collection reports\<close>

lemma netstat_collect_file:
  assumes "net_file fs rows"
  shows "netstat_collect rate zero now fs s = (0, \<lparr>ns_current = (if ns_has_previous s
      then map (iface_delta rate (max 1 (now - ns_last_collect s)) (ns_current s)) (ifaces_of zero rows) else ifaces_of zero rows),
    ns_previous = ns_current s, ns_has_previous = True, ns_last_collect = now\<rparr>)"
  by (simp add: netstat_collect_def parse_net_dev_file[OF assms] Let_def max_def)

lemma iface_delta_counters [simp]:
  "if_name (iface_delta rate e prev c) = if_name c" "rx_bytes (iface_delta rate e prev c) = rx_bytes c" "tx_bytes (iface_delta rate e prev c) = tx_bytes c"
  by (simp_all add: iface_delta_def Let_def split: option.splits)

text \<open>Differences from a collection do not depend on the differences in it.\<close>

lemma find_iface_map: "(\<And>i. if_name (f i) = if_name i) \<Longrightarrow> find_iface (map f ifs) name = map_option f (find_iface ifs name)"
  by (induction ifs) (auto simp: find_iface_def)

lemma find_iface_row:
  assumes "distinct (map nr_name rows)" "p \<in> set (take 32 rows)"
  shows "find_iface (ifaces_of zero rows) (nr_name p) = Some (iface_of_row zero p)"
proof -
  have d: "distinct (map nr_name (take 32 rows))" using assms(1) distinct_take by (simp add: take_map[symmetric])
  have "find_iface (map (iface_of_row zero) rs) (nr_name p) = Some (iface_of_row zero p)" if "distinct (map nr_name rs)" "p \<in> set rs" for rs
    using that by (induction rs) (auto simp: find_iface_def iface_of_row_def iface_of_def)
  from this[OF d assms(2)] show ?thesis by (simp add: ifaces_of_def take_map)
qed

lemma counter_difference:
  assumes "n < 2 ^ 63"
  shows "sint (word_of_nat ((a + n) mod 2 ^ 64) - word_of_nat a :: 64 word) = int n"
proof -
  have "(word_of_nat ((a + n) mod 2 ^ 64) :: 64 word) = word_of_nat a + word_of_nat n"
    by (simp add: word_unat_eq_iff unat_of_nat unat_word_ariths mod_simps)
  moreover have "sint (word_of_nat n :: 64 word) = int n"
    using assms by (simp add: signed_of_nat signed_take_bit_int_eq_self)
  ultimately show ?thesis by simp
qed

text \<open>
  C26 (traffic between two collections). For an interface that both of two readable files have, two header lines and rows whose columns are padded with any number of
  blanks, as the kernel prints them, whose counters advanced by \<open>n\<close> and \<open>m\<close> bytes
  between them, even when they wrapped around $2^{64}$, the second collection reports exactly \<open>n\<close> and \<open>m\<close>, and the
  rates over the time between the two, at least a second.
\<close>

theorem netstat_counts_traffic:
  assumes "net_file fs1 rows1" "net_file fs2 rows2" "distinct (map nr_name rows1)"
    and "i < length rows2" "i < 32" "p \<in> set (take 32 rows1)" "nr_name p = nr_name (rows2 ! i)"
    and "nr_vals (rows2 ! i) ! 0 = (nr_vals p ! 0 + n) mod 2 ^ 64" "n < 2 ^ 63"
    and "nr_vals (rows2 ! i) ! 8 = (nr_vals p ! 8 + m) mod 2 ^ 64" "m < 2 ^ 63"
    and c: "c = ns_current (snd (netstat_collect rate zero now2 fs2 (snd (netstat_collect rate zero now1 fs1 s)))) ! i"
  shows "if_name c = nr_name p \<and> rx_bytes_delta c = int n \<and> tx_bytes_delta c = int m \<and>
    rx_rate c = rate (int n) (max 1 (now2 - now1)) \<and> tx_rate c = rate (int m) (max 1 (now2 - now1))"
proof -
  let ?s1 = "snd (netstat_collect rate zero now1 fs1 s)" and ?r = "rows2 ! i" and ?e = "max 1 (now2 - now1)"
  let ?f = "if ns_has_previous s then iface_delta rate (max 1 (now1 - ns_last_collect s)) (ns_current s) else id"
  have s1: "ns_current ?s1 = map ?f (ifaces_of zero rows1)" "ns_has_previous ?s1" "ns_last_collect ?s1 = now1"
    by (simp_all add: netstat_collect_file[OF assms(1)])
  have "find_iface (ns_current ?s1) (nr_name p) = Some (?f (iface_of_row zero p))"
    unfolding s1 using find_iface_row[OF assms(3,6), of zero] by (subst find_iface_map) auto
  moreover have v: "length (nr_vals p) = 16" "length (nr_vals ?r) = 16"
    using assms(1,2,4,6) nth_mem[OF assms(4)] by (auto simp: net_file_def net_row_ok_def dest: in_set_takeD)
  moreover have "c = iface_delta rate ?e (ns_current ?s1) (iface_of_row zero ?r)"
    using assms(4,5) s1(2,3) by (simp add: c netstat_collect_file[OF assms(2)] ifaces_of_def)
  moreover have "rx_bytes (iface_of_row zero ?r) = word_of_nat (nr_vals ?r ! 0)" "rx_bytes (?f (iface_of_row zero p)) = word_of_nat (nr_vals p ! 0)"
    "tx_bytes (iface_of_row zero ?r) = word_of_nat (nr_vals ?r ! 8)" "tx_bytes (?f (iface_of_row zero p)) = word_of_nat (nr_vals p ! 8)"
    using v by (simp_all add: iface_of_row_def iface_of_def)
  ultimately show ?thesis
    using counter_difference[OF assms(9), of "nr_vals p ! 0"] counter_difference[OF assms(11), of "nr_vals p ! 8"] assms(7,8,10)
    by (simp add: iface_delta_def iface_of_row_def iface_of_def Let_def)
qed

definition demo_net :: "nat \<Rightarrow> net_row list" where
  "demo_net a = [\<lparr>nr_pad = 4, nr_name = ''lo'', nr_vals = [a, 7, 7, 7, 7, 7, 7, 7, 7, 7, 7, 7, 7, 7, 7, 7], nr_gaps = [5, 7, 4, 4, 4, 5, 10, 9, 8, 7, 4, 4, 4, 5, 7, 10]\<rparr>]"

lemma demo_net_simps:
  "length (demo_net a) = 1" "demo_net a ! 0 = \<lparr>nr_pad = 4, nr_name = ''lo'', nr_vals = [a, 7, 7, 7, 7, 7, 7, 7, 7, 7, 7, 7, 7, 7, 7, 7], nr_gaps = [5, 7, 4, 4, 4, 5, 10, 9, 8, 7, 4, 4, 4, 5, 7, 10]\<rparr>"
  "set (demo_net a) = {demo_net a ! 0}" "map f (demo_net a) = [f (demo_net a ! 0)]"
  by (simp_all add: demo_net_def)

lemma demo_net_file: "a < 2 ^ 64 \<Longrightarrow> net_file [''/proc/net/dev'' \<mapsto> (net_text ''Inter'' ''face'' (demo_net a), [])] (demo_net a)"
proof -
  assume a: "a < 2 ^ 64"
  have "length (nat_str a) \<le> 20" using a by (intro nat_str_length) simp_all
  moreover have "nat_str 7 = ''7''" by (simp add: nat_str.simps)
  ultimately have l: "length (net_text ''Inter'' ''face'' (demo_net a)) < 8192"
    by (simp add: net_text_def demo_net_def net_row_text_def)
  have r: "\<forall>r \<in> set (demo_net a). net_row_ok r" using a by (simp add: demo_net_simps net_row_ok_def)
  show ?thesis unfolding net_file_def
    by (intro conjI exI[of _ "''Inter''"] exI[of _ "''face''"] exI[of _ "[]"] l r) simp_all
qed

theorem netstat_counts_traffic_witness:
  "map rx_bytes_delta (ns_current (snd (netstat_collect (\<lambda>d e. d div e) 0 1010
      [''/proc/net/dev'' \<mapsto> (net_text ''Inter'' ''face'' (demo_net 4), [])]
     (snd (netstat_collect (\<lambda>d e. d div e) 0 1000
      [''/proc/net/dev'' \<mapsto> (net_text ''Inter'' ''face'' (demo_net (2 ^ 64 - 6)), [])] netstat_init))))) = [10]"
proof -
  have f: "net_file [''/proc/net/dev'' \<mapsto> (net_text ''Inter'' ''face'' (demo_net (2 ^ 64 - 6)), [])] (demo_net (2 ^ 64 - 6))"
    "net_file [''/proc/net/dev'' \<mapsto> (net_text ''Inter'' ''face'' (demo_net 4), [])] (demo_net 4)"
    by (rule demo_net_file, simp)+
  let ?s2 = "snd (netstat_collect (\<lambda>d e. d div e) 0 1010 [''/proc/net/dev'' \<mapsto> (net_text ''Inter'' ''face'' (demo_net 4), [])]
     (snd (netstat_collect (\<lambda>d e. d div e) 0 1000
      [''/proc/net/dev'' \<mapsto> (net_text ''Inter'' ''face'' (demo_net (2 ^ 64 - 6)), [])] netstat_init)))"
  have "rx_bytes_delta (ns_current ?s2 ! 0) = int 10"
    by (rule conjunct1[OF conjunct2[OF netstat_counts_traffic[OF f, of 0 "demo_net (2 ^ 64 - 6) ! 0" 10 0]]]) (simp_all add: demo_net_simps)
  moreover have "length (ns_current ?s2) = 1"
    by (simp add: netstat_collect_file[OF f(1)] netstat_collect_file[OF f(2)] ifaces_of_def demo_net_simps)
  ultimately show ?thesis by (cases "ns_current ?s2") simp_all
qed

definition iface_tree :: "('d \<Rightarrow> string) \<Rightarrow> 'd netstat_iface \<Rightarrow> jval" where
  "iface_tree fmt i = JObj [(''name'', JStr (if_name i)),
     (''rx'', JObj [(''bytes'', JUint (rx_bytes i)), (''packets'', JUint (rx_packets i)), (''errors'', JUint (rx_errors i)),
       (''dropped'', JUint (rx_dropped i)), (''bytes_delta'', JInt (rx_bytes_delta i)), (''rate'', JNum (fmt (rx_rate i)))]),
     (''tx'', JObj [(''bytes'', JUint (tx_bytes i)), (''packets'', JUint (tx_packets i)), (''errors'', JUint (tx_errors i)),
       (''dropped'', JUint (tx_dropped i)), (''bytes_delta'', JInt (tx_bytes_delta i)), (''rate'', JNum (fmt (tx_rate i)))])]"

definition netstat_tree :: "('d \<Rightarrow> string) \<Rightarrow> 'd netstat \<Rightarrow> jval" where
  "netstat_tree fmt s = JObj [(''interfaces'', JArr (map (iface_tree fmt) (ns_current s)))]"

lemma emits_iface [json_rules]: "emits_elts (iface_obj fmt i) [iface_tree fmt i]"
  unfolding iface_obj_def iface_tree_def by (rule emits_elts_cong, (rule json_rules)+, simp)

interpretation netstat_out: snapshot_writer "netstat_snapshot fmt" "netstat_tree fmt" "\<lambda>s. True"
  "\<lambda>s. \<forall>i \<in> set (ns_current s). num_ok (fmt (rx_rate i)) \<and> num_ok (fmt (tx_rate i))"
proof
  fix s :: "'a netstat"
  show "emits_val (netstat_snapshot fmt s) (netstat_tree fmt s)"
    unfolding netstat_snapshot_def netstat_tree_def by (rule emits_val_cong, (rule json_rules)+) simp
  assume "\<forall>i \<in> set (ns_current s). num_ok (fmt (rx_rate i)) \<and> num_ok (fmt (tx_rate i))"
  then show "jval_ok (netstat_tree fmt s)" by (auto simp: netstat_tree_def iface_tree_def key_ok_def)
qed

end
