(* ===== verification/Procstat.thy ===== *)
theory Procstat
  imports StatFile JsonObj Sorting
begin

text \<open>
  The process state service (\<open>src/services/procstat.c\<close>): counts of the processes by state and the details of at most 100 blocked processes and
  threads. \<open>None\<close> as the result of a collection is a \<open>stat\<close> file on which the code has no defined behaviour.
\<close>

section \<open>State\<close>

record procstat_entry =
  ps_pid :: int
  ps_tid :: int
  ps_cmd :: string
  ps_state :: char
  ps_state_desc :: string
  ps_wchan :: string
  ps_is_blocked :: bool

record procstat_summary =
  pt_running :: int
  pt_sleeping :: int
  pt_disk_sleep :: int
  pt_zombie :: int
  pt_stopped :: int
  pt_total :: int

record procstat =
  st_summary :: procstat_summary
  st_blocked :: "procstat_entry list"

definition MAX_BLOCKED :: nat where "MAX_BLOCKED = 100"

definition procstat_zero :: procstat_summary where
  "procstat_zero = \<lparr>pt_running = 0, pt_sleeping = 0, pt_disk_sleep = 0, pt_zombie = 0, pt_stopped = 0, pt_total = 0\<rparr>"

definition procstat_init :: procstat where
  "procstat_init = \<lparr>st_summary = procstat_zero, st_blocked = []\<rparr>"

section \<open>Operations\<close>

definition state_to_desc :: "char \<Rightarrow> string" where
  "state_to_desc c =
     (if c = CHR ''R'' then ''Running'' else if c = CHR ''S'' then ''Sleeping'' else if c = CHR ''D'' then ''Disk Sleep (blocked)''
      else if c = CHR ''Z'' then ''Zombie'' else if c = CHR ''T'' then ''Stopped'' else if c = CHR ''t'' then ''Tracing stop''
      else if c = CHR ''X'' then ''Dead'' else if c = CHR ''I'' then ''Idle'' else ''Unknown'')"

text \<open>The directory of a process, or of one of its threads.\<close>

definition task_dir :: "int \<Rightarrow> int \<Rightarrow> string" where
  "task_dir pid tid =
     (if tid > 0 \<and> tid \<noteq> pid then ''/proc/'' @ int_str pid @ ''/task/'' @ int_str tid else ''/proc/'' @ int_str pid)"

text \<open>The state character and the command; a text that ends behind the parenthesis has the terminator as its state.\<close>

definition read_proc_state :: "proc_fs \<Rightarrow> int \<Rightarrow> int \<Rightarrow> (char \<times> string) stat_result" where
  "read_proc_state fs pid tid =
     (case proc_read_file fs (task_dir pid tid @ ''/stat'') 1024 of
        None \<Rightarrow> Stat_fails
      | Some buf \<Rightarrow>
          (case split_stat 128 (cstr buf) of
             Stat (cmd, p) \<Rightarrow> Stat (if p = [] then NUL else hd p, cmd)
           | Stat_fails \<Rightarrow> Stat_fails
           | Stat_undefined \<Rightarrow> Stat_undefined))"

definition read_wchan :: "proc_fs \<Rightarrow> int \<Rightarrow> int \<Rightarrow> string" where
  "read_wchan fs pid tid =
     (case proc_read_file fs (task_dir pid tid @ ''/wchan'') 64 of
        None \<Rightarrow> []
      | Some bs \<Rightarrow> if bs = [] then []
                    else let w = cstr (trim_trailing (\<lambda>c. c = LF \<or> c = CR) bs) in if w = ''0'' then [] else w)"

definition procstat_entry_of :: "proc_fs \<Rightarrow> int \<Rightarrow> int \<Rightarrow> char \<Rightarrow> string \<Rightarrow> bool \<Rightarrow> procstat_entry" where
  "procstat_entry_of fs pid tid state cmd is_blocked =
     \<lparr>ps_pid = pid, ps_tid = tid, ps_cmd = bounded_copy 128 cmd, ps_state = state, ps_state_desc = state_to_desc state,
      ps_wchan = read_wchan fs pid tid, ps_is_blocked = is_blocked\<rparr>"

definition count_state :: "char \<Rightarrow> procstat_summary \<Rightarrow> procstat_summary" where
  "count_state c s0 =
     (let s = s0\<lparr>pt_total := pt_total s0 + 1\<rparr>
      in if c = CHR ''R'' then s\<lparr>pt_running := pt_running s + 1\<rparr>
         else if c = CHR ''S'' then s\<lparr>pt_sleeping := pt_sleeping s + 1\<rparr>
         else if c = CHR ''D'' then s\<lparr>pt_disk_sleep := pt_disk_sleep s + 1\<rparr>
         else if c = CHR ''Z'' then s\<lparr>pt_zombie := pt_zombie s + 1\<rparr>
         else if c = CHR ''T'' \<or> c = CHR ''t'' then s\<lparr>pt_stopped := pt_stopped s + 1\<rparr>
         else s)"

text \<open>The threads of a blocked process that are blocked themselves.\<close>

fun scan_threads :: "proc_fs \<Rightarrow> int \<Rightarrow> string list \<Rightarrow> procstat_entry list \<Rightarrow> procstat_entry list option" where
  "scan_threads fs pid [] bl = Some bl"
| "scan_threads fs pid (name # names) bl =
     (if \<not> is_pid_entry name then scan_threads fs pid names bl
      else let tid = atoi name
           in if tid = pid then scan_threads fs pid names bl
              else case read_proc_state fs pid tid of
                  Stat_undefined \<Rightarrow> None
                | Stat_fails \<Rightarrow> scan_threads fs pid names bl
                | Stat (state, cmd) \<Rightarrow>
                    scan_threads fs pid names
                      (if state = CHR ''D'' \<and> length bl < MAX_BLOCKED then bl @ [procstat_entry_of fs pid tid state cmd True] else bl))"

fun scan_states :: "proc_fs \<Rightarrow> proc_dirs \<Rightarrow> string list \<Rightarrow> procstat \<Rightarrow> procstat option" where
  "scan_states fs dirs [] s = Some s"
| "scan_states fs dirs (name # names) s =
     (if \<not> is_pid_entry name then scan_states fs dirs names s
      else let pid = atoi name
           in case read_proc_state fs pid 0 of
                Stat_undefined \<Rightarrow> None
              | Stat_fails \<Rightarrow> scan_states fs dirs names s
              | Stat (state, cmd) \<Rightarrow>
                  (let s1 = s\<lparr>st_summary := count_state state (st_summary s)\<rparr>
                   in if state = CHR ''D'' \<and> length (st_blocked s1) < MAX_BLOCKED
                      then let bl = st_blocked s1 @ [procstat_entry_of fs pid pid state cmd True]
                           in case (case dirs (''/proc/'' @ int_str pid @ ''/task'') of None \<Rightarrow> Some bl | Some ts \<Rightarrow> scan_threads fs pid ts bl) of
                                None \<Rightarrow> None
                              | Some bl' \<Rightarrow> scan_states fs dirs names (s1\<lparr>st_blocked := bl'\<rparr>)
                      else scan_states fs dirs names s1))"

definition procstat_collect :: "proc_fs \<Rightarrow> proc_dirs \<Rightarrow> procstat \<Rightarrow> (int \<times> procstat) option" where
  "procstat_collect fs dirs s =
     (let s0 = \<lparr>st_summary = procstat_zero, st_blocked = []\<rparr>
      in case dirs ''/proc'' of
           None \<Rightarrow> Some (-1, s0)
         | Some names \<Rightarrow> map_option (\<lambda>s'. (0, s')) (scan_states fs dirs names s0))"

definition blocked_obj :: "procstat_entry \<Rightarrow> json_builder \<Rightarrow> json_builder" where
  "blocked_obj e = jobj [json_kv_int ''pid'' (ps_pid e), json_kv_int ''tid'' (ps_tid e), json_kv_string ''cmd'' (Some (ps_cmd e)),
     json_kv_string ''state'' (Some (ps_state_desc e)), json_kv_string ''wchan'' (Some (ps_wchan e))]"

definition procstat_snapshot :: "procstat \<Rightarrow> json_builder \<Rightarrow> json_builder" where
  "procstat_snapshot s =
     jobj [jkey ''summary'' (jobj [json_kv_int ''total'' (pt_total (st_summary s)), json_kv_int ''running'' (pt_running (st_summary s)),
             json_kv_int ''sleeping'' (pt_sleeping (st_summary s)), json_kv_int ''disk_sleep'' (pt_disk_sleep (st_summary s)),
             json_kv_int ''zombie'' (pt_zombie (st_summary s)), json_kv_int ''stopped'' (pt_stopped (st_summary s))]),
           jkey ''blocked'' (jarr [fold blocked_obj (st_blocked s)])]"

definition procstat_get_summary :: "procstat \<Rightarrow> procstat_summary" where
  "procstat_get_summary s = st_summary s"

definition procstat_get_blocked :: "procstat \<Rightarrow> int \<Rightarrow> (int \<times> procstat_entry list) option" where
  "procstat_get_blocked s max_entries = copy_top (st_blocked s) max_entries"

text \<open>The loop of \<open>procstat_get_threads\<close>, with the entries stored so far.\<close>

fun list_threads :: "proc_fs \<Rightarrow> int \<Rightarrow> int \<Rightarrow> string list \<Rightarrow> procstat_entry list \<Rightarrow> procstat_entry list option" where
  "list_threads fs pid max_entries [] es = Some es"
| "list_threads fs pid max_entries (name # names) es =
     (if int (length es) \<ge> max_entries then Some es
      else if \<not> is_pid_entry name then list_threads fs pid max_entries names es
      else let tid = atoi name
           in case read_proc_state fs pid tid of
                Stat_undefined \<Rightarrow> None
              | Stat_fails \<Rightarrow> list_threads fs pid max_entries names es
              | Stat (state, cmd) \<Rightarrow> list_threads fs pid max_entries names (es @ [procstat_entry_of fs pid tid state cmd (state = CHR ''D'')]))"

definition procstat_get_threads :: "proc_fs \<Rightarrow> proc_dirs \<Rightarrow> int \<Rightarrow> int \<Rightarrow> (int \<times> procstat_entry list) option" where
  "procstat_get_threads fs dirs pid max_entries =
     (case dirs (''/proc/'' @ int_str pid @ ''/task'') of
        None \<Rightarrow> Some (-1, [])
      | Some names \<Rightarrow> map_option (\<lambda>es. (int (length es), es)) (list_threads fs pid max_entries names []))"

section \<open>Counts and blocked tasks\<close>

text \<open>The process numbers of a directory, and the state of a task whose \<open>stat\<close> file can be read.\<close>

definition entry_pids :: "string list \<Rightarrow> int list" where
  "entry_pids names = map atoi (filter is_pid_entry names)"

definition task_state :: "proc_fs \<Rightarrow> int \<Rightarrow> int \<Rightarrow> char option" where
  "task_state fs pid tid = (case read_proc_state fs pid tid of Stat (c, cmd) \<Rightarrow> Some c | _ \<Rightarrow> None)"

definition task_entry :: "proc_fs \<Rightarrow> int \<Rightarrow> int \<Rightarrow> int \<Rightarrow> procstat_entry" where
  "task_entry fs pid dirtid tid = (case read_proc_state fs pid dirtid of Stat (c, cmd) \<Rightarrow> procstat_entry_of fs pid tid c cmd True)"

definition blocked_threads :: "proc_fs \<Rightarrow> proc_dirs \<Rightarrow> int \<Rightarrow> int list" where
  "blocked_threads fs dirs pid =
     (case dirs (''/proc/'' @ int_str pid @ ''/task'') of
        None \<Rightarrow> []
      | Some names \<Rightarrow> filter (\<lambda>tid. tid \<noteq> pid \<and> task_state fs pid tid = Some CHR ''D'') (entry_pids names))"

text \<open>What one process contributes to the list: itself and its blocked threads, if it is blocked.\<close>

definition blocked_tasks :: "proc_fs \<Rightarrow> proc_dirs \<Rightarrow> int \<Rightarrow> procstat_entry list" where
  "blocked_tasks fs dirs pid =
     (if task_state fs pid 0 = Some CHR ''D''
      then task_entry fs pid 0 pid # map (\<lambda>tid. task_entry fs pid tid tid) (blocked_threads fs dirs pid) else [])"

text \<open>No file on which the code has no defined behaviour.\<close>

definition defined_stats :: "proc_fs \<Rightarrow> bool" where
  "defined_stats fs \<longleftrightarrow> (\<forall>pid tid. read_proc_state fs pid tid \<noteq> Stat_undefined)"

definition in_state :: "proc_fs \<Rightarrow> string list \<Rightarrow> char set \<Rightarrow> int" where
  "in_state fs names cs = int (length (filter (\<lambda>pid. \<exists>c \<in> cs. task_state fs pid 0 = Some c) (entry_pids names)))"

lemma stat_cases:
  assumes "defined_stats fs"
  obtains "read_proc_state fs p t = Stat_fails" | c cmd where "read_proc_state fs p t = Stat (c, cmd)"
proof (cases "read_proc_state fs p t")
  case (Stat x)
  then show thesis using that(2) by (cases x) simp
qed (use assms that in \<open>auto simp: defined_stats_def\<close>)

lemma scan_threads_list:
  assumes "defined_stats fs" "length bl \<le> MAX_BLOCKED"
  shows "scan_threads fs pid names bl = Some (take MAX_BLOCKED (bl @ map (\<lambda>tid. task_entry fs pid tid tid)
    (filter (\<lambda>tid. tid \<noteq> pid \<and> task_state fs pid tid = Some CHR ''D'') (entry_pids names))))"
  using assms(2)
proof (induction names arbitrary: bl)
  case (Cons name names)
  note IH = Cons.IH
  show ?case
  proof (cases "is_pid_entry name \<and> atoi name \<noteq> pid")
    case False
    then show ?thesis using IH[OF Cons.prems] by (auto simp: entry_pids_def Let_def)
  next
    case True
    show ?thesis
    proof (rule stat_cases[OF assms(1), of pid "atoi name"])
      assume "read_proc_state fs pid (atoi name) = Stat_fails"
      then show ?thesis using True IH[OF Cons.prems] by (simp add: entry_pids_def task_state_def)
    next
      fix c cmd
      assume c: "read_proc_state fs pid (atoi name) = Stat (c, cmd)"
      let ?e = "procstat_entry_of fs pid (atoi name) c cmd True"
      show ?thesis
      proof (cases "c = CHR ''D''")
        case False
        then show ?thesis using True c IH[OF Cons.prems] by (simp add: entry_pids_def task_state_def)
      next
        case d: True
        show ?thesis
        proof (cases "length bl < MAX_BLOCKED")
          case lt: True
          then show ?thesis using True c d IH[of "bl @ [?e]"] by (simp add: entry_pids_def task_state_def task_entry_def)
        next
          case False
          then have "length bl = MAX_BLOCKED" using Cons.prems by simp
          then show ?thesis using True c d IH[OF Cons.prems] by (simp add: entry_pids_def task_state_def)
        qed
      qed
    qed
  qed
qed (simp add: entry_pids_def)

lemma take_take_append: "take n (take n xs @ ys) = take n (xs @ ys)"
  by (simp add: take_append min_def)

text \<open>The summary after the processes of a list.\<close>

definition counts :: "proc_fs \<Rightarrow> string list \<Rightarrow> procstat_summary \<Rightarrow> procstat_summary" where
  "counts fs names = fold (\<lambda>pid s. case task_state fs pid 0 of None \<Rightarrow> s | Some c \<Rightarrow> count_state c s) (entry_pids names)"

lemma scan_states_result:
  assumes "defined_stats fs" "length (st_blocked s) \<le> MAX_BLOCKED"
  shows "scan_states fs dirs names s = Some \<lparr>st_summary = counts fs names (st_summary s),
    st_blocked = take MAX_BLOCKED (st_blocked s @ concat (map (blocked_tasks fs dirs) (entry_pids names)))\<rparr>"
  using assms(2)
proof (induction names arbitrary: s)
  case Nil
  then show ?case by (cases s) (simp add: counts_def entry_pids_def)
next
  case (Cons name names)
  note IH = Cons.IH
  show ?case
  proof (cases "is_pid_entry name")
    case False
    then show ?thesis using IH[OF Cons.prems] by (simp add: counts_def entry_pids_def)
  next
    case name: True
    let ?p = "atoi name"
    show ?thesis
    proof (rule stat_cases[OF assms(1), of ?p 0])
      assume "read_proc_state fs ?p 0 = Stat_fails"
      then show ?thesis using name IH[OF Cons.prems] by (simp add: counts_def entry_pids_def blocked_tasks_def task_state_def)
    next
      fix c cmd
      assume c: "read_proc_state fs ?p 0 = Stat (c, cmd)"
      let ?s1 = "s\<lparr>st_summary := count_state c (st_summary s)\<rparr>" and ?e = "procstat_entry_of fs ?p ?p c cmd True"
      have cn: "counts fs (name # names) (st_summary s) = counts fs names (count_state c (st_summary s))"
        using name c by (simp add: counts_def entry_pids_def task_state_def)
      show ?thesis
      proof (cases "c = CHR ''D''")
        case False
        then show ?thesis using name c cn IH[of ?s1] Cons.prems
          by (simp add: entry_pids_def blocked_tasks_def task_state_def Let_def)
      next
        case d: True
        have b: "blocked_tasks fs dirs ?p = ?e # map (\<lambda>tid. task_entry fs ?p tid tid) (blocked_threads fs dirs ?p)"
          using c d by (simp add: blocked_tasks_def task_state_def task_entry_def)
        show ?thesis
        proof (cases "length (st_blocked s) < MAX_BLOCKED")
          case False
          then have "length (st_blocked s) = MAX_BLOCKED" using Cons.prems by simp
          then show ?thesis using name c cn IH[of ?s1] by (simp add: Let_def)
        next
          case lt: True
          let ?bl = "st_blocked s @ [?e]"
          let ?bl' = "take MAX_BLOCKED (?bl @ map (\<lambda>tid. task_entry fs ?p tid tid) (blocked_threads fs dirs ?p))"
          have "(case dirs (''/proc/'' @ int_str ?p @ ''/task'') of None \<Rightarrow> Some ?bl | Some ts \<Rightarrow> scan_threads fs ?p ts ?bl) = Some ?bl'"
            using scan_threads_list[OF assms(1), of ?bl ?p] lt by (auto simp: blocked_threads_def split: option.splits)
          then have "scan_states fs dirs (name # names) s = scan_states fs dirs names (?s1\<lparr>st_blocked := ?bl'\<rparr>)"
            using name c lt unfolding d by (simp add: Let_def)
          also have "\<dots> = Some \<lparr>st_summary = counts fs names (count_state c (st_summary s)),
              st_blocked = take MAX_BLOCKED (?bl' @ concat (map (blocked_tasks fs dirs) (entry_pids names)))\<rparr>"
            using IH[of "?s1\<lparr>st_blocked := ?bl'\<rparr>"] by simp
          also have "take MAX_BLOCKED (?bl' @ concat (map (blocked_tasks fs dirs) (entry_pids names))) =
              take MAX_BLOCKED (st_blocked s @ concat (map (blocked_tasks fs dirs) (entry_pids (name # names))))"
            using name b by (simp only: take_take_append) (simp add: entry_pids_def)
          finally show ?thesis unfolding cn .
        qed
      qed
    qed
  qed
qed

lemma count_state_fields:
  "pt_total (count_state c s) = pt_total s + 1" "pt_running (count_state c s) = pt_running s + (if c = CHR ''R'' then 1 else 0)"
  "pt_sleeping (count_state c s) = pt_sleeping s + (if c = CHR ''S'' then 1 else 0)"
  "pt_disk_sleep (count_state c s) = pt_disk_sleep s + (if c = CHR ''D'' then 1 else 0)"
  "pt_zombie (count_state c s) = pt_zombie s + (if c = CHR ''Z'' then 1 else 0)"
  "pt_stopped (count_state c s) = pt_stopped s + (if c = CHR ''T'' \<or> c = CHR ''t'' then 1 else 0)"
  by (auto simp: count_state_def Let_def)

lemma fold_counts:
  fixes get :: "procstat_summary \<Rightarrow> int"
  assumes "\<And>c s. get (count_state c s) = get s + (if c \<in> cs then 1 else 0)"
  shows "get (counts fs names s) = get s + in_state fs names cs"
proof -
  have "get (fold (\<lambda>pid s. case task_state fs pid 0 of None \<Rightarrow> s | Some c \<Rightarrow> count_state c s) pids s) =
      get s + int (length (filter (\<lambda>pid. \<exists>c \<in> cs. task_state fs pid 0 = Some c) pids))" for pids
    by (induction pids arbitrary: s) (auto simp: assms split: option.splits)
  then show ?thesis by (simp add: counts_def in_state_def)
qed

lemma procstat_collect_result:
  assumes "defined_stats fs" "dirs ''/proc'' = Some names"
  shows "procstat_collect fs dirs s = Some (0, \<lparr>st_summary = counts fs names procstat_zero,
    st_blocked = take 100 (concat (map (blocked_tasks fs dirs) (entry_pids names)))\<rparr>)"
  using scan_states_result[OF assms(1), of "\<lparr>st_summary = procstat_zero, st_blocked = []\<rparr>" dirs names] assms(2)
  by (simp add: procstat_collect_def MAX_BLOCKED_def)

text \<open>
  C27 (counts by state). When the code has a defined behaviour on every \<open>stat\<close> file, a collection counts the readable processes of each of the five groups
  of states, those in any other state in the total alone, and keeps the first hundred blocked tasks, each blocked
  process followed by its blocked threads; the threads of a process that is not blocked itself are left out.
\<close>

theorem procstat_counts_states:
  assumes "defined_stats fs" "dirs ''/proc'' = Some names"
  shows "\<exists>s'. procstat_collect fs dirs s = Some (0, s') \<and>
    st_blocked s' = take 100 (concat (map (blocked_tasks fs dirs) (entry_pids names))) \<and>
    pt_total (st_summary s') = in_state fs names UNIV \<and> pt_running (st_summary s') = in_state fs names {CHR ''R''} \<and>
    pt_sleeping (st_summary s') = in_state fs names {CHR ''S''} \<and> pt_disk_sleep (st_summary s') = in_state fs names {CHR ''D''} \<and>
    pt_zombie (st_summary s') = in_state fs names {CHR ''Z''} \<and> pt_stopped (st_summary s') = in_state fs names {CHR ''T'', CHR ''t''}"
proof -
  have "pt_total (counts fs names procstat_zero) = in_state fs names UNIV"
    "pt_running (counts fs names procstat_zero) = in_state fs names {CHR ''R''}"
    "pt_sleeping (counts fs names procstat_zero) = in_state fs names {CHR ''S''}"
    "pt_disk_sleep (counts fs names procstat_zero) = in_state fs names {CHR ''D''}"
    "pt_zombie (counts fs names procstat_zero) = in_state fs names {CHR ''Z''}"
    "pt_stopped (counts fs names procstat_zero) = in_state fs names {CHR ''T'', CHR ''t''}"
    by (subst fold_counts; simp add: count_state_fields procstat_zero_def)+
  then show ?thesis by (simp add: procstat_collect_result[where fs = fs and dirs = dirs, OF assms])
qed

lemma read_proc_state_text:
  assumes "fs (task_dir pid tid @ ''/stat'') = Some (stat_text n comm (c # rest), evs)" "Eio \<notin> set evs"
    and "length (stat_text n comm (c # rest)) < 1024" "length comm < 128" "CHR '')'' \<notin> set (c # rest)" "NUL \<notin> set (comm @ c # rest)"
  shows "read_proc_state fs pid tid = Stat (c, comm)"
proof -
  have "proc_read_file fs (task_dir pid tid @ ''/stat'') 1024 = Some (stat_text n comm (c # rest))"
    using proc_read_file_take[of fs _ "stat_text n comm (c # rest)" evs 1024, OF assms(1,2)] assms(3) by simp
  moreover have "NUL \<notin> set (stat_text n comm (c # rest))"
    using assms(6) nat_str_digits[of NUL] by (auto simp: stat_text_def int_str_def isdigit_def)
  moreover note split_stat_text[OF assms(5,4), of n]
  ultimately show ?thesis by (simp add: read_proc_state_def)
qed

text \<open>One process, blocked, with a thread that is blocked as well.\<close>

definition demo_stat_fs :: proc_fs where
  "demo_stat_fs = [''/proc/7/stat'' \<mapsto> (stat_text 7 ''dd'' ''D 1'', []), ''/proc/7/task/8/stat'' \<mapsto> (stat_text 8 ''io'' ''D 1'', [])]"

definition demo_stat_dirs :: proc_dirs where
  "demo_stat_dirs = [''/proc'' \<mapsto> [''self'', ''7''], ''/proc/7/task'' \<mapsto> [''7'', ''8'']]"

lemma demo_stat_file:
  assumes "fs (task_dir pid tid @ ''/stat'') = Some (stat_text n comm ''D 1'', [])" "n = 7 \<or> n = 8" "comm = ''dd'' \<or> comm = ''io''"
  shows "read_proc_state fs pid tid = Stat (CHR ''D'', comm)"
proof -
  have "length (int_str 7) = 1" "length (int_str 8) = 1" by (simp_all add: int_str_def nat_str.simps)
  then have "length (int_str n) = 1" using assms(2) by blast
  moreover have "length comm = 2" "NUL \<notin> set comm" using assms(3) by auto
  ultimately show ?thesis
    by (intro read_proc_state_text[of fs pid tid, OF assms(1)]) (simp_all add: stat_text_def)
qed

lemma demo_stat_defined: "defined_stats demo_stat_fs"
proof -
  have "read_proc_state demo_stat_fs pid tid \<noteq> Stat_undefined" for pid tid
  proof -
    let ?p = "task_dir pid tid @ ''/stat''"
    have "demo_stat_fs p = None \<or> demo_stat_fs p = Some (stat_text 7 ''dd'' ''D 1'', []) \<or> demo_stat_fs p = Some (stat_text 8 ''io'' ''D 1'', [])" for p
      by (simp add: demo_stat_fs_def)
    from this[of ?p] show ?thesis
    proof (elim disjE)
      assume "demo_stat_fs ?p = None"
      then show ?thesis by (simp add: read_proc_state_def proc_read_file_def)
    next
      assume "demo_stat_fs ?p = Some (stat_text 7 ''dd'' ''D 1'', [])"
      from demo_stat_file[of demo_stat_fs, OF this] show ?thesis by simp
    next
      assume "demo_stat_fs ?p = Some (stat_text 8 ''io'' ''D 1'', [])"
      from demo_stat_file[of demo_stat_fs, OF this] show ?thesis by simp
    qed
  qed
  then show ?thesis by (simp add: defined_stats_def)
qed

theorem procstat_counts_states_witness:
  "\<exists>s'. procstat_collect demo_stat_fs demo_stat_dirs procstat_init = Some (0, s') \<and> pt_total (st_summary s') = 1 \<and>
    map (\<lambda>e. (ps_tid e, ps_cmd e)) (st_blocked s') = [(7, ''dd''), (8, ''io'')]"
proof -
  have i: "int_str 7 = ''7''" "int_str 8 = ''8''" by (simp_all add: int_str_def nat_str.simps)
  have r: "read_proc_state demo_stat_fs 7 0 = Stat (CHR ''D'', ''dd'')" "read_proc_state demo_stat_fs 7 8 = Stat (CHR ''D'', ''io'')"
    by (rule demo_stat_file[where n = 7], simp_all add: demo_stat_fs_def task_dir_def i)
      (rule demo_stat_file[where n = 8], simp_all add: demo_stat_fs_def task_dir_def i)
  have p: "entry_pids [''self'', ''7''] = [7]" "entry_pids [''7'', ''8''] = [7, 8]" by code_simp+
  have d: "demo_stat_dirs ''/proc'' = Some [''self'', ''7'']" "demo_stat_dirs (''/proc/'' @ int_str 7 @ ''/task'') = Some [''7'', ''8'']"
    by (simp_all add: demo_stat_dirs_def i)
  have t: "in_state demo_stat_fs [''self'', ''7''] UNIV = 1" by (simp add: in_state_def p(1) task_state_def r)
  have b: "concat (map (blocked_tasks demo_stat_fs demo_stat_dirs) (entry_pids [''self'', ''7''])) =
      [procstat_entry_of demo_stat_fs 7 7 CHR ''D'' ''dd'' True, procstat_entry_of demo_stat_fs 7 8 CHR ''D'' ''io'' True]"
    by (simp add: p blocked_tasks_def task_state_def r task_entry_def blocked_threads_def d(2)[simplified])
  obtain s' where s': "procstat_collect demo_stat_fs demo_stat_dirs procstat_init = Some (0, s')"
    "st_blocked s' = take 100 (concat (map (blocked_tasks demo_stat_fs demo_stat_dirs) (entry_pids [''self'', ''7''])))"
    "pt_total (st_summary s') = in_state demo_stat_fs [''self'', ''7''] UNIV"
    using procstat_counts_states[where dirs = demo_stat_dirs and s = procstat_init, OF demo_stat_defined d(1)] by blast
  have "map (\<lambda>e. (ps_tid e, ps_cmd e)) (st_blocked s') = [(7, ''dd''), (8, ''io'')]"
    unfolding s'(2) b by (simp add: procstat_entry_of_def bounded_copy_def)
  then show ?thesis using s'(1,3) t by simp
qed

section \<open>What is shown\<close>

definition blocked_tree :: "procstat_entry \<Rightarrow> jval" where
  "blocked_tree e = JObj [(''pid'', JInt (ps_pid e)), (''tid'', JInt (ps_tid e)), (''cmd'', JStr (ps_cmd e)), (''state'', JStr (ps_state_desc e)),
     (''wchan'', JStr (ps_wchan e))]"

definition procstat_tree :: "procstat \<Rightarrow> jval" where
  "procstat_tree s = JObj [(''summary'', JObj [(''total'', JInt (pt_total (st_summary s))), (''running'', JInt (pt_running (st_summary s))),
       (''sleeping'', JInt (pt_sleeping (st_summary s))), (''disk_sleep'', JInt (pt_disk_sleep (st_summary s))),
       (''zombie'', JInt (pt_zombie (st_summary s))), (''stopped'', JInt (pt_stopped (st_summary s)))]),
     (''blocked'', JArr (map blocked_tree (st_blocked s)))]"

lemma emits_blocked [json_rules]: "emits_elts (blocked_obj e) [blocked_tree e]"
  unfolding blocked_obj_def blocked_tree_def by (rule emits_elts_cong, (rule json_rules)+, simp)

interpretation procstat_out: snapshot_writer procstat_snapshot procstat_tree "\<lambda>s. True" "\<lambda>s. True"
proof
  fix s
  show "emits_val (procstat_snapshot s) (procstat_tree s)"
    unfolding procstat_snapshot_def procstat_tree_def by (rule emits_val_cong, (rule json_rules)+) simp
  show "jval_ok (procstat_tree s)" by (auto simp: procstat_tree_def blocked_tree_def key_ok_def)
qed

end
