(* ===== verification/Fdmon.thy ===== *)
theory Fdmon
  imports Procmem StatFile
begin

text \<open>
  The file descriptor service (\<open>src/services/fdmon.c\<close>): the open descriptors of the first hundred processes whose descriptor directory
  can be read, by kind, compared with the collection before and with a baseline kept for the first two hundred processes ever
  seen. \<open>stack i\<close> is what the command of entry \<open>i\<close> of the local array holds before it is written.
\<close>

section \<open>State\<close>

record fd_types =
  ft_files :: int
  ft_sockets :: int
  ft_pipes :: int
  ft_eventfds :: int
  ft_other :: int

record fd_data =
  fd_pid :: int
  fd_num :: int

record fdmon_entry =
  fe_pid :: int
  fe_cmd :: string
  fe_count :: int
  fe_initial :: int
  fe_delta :: int
  fe_change :: int
  fe_types :: fd_types

record fdmon_summary =
  fs_total_fds :: int
  fs_total_delta :: int
  fs_proc_count :: int
  fs_potential_leaks :: int

record fdmon =
  fm_current :: "fd_data list"
  fm_previous :: "fd_data list"
  fm_has_previous :: bool
  fm_initial :: "fd_data list"
  fm_top_consumers :: "fdmon_entry list"
  fm_leakers :: "fdmon_entry list"
  fm_summary :: fdmon_summary

definition FD_MAX_PROCS :: nat where "FD_MAX_PROCS = 100"
definition FD_TOP_COUNT :: nat where "FD_TOP_COUNT = 25"

definition fd_types_zero :: fd_types where
  "fd_types_zero = \<lparr>ft_files = 0, ft_sockets = 0, ft_pipes = 0, ft_eventfds = 0, ft_other = 0\<rparr>"

definition fd_summary_zero :: fdmon_summary where
  "fd_summary_zero = \<lparr>fs_total_fds = 0, fs_total_delta = 0, fs_proc_count = 0, fs_potential_leaks = 0\<rparr>"

definition fdmon_init :: fdmon where
  "fdmon_init = \<lparr>fm_current = [], fm_previous = [], fm_has_previous = False, fm_initial = [], fm_top_consumers = [], fm_leakers = [],
     fm_summary = fd_summary_zero\<rparr>"

section \<open>Operations\<close>

definition classify_fd :: "string \<Rightarrow> fd_types \<Rightarrow> fd_types" where
  "classify_fd target t =
     (if starts_with ''socket:'' target then t\<lparr>ft_sockets := ft_sockets t + 1\<rparr>
      else if starts_with ''pipe:'' target then t\<lparr>ft_pipes := ft_pipes t + 1\<rparr>
      else if starts_with ''anon_inode:'' target then t\<lparr>ft_eventfds := ft_eventfds t + 1\<rparr>
      else if starts_with ''/'' target then t\<lparr>ft_files := ft_files t + 1\<rparr>
      else t\<lparr>ft_other := ft_other t + 1\<rparr>)"

definition fd_dir :: "int \<Rightarrow> string" where
  "fd_dir pid = ''/proc/'' @ int_str pid @ ''/fd''"

fun count_fd_names :: "proc_links \<Rightarrow> string \<Rightarrow> string list \<Rightarrow> int \<times> fd_types \<Rightarrow> int \<times> fd_types" where
  "count_fd_names links dir [] a = a"
| "count_fd_names links dir (name # names) (n, t) =
     (if \<not> is_pid_entry name then count_fd_names links dir names (n, t)
      else count_fd_names links dir names
        (n + 1, case link_target links 512 (dir @ ''/'' @ name) of None \<Rightarrow> t | Some target \<Rightarrow> classify_fd target t))"

definition count_fds :: "proc_dirs \<Rightarrow> proc_links \<Rightarrow> int \<Rightarrow> (int \<times> fd_types) option" where
  "count_fds dirs links pid =
     (case dirs (fd_dir pid) of None \<Rightarrow> None | Some names \<Rightarrow> Some (count_fd_names links (fd_dir pid) names (0, fd_types_zero)))"

definition find_fd :: "fd_data list \<Rightarrow> int \<Rightarrow> fd_data option" where
  "find_fd ds pid = List.find (\<lambda>d. fd_pid d = pid) ds"

definition fd_baseline :: "fd_data list \<Rightarrow> int \<Rightarrow> int \<Rightarrow> fd_data option \<times> fd_data list" where
  "fd_baseline inits pid cnt =
     (case find_fd inits pid of
        Some i \<Rightarrow> (Some i, inits)
      | None \<Rightarrow> if length inits < FD_MAX_PROCS * 2
                then (Some \<lparr>fd_pid = pid, fd_num = cnt\<rparr>, inits @ [\<lparr>fd_pid = pid, fd_num = cnt\<rparr>]) else (None, inits))"

definition cmp_fd_count_desc :: "fdmon_entry \<Rightarrow> fdmon_entry \<Rightarrow> int" where
  "cmp_fd_count_desc a b = fe_count b - fe_count a"

definition cmp_fd_change_desc :: "fdmon_entry \<Rightarrow> fdmon_entry \<Rightarrow> int" where
  "cmp_fd_change_desc a b = fe_change b - fe_change a"

definition add_fd_summary :: "fdmon_entry \<Rightarrow> fdmon_summary \<Rightarrow> fdmon_summary" where
  "add_fd_summary e m =
     m\<lparr>fs_total_fds := fs_total_fds m + fe_count e, fs_proc_count := fs_proc_count m + 1,
       fs_potential_leaks := (if fe_change e > 0 then fs_potential_leaks m + 1 else fs_potential_leaks m)\<rparr>"

text \<open>The body of the loop for a process with its descriptors counted.\<close>

definition fd_process :: "proc_fs \<Rightarrow> (nat \<Rightarrow> string) \<Rightarrow> int \<Rightarrow> int \<Rightarrow> fd_types \<Rightarrow> fdmon \<times> fdmon_entry list \<Rightarrow> fdmon \<times> fdmon_entry list" where
  "fd_process fs stack pid cnt types a =
     (case a of (s, all) \<Rightarrow>
        (case fd_baseline (fm_initial s) pid cnt of
           (init, inits) \<Rightarrow>
             (let ini = (case init of None \<Rightarrow> cnt | Some i \<Rightarrow> fd_num i);
                  e = \<lparr>fe_pid = pid, fe_cmd = entry_cmd fs pid (stack (length all)), fe_count = cnt, fe_initial = ini,
                       fe_delta = (case find_fd (fm_previous s) pid of None \<Rightarrow> 0 | Some p \<Rightarrow> cnt - fd_num p),
                       fe_change = cnt - ini, fe_types = types\<rparr>
              in (s\<lparr>fm_current := (if length (fm_current s) < FD_MAX_PROCS then fm_current s @ [\<lparr>fd_pid = pid, fd_num = cnt\<rparr>] else fm_current s),
                    fm_initial := inits, fm_summary := add_fd_summary e (fm_summary s)\<rparr>, all @ [e]))))"

fun scan_fds :: "proc_fs \<Rightarrow> proc_dirs \<Rightarrow> proc_links \<Rightarrow> (nat \<Rightarrow> string) \<Rightarrow> string list \<Rightarrow> fdmon \<times> fdmon_entry list \<Rightarrow> fdmon \<times> fdmon_entry list" where
  "scan_fds fs dirs links stack [] a = a"
| "scan_fds fs dirs links stack (name # names) a =
     (if length (snd a) \<ge> FD_MAX_PROCS then a
      else if \<not> is_pid_entry name then scan_fds fs dirs links stack names a
      else case count_fds dirs links (atoi name) of
          None \<Rightarrow> scan_fds fs dirs links stack names a
        | Some (cnt, types) \<Rightarrow> scan_fds fs dirs links stack names (fd_process fs stack (atoi name) cnt types a))"

definition fdmon_collect ::
    "proc_fs \<Rightarrow> proc_dirs \<Rightarrow> proc_links \<Rightarrow> (nat \<Rightarrow> string) \<Rightarrow> fdmon \<Rightarrow> int \<times> fdmon" where
  "fdmon_collect fs dirs links stack s =
     (let s0 = s\<lparr>fm_previous := fm_current s, fm_current := [], fm_top_consumers := [], fm_leakers := [], fm_summary := fd_summary_zero\<rparr>
      in case dirs ''/proc'' of
           None \<Rightarrow> (-1, s0)
         | Some names \<Rightarrow>
             (case scan_fds fs dirs links stack names (s0, []) of
                (s1, all) \<Rightarrow>
                  (let by_count = c_qsort cmp_fd_count_desc all; by_change = c_qsort cmp_fd_change_desc by_count
                   in (0, s1\<lparr>fm_top_consumers := take FD_TOP_COUNT by_count,
                             fm_leakers := select_first FD_TOP_COUNT (\<lambda>e. fe_change e > 0) by_change, fm_has_previous := True\<rparr>))))"

definition consumer_obj :: "fdmon_entry \<Rightarrow> json_builder \<Rightarrow> json_builder" where
  "consumer_obj e = jobj [json_kv_int ''pid'' (fe_pid e), json_kv_string ''cmd'' (Some (fe_cmd e)), json_kv_int ''fd_count'' (fe_count e),
     json_kv_int ''initial_fd_count'' (fe_initial e), json_kv_int ''fd_change'' (fe_change e), json_kv_int ''fd_delta'' (fe_delta e),
     json_kv_int ''files'' (ft_files (fe_types e)), json_kv_int ''sockets'' (ft_sockets (fe_types e)),
     json_kv_int ''pipes'' (ft_pipes (fe_types e)), json_kv_int ''eventfds'' (ft_eventfds (fe_types e)),
     json_kv_int ''other'' (ft_other (fe_types e))]"

definition leaker_obj :: "fdmon_entry \<Rightarrow> json_builder \<Rightarrow> json_builder" where
  "leaker_obj e = jobj [json_kv_int ''pid'' (fe_pid e), json_kv_string ''cmd'' (Some (fe_cmd e)), json_kv_int ''fd_count'' (fe_count e),
     json_kv_int ''initial_fd_count'' (fe_initial e), json_kv_int ''fd_change'' (fe_change e)]"

definition fdmon_snapshot :: "fdmon \<Rightarrow> json_builder \<Rightarrow> json_builder" where
  "fdmon_snapshot s =
     jobj [jkey ''summary'' (jobj [json_kv_int ''total_fds'' (fs_total_fds (fm_summary s)), json_kv_int ''proc_count'' (fs_proc_count (fm_summary s)),
             json_kv_int ''potential_leaks'' (fs_potential_leaks (fm_summary s))]),
           jkey ''top_consumers'' (jarr [fold consumer_obj (fm_top_consumers s)]),
           jkey ''leakers'' (jarr [fold leaker_obj (fm_leakers s)])]"

definition fdmon_get_top_consumers :: "fdmon \<Rightarrow> int \<Rightarrow> (int \<times> fdmon_entry list) option" where
  "fdmon_get_top_consumers s n = copy_top (fm_top_consumers s) n"

definition fdmon_get_leakers :: "fdmon \<Rightarrow> int \<Rightarrow> (int \<times> fdmon_entry list) option" where
  "fdmon_get_leakers s n = copy_top (fm_leakers s) n"

definition fdmon_get_summary :: "fdmon \<Rightarrow> fdmon_summary" where
  "fdmon_get_summary s = fm_summary s"

section \<open>Counting descriptors\<close>

lemma count_fd_names_number: "fst (count_fd_names links dir names (n, t)) = n + int (length (filter is_pid_entry names))"
  by (induction links dir names "(n, t)" arbitrary: n t rule: count_fd_names.induct) auto

definition types_total :: "fd_types \<Rightarrow> int" where
  "types_total t = ft_files t + ft_sockets t + ft_pipes t + ft_eventfds t + ft_other t"

lemma classify_total: "types_total (classify_fd target t) = types_total t + 1"
  by (simp add: classify_fd_def types_total_def)

lemma count_fd_names_types:
  "types_total (snd (count_fd_names links dir names (n, t))) =
     types_total t + int (length (filter (\<lambda>x. is_pid_entry x \<and> link_target links 512 (dir @ ''/'' @ x) \<noteq> None) names))"
  by (induction links dir names "(n, t)" arbitrary: n t rule: count_fd_names.induct)
    (auto simp: classify_total split: option.splits)

text \<open>
  Also (descriptors and kinds). The count of a process is the number of its descriptors, and the five kinds add up to the number of those whose link can
  be read: no descriptor is counted under two kinds.
\<close>

theorem count_fds_total:
  assumes "dirs (fd_dir pid) = Some names" and "count_fds dirs links pid = Some (n, t)"
  shows "n = int (length (filter is_pid_entry names)) \<and>
    types_total t = int (length (filter (\<lambda>x. is_pid_entry x \<and> link_target links 512 (fd_dir pid @ ''/'' @ x) \<noteq> None) names)) \<and> types_total t \<le> n"
proof -
  have nt: "count_fd_names links (fd_dir pid) names (0, fd_types_zero) = (n, t)" using assms by (simp add: count_fds_def)
  have "length (filter (\<lambda>x. is_pid_entry x \<and> link_target links 512 (fd_dir pid @ ''/'' @ x) \<noteq> None) names) \<le> length (filter is_pid_entry names)"
    by (induction names) auto
  then show ?thesis
    using count_fd_names_number[of links "fd_dir pid" names 0 fd_types_zero] count_fd_names_types[of links "fd_dir pid" names 0 fd_types_zero] nt
    by (simp add: types_total_def fd_types_zero_def)
qed

theorem count_fds_total_witness:
  "\<exists>t. count_fds (\<lambda>d. Some [''.'', ''0'', ''1'']) (\<lambda>p. Some ''socket:[5]'') 7 = Some (2, t) \<and> types_total t = 2"
proof -
  obtain n t where c: "count_fds (\<lambda>d. Some [''.'', ''0'', ''1'']) (\<lambda>p. Some ''socket:[5]'') 7 = Some (n, t)"
    by (simp add: count_fds_def del: count_fd_names.simps) (metis surj_pair)
  from count_fds_total[OF _ this, of "[''.'', ''0'', ''1'']"] show ?thesis
    by (simp add: c is_pid_entry_def isdigit_def link_target_def)
qed

section \<open>Collections\<close>

text \<open>The processes a collection looks at.\<close>

definition fd_pids :: "proc_dirs \<Rightarrow> string list \<Rightarrow> int list" where
  "fd_pids dirs names = filter (\<lambda>p. dirs (fd_dir p) \<noteq> None) (map atoi (filter is_pid_entry names))"

definition fd_number :: "proc_dirs \<Rightarrow> proc_links \<Rightarrow> int \<Rightarrow> int" where
  "fd_number dirs links pid = (case count_fds dirs links pid of None \<Rightarrow> 0 | Some (n, t) \<Rightarrow> n)"

text \<open>An entry in terms of the counts before and the baselines.\<close>

definition fd_entry_ok :: "proc_dirs \<Rightarrow> proc_links \<Rightarrow> fd_data list \<Rightarrow> fd_data list \<Rightarrow> fdmon_entry \<Rightarrow> bool" where
  "fd_entry_ok dirs links previous inits e \<longleftrightarrow>
     fe_count e = fd_number dirs links (fe_pid e) \<and> fe_change e = fe_count e - fe_initial e \<and>
     fe_delta e = (case find_fd previous (fe_pid e) of None \<Rightarrow> 0 | Some p \<Rightarrow> fe_count e - fd_num p) \<and>
     (case find_fd inits (fe_pid e) of None \<Rightarrow> length inits = 200 \<and> fe_initial e = fe_count e | Some i \<Rightarrow> fe_initial e = fd_num i)"

text \<open>What holds of the entries so far, with the state \<open>s0\<close> at the start of the loop.\<close>

definition fd_scan_inv :: "proc_dirs \<Rightarrow> proc_links \<Rightarrow> fdmon \<Rightarrow> fdmon \<times> fdmon_entry list \<Rightarrow> bool" where
  "fd_scan_inv dirs links s0 a \<longleftrightarrow> (case a of (s, all) \<Rightarrow>
     prefix (fm_initial s0) (fm_initial s) \<and> length (fm_initial s) \<le> 200 \<and> distinct (map fd_pid (fm_initial s)) \<and>
     fm_previous s = fm_previous s0 \<and> length all \<le> 100 \<and> fm_current s = map (\<lambda>e. \<lparr>fd_pid = fe_pid e, fd_num = fe_count e\<rparr>) all \<and>
     fm_summary s = fold add_fd_summary all (fm_summary s0) \<and> (\<forall>e \<in> set all. fd_entry_ok dirs links (fm_previous s0) (fm_initial s) e))"

lemma fd_baseline_result:
  assumes "fd_baseline inits pid cnt = (i, inits')" "length inits \<le> 200" "distinct (map fd_pid inits)"
  shows "prefix inits inits' \<and> length inits' \<le> 200 \<and> distinct (map fd_pid inits') \<and> find_fd inits' pid = i \<and> (i = None \<longrightarrow> length inits' = 200)"
proof (cases "find_fd inits pid")
  case None
  then have "pid \<notin> fd_pid ` set inits" by (auto simp: find_fd_def find_None_iff)
  moreover have "find_fd (inits @ [\<lparr>fd_pid = pid, fd_num = cnt\<rparr>]) pid = Some \<lparr>fd_pid = pid, fd_num = cnt\<rparr>"
    using None by (induction inits) (auto simp: find_fd_def split: if_splits)
  ultimately show ?thesis using assms None by (auto simp: fd_baseline_def FD_MAX_PROCS_def split: if_splits)
qed (use assms in \<open>auto simp: fd_baseline_def\<close>)

lemma find_fd_prefix: "prefix inits inits' \<Longrightarrow> find_fd inits p = Some d \<Longrightarrow> find_fd inits' p = Some d"
proof -
  assume "prefix inits inits'" "find_fd inits p = Some d"
  then obtain r where "inits' = inits @ r" "find_fd inits p = Some d" by (auto simp: prefix_def)
  then show ?thesis by (induction inits arbitrary: inits') (auto simp: find_fd_def split: if_splits)
qed

lemma fd_process_inv:
  assumes inv: "fd_scan_inv dirs links s0 (s, all)" and lt: "length all < 100"
    and c: "count_fds dirs links pid = Some (cnt, types)"
  shows "fd_scan_inv dirs links s0 (fd_process fs stack pid cnt types (s, all)) \<and>
    map fe_pid (snd (fd_process fs stack pid cnt types (s, all))) = map fe_pid all @ [pid]"
proof -
  obtain i inits where b: "fd_baseline (fm_initial s) pid cnt = (i, inits)" by fastforce
  have r: "prefix (fm_initial s) inits" "length inits \<le> 200" "distinct (map fd_pid inits)" "find_fd inits pid = i" "i = None \<longrightarrow> length inits = 200"
    using fd_baseline_result[OF b] inv by (simp_all add: fd_scan_inv_def)
  have p: "prefix (fm_initial s0) inits" using inv r(1) by (auto simp: fd_scan_inv_def intro: prefix_order.trans)
  have old: "fd_entry_ok dirs links (fm_previous s0) inits e" if e: "fd_entry_ok dirs links (fm_previous s0) (fm_initial s) e" for e
  proof (cases "find_fd (fm_initial s) (fe_pid e)")
    case None
    then have "length (fm_initial s) = 200" using e by (simp add: fd_entry_ok_def)
    then have "inits = fm_initial s" using r(1,2) by (auto simp: prefix_def)
    then show ?thesis using e by simp
  next
    case (Some d)
    then show ?thesis using find_fd_prefix[OF r(1) Some] e by (simp add: fd_entry_ok_def)
  qed
  obtain e where e: "fd_process fs stack pid cnt types (s, all) =
      (s\<lparr>fm_current := fm_current s @ [\<lparr>fd_pid = fe_pid e, fd_num = fe_count e\<rparr>], fm_initial := inits, fm_summary := add_fd_summary e (fm_summary s)\<rparr>, all @ [e])"
    and ok: "fd_entry_ok dirs links (fm_previous s0) inits e" "fe_pid e = pid"
  proof
    let ?ini = "case i of None \<Rightarrow> cnt | Some i \<Rightarrow> fd_num i"
    let ?e = "\<lparr>fe_pid = pid, fe_cmd = entry_cmd fs pid (stack (length all)), fe_count = cnt, fe_initial = ?ini,
      fe_delta = (case find_fd (fm_previous s) pid of None \<Rightarrow> 0 | Some p \<Rightarrow> cnt - fd_num p), fe_change = cnt - ?ini, fe_types = types\<rparr>"
    have "length (fm_current s) < FD_MAX_PROCS" using inv lt by (simp add: fd_scan_inv_def FD_MAX_PROCS_def)
    then show "fd_process fs stack pid cnt types (s, all) = (s\<lparr>fm_current := fm_current s @ [\<lparr>fd_pid = fe_pid ?e, fd_num = fe_count ?e\<rparr>],
        fm_initial := inits, fm_summary := add_fd_summary ?e (fm_summary s)\<rparr>, all @ [?e])"
      by (simp add: fd_process_def b Let_def)
    have "fm_previous s = fm_previous s0" using inv by (simp add: fd_scan_inv_def)
    then show "fd_entry_ok dirs links (fm_previous s0) inits ?e"
      using c r(4,5) by (cases i; cases "find_fd (fm_previous s0) pid") (simp_all add: fd_entry_ok_def fd_number_def)
  qed simp
  show ?thesis using inv lt r p old ok by (simp add: fd_scan_inv_def e)
qed

lemma scan_fds_inv:
  assumes "fd_scan_inv dirs links s0 a"
  shows "fd_scan_inv dirs links s0 (scan_fds fs dirs links stack names a) \<and>
    map fe_pid (snd (scan_fds fs dirs links stack names a)) = map fe_pid (snd a) @ take (100 - length (snd a)) (fd_pids dirs names)"
  using assms
proof (induction names arbitrary: a)
  case (Cons name names)
  obtain s all where a: "a = (s, all)" by (cases a)
  have l: "length all \<le> 100" using Cons.prems by (simp add: a fd_scan_inv_def)
  show ?case
  proof (cases "length all = 100")
    case True
    then show ?thesis using Cons.prems by (simp add: a FD_MAX_PROCS_def)
  next
    case False
    then have lt: "length all < 100" "\<not> FD_MAX_PROCS \<le> length all" using l by (simp_all add: FD_MAX_PROCS_def)
    show ?thesis
    proof (cases "is_pid_entry name")
      case False
      then show ?thesis using Cons.IH[OF Cons.prems] lt by (simp add: a fd_pids_def)
    next
      case name: True
      show ?thesis
      proof (cases "count_fds dirs links (atoi name)")
        case None
        then have "dirs (fd_dir (atoi name)) = None" by (simp add: count_fds_def split: option.splits)
        then show ?thesis using Cons.IH[OF Cons.prems] lt name None by (simp add: a fd_pids_def)
      next
        case (Some ct)
        obtain cnt types where ct: "ct = (cnt, types)" by (cases ct)
        then have d: "dirs (fd_dir (atoi name)) \<noteq> None" using Some by (auto simp: count_fds_def split: option.splits)
        let ?a = "fd_process fs stack (atoi name) cnt types (s, all)"
        have i: "fd_scan_inv dirs links s0 ?a" "map fe_pid (snd ?a) = map fe_pid all @ [atoi name]"
          using fd_process_inv[of dirs links s0 s all "atoi name" cnt types fs stack] Cons.prems lt(1) Some by (simp_all add: a ct)
        have m: "length (snd ?a) = Suc (length all)" using arg_cong[OF i(2), of length] by simp
        have "100 - length all = Suc (100 - Suc (length all))" using lt(1) by simp
        then show ?thesis using Cons.IH[OF i(1)] lt name Some d i(2) m by (simp add: a ct fd_pids_def)
      qed
    qed
  qed
qed (simp add: fd_pids_def)

definition fdmon_inv :: "fdmon \<Rightarrow> bool" where
  "fdmon_inv s \<longleftrightarrow> length (fm_initial s) \<le> 200 \<and> distinct (map fd_pid (fm_initial s))"

lemma fdmon_inv_init: "fdmon_inv fdmon_init"
  by (simp add: fdmon_inv_def fdmon_init_def)

lemma c_qsort_sign: "(\<And>a b. f a b \<le> 0 \<longleftrightarrow> g a b \<le> 0) \<Longrightarrow> c_qsort f xs = c_qsort g xs"
proof -
  assume "\<And>a b. f a b \<le> 0 \<longleftrightarrow> g a b \<le> 0"
  then have "qinsert f = qinsert g" by (intro ext, rename_tac x ys, induct_tac ys) simp_all
  then show ?thesis by (simp add: c_qsort_def)
qed

lemma fd_compare_eqs: "c_qsort cmp_fd_count_desc xs = c_qsort (cmp_desc fe_count) xs" "c_qsort cmp_fd_change_desc xs = c_qsort (cmp_desc fe_change) xs"
  by (rule c_qsort_sign, simp add: cmp_fd_count_desc_def cmp_fd_change_desc_def cmp_desc_le)+

lemma fold_fd_summary:
  "fs_total_fds (fold add_fd_summary es m) = fs_total_fds m + sum_list (map fe_count es)"
  "fs_total_delta (fold add_fd_summary es m) = fs_total_delta m"
  "fs_proc_count (fold add_fd_summary es m) = fs_proc_count m + int (length es)"
  "fs_potential_leaks (fold add_fd_summary es m) = fs_potential_leaks m + int (length (filter (\<lambda>e. fe_change e > 0) es))"
  by (induction es arbitrary: m) (simp_all add: add_fd_summary_def)

lemma fdmon_collect_result:
  assumes "fdmon_inv s" "dirs ''/proc'' = Some names"
  shows "\<exists>s' all. fdmon_collect fs dirs links stack s = (0, s') \<and> fdmon_inv s' \<and> prefix (fm_initial s) (fm_initial s') \<and>
    map fe_pid all = take 100 (fd_pids dirs names) \<and> (\<forall>e \<in> set all. fd_entry_ok dirs links (fm_current s) (fm_initial s') e) \<and>
    fm_top_consumers s' = take 25 (c_qsort cmp_fd_count_desc all) \<and>
    fm_leakers s' = select_first 25 (\<lambda>e. fe_change e > 0) (c_qsort cmp_fd_change_desc (c_qsort cmp_fd_count_desc all)) \<and>
    fm_summary s' = fold add_fd_summary all fd_summary_zero"
proof -
  let ?s0 = "s\<lparr>fm_previous := fm_current s, fm_current := [], fm_top_consumers := [], fm_leakers := [], fm_summary := fd_summary_zero\<rparr>"
  obtain s1 all where r: "scan_fds fs dirs links stack names (?s0, []) = (s1, all)" by fastforce
  have "fd_scan_inv dirs links ?s0 (?s0, [])" using assms(1) by (simp add: fd_scan_inv_def fdmon_inv_def)
  from scan_fds_inv[OF this, of fs stack names]
  have i: "fd_scan_inv dirs links ?s0 (s1, all)" "map fe_pid all = take 100 (fd_pids dirs names)" by (simp_all add: r)
  let ?s' = "s1\<lparr>fm_top_consumers := take 25 (c_qsort cmp_fd_count_desc all),
    fm_leakers := select_first 25 (\<lambda>e. fe_change e > 0) (c_qsort cmp_fd_change_desc (c_qsort cmp_fd_count_desc all)), fm_has_previous := True\<rparr>"
  have "fdmon_collect fs dirs links stack s = (0, ?s')" by (simp add: fdmon_collect_def assms(2) r Let_def FD_TOP_COUNT_def)
  then show ?thesis using i by (intro exI[of _ ?s'] exI[of _ all]) (simp add: fd_scan_inv_def fdmon_inv_def)
qed

text \<open>
  C28 (descriptors of the processes). A collection looks at the first hundred processes whose descriptor directory can be read. The consumers and the leakers are the
  best 25 of them by count and by growth over the baseline, the differences are those from the collection before and from the
  baselines, which never change, and the totals are sums over these hundred, with no difference of the totals.
\<close>

theorem fdmon_reports_best:
  assumes "fdmon_inv s" "dirs ''/proc'' = Some names"
  shows "\<exists>s' all. fdmon_collect fs dirs links stack s = (0, s') \<and> fdmon_inv s' \<and> prefix (fm_initial s) (fm_initial s') \<and>
    map fe_pid all = take 100 (fd_pids dirs names) \<and> (\<forall>e \<in> set all. fd_entry_ok dirs links (fm_current s) (fm_initial s') e) \<and>
    best 25 (\<lambda>e. True) (\<lambda>a b. fe_count b \<le> fe_count a) all (fm_top_consumers s') \<and>
    best 25 (\<lambda>e. fe_change e > 0) (\<lambda>a b. fe_change b \<le> fe_change a) all (fm_leakers s') \<and>
    fm_summary s' = \<lparr>fs_total_fds = sum_list (map fe_count all), fs_total_delta = 0, fs_proc_count = int (length all),
      fs_potential_leaks = int (length (filter (\<lambda>e. fe_change e > 0) all))\<rparr>"
proof -
  obtain s' all where r: "fdmon_collect fs dirs links stack s = (0, s')" "fdmon_inv s'" "prefix (fm_initial s) (fm_initial s')"
    "map fe_pid all = take 100 (fd_pids dirs names)" "\<forall>e \<in> set all. fd_entry_ok dirs links (fm_current s) (fm_initial s') e"
    "fm_top_consumers s' = take 25 (c_qsort cmp_fd_count_desc all)"
    "fm_leakers s' = select_first 25 (\<lambda>e. fe_change e > 0) (c_qsort cmp_fd_change_desc (c_qsort cmp_fd_count_desc all))"
    "fm_summary s' = fold add_fd_summary all fd_summary_zero"
    using fdmon_collect_result[where fs = fs and links = links and stack = stack and dirs = dirs, OF assms] by metis
  have "best 25 (\<lambda>e. True) (\<lambda>a b. fe_count b \<le> fe_count a) all (fm_top_consumers s')"
    using best_desc[of 25 "\<lambda>e. True" fe_count all] by (simp add: r(6) fd_compare_eqs select_first_eq)
  moreover have "best 25 (\<lambda>e. fe_change e > 0) (\<lambda>a b. fe_change b \<le> fe_change a) all (fm_leakers s')"
    using best_desc[of 25 "\<lambda>e. fe_change e > 0" fe_change "c_qsort cmp_fd_count_desc all"] by (simp add: r(7) fd_compare_eqs best_c_qsort)
  moreover have "fm_summary s' = \<lparr>fs_total_fds = sum_list (map fe_count all), fs_total_delta = 0, fs_proc_count = int (length all),
      fs_potential_leaks = int (length (filter (\<lambda>e. fe_change e > 0) all))\<rparr>"
    unfolding r(8) by (rule fdmon_summary.equality) (simp_all add: fold_fd_summary fd_summary_zero_def)
  ultimately show ?thesis using r(1-5) by blast
qed

theorem fdmon_reports_best_witness:
  "\<exists>s'. fdmon_collect (\<lambda>p. None) (\<lambda>d. Some [''5'', ''self'']) (\<lambda>l. None) (\<lambda>i. []) fdmon_init = (0, s') \<and> fs_total_fds (fm_summary s') = 1"
proof -
  have p: "fd_pids (\<lambda>d. Some [''5'', ''self'']) [''5'', ''self''] = [5]" by code_simp
  let ?d = "\<lambda>d. Some [''5'', ''self'']"
  obtain s' all where s': "fdmon_collect (\<lambda>p. None) ?d (\<lambda>l. None) (\<lambda>i. []) fdmon_init = (0, s')"
    "map fe_pid all = take 100 (fd_pids ?d [''5'', ''self''])" "\<forall>e \<in> set all. fd_entry_ok ?d (\<lambda>l. None) (fm_current fdmon_init) (fm_initial s') e"
    "fm_summary s' = \<lparr>fs_total_fds = sum_list (map fe_count all), fs_total_delta = 0, fs_proc_count = int (length all),
      fs_potential_leaks = int (length (filter (\<lambda>e. fe_change e > 0) all))\<rparr>"
    using fdmon_reports_best[where fs = "\<lambda>p. None" and dirs = ?d and links = "\<lambda>l. None" and stack = "\<lambda>i. []" and
      names = "[''5'', ''self'']", OF fdmon_inv_init refl] by blast
  have "map fe_pid all = [5]" using s'(2) p by simp
  then obtain e where e: "all = [e]" "fe_pid e = 5" by auto
  have "fe_count e = fd_number (\<lambda>d. Some [''5'', ''self'']) (\<lambda>l. None) 5" using s'(3) e by (simp add: fd_entry_ok_def)
  also have "\<dots> = 1" by code_simp
  finally show ?thesis using s'(1,4) e(1) by simp
qed

text \<open>
  Also (leaks that are never seen). Once two hundred baselines exist, no later collection reports a leak of a process without one, however many
  descriptors it opens; the baselines of processes that have ended are never given up.
\<close>

theorem fdmon_leak_unseen:
  assumes "fdmon_inv s" "length (fm_initial s) = 200" "find_fd (fm_initial s) p = None" "dirs ''/proc'' = Some names"
  shows "\<exists>s'. fdmon_collect fs dirs links stack s = (0, s') \<and> fm_initial s' = fm_initial s \<and> (\<forall>e \<in> set (fm_leakers s'). fe_pid e \<noteq> p)"
proof -
  obtain s' all where r: "fdmon_collect fs dirs links stack s = (0, s')" "fdmon_inv s'" "prefix (fm_initial s) (fm_initial s')"
    "\<forall>e \<in> set all. fd_entry_ok dirs links (fm_current s) (fm_initial s') e"
    "fm_leakers s' = select_first 25 (\<lambda>e. fe_change e > 0) (c_qsort cmp_fd_change_desc (c_qsort cmp_fd_count_desc all))"
    using fdmon_collect_result[where fs = fs and links = links and stack = stack and dirs = dirs, OF assms(1,4)] by metis
  have i: "fm_initial s' = fm_initial s" using r(2,3) assms(2) by (auto simp: prefix_def fdmon_inv_def)
  have "fe_pid e \<noteq> p" if e: "e \<in> set (fm_leakers s')" for e
  proof
    assume p: "fe_pid e = p"
    have "e \<in> set all \<and> fe_change e > 0" using e by (auto simp: r(5) select_first_eq dest: in_set_takeD)
    then show False using r(4) assms(3) i p by (auto simp: fd_entry_ok_def)
  qed
  then show ?thesis using r(1) i by blast
qed

theorem fdmon_leak_unseen_witness:
  "\<exists>s'. fdmon_collect (\<lambda>p. None) (\<lambda>d. Some [''500'']) (\<lambda>l. None) (\<lambda>i. [])
     (fdmon_init\<lparr>fm_initial := map (\<lambda>i. \<lparr>fd_pid = int i, fd_num = 0\<rparr>) [0..<200]\<rparr>) = (0, s') \<and> (\<forall>e \<in> set (fm_leakers s'). fe_pid e \<noteq> 500)"
proof -
  let ?s = "fdmon_init\<lparr>fm_initial := map (\<lambda>i. \<lparr>fd_pid = int i, fd_num = 0\<rparr>) [0..<200]\<rparr>"
  have "fdmon_inv ?s" by (simp add: fdmon_inv_def o_def distinct_map inj_on_def)
  moreover have "find_fd (fm_initial ?s) 500 = None" by (auto simp: find_fd_def find_None_iff)
  ultimately show ?thesis
    using fdmon_leak_unseen[where s = ?s and p = 500 and names = "[''500'']" and fs = "\<lambda>p. None" and dirs = "\<lambda>d. Some [''500'']" and
      links = "\<lambda>l. None" and stack = "\<lambda>i. []"] by fastforce
qed

section \<open>What is shown\<close>

definition consumer_tree :: "fdmon_entry \<Rightarrow> jval" where
  "consumer_tree e = JObj [(''pid'', JInt (fe_pid e)), (''cmd'', JStr (fe_cmd e)), (''fd_count'', JInt (fe_count e)),
     (''initial_fd_count'', JInt (fe_initial e)), (''fd_change'', JInt (fe_change e)), (''fd_delta'', JInt (fe_delta e)),
     (''files'', JInt (ft_files (fe_types e))), (''sockets'', JInt (ft_sockets (fe_types e))), (''pipes'', JInt (ft_pipes (fe_types e))),
     (''eventfds'', JInt (ft_eventfds (fe_types e))), (''other'', JInt (ft_other (fe_types e)))]"

definition leaker_tree :: "fdmon_entry \<Rightarrow> jval" where
  "leaker_tree e = JObj [(''pid'', JInt (fe_pid e)), (''cmd'', JStr (fe_cmd e)), (''fd_count'', JInt (fe_count e)),
     (''initial_fd_count'', JInt (fe_initial e)), (''fd_change'', JInt (fe_change e))]"

definition fdmon_tree :: "fdmon \<Rightarrow> jval" where
  "fdmon_tree s = JObj [(''summary'', JObj [(''total_fds'', JInt (fs_total_fds (fm_summary s))), (''proc_count'', JInt (fs_proc_count (fm_summary s))),
       (''potential_leaks'', JInt (fs_potential_leaks (fm_summary s)))]),
     (''top_consumers'', JArr (map consumer_tree (fm_top_consumers s))), (''leakers'', JArr (map leaker_tree (fm_leakers s)))]"

lemma emits_fd_objs [json_rules]:
  "emits_elts (consumer_obj e) [consumer_tree e]" "emits_elts (leaker_obj e) [leaker_tree e]"
  unfolding consumer_obj_def consumer_tree_def leaker_obj_def leaker_tree_def
  by (rule emits_elts_cong, (rule json_rules)+, simp)+

interpretation fdmon_out: snapshot_writer fdmon_snapshot fdmon_tree "\<lambda>s. True" "\<lambda>s. True"
proof
  fix s
  show "emits_val (fdmon_snapshot s) (fdmon_tree s)"
    unfolding fdmon_snapshot_def fdmon_tree_def by (rule emits_val_cong, (rule json_rules)+) simp
  show "jval_ok (fdmon_tree s)" by (auto simp: fdmon_tree_def consumer_tree_def leaker_tree_def key_ok_def)
qed

end
