(* ===== verification/Cpuload.thy ===== *)
theory Cpuload
  imports PidHash Sorting StatFile Scanf JsonObj "HOL-Library.Word"
begin

text \<open>
  The CPU load service (\<open>src/services/cpuload.c\<close>). Counters are 64-bit words. A percentage is a \<open>double\<close>: its type is \<open>'d\<close>,
  \<open>pct a b\<close> is the quotient \<open>100.0 * a / b\<close> the code computes and \<open>thr\<close> the constant 0.01. \<open>None\<close> as the result of a collection is a
  traversal that does not end, or a \<open>stat\<close> file on which the code has no defined behaviour.
\<close>

section \<open>State\<close>

record cpu_counters =
  cc_user :: "64 word"
  cc_nice :: "64 word"
  cc_system :: "64 word"
  cc_idle :: "64 word"
  cc_iowait :: "64 word"
  cc_irq :: "64 word"
  cc_softirq :: "64 word"
  cc_total :: "64 word"

record proc_cpu =
  cv_utime :: "64 word"
  cv_stime :: "64 word"
  cv_total_time :: "64 word"
  cv_cmd :: string

record 'd cpuload_entry =
  ce_pid :: int
  ce_cmd :: string
  ce_cpu_percent :: 'd
  ce_utime :: "64 word"
  ce_stime :: "64 word"

record 'd cpuload_system =
  cs_user_percent :: 'd
  cs_system_percent :: 'd
  cs_idle_percent :: 'd
  cs_iowait_percent :: 'd

record 'd cpuload =
  cl_curr_sys :: cpu_counters
  cl_prev_sys :: cpu_counters
  cl_system_stats :: "'d cpuload_system"
  cl_tab :: "proc_cpu ptable"
  cl_has_previous :: bool
  cl_top_consumers :: "'d cpuload_entry list"
  cl_clock_ticks :: int

definition CL_HASH :: nat where "CL_HASH = 8192"
definition CL_MAX :: nat where "CL_MAX = 4096"
definition CL_POOL :: nat where "CL_POOL = 4096 * 2"
definition CL_TOP :: nat where "CL_TOP = 20"

definition no_counters :: cpu_counters where
  "no_counters = \<lparr>cc_user = 0, cc_nice = 0, cc_system = 0, cc_idle = 0, cc_iowait = 0, cc_irq = 0, cc_softirq = 0, cc_total = 0\<rparr>"

text \<open>\<open>zero\<close> is 0.0, \<open>ticks\<close> the answer of \<open>sysconf(_SC_CLK_TCK)\<close>.\<close>

definition cpuload_init :: "'d \<Rightarrow> int \<Rightarrow> 'd cpuload" where
  "cpuload_init zero ticks =
     \<lparr>cl_curr_sys = no_counters, cl_prev_sys = no_counters,
      cl_system_stats = \<lparr>cs_user_percent = zero, cs_system_percent = zero, cs_idle_percent = zero, cs_iowait_percent = zero\<rparr>,
      cl_tab = empty_table \<lparr>cv_utime = 0, cv_stime = 0, cv_total_time = 0, cv_cmd = []\<rparr>,
      cl_has_previous = False, cl_top_consumers = [], cl_clock_ticks = (if ticks \<le> 0 then 100 else ticks)\<rparr>"

section \<open>Reading the counters\<close>

text \<open>The format \<open>cpu %lu %lu %lu %lu %lu %lu %lu\<close>.\<close>

definition cpu_format :: "directive list" where
  "cpu_format = [D_lit CHR ''c'', D_lit CHR ''p'', D_lit CHR ''u'', D_space, D_num K_ulong, D_space, D_num K_ulong, D_space,
     D_num K_ulong, D_space, D_num K_ulong, D_space, D_num K_ulong, D_space, D_num K_ulong, D_space, D_num K_ulong]"

text \<open>The \<open>i\<close>th argument of \<open>sscanf\<close>: what was assigned, or the old value.\<close>

definition scanned :: "sval list \<Rightarrow> nat \<Rightarrow> 64 word \<Rightarrow> 64 word" where
  "scanned vs i old = (if i < length vs then (case vs ! i of SNum v \<Rightarrow> word_of_int v | SStr s \<Rightarrow> old) else old)"

text \<open>The counters are filled in place: a scan that stops early leaves the first ones changed, and the total as it was.\<close>

definition parse_proc_stat :: "proc_fs \<Rightarrow> cpu_counters \<Rightarrow> bool \<times> cpu_counters" where
  "parse_proc_stat fs c =
     (case proc_read_file fs ''/proc/stat'' 1024 of
        None \<Rightarrow> (False, c)
      | Some buf \<Rightarrow>
          (let vs = sscanf cpu_format (cstr buf);
               c1 = c\<lparr>cc_user := scanned vs 0 (cc_user c), cc_nice := scanned vs 1 (cc_nice c), cc_system := scanned vs 2 (cc_system c),
                      cc_idle := scanned vs 3 (cc_idle c), cc_iowait := scanned vs 4 (cc_iowait c), cc_irq := scanned vs 5 (cc_irq c),
                      cc_softirq := scanned vs 6 (cc_softirq c)\<rparr>
           in if length vs \<noteq> 7 then (False, c1)
              else (True, c1\<lparr>cc_total := cc_user c1 + cc_nice c1 + cc_system c1 + cc_idle c1 + cc_iowait c1 + cc_irq c1 + cc_softirq c1\<rparr>)))"

text \<open>Skipping fields: \<open>n\<close> is the number of fields still to go.\<close>

fun skip_fields :: "nat \<Rightarrow> string \<Rightarrow> string" where
  "skip_fields 0 p = p"
| "skip_fields (Suc n) p = (if p = [] then p else skip_fields n (dropWhile isspace (dropWhile (\<lambda>c. \<not> isspace c) p)))"

definition cpu_stat_path :: "int \<Rightarrow> string" where
  "cpu_stat_path pid = ''/proc/'' @ int_str pid @ ''/stat''"

definition parse_pid_stat :: "proc_fs \<Rightarrow> int \<Rightarrow> (64 word \<times> 64 word \<times> string) stat_result" where
  "parse_pid_stat fs pid =
     (case proc_read_file fs (cpu_stat_path pid) 1024 of
        None \<Rightarrow> Stat_fails
      | Some buf \<Rightarrow>
          (case split_stat 128 (cstr buf) of
             Stat_fails \<Rightarrow> Stat_fails
           | Stat_undefined \<Rightarrow> Stat_undefined
           | Stat (cmd, p) \<Rightarrow>
               (case strtoul (skip_fields (14 - 3) p) of
                  (utime, p1) \<Rightarrow> Stat (word_of_int utime, word_of_int (fst (strtoul (dropWhile isspace p1))), cmd))))"

section \<open>Collection\<close>

definition compare_cpu :: "'d::linorder cpuload_entry \<Rightarrow> 'd cpuload_entry \<Rightarrow> int" where
  "compare_cpu ea eb =
     (if ce_cpu_percent eb > ce_cpu_percent ea then 1 else if ce_cpu_percent eb < ce_cpu_percent ea then -1 else 0)"

text \<open>The percentages of the whole system.\<close>

definition system_percentages :: "(64 word \<Rightarrow> 64 word \<Rightarrow> 'd) \<Rightarrow> 64 word \<Rightarrow> 'd cpuload \<Rightarrow> 'd cpuload" where
  "system_percentages pct total_delta s =
     (if total_delta > 0 \<and> cl_has_previous s
      then s\<lparr>cl_system_stats := \<lparr>cs_user_percent = pct (cc_user (cl_curr_sys s) - cc_user (cl_prev_sys s)) total_delta,
               cs_system_percent = pct (cc_system (cl_curr_sys s) - cc_system (cl_prev_sys s)) total_delta,
               cs_idle_percent = pct (cc_idle (cl_curr_sys s) - cc_idle (cl_prev_sys s)) total_delta,
               cs_iowait_percent = pct (cc_iowait (cl_curr_sys s) - cc_iowait (cl_prev_sys s)) total_delta\<rparr>\<rparr>
      else s)"

text \<open>The entry made for a process that was just stored in the table: none or one.\<close>

definition cpu_entry ::
    "(64 word \<Rightarrow> 64 word \<Rightarrow> 'd::linorder) \<Rightarrow> 'd \<Rightarrow> 64 word \<Rightarrow> bool \<Rightarrow> proc_cpu ptable \<Rightarrow> int \<Rightarrow> proc_cpu \<Rightarrow> 'd cpuload_entry list option" where
  "cpu_entry pct thr total_delta has_prev t pid v =
     (if has_prev \<and> total_delta > 0
      then case find_in_hash CL_HASH t (pt_prev t) pid of
          None \<Rightarrow> None
        | Some None \<Rightarrow> Some []
        | Some (Some j) \<Rightarrow>
            (let proc_delta = cv_total_time v - cv_total_time (c_val (pt_pool t j)); cpu_pct = pct proc_delta total_delta
             in Some (if cpu_pct > thr
                      then [\<lparr>ce_pid = pid, ce_cmd = bounded_copy 128 (cv_cmd v), ce_cpu_percent = cpu_pct, ce_utime = cv_utime v, ce_stime = cv_stime v\<rparr>]
                      else []))
      else Some [])"

fun cpu_loop ::
    "proc_fs \<Rightarrow> (64 word \<Rightarrow> 64 word \<Rightarrow> 'd::linorder) \<Rightarrow> 'd \<Rightarrow> 64 word \<Rightarrow> bool \<Rightarrow> string list \<Rightarrow> proc_cpu ptable \<Rightarrow> 'd cpuload_entry list
      \<Rightarrow> (proc_cpu ptable \<times> 'd cpuload_entry list) option" where
  "cpu_loop fs pct thr total_delta has_prev [] t es = Some (t, es)"
| "cpu_loop fs pct thr total_delta has_prev (name # names) t es =
     (if length es \<ge> CL_MAX then Some (t, es)
      else if \<not> is_pid_entry name then cpu_loop fs pct thr total_delta has_prev names t es
      else let pid = atoi name
           in case parse_pid_stat fs pid of
                Stat_undefined \<Rightarrow> None
              | Stat_fails \<Rightarrow> cpu_loop fs pct thr total_delta has_prev names t es
              | Stat (utime, stime, cmd) \<Rightarrow>
                  (case alloc_entry CL_POOL t of
                     None \<Rightarrow> Some (t, es)
                   | Some (i, t1) \<Rightarrow>
                       (let v = \<lparr>cv_utime = utime, cv_stime = stime, cv_total_time = utime + stime, cv_cmd = bounded_copy 128 cmd\<rparr>;
                            t2 = fill_cell CL_HASH i pid v t1
                        in case cpu_entry pct thr total_delta has_prev t2 pid v of
                             None \<Rightarrow> None
                           | Some new \<Rightarrow> cpu_loop fs pct thr total_delta has_prev names t2 (es @ new))))"

definition cpuload_collect ::
    "proc_fs \<Rightarrow> proc_dirs \<Rightarrow> (64 word \<Rightarrow> 64 word \<Rightarrow> 'd::linorder) \<Rightarrow> 'd \<Rightarrow> 'd cpuload \<Rightarrow> (int \<times> 'd cpuload) option" where
  "cpuload_collect fs dirs pct thr s =
     (let s1 = s\<lparr>cl_prev_sys := cl_curr_sys s, cl_curr_sys := snd (parse_proc_stat fs (cl_curr_sys s))\<rparr>;
          total_delta = cc_total (cl_curr_sys s1) - cc_total (cl_prev_sys s1);
          s2 = system_percentages pct total_delta s1;
          s3 = s2\<lparr>cl_tab := start_round (cl_tab s2)\<rparr>
      in case dirs ''/proc'' of
           None \<Rightarrow> Some (-1, s3)
         | Some names \<Rightarrow>
             (case cpu_loop fs pct thr total_delta (cl_has_previous s3) names (cl_tab s3) [] of
                None \<Rightarrow> None
              | Some (t, all_entries) \<Rightarrow>
                  Some (0, s3\<lparr>cl_tab := t, cl_top_consumers := take CL_TOP (c_qsort compare_cpu all_entries), cl_has_previous := True\<rparr>)))"

section \<open>Results\<close>

definition cpu_obj :: "('d \<Rightarrow> string) \<Rightarrow> 'd cpuload_entry \<Rightarrow> json_builder \<Rightarrow> json_builder" where
  "cpu_obj fmt e = jobj [json_kv_int ''pid'' (ce_pid e), json_kv_string ''cmd'' (Some (ce_cmd e)),
     json_kv_double fmt ''cpu_percent'' (ce_cpu_percent e), json_kv_uint ''utime'' (ce_utime e),
     json_kv_uint ''stime'' (ce_stime e)]"

definition cpuload_snapshot :: "('d \<Rightarrow> string) \<Rightarrow> 'd cpuload \<Rightarrow> json_builder \<Rightarrow> json_builder" where
  "cpuload_snapshot fmt s =
     jobj [jkey ''system'' (jobj [json_kv_double fmt ''user_percent'' (cs_user_percent (cl_system_stats s)),
             json_kv_double fmt ''system_percent'' (cs_system_percent (cl_system_stats s)),
             json_kv_double fmt ''idle_percent'' (cs_idle_percent (cl_system_stats s)),
             json_kv_double fmt ''iowait_percent'' (cs_iowait_percent (cl_system_stats s))]),
           jkey ''top_consumers'' (jarr [fold (cpu_obj fmt) (cl_top_consumers s)])]"

definition cpuload_get_top :: "'d cpuload \<Rightarrow> int \<Rightarrow> (int \<times> 'd cpuload_entry list) option" where
  "cpuload_get_top s max_entries = copy_top (cl_top_consumers s) max_entries"

definition cpuload_get_system :: "'d cpuload \<Rightarrow> 'd cpuload_system" where
  "cpuload_get_system s = cl_system_stats s"

section \<open>The walk over the processes\<close>

text \<open>The processes a collection stores, in the order of the directory, with their readings.\<close>

definition cpu_cell :: "proc_fs \<Rightarrow> string \<Rightarrow> (int \<times> proc_cpu) list" where
  "cpu_cell fs name =
     (if is_pid_entry name
      then case parse_pid_stat fs (atoi name) of
          Stat (u, s, cmd) \<Rightarrow> [(atoi name, \<lparr>cv_utime = u, cv_stime = s, cv_total_time = u + s, cv_cmd = bounded_copy 128 cmd\<rparr>)]
        | _ \<Rightarrow> []
      else [])"

definition cpu_cells :: "proc_fs \<Rightarrow> string list \<Rightarrow> (int \<times> proc_cpu) list" where
  "cpu_cells fs names = concat (map (cpu_cell fs) names)"

lemma cpu_cells_simps [simp]:
  "cpu_cells fs [] = []" "cpu_cells fs (name # names) = cpu_cell fs name @ cpu_cells fs names"
  by (simp_all add: cpu_cells_def)

definition defined_cpu_stats :: "proc_fs \<Rightarrow> bool" where
  "defined_cpu_stats fs \<longleftrightarrow> (\<forall>pid. parse_pid_stat fs pid \<noteq> Stat_undefined)"

lemma cpu_entry_returns: "pt_inv t \<Longrightarrow> \<exists>new. cpu_entry pct thr d hp t pid v = Some new \<and> length new \<le> 1"
  using find_in_hash_returns[of t CL_HASH "pt_prev t" pid]
  by (auto simp: cpu_entry_def Let_def split: option.splits)

text \<open>The step on a name that stands for a process in the table.\<close>

lemma cpu_loop_skip:
  "length es < CL_MAX \<Longrightarrow> cpu_cell fs name = [] \<Longrightarrow> defined_cpu_stats fs \<Longrightarrow>
   cpu_loop fs pct thr d hp (name # names) t es = cpu_loop fs pct thr d hp names t es"
  by (auto simp: cpu_cell_def defined_cpu_stats_def Let_def split: stat_result.splits if_splits)

lemma cpu_loop_put:
  assumes "length es < CL_MAX" "cpu_cell fs name = [(pid, v)]" "alloc_entry CL_POOL t = Some (i, t1)"
    "cpu_entry pct thr d hp (fill_cell CL_HASH i pid v t1) pid v = Some new"
  shows "cpu_loop fs pct thr d hp (name # names) t es =
    cpu_loop fs pct thr d hp names (fill_cell CL_HASH i pid v t1) (es @ new)"
  using assms by (auto simp: cpu_cell_def Let_def split: stat_result.splits if_splits prod.splits)

lemma cpu_cell_cases: "cpu_cell fs name = [] \<or> (\<exists>pid v. cpu_cell fs name = [(pid, v)])"
  by (auto simp: cpu_cell_def split: stat_result.splits)

text \<open>A property of the entries that every step of a round over \<open>xs\<close> keeps.\<close>

definition keeps_entries ::
    "(64 word \<Rightarrow> 64 word \<Rightarrow> 'd::linorder) \<Rightarrow> 'd \<Rightarrow> 64 word \<Rightarrow> bool \<Rightarrow> (int \<times> proc_cpu) list \<Rightarrow> proc_cpu ptable
      \<Rightarrow> (nat \<Rightarrow> 'd cpuload_entry list \<Rightarrow> bool) \<Rightarrow> bool" where
  "keeps_entries pct thr d hp xs t0 Q \<longleftrightarrow> (\<forall>n t es new. n < length xs \<longrightarrow> in_round CL_HASH xs (Suc n) t0 t \<longrightarrow>
     cpu_entry pct thr d hp t (fst (xs ! n)) (snd (xs ! n)) = Some new \<longrightarrow> Q n es \<longrightarrow> Q (Suc n) (es @ new))"

lemma cpu_loop_result:
  assumes "defined_cpu_stats fs" and Q: "keeps_entries pct thr d hp xs t0 Q" and len: "length xs \<le> CL_POOL"
    and "in_round CL_HASH xs n t0 t" "pt_inv t" "length es \<le> n" "length es \<le> CL_MAX" "Q n es" "n \<le> length xs" "drop n xs = cpu_cells fs names"
  shows "\<exists>t' es' m. cpu_loop fs pct thr d hp names t es = Some (t', es') \<and> in_round CL_HASH xs m t0 t' \<and> pt_inv t' \<and> Q m es' \<and>
    length es' \<le> CL_MAX \<and> m \<le> length xs \<and> (m = length xs \<or> CL_MAX \<le> length es') \<and> (length xs \<le> CL_MAX \<longrightarrow> m = length xs)"
  using assms(4-)
proof (induction names arbitrary: n t es)
  case Nil
  then show ?case by auto
next
  case (Cons name names)
  show ?case
  proof (cases "length es \<ge> CL_MAX")
    case True
    then show ?thesis using Cons.prems by auto
  next
    case False
    consider "cpu_cell fs name = []" | pid v where "cpu_cell fs name = [(pid, v)]" using cpu_cell_cases by blast
    then show ?thesis
    proof cases
      case 1
      then have "drop n xs = cpu_cells fs names" using Cons.prems by simp
      from Cons.IH[OF Cons.prems(1-6) this] show ?thesis
        using cpu_loop_skip[OF _ 1 assms(1), of es] False by (simp del: cpu_loop.simps)
    next
      case 2
      have dr: "drop n xs = (pid, v) # cpu_cells fs names" using Cons.prems(7) 2 by simp
      then have n: "n < length xs" by (metis drop_eq_Nil2 leI list.distinct(1))
      then have x: "xs ! n = (pid, v)" "drop (Suc n) xs = cpu_cells fs names"
        using dr Cons_nth_drop_Suc[OF n] by auto
      have "n < CL_POOL" using n len by simp
      then obtain t1 where t1: "alloc_entry CL_POOL t = Some (n, t1)"
        and ir: "in_round CL_HASH xs (Suc n) t0 (fill_cell CL_HASH n pid v t1)"
        using in_round_put[OF Cons.prems(1) _ x(1)] by blast
      define t2 where "t2 = fill_cell CL_HASH n pid v t1"
      have pt2: "pt_inv t2" unfolding t2_def by (rule pt_inv_put[OF Cons.prems(2) t1])
      obtain new where new: "cpu_entry pct thr d hp t2 pid v = Some new" "length new \<le> 1"
        using cpu_entry_returns[OF pt2] by blast
      have Q': "Q (Suc n) (es @ new)"
        using Q ir new(1) n x(1) Cons.prems(5) unfolding keeps_entries_def t2_def by fastforce
      have l: "length (es @ new) \<le> Suc n" "length (es @ new) \<le> CL_MAX" "Suc n \<le> length xs" using Cons.prems(3) False new(2) n by simp_all
      show ?thesis
        using Cons.IH[OF ir[folded t2_def] pt2 l(1,2) Q' l(3) x(2)] cpu_loop_put[OF _ 2 t1, of es pct thr d hp new] False new(1)
        by (simp add: t2_def del: cpu_loop.simps)
    qed
  qed
qed

section \<open>Properties\<close>

definition cpuload_inv :: "'d cpuload \<Rightarrow> bool" where
  "cpuload_inv s \<longleftrightarrow> pt_inv (cl_tab s) \<and> length (cl_top_consumers s) \<le> CL_TOP"

lemma cpuload_inv_init: "cpuload_inv (cpuload_init zero ticks)"
  by (simp add: cpuload_inv_def cpuload_init_def)

text \<open>The change of the total between the last two readings of \<open>/proc/stat\<close>.\<close>

definition total_change :: "proc_fs \<Rightarrow> 'd cpuload \<Rightarrow> 64 word" where
  "total_change fs s = cc_total (snd (parse_proc_stat fs (cl_curr_sys s))) - cc_total (cl_curr_sys s)"

lemma system_percentages_simps [simp]:
  "cl_tab (system_percentages pct d s) = cl_tab s" "cl_has_previous (system_percentages pct d s) = cl_has_previous s"
  "cl_top_consumers (system_percentages pct d s) = cl_top_consumers s"
  "cl_curr_sys (system_percentages pct d s) = cl_curr_sys s"
  by (simp_all add: system_percentages_def)

lemma compare_cpu_eq: "compare_cpu = cmp_desc ce_cpu_percent"
  by (intro ext) (simp add: compare_cpu_def cmp_desc_def)

lemma cpuload_collect_result:
  assumes "cpuload_inv s" "defined_cpu_stats fs" "dirs ''/proc'' = Some names" "length (cpu_cells fs names) \<le> CL_POOL"
    and Q: "keeps_entries pct thr (total_change fs s) (cl_has_previous s) (cpu_cells fs names) (start_round (cl_tab s)) Q" "Q 0 []"
  shows "\<exists>s' es m. cpuload_collect fs dirs pct thr s = Some (0, s') \<and> cpuload_inv s' \<and> Q m es \<and> cl_has_previous s' \<and>
    length es \<le> CL_MAX \<and> m \<le> length (cpu_cells fs names) \<and> (m = length (cpu_cells fs names) \<or> CL_MAX \<le> length es) \<and> cl_top_consumers s' = take CL_TOP (c_qsort compare_cpu es) \<and> cl_curr_sys s' = snd (parse_proc_stat fs (cl_curr_sys s)) \<and>
    in_round CL_HASH (cpu_cells fs names) m (start_round (cl_tab s)) (cl_tab s') \<and>
    (length (cpu_cells fs names) \<le> CL_MAX \<longrightarrow> m = length (cpu_cells fs names)) \<and>
    cl_system_stats s' = cl_system_stats (system_percentages pct (total_change fs s)
      (s\<lparr>cl_prev_sys := cl_curr_sys s, cl_curr_sys := snd (parse_proc_stat fs (cl_curr_sys s))\<rparr>))"
proof -
  have pt: "pt_inv (start_round (cl_tab s))" using assms(1) by (simp add: cpuload_inv_def)
  obtain t es m where r: "cpu_loop fs pct thr (total_change fs s) (cl_has_previous s) names (start_round (cl_tab s)) [] = Some (t, es)"
    "in_round CL_HASH (cpu_cells fs names) m (start_round (cl_tab s)) t" "pt_inv t" "Q m es" "length es \<le> CL_MAX" "m \<le> length (cpu_cells fs names)"
    "m = length (cpu_cells fs names) \<or> CL_MAX \<le> length es"
    "length (cpu_cells fs names) \<le> CL_MAX \<longrightarrow> m = length (cpu_cells fs names)"
    using cpu_loop_result[OF assms(2) Q(1) assms(4) in_round_start pt _ _ Q(2), of names] by auto
  show ?thesis
    using assms(3) r
    by (simp add: cpuload_collect_def Let_def total_change_def[symmetric] cpuload_inv_def)
      (intro exI[of _ es] exI[of _ m], simp)
qed

text \<open>
  The entry that the process number \<open>i\<close> of a round over \<open>xs\<close> gets, when the total of the system moved by \<open>d\<close>: its share is the change against the
  cell it is compared with, in the pool as it is when its own cell has been filled.
\<close>

definition consumer_at ::
    "(64 word \<Rightarrow> 64 word \<Rightarrow> 'd::linorder) \<Rightarrow> 'd \<Rightarrow> 64 word \<Rightarrow> (int \<times> proc_cpu) list \<Rightarrow> proc_cpu ptable \<Rightarrow> nat \<Rightarrow> 'd cpuload_entry option" where
  "consumer_at pct thr d xs t i =
     (let pool = pt_pool (round_table CL_HASH xs (Suc i) (start_round t)); v = snd (xs ! i)
      in case cell_before CL_HASH t pool (fst (xs ! i)) of
           None \<Rightarrow> None
         | Some j \<Rightarrow>
             (let share = pct (cv_total_time v - cv_total_time (c_val (pool j))) d
              in if share > thr
                 then Some \<lparr>ce_pid = fst (xs ! i), ce_cmd = bounded_copy 128 (cv_cmd v), ce_cpu_percent = share,
                        ce_utime = cv_utime v, ce_stime = cv_stime v\<rparr>
                 else None))"

text \<open>The consumers of a round: none before there is a previous round with a smaller total.\<close>

definition consumers_shown ::
    "(64 word \<Rightarrow> 64 word \<Rightarrow> 'd::linorder) \<Rightarrow> 'd \<Rightarrow> 64 word \<Rightarrow> bool \<Rightarrow> (int \<times> proc_cpu) list \<Rightarrow> proc_cpu ptable \<Rightarrow> nat \<Rightarrow> 'd cpuload_entry list" where
  "consumers_shown pct thr d hp xs t n = (if hp \<and> d > 0 then List.map_filter (consumer_at pct thr d xs t) [0..<n] else [])"

lemma map_filter_append: "List.map_filter f (xs @ ys) = List.map_filter f xs @ List.map_filter f ys"
  by (simp add: List.map_filter_def)

lemma consumers_shown_prefix:
  "m \<le> n \<Longrightarrow> prefix (consumers_shown pct thr d hp xs t m) (consumers_shown pct thr d hp xs t n)"
  using upt_add_eq_append[of 0 m "n - m"] by (auto simp: consumers_shown_def map_filter_append)

lemma keeps_consumers:
  assumes "pt_inv t"
  shows "keeps_entries pct thr d hp xs (start_round t) (\<lambda>n es. es = consumers_shown pct thr d hp xs t n)"
  unfolding keeps_entries_def
proof (intro allI impI)
  fix n u es new
  assume n: "n < length xs" "in_round CL_HASH xs (Suc n) (start_round t) u"
    and e: "cpu_entry pct thr d hp u (fst (xs ! n)) (snd (xs ! n)) = Some new" and es: "es = consumers_shown pct thr d hp xs t n"
  have u: "u = round_table CL_HASH xs (Suc n) (start_round t)" using n(2) by (simp add: in_round_table)
  note f = in_round_cell_before[OF assms n(2), of "fst (xs ! n)"]
  show "es @ new = consumers_shown pct thr d hp xs t (Suc n)"
  proof (cases "hp \<and> d > 0")
    case False
    then show ?thesis using e es by (auto simp: consumers_shown_def cpu_entry_def split: if_splits)
  next
    case True
    have "new = List.map_filter (consumer_at pct thr d xs t) [n]"
      using e True f unfolding u
      by (auto simp: cpu_entry_def consumer_at_def Let_def map_filter_simps split: option.splits if_splits)
    then show ?thesis using True es by (simp add: consumers_shown_def map_filter_append)
  qed
qed

lemma consumer_at_row:
  assumes "e \<in> set (consumers_shown pct thr d hp xs t n)" "n \<le> length xs"
  shows "thr < ce_cpu_percent e \<and> (\<exists>v. (ce_pid e, v) \<in> set xs \<and> ce_utime e = cv_utime v \<and> ce_stime e = cv_stime v)"
proof -
  obtain i where i: "i < n" "consumer_at pct thr d xs t i = Some e"
    using assms(1) by (auto simp: consumers_shown_def List.map_filter_def split: if_splits)
  then have "thr < ce_cpu_percent e" "ce_pid e = fst (xs ! i)" "ce_utime e = cv_utime (snd (xs ! i))" "ce_stime e = cv_stime (snd (xs ! i))"
    by (auto simp: consumer_at_def Let_def split: option.splits if_splits)
  moreover have "xs ! i \<in> set xs" using i(1) assms(2) by simp
  ultimately show ?thesis by (metis prod.collapse)
qed

text \<open>
  C23 (what a collection reports). From every state the service reaches, on well-formed \<open>stat\<close> files of at most 8192
  processes, a collection returns 0. The entries it makes are exactly the first 4096 of the consumers of the round: the processes with a share above the
  threshold of the change of the total, each with the numbers its file holds, compared with the cell of the previous table
  that the reused pool leads to; there are none before a second round with a larger total. It reports the best twenty of them.
\<close>

theorem cpuload_collect_best:
  fixes pct :: "64 word \<Rightarrow> 64 word \<Rightarrow> 'd::linorder"
  assumes "cpuload_inv s" and "defined_cpu_stats fs" and "dirs ''/proc'' = Some names" and "length (cpu_cells fs names) \<le> 8192"
  shows "\<exists>s' es. cpuload_collect fs dirs pct thr s = Some (0, s') \<and> cpuload_inv s' \<and> cl_has_previous s' \<and>
    es = take 4096 (consumers_shown pct thr (total_change fs s) (cl_has_previous s) (cpu_cells fs names) (cl_tab s) (length (cpu_cells fs names))) \<and>
    best 20 (\<lambda>e. True) (\<lambda>a b. ce_cpu_percent b \<le> ce_cpu_percent a) es (cl_top_consumers s') \<and>
    (\<forall>e \<in> set es. thr < ce_cpu_percent e \<and>
      (\<exists>v. (ce_pid e, v) \<in> set (cpu_cells fs names) \<and> ce_utime e = cv_utime v \<and> ce_stime e = cv_stime v)) \<and>
    (length (cpu_cells fs names) \<le> 4096 \<longrightarrow>
      cl_tab s' = round_table CL_HASH (cpu_cells fs names) (length (cpu_cells fs names)) (start_round (cl_tab s)))"
proof -
  let ?xs = "cpu_cells fs names"
  let ?all = "consumers_shown pct thr (total_change fs s) (cl_has_previous s) ?xs (cl_tab s)"
  have "pt_inv (cl_tab s)" using assms(1) by (simp add: cpuload_inv_def)
  note k = keeps_consumers[OF this, of pct thr "total_change fs s" "cl_has_previous s" ?xs]
  have l: "length ?xs \<le> CL_POOL" "?all 0 = []" using assms(4) by (simp_all add: CL_POOL_def consumers_shown_def map_filter_simps)
  obtain s' es m where r: "cpuload_collect fs dirs pct thr s = Some (0, s')" "cpuload_inv s'" "es = ?all m" "cl_has_previous s'"
    "length es \<le> CL_MAX" "m \<le> length ?xs" "m = length ?xs \<or> CL_MAX \<le> length es" "cl_top_consumers s' = take CL_TOP (c_qsort compare_cpu es)"
    "in_round CL_HASH ?xs m (start_round (cl_tab s)) (cl_tab s')" "length ?xs \<le> CL_MAX \<longrightarrow> m = length ?xs"
    using cpuload_collect_result[where dirs = dirs and names = names and Q = "\<lambda>n es. es = ?all n", OF assms(1-3) l(1) k] l(2) by metis
  have "prefix es (?all (length ?xs))" using r(3,6) consumers_shown_prefix by blast
  then have es: "es = take 4096 (?all (length ?xs))" using r(3,5,7) by (auto simp: prefix_def CL_MAX_def)
  have rows: "thr < ce_cpu_percent e \<and> (\<exists>v. (ce_pid e, v) \<in> set ?xs \<and> ce_utime e = cv_utime v \<and> ce_stime e = cv_stime v)"
    if "e \<in> set es" for e using consumer_at_row[OF _ r(6)] that r(3) by blast
  have b: "best 20 (\<lambda>e. True) (\<lambda>a b. ce_cpu_percent b \<le> ce_cpu_percent a) es (cl_top_consumers s')"
    using best_desc[of 20 "\<lambda>e. True" ce_cpu_percent es] r(8) by (simp add: compare_cpu_eq select_first_eq CL_TOP_def)
  have t: "length ?xs \<le> 4096 \<longrightarrow> cl_tab s' = round_table CL_HASH ?xs (length ?xs) (start_round (cl_tab s))"
    using r(9,10) by (auto simp: in_round_table CL_MAX_def)
  show ?thesis using r(1,2,4) es rows b t by (intro exI[of _ s'] exI[of _ es]) blast
qed

text \<open>
  Also (a stable set of processes uses no CPU). When two successive collections read the same processes, in the same order, the
  second reports no consumer at all, whatever the processes did in between: each is compared with its own new cell, because the
  round overwrites the pool that the previous chains still point into.
\<close>

theorem cpuload_stable_empty:
  fixes pct :: "64 word \<Rightarrow> 64 word \<Rightarrow> 'd::linorder"
  assumes "cpuload_inv s0" and "defined_cpu_stats fs1" and "defined_cpu_stats fs2"
    and "dirs1 ''/proc'' = Some names1" and "dirs2 ''/proc'' = Some names2"
    and "map fst (cpu_cells fs2 names2) = map fst (cpu_cells fs1 names1)"
    and "distinct (map fst (cpu_cells fs1 names1))" and "length (cpu_cells fs1 names1) \<le> 4096"
    and "\<And>d. pct 0 d \<le> thr"
    and "cpuload_collect fs1 dirs1 pct thr s0 = Some (0, s1)" and "cpuload_collect fs2 dirs2 pct thr s1 = Some (0, s2)"
  shows "cl_top_consumers s2 = []"
proof -
  let ?xs = "cpu_cells fs1 names1" and ?ys = "cpu_cells fs2 names2"
  have len: "length ?ys = length ?xs" using assms(6) by (metis length_map)
  have "keeps_entries pct thr (total_change fs1 s0) (cl_has_previous s0) ?xs (start_round (cl_tab s0)) (\<lambda>n es. True)"
    by (simp add: keeps_entries_def)
  from cpuload_collect_result[where dirs = dirs1 and names = names1 and Q = "\<lambda>n es. True", OF assms(1,2,4) _ this] assms(8,10)
  have i1: "cpuload_inv s1" and r1: "in_round CL_HASH ?xs (length ?xs) (start_round (cl_tab s0)) (cl_tab s1)"
    by (auto simp: CL_POOL_def CL_MAX_def)
  have step: "new = []" if n: "n < length ?ys" and r2: "in_round CL_HASH ?ys (Suc n) (start_round (cl_tab s1)) t"
    and e: "cpu_entry pct thr d hp t (fst (?ys ! n)) (snd (?ys ! n)) = Some new" for n t d hp new
  proof -
    have y: "fst (?ys ! n) = fst (?xs ! n)" using assms(6) n len by (metis nth_map)
    have "find_in_hash CL_HASH t (pt_prev t) (fst (?ys ! n)) = Some (last_pos (\<lambda>j. fst (?xs ! j) = fst (?ys ! n)) (length ?xs))"
      using in_round_find_previous[OF r1 r2 assms(6)] n len by simp
    also have "\<dots> = Some (Some n)" using last_pos_distinct[OF assms(7), of n] n len y by simp
    finally have f: "find_in_hash CL_HASH t (pt_prev t) (fst (?ys ! n)) = Some (Some n)" .
    have "c_val (pt_pool t n) = snd (?ys ! n)" using r2 by (simp add: in_round_def)
    moreover have "\<not> thr < pct 0 d" using assms(9)[of d] by simp
    ultimately show ?thesis using e f by (simp add: cpu_entry_def split: if_splits)
  qed
  have "keeps_entries pct thr (total_change fs2 s1) (cl_has_previous s1) ?ys (start_round (cl_tab s1)) (\<lambda>n es. es = [])"
    unfolding keeps_entries_def using step by blast
  from cpuload_collect_result[where dirs = dirs2 and names = names2 and Q = "\<lambda>n es. es = []", OF i1 assms(3,5) _ this] assms(8,11) len
  obtain es where "es = []" "cl_top_consumers s2 = take CL_TOP (c_qsort compare_cpu es)" by (auto simp: CL_POOL_def)
  moreover have "c_qsort f [] = []" for f :: "'d cpuload_entry \<Rightarrow> 'd cpuload_entry \<Rightarrow> int"
    using mset_zero_iff[of "c_qsort f []"] by simp
  ultimately show ?thesis by simp
qed

text \<open>The first line of \<open>/proc/stat\<close>, and the counters it stands for.\<close>

definition cpu_line :: "nat list \<Rightarrow> string" where
  "cpu_line ns = ''cpu '' @ concat (map (\<lambda>n. '' '' @ nat_str n) ns)"

definition cpu_total :: "nat list \<Rightarrow> 64 word" where
  "cpu_total ns = of_nat (sum_list ns)"

lemma sscanf_cpu_line:
  assumes "length ns = 7" "\<forall>n \<in> set ns. n < 2 ^ 64" "delimited rest"
  shows "sscanf cpu_format (cpu_line ns @ rest) = map (\<lambda>n. SNum (int n)) ns"
proof -
  obtain a b c d e f g where ns: "ns = [a, b, c, d, e, f, g]"
    using assms(1) by (auto simp: length_Suc_conv eval_nat_numeral)
  show ?thesis using assms(2,3)
    by (simp add: ns cpu_line_def cpu_format_def scan_simps dropWhile_space_nat_str)
qed

lemma parse_proc_stat_line:
  assumes "proc_read_file fs ''/proc/stat'' 1024 = Some buf" "cstr buf = cpu_line ns @ rest" "length ns = 7"
    "\<forall>n \<in> set ns. n < 2 ^ 64" "delimited rest"
  shows "parse_proc_stat fs c = (True, \<lparr>cc_user = of_nat (ns ! 0), cc_nice = of_nat (ns ! 1), cc_system = of_nat (ns ! 2),
    cc_idle = of_nat (ns ! 3), cc_iowait = of_nat (ns ! 4), cc_irq = of_nat (ns ! 5), cc_softirq = of_nat (ns ! 6),
    cc_total = cpu_total ns\<rparr>)"
proof -
  have "sum_list ns = ns ! 0 + ns ! 1 + ns ! 2 + ns ! 3 + ns ! 4 + ns ! 5 + ns ! 6"
    using assms(3) by (auto simp: length_Suc_conv eval_nat_numeral)
  moreover have "ns \<noteq> []" using assms(3) by auto
  ultimately show ?thesis
    using assms(1,3) sscanf_cpu_line[OF assms(3-5)] assms(2)
    by (simp add: parse_proc_stat_def scanned_def cpu_total_def Let_def)
qed

text \<open>
  Also (shares of the whole system). After a first round, a readable \<open>/proc/stat\<close> whose total has moved gives the four
  percentages of the differences to the previous counters; all of it modulo $2^{64}$, so a counter that
  wraps around is compared correctly.
\<close>

theorem cpuload_system_shares:
  fixes pct :: "64 word \<Rightarrow> 64 word \<Rightarrow> 'd::linorder"
  assumes "cpuload_inv s" and "defined_cpu_stats fs" and "dirs ''/proc'' = Some names" and "length (cpu_cells fs names) \<le> 8192"
    and "cl_has_previous s" and "proc_read_file fs ''/proc/stat'' 1024 = Some buf" and "cstr buf = cpu_line ns @ rest" and "length ns = 7"
    and "\<forall>n \<in> set ns. n < 2 ^ 64" and "delimited rest" and "cpu_total ns \<noteq> cc_total (cl_curr_sys s)"
  shows "\<exists>s'. cpuload_collect fs dirs pct thr s = Some (0, s') \<and> cc_total (cl_curr_sys s') = cpu_total ns \<and>
    cpuload_get_system s' =
      \<lparr>cs_user_percent = pct (of_nat (ns ! 0) - cc_user (cl_curr_sys s)) (cpu_total ns - cc_total (cl_curr_sys s)),
       cs_system_percent = pct (of_nat (ns ! 2) - cc_system (cl_curr_sys s)) (cpu_total ns - cc_total (cl_curr_sys s)),
       cs_idle_percent = pct (of_nat (ns ! 3) - cc_idle (cl_curr_sys s)) (cpu_total ns - cc_total (cl_curr_sys s)),
       cs_iowait_percent = pct (of_nat (ns ! 4) - cc_iowait (cl_curr_sys s)) (cpu_total ns - cc_total (cl_curr_sys s))\<rparr>"
proof -
  have "keeps_entries pct thr (total_change fs s) (cl_has_previous s) (cpu_cells fs names) (start_round (cl_tab s)) (\<lambda>n es. True)"
    by (simp add: keeps_entries_def)
  moreover have "length (cpu_cells fs names) \<le> CL_POOL" using assms(4) by (simp add: CL_POOL_def)
  ultimately obtain s' where s': "cpuload_collect fs dirs pct thr s = Some (0, s')"
    "cl_curr_sys s' = snd (parse_proc_stat fs (cl_curr_sys s))"
    "cl_system_stats s' = cl_system_stats (system_percentages pct (total_change fs s)
      (s\<lparr>cl_prev_sys := cl_curr_sys s, cl_curr_sys := snd (parse_proc_stat fs (cl_curr_sys s))\<rparr>))"
    using cpuload_collect_result[where dirs = dirs and names = names and Q = "\<lambda>n es. True" and fs = fs and s = s and pct = pct and thr = thr]
      assms(1-3) by blast
  have "0 < cpu_total ns - cc_total (cl_curr_sys s)" using assms(11) by (simp add: word_gt_0)
  then show ?thesis
    using s' assms(5) parse_proc_stat_line[OF assms(6-10), of "cl_curr_sys s"]
    by (simp add: cpuload_get_system_def system_percentages_def total_change_def)
qed

text \<open>Without a complete reading the total stands still: no percentage changes and no consumer is reported.\<close>

lemma cpuload_unread_total: "\<not> fst (parse_proc_stat fs (cl_curr_sys s)) \<Longrightarrow> total_change fs s = 0"
  by (auto simp: total_change_def parse_proc_stat_def Let_def split: option.splits if_splits)

section \<open>The properties on a concrete system\<close>

text \<open>One process, \<open>u\<close> ticks of user time so far, and the counters of the system.\<close>

definition demo_cpu :: "string \<Rightarrow> string \<Rightarrow> proc_fs" where
  "demo_cpu u tot =
     [''/proc/1/stat'' \<mapsto> (''1 (init) S 0 1 1 0 -1 4194560 1 2 3 4 '' @ u @ '' 5 0 0'', []),
      ''/proc/stat'' \<mapsto> (''cpu  '' @ tot @ '' 0 20 70 10 0 0 0'' @ [LF] @ ''cpu0 1 2'', [])]"

definition demo_cpu_list :: "string list" where
  "demo_cpu_list = [''1'', ''self'', ''stat'']"

definition demo_cpu_dirs :: proc_dirs where
  "demo_cpu_dirs = [''/proc'' \<mapsto> demo_cpu_list]"

definition demo_pct :: "64 word \<Rightarrow> 64 word \<Rightarrow> int" where
  "demo_pct a b = 100 * uint a div uint b"

lemma demo_cpu_defined:
  assumes "parse_pid_stat (demo_cpu u tot) 1 \<noteq> Stat_undefined"
  shows "defined_cpu_stats (demo_cpu u tot)"
  unfolding defined_cpu_stats_def
proof
  fix pid
  have p: "cpu_stat_path 1 = ''/proc/1/stat''" by code_simp
  show "parse_pid_stat (demo_cpu u tot) pid \<noteq> Stat_undefined"
  proof (cases "cpu_stat_path pid = ''/proc/1/stat''")
    case True
    then have "parse_pid_stat (demo_cpu u tot) pid = parse_pid_stat (demo_cpu u tot) 1"
      by (simp add: parse_pid_stat_def p)
    then show ?thesis using assms by simp
  next
    case False
    moreover have "cpu_stat_path pid \<noteq> ''/proc/stat''"
      using arg_cong[of "cpu_stat_path pid" "''/proc/stat''" length] by (auto simp: cpu_stat_path_def)
    ultimately show ?thesis by (simp add: parse_pid_stat_def proc_read_file_def demo_cpu_def)
  qed
qed

lemma demo_cpu_cells:
  "cpu_cells (demo_cpu ''30'' ''100'') demo_cpu_list =
     [(1, \<lparr>cv_utime = 30, cv_stime = 5, cv_total_time = 35, cv_cmd = ''init''\<rparr>)]"
  "cpu_cells (demo_cpu ''80'' ''200'') demo_cpu_list =
     [(1, \<lparr>cv_utime = 80, cv_stime = 5, cv_total_time = 85, cv_cmd = ''init''\<rparr>)]"
  by code_simp+

lemma demo_cpu_ok: "defined_cpu_stats (demo_cpu ''30'' ''100'')" "defined_cpu_stats (demo_cpu ''80'' ''200'')"
proof -
  have "parse_pid_stat (demo_cpu ''30'' ''100'') 1 = Stat (30, 5, ''init'')"
    "parse_pid_stat (demo_cpu ''80'' ''200'') 1 = Stat (80, 5, ''init'')" by code_simp+
  then show "defined_cpu_stats (demo_cpu ''30'' ''100'')" "defined_cpu_stats (demo_cpu ''80'' ''200'')"
    using demo_cpu_defined by simp_all
qed

lemma demo_cpu_names: "demo_cpu_dirs ''/proc'' = Some demo_cpu_list"
  by (simp add: demo_cpu_dirs_def)

text \<open>A second process, listed first, which has ended before the second round.\<close>

definition demo_cpu2 :: "string \<Rightarrow> string \<Rightarrow> proc_fs" where
  "demo_cpu2 u tot = (demo_cpu u tot)(''/proc/7/stat'' \<mapsto> (''7 (sh) S 0 1 1 0 -1 4194560 1 2 3 4 9 9 0 0'', []))"

definition demo_cpu_list2 :: "string list" where
  "demo_cpu_list2 = [''7'', ''1'']"

lemma demo_cpu2_cells:
  "cpu_cells (demo_cpu2 ''30'' ''100'') demo_cpu_list2 =
     [(7, \<lparr>cv_utime = 9, cv_stime = 9, cv_total_time = 18, cv_cmd = ''sh''\<rparr>),
      (1, \<lparr>cv_utime = 30, cv_stime = 5, cv_total_time = 35, cv_cmd = ''init''\<rparr>)]"
  "snd (parse_proc_stat (demo_cpu2 ''30'' ''100'') no_counters) =
     \<lparr>cc_user = 100, cc_nice = 0, cc_system = 20, cc_idle = 70, cc_iowait = 10, cc_irq = 0, cc_softirq = 0, cc_total = 200\<rparr>"
  by code_simp+

lemma demo_cpu2_ok: "defined_cpu_stats (demo_cpu2 ''30'' ''100'')"
  unfolding defined_cpu_stats_def
proof
  fix pid
  have p: "cpu_stat_path 7 = ''/proc/7/stat''" by code_simp
  show "parse_pid_stat (demo_cpu2 ''30'' ''100'') pid \<noteq> Stat_undefined"
  proof (cases "cpu_stat_path pid = ''/proc/7/stat''")
    case True
    then have "parse_pid_stat (demo_cpu2 ''30'' ''100'') pid = parse_pid_stat (demo_cpu2 ''30'' ''100'') 7"
      by (simp add: parse_pid_stat_def p)
    moreover have "parse_pid_stat (demo_cpu2 ''30'' ''100'') 7 \<noteq> Stat_undefined" by code_simp
    ultimately show ?thesis by simp
  next
    case False
    then have "parse_pid_stat (demo_cpu2 ''30'' ''100'') pid = parse_pid_stat (demo_cpu ''30'' ''100'') pid"
      by (simp add: parse_pid_stat_def proc_read_file_def demo_cpu2_def)
    then show ?thesis using demo_cpu_ok(1) by (simp add: defined_cpu_stats_def)
  qed
qed

theorem cpuload_collect_best_witness:
  "\<exists>s1 s2. cpuload_collect (demo_cpu2 ''30'' ''100'') [''/proc'' \<mapsto> demo_cpu_list2] demo_pct 0 (cpuload_init 0 100) = Some (0, s1) \<and>
     cl_top_consumers s1 = [] \<and>
     cpuload_collect (demo_cpu ''80'' ''200'') demo_cpu_dirs demo_pct 0 s1 = Some (0, s2) \<and>
     cl_top_consumers s2 = [\<lparr>ce_pid = 1, ce_cmd = ''init'', ce_cpu_percent = 50, ce_utime = 80, ce_stime = 5\<rparr>]"
proof -
  let ?xs = "cpu_cells (demo_cpu2 ''30'' ''100'') demo_cpu_list2" and ?ys = "cpu_cells (demo_cpu ''80'' ''200'') demo_cpu_list"
  have lx: "length ?xs \<le> 8192" "length ?ys \<le> 8192" by (simp_all add: demo_cpu2_cells demo_cpu_cells)
  have i: "\<not> cl_has_previous (cpuload_init (0 :: int) 100)" "cl_curr_sys (cpuload_init (0 :: int) 100) = no_counters"
    by (simp_all add: cpuload_init_def)
  have d: "[''/proc'' \<mapsto> demo_cpu_list2] ''/proc'' = Some demo_cpu_list2" by simp
  obtain s1 where s1: "cpuload_collect (demo_cpu2 ''30'' ''100'') [''/proc'' \<mapsto> demo_cpu_list2] demo_pct 0 (cpuload_init 0 100) = Some (0, s1)"
    "cpuload_inv s1" "cl_has_previous s1" "cl_top_consumers s1 = []"
    "cl_tab s1 = round_table CL_HASH ?xs (length ?xs) (start_round (cl_tab (cpuload_init (0 :: int) 100)))"
    using cpuload_collect_best[where dirs = "[''/proc'' \<mapsto> demo_cpu_list2]" and names = demo_cpu_list2 and pct = demo_pct and thr = 0,
        OF cpuload_inv_init demo_cpu2_ok d lx(1), of 0 100] i(1)
    by (auto simp: consumers_shown_def best_def demo_cpu2_cells)
  have sys: "cl_curr_sys s1 = \<lparr>cc_user = 100, cc_nice = 0, cc_system = 20, cc_idle = 70, cc_iowait = 10, cc_irq = 0, cc_softirq = 0, cc_total = 200\<rparr>"
  proof -
    have "length ?xs \<le> CL_POOL" by (simp add: demo_cpu2_cells CL_POOL_def)
    then have "cl_curr_sys s1 = snd (parse_proc_stat (demo_cpu2 ''30'' ''100'') (cl_curr_sys (cpuload_init (0 :: int) 100)))"
      using cpuload_collect_result[where dirs = "[''/proc'' \<mapsto> demo_cpu_list2]" and names = demo_cpu_list2 and Q = "\<lambda>n es. True"
          and pct = demo_pct and thr = 0 and s = "cpuload_init 0 100" and fs = "demo_cpu2 ''30'' ''100''"] s1(1) d demo_cpu2_ok cpuload_inv_init[of "0 :: int" 100]
      by (auto simp: keeps_entries_def)
    then show ?thesis by (simp add: i(2) demo_cpu2_cells)
  qed
  have tc: "total_change (demo_cpu ''80'' ''200'') s1 = 100" unfolding total_change_def sys by code_simp
  have p50: "demo_pct 50 100 = 50" by code_simp
  have "consumer_at demo_pct 0 100 ?ys (cl_tab s1) 0 = Some \<lparr>ce_pid = 1, ce_cmd = ''init'', ce_cpu_percent = 50, ce_utime = 80, ce_stime = 5\<rparr>"
    unfolding s1(5) demo_cpu_cells demo_cpu2_cells consumer_at_def cell_before_def
    by (simp add: round_table_def start_round_def hash_pid_def CL_HASH_def p50 bounded_copy_def Let_def)
  then have c: "consumers_shown demo_pct 0 100 True ?ys (cl_tab s1) (length ?ys) =
      [\<lparr>ce_pid = 1, ce_cmd = ''init'', ce_cpu_percent = 50, ce_utime = 80, ce_stime = 5\<rparr>]"
    by (simp add: consumers_shown_def demo_cpu_cells map_filter_simps)
  obtain s2 es where s2: "cpuload_collect (demo_cpu ''80'' ''200'') demo_cpu_dirs demo_pct 0 s1 = Some (0, s2)"
    "es = [\<lparr>ce_pid = 1, ce_cmd = ''init'', ce_cpu_percent = 50, ce_utime = 80, ce_stime = 5\<rparr>]"
    "best 20 (\<lambda>e. True) (\<lambda>a b. ce_cpu_percent b \<le> ce_cpu_percent a) es (cl_top_consumers s2)"
    using cpuload_collect_best[where dirs = demo_cpu_dirs and names = demo_cpu_list and pct = demo_pct and thr = 0,
        OF s1(2) demo_cpu_ok(2) demo_cpu_names lx(2)] s1(3) c by (auto simp: tc)
  have "mset (cl_top_consumers s2) \<subseteq># mset es" "length (cl_top_consumers s2) = length es"
    using s2(2,3) by (simp_all add: best_def)
  then have "mset (cl_top_consumers s2) = mset es" by (metis mset_subset_size size_mset subset_mset.le_imp_less_or_eq nat_neq_iff)
  then have "cl_top_consumers s2 = es" using s2(2) by simp
  then show ?thesis using s1 s2 by auto
qed

lemma demo_cpu_collects:
  assumes "cpuload_inv s" "d = (''30'', ''100'') \<or> d = (''80'', ''200'')"
  shows "\<exists>s'. cpuload_collect (demo_cpu (fst d) (snd d)) demo_cpu_dirs demo_pct 0 s = Some (0, s') \<and> cpuload_inv s' \<and>
    cl_has_previous s' \<and> cl_curr_sys s' = snd (parse_proc_stat (demo_cpu (fst d) (snd d)) (cl_curr_sys s))"
proof -
  have "length (cpu_cells (demo_cpu (fst d) (snd d)) demo_cpu_list) \<le> CL_POOL"
    "defined_cpu_stats (demo_cpu (fst d) (snd d))" using assms(2) demo_cpu_ok by (auto simp: demo_cpu_cells CL_POOL_def)
  then show ?thesis
    using cpuload_collect_result[where dirs = demo_cpu_dirs and names = "demo_cpu_list" and Q = "\<lambda>n es. True" and pct = demo_pct
        and thr = 0 and s = s and fs = "demo_cpu (fst d) (snd d)"] assms(1) demo_cpu_names
    by (auto simp: keeps_entries_def)
qed

theorem cpuload_stable_empty_witness:
  "\<exists>s1 s2. cpuload_collect (demo_cpu ''30'' ''100'') demo_cpu_dirs demo_pct 0 (cpuload_init 0 100) = Some (0, s1) \<and>
     cpuload_collect (demo_cpu ''80'' ''200'') demo_cpu_dirs demo_pct 0 s1 = Some (0, s2) \<and> cl_top_consumers s2 = []"
proof -
  obtain s1 where s1: "cpuload_collect (demo_cpu ''30'' ''100'') demo_cpu_dirs demo_pct 0 (cpuload_init 0 100) = Some (0, s1)" "cpuload_inv s1"
    using demo_cpu_collects[OF cpuload_inv_init, of "(''30'', ''100'')" 0 100] by auto
  obtain s2 where s2: "cpuload_collect (demo_cpu ''80'' ''200'') demo_cpu_dirs demo_pct 0 s1 = Some (0, s2)"
    using demo_cpu_collects[OF s1(2), of "(''80'', ''200'')"] by auto
  have "cl_top_consumers s2 = []"
    by (rule cpuload_stable_empty[where ?dirs1.0 = demo_cpu_dirs and ?names1.0 = "demo_cpu_list"
          and ?dirs2.0 = demo_cpu_dirs and ?names2.0 = "demo_cpu_list",
          OF cpuload_inv_init demo_cpu_ok demo_cpu_names demo_cpu_names _ _ _ _ s1(1) s2])
      (simp_all add: demo_cpu_cells demo_pct_def)
  then show ?thesis using s1 s2 by blast
qed

theorem cpuload_system_shares_witness:
  "\<exists>s1 s2. cpuload_collect (demo_cpu ''30'' ''100'') demo_cpu_dirs demo_pct 0 (cpuload_init 0 100) = Some (0, s1) \<and>
     cpuload_collect (demo_cpu ''80'' ''200'') demo_cpu_dirs demo_pct 0 s1 = Some (0, s2) \<and>
     cs_user_percent (cpuload_get_system s2) = 100 \<and> cs_idle_percent (cpuload_get_system s2) = 0"
proof -
  obtain s1 where s1: "cpuload_collect (demo_cpu ''30'' ''100'') demo_cpu_dirs demo_pct 0 (cpuload_init 0 100) = Some (0, s1)" "cpuload_inv s1"
    "cl_has_previous s1" "cl_curr_sys s1 = snd (parse_proc_stat (demo_cpu ''30'' ''100'') (cl_curr_sys (cpuload_init (0::int) 100)))"
    using demo_cpu_collects[OF cpuload_inv_init, of "(''30'', ''100'')" 0 100] by auto
  have "snd (parse_proc_stat (demo_cpu ''30'' ''100'') (cl_curr_sys (cpuload_init (0::int) 100))) =
      \<lparr>cc_user = 100, cc_nice = 0, cc_system = 20, cc_idle = 70, cc_iowait = 10, cc_irq = 0, cc_softirq = 0, cc_total = 200\<rparr>"
    by code_simp
  note sys = s1(4)[unfolded this]
  have f: "proc_read_file (demo_cpu ''80'' ''200'') ''/proc/stat'' 1024 = Some (''cpu  200 0 20 70 10 0 0 0'' @ [LF] @ ''cpu0 1 2'')"
    by code_simp
  have b: "cstr (''cpu  200 0 20 70 10 0 0 0'' @ [LF] @ ''cpu0 1 2'') = cpu_line [200, 0, 20, 70, 10, 0, 0] @ ('' 0'' @ [LF] @ ''cpu0 1 2'')"
    by code_simp
  have t: "cpu_total [200, 0, 20, 70, 10, 0, 0] = 300" by (simp add: cpu_total_def)
  have "length (cpu_cells (demo_cpu ''80'' ''200'') demo_cpu_list) \<le> 8192" by (simp add: demo_cpu_cells)
  from cpuload_system_shares[where dirs = demo_cpu_dirs and names = "demo_cpu_list" and pct = demo_pct and thr = 0,
      OF s1(2) demo_cpu_ok(2) demo_cpu_names this s1(3) f b]
  obtain s2 where "cpuload_collect (demo_cpu ''80'' ''200'') demo_cpu_dirs demo_pct 0 s1 = Some (0, s2)"
    "cpuload_get_system s2 = \<lparr>cs_user_percent = demo_pct 100 100, cs_system_percent = demo_pct 0 100,
       cs_idle_percent = demo_pct 0 100, cs_iowait_percent = demo_pct 0 100\<rparr>"
    by (auto simp: t sys)
  moreover have "demo_pct 100 100 = 100" "demo_pct 0 100 = 0" by code_simp+
  ultimately show ?thesis using s1 by auto
qed

section \<open>The snapshot\<close>

definition cpu_tree :: "('d \<Rightarrow> string) \<Rightarrow> 'd cpuload_entry \<Rightarrow> jval" where
  "cpu_tree fmt e = JObj [(''pid'', JInt (ce_pid e)), (''cmd'', JStr (ce_cmd e)), (''cpu_percent'', JNum (fmt (ce_cpu_percent e))),
     (''utime'', JUint (ce_utime e)), (''stime'', JUint (ce_stime e))]"

definition cpuload_tree :: "('d \<Rightarrow> string) \<Rightarrow> 'd cpuload \<Rightarrow> jval" where
  "cpuload_tree fmt s = JObj [(''system'', JObj [(''user_percent'', JNum (fmt (cs_user_percent (cl_system_stats s)))),
       (''system_percent'', JNum (fmt (cs_system_percent (cl_system_stats s)))),
       (''idle_percent'', JNum (fmt (cs_idle_percent (cl_system_stats s)))),
       (''iowait_percent'', JNum (fmt (cs_iowait_percent (cl_system_stats s))))]),
     (''top_consumers'', JArr (map (cpu_tree fmt) (cl_top_consumers s)))]"

lemma emits_cpu_obj [json_rules]: "emits_elts (cpu_obj fmt e) [cpu_tree fmt e]"
  unfolding cpu_obj_def cpu_tree_def
  by (rule emits_elts_cong, (rule json_rules)+, simp)

interpretation cpuload_out: snapshot_writer "cpuload_snapshot fmt" "cpuload_tree fmt" "\<lambda>s. True"
  "\<lambda>s. num_ok (fmt (cs_user_percent (cl_system_stats s))) \<and> num_ok (fmt (cs_system_percent (cl_system_stats s))) \<and>
     num_ok (fmt (cs_idle_percent (cl_system_stats s))) \<and> num_ok (fmt (cs_iowait_percent (cl_system_stats s))) \<and>
     (\<forall>e \<in> set (cl_top_consumers s). num_ok (fmt (ce_cpu_percent e)))"
proof
  fix s :: "'a cpuload"
  show "emits_val (cpuload_snapshot fmt s) (cpuload_tree fmt s)"
    unfolding cpuload_snapshot_def cpuload_tree_def by (rule emits_val_cong, (rule json_rules)+) simp
  assume "num_ok (fmt (cs_user_percent (cl_system_stats s))) \<and> num_ok (fmt (cs_system_percent (cl_system_stats s))) \<and>
     num_ok (fmt (cs_idle_percent (cl_system_stats s))) \<and> num_ok (fmt (cs_iowait_percent (cl_system_stats s))) \<and>
     (\<forall>e \<in> set (cl_top_consumers s). num_ok (fmt (ce_cpu_percent e)))"
  then show "jval_ok (cpuload_tree fmt s)" by (auto simp: cpuload_tree_def cpu_tree_def key_ok_def)
qed

end
