(* ===== verification/Sockstat.thy ===== *)
theory Sockstat
  imports Config StatFile Scanf JsonObj Sorting
begin

text \<open>
  The socket service (\<open>src/services/sockstat.c\<close>): the rows of \<open>/proc/net/tcp\<close>, at most 1024, with the process that holds each
  socket, and the numbers of UDP and UNIX sockets. The addresses are read as on a little-endian machine. Standard input and output
  reads a file without errors, and what is a \<open>proc_fs\<close> does not change during a collection.
\<close>

section \<open>State\<close>

record sockstat_summary =
  sk_tcp_established :: int
  sk_tcp_time_wait :: int
  sk_tcp_close_wait :: int
  sk_tcp_listen :: int
  sk_tcp_total :: int
  sk_udp_total :: int
  sk_unix_total :: int

record socket_entry =
  so_local_addr :: string
  so_rem_addr :: string
  so_state :: int
  so_tx_queue :: int
  so_rx_queue :: int
  so_inode :: int
  so_pid :: int
  so_cmd :: string

record sockstat =
  sk_summary :: sockstat_summary
  sk_previous_summary :: sockstat_summary
  sk_sockets :: "socket_entry list"
  sk_has_previous :: bool

definition MAX_SOCKETS :: nat where "MAX_SOCKETS = 1024"

definition no_sockets :: sockstat_summary where
  "no_sockets = \<lparr>sk_tcp_established = 0, sk_tcp_time_wait = 0, sk_tcp_close_wait = 0, sk_tcp_listen = 0, sk_tcp_total = 0,
     sk_udp_total = 0, sk_unix_total = 0\<rparr>"

definition sockstat_init :: sockstat where
  "sockstat_init = \<lparr>sk_summary = no_sockets, sk_previous_summary = no_sockets, sk_sockets = [], sk_has_previous = False\<rparr>"

section \<open>Operations\<close>

text \<open>The loop of \<open>count_lines\<close>; \<open>skip\<close> is the number of lines still to skip.\<close>

function count_from :: "nat \<Rightarrow> string \<Rightarrow> nat" where
  "count_from skip line =
     (if line = [] then 0
      else (if skip = 0 then 1 else 0) +
        (case strchr LF line of None \<Rightarrow> 0 | Some nl \<Rightarrow> count_from (skip - 1) (tl nl)))"
  by pat_completeness auto
termination
proof (relation "measure (\<lambda>(skip, line). length line)")
  fix skip line nl assume "line \<noteq> []" "strchr LF line = Some nl"
  then show "((skip - 1, tl nl), skip, line) \<in> measure (\<lambda>(skip, line). length line)"
    using strchr_length[of LF line nl] by (cases nl) auto
qed simp

declare count_from.simps [simp del]

definition count_lines :: "proc_fs \<Rightarrow> string \<Rightarrow> nat \<Rightarrow> int" where
  "count_lines fs path skip_header =
     (case proc_read_file fs path 65536 of None \<Rightarrow> 0 | Some buf \<Rightarrow> int (count_from skip_header (cstr buf)))"

text \<open>\<open>inet_ntoa\<close>: the four bytes of the address in the order of the memory.\<close>

definition inet_ntoa :: "int \<Rightarrow> string" where
  "inet_ntoa a = int_str (a mod 256) @ ''.'' @ int_str (a div 256 mod 256) @ ''.'' @ int_str (a div 65536 mod 256) @ ''.'' @
     int_str (a div 16777216 mod 256)"

definition parse_address :: "string \<Rightarrow> nat \<Rightarrow> string" where
  "parse_address hex_addr sz =
     (case sscanf [D_num K_hex, D_lit CHR '':'', D_num K_hex] hex_addr of
        [SNum addr, SNum port] \<Rightarrow> bounded_copy sz (inet_ntoa addr @ '':'' @ int_str port)
      | _ \<Rightarrow> bounded_copy sz hex_addr)"

text \<open>The format \<open>%u: %63s %63s %X %X:%X %X:%X %lX %u %u %u\<close>.\<close>

definition tcp_format :: "directive list" where
  "tcp_format = [D_num K_uint, D_lit CHR '':'', D_space, D_str 63, D_space, D_str 63, D_space, D_num K_hex, D_space,
     D_num K_hex, D_lit CHR '':'', D_num K_hex, D_space, D_num K_hex, D_lit CHR '':'', D_num K_hex, D_space, D_num K_lhex, D_space,
     D_num K_uint, D_space, D_num K_uint, D_space, D_num K_uint]"

definition count_socket :: "int \<Rightarrow> sockstat_summary \<Rightarrow> sockstat_summary" where
  "count_socket state m0 =
     (let m = m0\<lparr>sk_tcp_total := sk_tcp_total m0 + 1\<rparr>
      in if state = 1 then m\<lparr>sk_tcp_established := sk_tcp_established m + 1\<rparr>
         else if state = 6 then m\<lparr>sk_tcp_time_wait := sk_tcp_time_wait m + 1\<rparr>
         else if state = 8 then m\<lparr>sk_tcp_close_wait := sk_tcp_close_wait m + 1\<rparr>
         else if state = 10 then m\<lparr>sk_tcp_listen := sk_tcp_listen m + 1\<rparr>
         else m)"

text \<open>The entry made of a row, if the row has all twelve values.\<close>

definition tcp_row :: "string \<Rightarrow> socket_entry option" where
  "tcp_row line =
     (case sscanf tcp_format (cstr line) of
        [SNum sl, SStr local_hex, SStr rem_hex, SNum state, SNum tx_q, SNum rx_q, SNum timer, SNum timer_len, SNum retrans, SNum uid,
         SNum timeout, SNum inode] \<Rightarrow>
          Some \<lparr>so_local_addr = parse_address local_hex 64, so_rem_addr = parse_address rem_hex 64, so_state = state,
            so_tx_queue = tx_q, so_rx_queue = rx_q, so_inode = inode, so_pid = 0, so_cmd = []\<rparr>
      | _ \<Rightarrow> None)"

fun tcp_rows :: "string list \<Rightarrow> sockstat_summary \<times> socket_entry list \<Rightarrow> sockstat_summary \<times> socket_entry list" where
  "tcp_rows [] a = a"
| "tcp_rows (line # lines) (m, ss) =
     (if length ss \<ge> MAX_SOCKETS then (m, ss)
      else case tcp_row line of
          None \<Rightarrow> tcp_rows lines (m, ss)
        | Some s \<Rightarrow> tcp_rows lines (count_socket (so_state s) m, ss @ [s]))"

definition parse_tcp_detailed :: "proc_fs \<Rightarrow> string \<Rightarrow> sockstat_summary \<times> socket_entry list \<Rightarrow> int \<times> sockstat_summary \<times> socket_entry list" where
  "parse_tcp_detailed fs path a =
     (case fs path of
        None \<Rightarrow> (-1, a)
      | Some (text, evs) \<Rightarrow> (case fgets_lines text of [] \<Rightarrow> (-1, a) | header # lines \<Rightarrow> (0, tcp_rows lines a)))"

text \<open>The inode a link names, if it leads to a socket.\<close>

definition socket_inode :: "proc_links \<Rightarrow> string \<Rightarrow> int option" where
  "socket_inode links link_path =
     (case link_target links 128 link_path of
        None \<Rightarrow> None
      | Some target \<Rightarrow>
          if starts_with ''socket:['' target then Some (fst (strtoul (drop 8 target)) mod 2 ^ 32) else None)"

definition set_owner :: "proc_fs \<Rightarrow> int \<Rightarrow> int \<Rightarrow> socket_entry \<Rightarrow> socket_entry" where
  "set_owner fs pid inode s =
     (if so_inode s = inode
      then let s1 = s\<lparr>so_pid := pid\<rparr>
           in case proc_read_file fs (''/proc/'' @ int_str pid @ ''/comm'') 16 of
                None \<Rightarrow> s1
              | Some cmd \<Rightarrow> if cmd = [] then s1 else s1\<lparr>so_cmd := bounded_copy 16 (takeWhile (\<lambda>c. c \<noteq> LF) (cstr cmd))\<rparr>
      else s)"

fun map_fds :: "proc_fs \<Rightarrow> proc_links \<Rightarrow> int \<Rightarrow> string \<Rightarrow> string list \<Rightarrow> socket_entry list \<Rightarrow> socket_entry list" where
  "map_fds fs links pid fd_path [] ss = ss"
| "map_fds fs links pid fd_path (name # names) ss =
     (if starts_with ''.'' name then map_fds fs links pid fd_path names ss
      else case socket_inode links (bounded_copy 512 (fd_path @ ''/'' @ name)) of
          None \<Rightarrow> map_fds fs links pid fd_path names ss
        | Some inode \<Rightarrow> map_fds fs links pid fd_path names (map (set_owner fs pid inode) ss))"

definition pid_fd_path :: "int \<Rightarrow> string" where
  "pid_fd_path pid = ''/proc/'' @ int_str pid @ ''/fd''"

fun map_pids :: "proc_fs \<Rightarrow> proc_dirs \<Rightarrow> proc_links \<Rightarrow> string list \<Rightarrow> socket_entry list \<Rightarrow> socket_entry list" where
  "map_pids fs dirs links [] ss = ss"
| "map_pids fs dirs links (name # names) ss =
     (if \<not> is_pid_entry name then map_pids fs dirs links names ss
      else let pid = atoi name
           in case dirs (pid_fd_path pid) of
                None \<Rightarrow> map_pids fs dirs links names ss
              | Some fds \<Rightarrow> map_pids fs dirs links names (map_fds fs links pid (pid_fd_path pid) fds ss))"

definition map_inodes_to_pids :: "proc_fs \<Rightarrow> proc_dirs \<Rightarrow> proc_links \<Rightarrow> socket_entry list \<Rightarrow> socket_entry list" where
  "map_inodes_to_pids fs dirs links ss =
     (case dirs ''/proc'' of None \<Rightarrow> ss | Some names \<Rightarrow> map_pids fs dirs links names ss)"

definition sockstat_collect :: "proc_fs \<Rightarrow> proc_dirs \<Rightarrow> proc_links \<Rightarrow> sockstat \<Rightarrow> int \<times> sockstat" where
  "sockstat_collect fs dirs links s =
     (let (rc, m, ss) = parse_tcp_detailed fs ''/proc/net/tcp'' (no_sockets, []);
          ss' = map_inodes_to_pids fs dirs links ss;
          m1 = m\<lparr>sk_udp_total := count_lines fs ''/proc/net/udp'' 1 + count_lines fs ''/proc/net/udp6'' 1\<rparr>;
          m2 = m1\<lparr>sk_unix_total := count_lines fs ''/proc/net/unix'' 1\<rparr>
      in (0, s\<lparr>sk_previous_summary := sk_summary s, sk_has_previous := True, sk_summary := m2, sk_sockets := ss'\<rparr>))"

section \<open>Results\<close>

definition socket_obj :: "socket_entry \<Rightarrow> json_builder \<Rightarrow> json_builder" where
  "socket_obj s = jobj [json_kv_string ''local'' (Some (so_local_addr s)), json_kv_string ''remote'' (Some (so_rem_addr s)),
     json_kv_int ''state'' (so_state s), json_kv_uint ''tx_q'' (word_of_int (so_tx_queue s)),
     json_kv_uint ''rx_q'' (word_of_int (so_rx_queue s)), json_kv_uint ''inode'' (word_of_int (so_inode s)),
     (if so_pid s > 0 then jseq [json_kv_int ''pid'' (so_pid s), json_kv_string ''cmd'' (Some (so_cmd s))] else jskip)]"

definition sockstat_snapshot :: "sockstat \<Rightarrow> json_builder \<Rightarrow> json_builder" where
  "sockstat_snapshot s =
     (let m = sk_summary s; p = sk_previous_summary s
      in jobj [jkey ''tcp'' (jobj [json_kv_int ''total'' (sk_tcp_total m), json_kv_int ''total_delta'' (sk_tcp_total m - sk_tcp_total p),
               json_kv_int ''established'' (sk_tcp_established m),
               json_kv_int ''established_delta'' (sk_tcp_established m - sk_tcp_established p),
               json_kv_int ''time_wait'' (sk_tcp_time_wait m), json_kv_int ''time_wait_delta'' (sk_tcp_time_wait m - sk_tcp_time_wait p),
               json_kv_int ''close_wait'' (sk_tcp_close_wait m), json_kv_int ''listen'' (sk_tcp_listen m)]),
             json_kv_int ''udp_total'' (sk_udp_total m), json_kv_int ''udp_total_delta'' (sk_udp_total m - sk_udp_total p),
             json_kv_int ''unix_total'' (sk_unix_total m), json_kv_int ''unix_total_delta'' (sk_unix_total m - sk_unix_total p),
             jkey ''sockets'' (jarr [fold socket_obj (sk_sockets s)])])"

definition sockstat_get_summary :: "sockstat \<Rightarrow> sockstat_summary" where
  "sockstat_get_summary s = sk_summary s"

definition sockstat_get_sockets :: "sockstat \<Rightarrow> int \<Rightarrow> (int \<times> socket_entry list) option" where
  "sockstat_get_sockets s max_sockets = copy_top (sk_sockets s) max_sockets"

section \<open>Rows and counts\<close>

lemma tcp_rows_eq:
  "tcp_rows lines (m, ss) =
     (let new = take (MAX_SOCKETS - length ss) (List.map_filter tcp_row lines)
      in (fold (\<lambda>s. count_socket (so_state s)) new m, ss @ new))"
proof (induction lines arbitrary: m ss)
  case Nil
  then show ?case by (simp add: List.map_filter_simps)
next
  case (Cons line lines)
  show ?case
  proof (cases "length ss \<ge> MAX_SOCKETS")
    case True
    then show ?thesis by simp
  next
    case False
    then have "MAX_SOCKETS - length ss = Suc (MAX_SOCKETS - Suc (length ss))" by simp
    then show ?thesis using False Cons.IH by (cases "tcp_row line") (simp_all add: List.map_filter_simps Let_def)
  qed
qed

text \<open>The number of sockets in a state.\<close>

definition in_tcp_state :: "int \<Rightarrow> socket_entry list \<Rightarrow> int" where
  "in_tcp_state c ss = int (length (filter (\<lambda>s. so_state s = c) ss))"

lemma fold_count_socket:
  "fold (\<lambda>s. count_socket (so_state s)) ss m =
     m\<lparr>sk_tcp_total := sk_tcp_total m + int (length ss), sk_tcp_established := sk_tcp_established m + in_tcp_state 1 ss,
       sk_tcp_time_wait := sk_tcp_time_wait m + in_tcp_state 6 ss, sk_tcp_close_wait := sk_tcp_close_wait m + in_tcp_state 8 ss,
       sk_tcp_listen := sk_tcp_listen m + in_tcp_state 10 ss\<rparr>"
  by (induction ss arbitrary: m) (simp_all add: in_tcp_state_def count_socket_def Let_def)

section \<open>Owners\<close>

text \<open>The processes and inodes in the order in which the walk meets them.\<close>

definition fd_owners :: "proc_links \<Rightarrow> int \<Rightarrow> string \<Rightarrow> string list \<Rightarrow> (int \<times> int) list" where
  "fd_owners links pid fd_path names =
     concat (map (\<lambda>name. if starts_with ''.'' name then []
       else case socket_inode links (bounded_copy 512 (fd_path @ ''/'' @ name)) of None \<Rightarrow> [] | Some inode \<Rightarrow> [(pid, inode)]) names)"

definition socket_owners :: "proc_dirs \<Rightarrow> proc_links \<Rightarrow> (int \<times> int) list" where
  "socket_owners dirs links =
     (case dirs ''/proc'' of
        None \<Rightarrow> []
      | Some names \<Rightarrow> concat (map (\<lambda>name. if is_pid_entry name
          then case dirs (pid_fd_path (atoi name)) of None \<Rightarrow> [] | Some fds \<Rightarrow> fd_owners links (atoi name) (pid_fd_path (atoi name)) fds
          else []) names))"

definition set_owners :: "proc_fs \<Rightarrow> (int \<times> int) list \<Rightarrow> socket_entry \<Rightarrow> socket_entry" where
  "set_owners fs os s = fold (\<lambda>(pid, inode). set_owner fs pid inode) os s"

lemma set_owners_simps [simp]:
  "set_owners fs [] s = s" "set_owners fs ((pid, inode) # os) s = set_owners fs os (set_owner fs pid inode s)"
  "set_owners fs (os1 @ os2) s = set_owners fs os2 (set_owners fs os1 s)"
  by (simp_all add: set_owners_def)

lemma set_owners_none [simp]: "map (set_owners fs []) ss = ss"
  by (induction ss) simp_all

lemma map_fds_eq: "map_fds fs links pid fd_path names ss = map (set_owners fs (fd_owners links pid fd_path names)) ss"
  by (induction names arbitrary: ss) (auto simp: fd_owners_def comp_def split: option.splits)

lemma map_inodes_eq: "map_inodes_to_pids fs dirs links ss = map (set_owners fs (socket_owners dirs links)) ss"
proof -
  have "map_pids fs dirs links names ss =
      map (set_owners fs (concat (map (\<lambda>name. if is_pid_entry name
        then case dirs (pid_fd_path (atoi name)) of None \<Rightarrow> [] | Some fds \<Rightarrow> fd_owners links (atoi name) (pid_fd_path (atoi name)) fds
        else []) names))) ss" for names
    by (induction names arbitrary: ss) (auto simp: map_fds_eq comp_def Let_def split: option.splits)
  then show ?thesis by (simp add: map_inodes_to_pids_def socket_owners_def split: option.split)
qed

text \<open>What a row says about a socket, and the last process that holds it.\<close>

definition row_part :: "socket_entry \<Rightarrow> string \<times> string \<times> int \<times> int \<times> int \<times> int" where
  "row_part s = (so_local_addr s, so_rem_addr s, so_state s, so_tx_queue s, so_rx_queue s, so_inode s)"

definition last_owner :: "(int \<times> int) list \<Rightarrow> int \<Rightarrow> int option" where
  "last_owner os inode = (case filter (\<lambda>(p, i). i = inode) os of [] \<Rightarrow> None | x # xs \<Rightarrow> Some (fst (last (x # xs))))"

lemma last_owner_Cons:
  "last_owner ((pid, i) # os) inode =
     (case last_owner os inode of None \<Rightarrow> if i = inode then Some pid else None | Some p \<Rightarrow> Some p)"
  by (auto simp: last_owner_def split: list.splits)

lemma set_owner_row [simp]: "row_part (set_owner fs pid inode s) = row_part s"
  by (simp add: set_owner_def row_part_def Let_def split: option.split)

lemma set_owner_pid: "so_pid (set_owner fs pid inode s) = (if so_inode s = inode then pid else so_pid s)"
  by (simp add: set_owner_def Let_def split: option.split)

lemma row_part_fields: "row_part s = row_part t \<Longrightarrow> so_inode s = so_inode t \<and> so_state s = so_state t"
  by (simp add: row_part_def)

lemma set_owners_row [simp]: "row_part (set_owners fs os s) = row_part s"
  by (induction os arbitrary: s) (auto simp del: set_owners_simps(2) simp: set_owners_def)

lemma set_owners_pid:
  "so_pid (set_owners fs os s) = (case last_owner os (so_inode s) of None \<Rightarrow> so_pid s | Some p \<Rightarrow> p)"
proof (induction os arbitrary: s)
  case Nil
  then show ?case by (simp add: last_owner_def)
next
  case (Cons o1 os)
  obtain pid i where "o1 = (pid, i)" by (cases o1)
  moreover have "so_inode (set_owner fs pid i s) = so_inode s" using row_part_fields[OF set_owner_row] by blast
  ultimately show ?case using Cons.IH[of "set_owner fs pid i s"]
    by (auto simp: last_owner_Cons set_owner_pid split: option.splits)
qed

section \<open>Properties\<close>

text \<open>The entries of the file, before the walk over the processes.\<close>

definition file_sockets :: "proc_fs \<Rightarrow> socket_entry list" where
  "file_sockets fs =
     (case fs ''/proc/net/tcp'' of None \<Rightarrow> [] | Some (text, evs) \<Rightarrow> take 1024 (List.map_filter tcp_row (tl (fgets_lines text))))"

lemma collect_sockets:
  "sk_sockets (snd (sockstat_collect fs dirs links s)) = map (set_owners fs (socket_owners dirs links)) (file_sockets fs)"
  "sk_summary (snd (sockstat_collect fs dirs links s)) =
     (fold (\<lambda>s. count_socket (so_state s)) (file_sockets fs) no_sockets)\<lparr>
        sk_udp_total := count_lines fs ''/proc/net/udp'' 1 + count_lines fs ''/proc/net/udp6'' 1,
        sk_unix_total := count_lines fs ''/proc/net/unix'' 1\<rparr>"
  "fst (sockstat_collect fs dirs links s) = 0" "sk_previous_summary (snd (sockstat_collect fs dirs links s)) = sk_summary s"
  by (simp_all add: sockstat_collect_def parse_tcp_detailed_def file_sockets_def map_inodes_eq tcp_rows_eq MAX_SOCKETS_def
      List.map_filter_simps Let_def split: option.split prod.split list.split)

lemma tcp_row_pid: "tcp_row line = Some s \<Longrightarrow> so_pid s = 0"
  by (auto simp: tcp_row_def split: list.splits sval.splits)

lemma file_sockets_pid: "s \<in> set (file_sockets fs) \<Longrightarrow> so_pid s = 0"
  by (auto simp: file_sockets_def List.map_filter_def dest!: in_set_takeD split: option.splits) (erule tcp_row_pid)

text \<open>
  C29 (the socket table). A collection holds the rows of the file that have all twelve values, the first 1024 of them, in order;
  the total is their number and the numbers by state are those of the rows in that state. The summary of the round before is kept
  for the differences.
\<close>

theorem sockstat_counts:
  "let s' = snd (sockstat_collect fs dirs links s); ss = sk_sockets s'; m = sk_summary s'
   in map row_part ss = map row_part (file_sockets fs) \<and> length ss \<le> 1024 \<and> sk_tcp_total m = int (length ss) \<and>
      sk_tcp_established m = in_tcp_state 1 ss \<and> sk_tcp_time_wait m = in_tcp_state 6 ss \<and> sk_tcp_close_wait m = in_tcp_state 8 ss \<and>
      sk_tcp_listen m = in_tcp_state 10 ss \<and> sk_previous_summary s' = sk_summary s"
proof -
  have st: "so_state (set_owners fs os t) = so_state t" for os t using row_part_fields[OF set_owners_row] by blast
  have "in_tcp_state c (map (set_owners fs os) ts) = in_tcp_state c ts" for c os ts
    by (simp add: in_tcp_state_def filter_map comp_def st)
  moreover have "length (file_sockets fs) \<le> 1024" by (simp add: file_sockets_def split: option.split prod.split)
  ultimately show ?thesis by (simp add: collect_sockets fold_count_socket no_sockets_def comp_def)
qed

text \<open>
  Also (owners). Every socket is attributed to the last process of the walk over \<open>/proc\<close> that has it open, and to none if no
  process has.
\<close>

theorem sockstat_owners:
  "\<forall>t \<in> set (sk_sockets (snd (sockstat_collect fs dirs links s))).
     so_pid t = (case last_owner (socket_owners dirs links) (so_inode t) of None \<Rightarrow> 0 | Some p \<Rightarrow> p)"
proof
  fix t assume "t \<in> set (sk_sockets (snd (sockstat_collect fs dirs links s)))"
  then obtain u where u: "u \<in> set (file_sockets fs)" "t = set_owners fs (socket_owners dirs links) u" by (auto simp: collect_sockets)
  then have "so_inode t = so_inode u" using row_part_fields[OF set_owners_row] by blast
  then show "so_pid t = (case last_owner (socket_owners dirs links) (so_inode t) of None \<Rightarrow> 0 | Some p \<Rightarrow> p)"
    using u file_sockets_pid[OF u(1)] by (simp add: set_owners_pid split: option.split)
qed

section \<open>What the kernel prints\<close>

text \<open>The numbers of a row: hexadecimal with a fixed width, decimal padded with blanks.\<close>

definition upper_digit :: "nat \<Rightarrow> char" where
  "upper_digit d = ''0123456789ABCDEF'' ! d"

fun hex_str :: "nat \<Rightarrow> nat \<Rightarrow> string" where
  "hex_str 0 v = []"
| "hex_str (Suc n) v = hex_str n (v div 16) @ [upper_digit (v mod 16)]"

definition padded :: "nat \<Rightarrow> nat \<Rightarrow> string" where
  "padded n v = replicate (n - length (nat_str v)) CHR '' '' @ nat_str v"

lemma upper_digit_ok: "d < 16 \<Longrightarrow> isxdigit (upper_digit d) \<and> xdigit_val (upper_digit d) = d"
proof -
  have "\<forall>d \<in> set [0..<16]. isxdigit (upper_digit d) \<and> xdigit_val (upper_digit d) = d" by code_simp
  then show "d < 16 \<Longrightarrow> isxdigit (upper_digit d) \<and> xdigit_val (upper_digit d) = d" by simp
qed

lemma hex_str_digits: "c \<in> set (hex_str n v) \<Longrightarrow> isxdigit c"
  by (induction n arbitrary: v) (auto simp: upper_digit_ok)

lemma length_hex_str [simp]: "length (hex_str n v) = n"
  by (induction n arbitrary: v) auto

lemma xdigits_val_snoc: "xdigits_val acc (xs @ [c]) = 16 * xdigits_val acc xs + xdigit_val c"
  by (induction acc xs rule: xdigits_val.induct) auto

lemma xdigits_val_hex_str: "v < 16 ^ n \<Longrightarrow> xdigits_val 0 (hex_str n v) = v"
proof (induction n arbitrary: v)
  case (Suc n)
  then have "v div 16 < 16 ^ n" by (simp add: less_mult_imp_div_less)
  then show ?case using Suc.IH[of "v div 16"] by (simp add: xdigits_val_snoc upper_digit_ok)
qed simp

lemma isxdigit_plain: "isxdigit c \<Longrightarrow> \<not> isspace c \<and> c \<noteq> CHR ''-'' \<and> c \<noteq> CHR ''+'' \<and> c \<noteq> CHR ''x'' \<and> c \<noteq> CHR ''X'' \<and> c \<noteq> NUL"
  by (auto simp: isxdigit_def isspace_def isdigit_def Let_def)

lemma scan_hex_str:
  assumes "2 \<le> n" "v < 16 ^ n" "r = [] \<or> \<not> isxdigit (hd r)" "k = K_hex \<or> k = K_lhex" "v < 2 ^ 32"
  shows "scan_num k (hex_str n v @ r) = Some (int v, r)"
proof -
  obtain a b t where h: "hex_str n v = a # b # t" using assms(1) length_hex_str[of n v]
    by (cases "hex_str n v" rule: remdups_adj.cases) auto
  have d: "isxdigit a" "isxdigit b" using hex_str_digits[of _ n v] by (simp_all add: h)
  have all: "\<forall>c \<in> set (hex_str n v). isxdigit c" using hex_str_digits by blast
  then have tw: "takeWhile isxdigit (hex_str n v @ r) = hex_str n v" "dropWhile isxdigit (hex_str n v @ r) = r"
    using assms(3) by (cases r; simp add: takeWhile_append2 dropWhile_append2)+
  have sp: "dropWhile isspace (hex_str n v @ r) = hex_str n v @ r" "split_sign (hex_str n v @ r) = (False, hex_str n v @ r)"
    using isxdigit_plain[OF d(1)] by (simp_all add: h split_sign_def)
  have "split_digits True (hex_str n v @ r) = (hex_str n v, r)"
    using tw isxdigit_plain[OF d(2)] by (simp add: split_digits_def h)
  moreover have "hex_str n v \<noteq> []" by (simp add: h)
  ultimately show ?thesis
    using assms(4,5) xdigits_val_hex_str[OF assms(2)]
    by (auto simp: scan_num_def sp num_value_def ulong_of_def)
qed

lemma dropWhile_padded: "dropWhile isspace (padded n v @ r) = nat_str v @ r"
proof -
  have "dropWhile isspace (replicate m CHR '' '' @ t) = dropWhile isspace t" for m t by (induction m) simp_all
  then show ?thesis by (simp add: padded_def dropWhile_space_nat_str)
qed

lemma scan_padded: "scan_num k (padded n v @ r) = scan_num k (nat_str v @ r)"
  by (simp add: scan_num_def dropWhile_padded dropWhile_space_nat_str)

definition hex_addr :: "nat \<Rightarrow> nat \<Rightarrow> string" where
  "hex_addr addr port = hex_str 8 addr @ '':'' @ hex_str 4 port"

text \<open>
  Also (addresses). The eight hexadecimal digits the kernel prints for an address, and the four of the port, are read
  back as the dotted address and the decimal port, and the text fits the array.
\<close>

lemma sscanf_hex_addr:
  assumes "addr < 2 ^ 32" "port < 2 ^ 16"
  shows "sscanf [D_num K_hex, D_lit CHR '':'', D_num K_hex] (hex_addr addr port) = [SNum (int addr), SNum (int port)]"
proof -
  have "\<not> isxdigit CHR '':''" by code_simp
  then show ?thesis
    using assms scan_hex_str[of 8 addr "'':'' @ hex_str 4 port" K_hex] scan_hex_str[of 4 port "[]" K_hex]
    by (simp add: hex_addr_def)
qed

theorem sockstat_address_text:
  assumes "addr < 2 ^ 32" and "port < 2 ^ 16"
  shows "parse_address (hex_addr addr port) 64 =
    nat_str (addr mod 256) @ ''.'' @ nat_str (addr div 256 mod 256) @ ''.'' @ nat_str (addr div 65536 mod 256) @ ''.'' @
    nat_str (addr div 16777216 mod 256) @ '':'' @ nat_str port"
proof -
  have b: "length (nat_str (x mod 256)) \<le> 3" for x using nat_str_length[of "x mod 256" 3] mod_less_divisor[of 256 x] by simp
  have p: "length (nat_str port) \<le> 5" using nat_str_length[of port 5] assms(2) by simp
  have e: "int_str (int x) = nat_str x" for x by (simp add: int_str_def)
  have "int_str (int addr div c mod 256) = nat_str (addr div nat c mod 256)" if "c > 0" for c
    using that e[of "addr div nat c mod 256"] by (simp add: zdiv_int zmod_int)
  note i = this[of 256] this[of 65536] this[of 16777216] this[of 1]
  let ?t = "nat_str (addr mod 256) @ ''.'' @ nat_str (addr div 256 mod 256) @ ''.'' @ nat_str (addr div 65536 mod 256) @ ''.'' @
    nat_str (addr div 16777216 mod 256) @ '':'' @ nat_str port"
  have "length ?t \<le> 63" using b[of addr] b[of "addr div 256"] b[of "addr div 65536"] b[of "addr div 16777216"] p by simp
  then have "bounded_copy 64 ?t = ?t" unfolding bounded_copy_def by (intro take_all) simp
  then show ?thesis using i e sscanf_hex_addr[OF assms] by (simp add: parse_address_def inet_ntoa_def)
qed

theorem sockstat_address_text_witness:
  "parse_address (hex_addr 16777343 53) 64 = ''127.0.0.1:53''"
proof -
  have "parse_address (hex_addr 16777343 53) 64 =
    nat_str (16777343 mod 256) @ ''.'' @ nat_str (16777343 div 256 mod 256) @ ''.'' @ nat_str (16777343 div 65536 mod 256) @ ''.'' @
    nat_str (16777343 div 16777216 mod 256) @ '':'' @ nat_str 53" by (rule sockstat_address_text) simp_all
  also have "\<dots> = ''127.0.0.1:53''" by (simp add: nat_str.simps)
  finally show ?thesis .
qed

text \<open>A row of \<open>/proc/net/tcp\<close>; what follows the inode is not read.\<close>

record tcp_info =
  ti_sl :: nat
  ti_local :: "nat \<times> nat"
  ti_remote :: "nat \<times> nat"
  ti_state :: nat
  ti_tx :: nat
  ti_rx :: nat
  ti_timer :: nat
  ti_when :: nat
  ti_retrans :: nat
  ti_uid :: nat
  ti_timeout :: nat
  ti_inode :: nat

definition kernel_row :: "tcp_info \<Rightarrow> string \<Rightarrow> string" where
  "kernel_row i rest =
     padded 4 (ti_sl i) @ '': '' @ hex_addr (fst (ti_local i)) (snd (ti_local i)) @ '' '' @ hex_addr (fst (ti_remote i)) (snd (ti_remote i)) @ '' '' @
     hex_str 2 (ti_state i) @ '' '' @ hex_str 8 (ti_tx i) @ '':'' @ hex_str 8 (ti_rx i) @ '' '' @ hex_str 2 (ti_timer i) @ '':'' @
     hex_str 8 (ti_when i) @ '' '' @ hex_str 8 (ti_retrans i) @ '' '' @ padded 5 (ti_uid i) @ '' '' @ padded 8 (ti_timeout i) @ '' '' @
     nat_str (ti_inode i) @ '' '' @ rest"

definition tcp_info_ok :: "tcp_info \<Rightarrow> bool" where
  "tcp_info_ok i \<longleftrightarrow> ti_sl i < 2 ^ 32 \<and> fst (ti_local i) < 2 ^ 32 \<and> snd (ti_local i) < 2 ^ 16 \<and> fst (ti_remote i) < 2 ^ 32 \<and>
     snd (ti_remote i) < 2 ^ 16 \<and> ti_state i < 2 ^ 8 \<and> ti_tx i < 2 ^ 32 \<and> ti_rx i < 2 ^ 32 \<and> ti_timer i < 2 ^ 8 \<and> ti_when i < 2 ^ 32 \<and>
     ti_retrans i < 2 ^ 32 \<and> ti_uid i < 2 ^ 32 \<and> ti_timeout i < 2 ^ 32 \<and> ti_inode i < 2 ^ 32"

lemma scan_hex_2_8:
  assumes "r = [] \<or> \<not> isxdigit (hd r)"
  shows "v < 2 ^ 8 \<Longrightarrow> scan_num K_hex (hex_str 2 v @ r) = Some (int v, r)"
    "v < 2 ^ 32 \<Longrightarrow> scan_num K_hex (hex_str 8 v @ r) = Some (int v, r)"
    "v < 2 ^ 32 \<Longrightarrow> scan_num K_lhex (hex_str 8 v @ r) = Some (int v, r)"
  using scan_hex_str[of 2 v r K_hex] scan_hex_str[of 8 v r K_hex] scan_hex_str[of 8 v r K_lhex] assms by simp_all

lemma not_xdigits: "\<not> isxdigit CHR '':''" "\<not> isxdigit CHR '' ''"
  by code_simp+

lemma hex_addr_word: "word_ok 63 (hex_addr a p)"
  using hex_str_digits isxdigit_plain by (auto simp: word_ok_def hex_addr_def isspace_def)

lemma scan_colon_nat_str: "n < 2 ^ 32 \<Longrightarrow> scan_num K_uint (nat_str n @ CHR '':'' # r) = Some (int n, CHR '':'' # r)"
proof -
  assume n: "n < 2 ^ 32"
  have c: "\<not> isdigit CHR '':''" by code_simp
  then have "split_digits False (nat_str n @ CHR '':'' # r) = (nat_str n, CHR '':'' # r)"
    by (simp add: split_digits_def takeWhile_nat_str dropWhile_append2 nat_str_digits)
  then show ?thesis using n
    by (simp add: scan_num_def dropWhile_space_nat_str split_nat_str num_value_def ulong_of_def digits_val_nat_str)
qed

lemma sscanf_kernel_row:
  assumes "tcp_info_ok i"
  shows "sscanf tcp_format (kernel_row i rest) =
    [SNum (int (ti_sl i)), SStr (hex_addr (fst (ti_local i)) (snd (ti_local i))), SStr (hex_addr (fst (ti_remote i)) (snd (ti_remote i))),
     SNum (int (ti_state i)), SNum (int (ti_tx i)), SNum (int (ti_rx i)), SNum (int (ti_timer i)), SNum (int (ti_when i)),
     SNum (int (ti_retrans i)), SNum (int (ti_uid i)), SNum (int (ti_timeout i)), SNum (int (ti_inode i))]"
proof -
  have sp: "dropWhile isspace (CHR '' '' # s) = dropWhile isspace s" for s by simp
  have h: "dropWhile isspace (hex_str n v @ r) = hex_str n v @ r" if "0 < n" for n v r
    using that length_hex_str[of n v] hex_str_digits[of "hd (hex_str n v)" n v] isxdigit_plain by (cases "hex_str n v") auto
  have w: "dropWhile isspace (hex_addr a p @ r) = hex_addr a p @ r" for a p r using h[of 8 a] by (simp add: hex_addr_def)
  show ?thesis
    using assms
    by (simp add: tcp_info_ok_def tcp_format_def kernel_row_def scan_padded scan_colon_nat_str w h dropWhile_padded dropWhile_space_nat_str
        scan_str_word[OF hex_addr_word] scan_hex_2_8 not_xdigits scan_simps)
qed

text \<open>
  Also (rows of the kernel). A row as the kernel prints it gives one entry with the addresses, the state, the queues and the inode of
  the socket, still without a process.
\<close>

theorem sockstat_row_text:
  assumes "tcp_info_ok i" and "NUL \<notin> set rest"
  shows "tcp_row (kernel_row i rest) = Some
    \<lparr>so_local_addr = parse_address (hex_addr (fst (ti_local i)) (snd (ti_local i))) 64,
     so_rem_addr = parse_address (hex_addr (fst (ti_remote i)) (snd (ti_remote i))) 64, so_state = int (ti_state i),
     so_tx_queue = int (ti_tx i), so_rx_queue = int (ti_rx i), so_inode = int (ti_inode i), so_pid = 0, so_cmd = []\<rparr>"
proof -
  have h: "NUL \<notin> set (hex_str n v)" for n v using hex_str_digits[of NUL n v] isxdigit_plain by blast
  have d: "NUL \<notin> set (nat_str v)" for v using nat_str_digits[of NUL v] by (auto simp: isdigit_def)
  have "NUL \<notin> set (kernel_row i rest)" using assms(2) h d by (simp add: kernel_row_def hex_addr_def padded_def)
  then have "cstr (kernel_row i rest) = kernel_row i rest" by (simp add: cstr_id)
  then show ?thesis using sscanf_kernel_row[OF assms(1)] by (simp add: tcp_row_def)
qed

text \<open>The listening socket of a name server.\<close>

definition demo_tcp :: tcp_info where
  "demo_tcp = \<lparr>ti_sl = 0, ti_local = (16777343, 53), ti_remote = (0, 0), ti_state = 10, ti_tx = 0, ti_rx = 0, ti_timer = 0, ti_when = 0,
     ti_retrans = 0, ti_uid = 101, ti_timeout = 0, ti_inode = 21541\<rparr>"

lemma demo_tcp_ok: "tcp_info_ok demo_tcp"
  by (simp add: tcp_info_ok_def demo_tcp_def)

theorem sockstat_row_text_witness:
  "map_option so_inode (tcp_row (kernel_row demo_tcp ''1 0000000000000000'')) = Some 21541"
  using sockstat_row_text[OF demo_tcp_ok, of "''1 0000000000000000''"] by (simp add: demo_tcp_def)

text \<open>A file of complete lines is counted without its header.\<close>

lemma count_from_lines:
  "\<forall>l \<in> set ls. LF \<notin> set l \<Longrightarrow> count_from skip (concat (map (\<lambda>l. l @ [LF]) ls)) = length ls - skip"
proof (induction ls arbitrary: skip)
  case Nil
  then show ?case by (simp add: count_from.simps)
next
  case (Cons l ls)
  let ?r = "concat (map (\<lambda>l. l @ [LF]) ls)"
  have "strchr LF (l @ LF # ?r) = Some (LF # ?r)" using Cons.prems by (simp add: Prelude.strchr_append)
  then have "count_from skip (l @ LF # ?r) = (if skip = 0 then 1 else 0) + count_from (skip - 1) ?r"
    by (subst count_from.simps) simp
  then show ?case using Cons.IH[of "skip - 1"] Cons.prems by (cases skip) simp_all
qed

lemma count_lines_text:
  assumes "proc_read_file fs path 65536 = Some (concat (map (\<lambda>l. l @ [LF]) ls))" "\<forall>l \<in> set ls. LF \<notin> set l \<and> NUL \<notin> set l"
  shows "count_lines fs path n = int (length ls - n)"
proof -
  have "NUL \<notin> set (concat (map (\<lambda>l. l @ [LF]) ls))" using assms(2) by auto
  then show ?thesis using assms count_from_lines[of ls n] by (simp add: count_lines_def)
qed

section \<open>The snapshot\<close>

definition socket_tree :: "socket_entry \<Rightarrow> jval" where
  "socket_tree s = JObj ([(''local'', JStr (so_local_addr s)), (''remote'', JStr (so_rem_addr s)), (''state'', JInt (so_state s)),
     (''tx_q'', JUint (word_of_int (so_tx_queue s))), (''rx_q'', JUint (word_of_int (so_rx_queue s))),
     (''inode'', JUint (word_of_int (so_inode s)))] @
     (if so_pid s > 0 then [(''pid'', JInt (so_pid s)), (''cmd'', JStr (so_cmd s))] else []))"

definition sockstat_tree :: "sockstat \<Rightarrow> jval" where
  "sockstat_tree s =
     (let m = sk_summary s; p = sk_previous_summary s
      in JObj [(''tcp'', JObj [(''total'', JInt (sk_tcp_total m)), (''total_delta'', JInt (sk_tcp_total m - sk_tcp_total p)),
             (''established'', JInt (sk_tcp_established m)), (''established_delta'', JInt (sk_tcp_established m - sk_tcp_established p)),
             (''time_wait'', JInt (sk_tcp_time_wait m)), (''time_wait_delta'', JInt (sk_tcp_time_wait m - sk_tcp_time_wait p)),
             (''close_wait'', JInt (sk_tcp_close_wait m)), (''listen'', JInt (sk_tcp_listen m))]),
           (''udp_total'', JInt (sk_udp_total m)), (''udp_total_delta'', JInt (sk_udp_total m - sk_udp_total p)),
           (''unix_total'', JInt (sk_unix_total m)), (''unix_total_delta'', JInt (sk_unix_total m - sk_unix_total p)),
           (''sockets'', JArr (map socket_tree (sk_sockets s)))])"

lemma emits_socket_obj [json_rules]: "emits_elts (socket_obj s) [socket_tree s]"
  unfolding socket_obj_def socket_tree_def
  by (rule emits_elts_cong, (rule json_rules)+, simp)

interpretation sockstat_out: snapshot_writer sockstat_snapshot sockstat_tree "\<lambda>s. True" "\<lambda>s. True"
proof
  fix s :: sockstat
  show "emits_val (sockstat_snapshot s) (sockstat_tree s)"
    unfolding sockstat_snapshot_def sockstat_tree_def Let_def by (rule emits_val_cong, (rule json_rules)+) simp
  show "jval_ok (sockstat_tree s)" by (auto simp: sockstat_tree_def socket_tree_def key_ok_def Let_def)
qed

end
