(* ===== verification/CliText.thy ===== *)
theory CliText
  imports JsonObj Format
begin

text \<open>
  The text functions of the command line tool (first part of \<open>src/cli/commands.c\<close>): it does not parse the snapshot, it searches the text
  for keys and reads what follows them. A position in the text is the suffix that starts there. Doubles are values of a type \<open>'d\<close>
  with the functions of the C library that the tool uses; differences of numbers are taken exactly.
\<close>

section \<open>Looking for keys\<close>

definition json_find_key :: "string \<Rightarrow> string \<Rightarrow> string option" where
  "json_find_key json key = strstr (bounded_copy 128 (DQ # key @ [DQ, CHR '':''])) json"

text \<open>The text behind the colon, without leading white space.\<close>

definition value_position :: "string \<Rightarrow> string option" where
  "value_position pos = (case strchr (CHR '':'') pos of None \<Rightarrow> None | Some p \<Rightarrow> Some (dropWhile isspace (tl p)))"

definition json_get_int :: "string \<Rightarrow> string \<Rightarrow> int" where
  "json_get_int json key =
     (case json_find_key json key of
        None \<Rightarrow> 0
      | Some pos \<Rightarrow> (case value_position pos of None \<Rightarrow> 0 | Some p \<Rightarrow> strtoll p))"

record 'd doubles =
  d_zero :: 'd
  d_strtod :: "string \<Rightarrow> 'd"
  d_print :: "nat \<Rightarrow> 'd \<Rightarrow> string"

definition json_get_double :: "'d doubles \<Rightarrow> string \<Rightarrow> string \<Rightarrow> 'd" where
  "json_get_double D json key =
     (case json_find_key json key of
        None \<Rightarrow> d_zero D
      | Some pos \<Rightarrow> (case value_position pos of None \<Rightarrow> d_zero D | Some p \<Rightarrow> d_strtod D p))"

text \<open>
  The block that copies the characters behind \<open>"key":"\<close> up to the next quote, at most \<open>n\<close> of them, over a default.
\<close>

definition extract_str :: "string \<Rightarrow> nat \<Rightarrow> string \<Rightarrow> string \<Rightarrow> string" where
  "extract_str key n dflt pos =
     (let m = DQ # key @ [DQ, CHR '':'', DQ]
      in case strstr m pos of
           None \<Rightarrow> dflt
         | Some p \<Rightarrow> (let q = drop (length m) p in case strchr DQ q of None \<Rightarrow> dflt | Some e \<Rightarrow> take n (takeWhile (\<lambda>c. c \<noteq> DQ) q)))"

text \<open>The positions at which \<open>while ((pos = strstr(pos, m)) != NULL) { ...; pos++; }\<close> runs its body.\<close>

function row_starts :: "string \<Rightarrow> string \<Rightarrow> string list" where
  "row_starts m pos =
     (case strstr m pos of None \<Rightarrow> [] | Some p \<Rightarrow> if p = [] then [] else p # row_starts m (tl p))"
  by pat_completeness auto
termination
proof (relation "measure (\<lambda>(m, pos). length pos)")
  fix m pos p assume "strstr m pos = Some p" "p \<noteq> []"
  then show "((m, tl p), m, pos) \<in> measure (\<lambda>(m, pos). length pos)"
    using strstr_Some[of m pos p] suffix_length_le[of p pos] by (cases p) auto
qed simp

declare row_starts.simps [simp del]

text \<open>The rows of a table: the objects that start with key \<open>f\<close>, behind the first bracket of its section; \<open>row\<close> prints one.\<close>

definition obj_pat :: "string \<Rightarrow> string" where
  "obj_pat f = CHR ''{'' # DQ # f @ [DQ, CHR '':'']"

definition table_starts :: "string \<Rightarrow> string \<Rightarrow> string list" where
  "table_starts m sect = (case strchr (CHR ''['') sect of None \<Rightarrow> [] | Some pos \<Rightarrow> row_starts m pos)"

definition table_rows :: "string \<Rightarrow> (string \<Rightarrow> string) \<Rightarrow> string \<Rightarrow> string" where
  "table_rows m row sect = concat (map row (table_starts m sect))"

text \<open>\<open>strstr(text, "\"key\":")\<close> with a constant key.\<close>

definition find_section :: "string \<Rightarrow> string \<Rightarrow> string option" where
  "find_section json key = strstr (DQ # key @ [DQ, CHR '':'']) json"

section \<open>Printing\<close>

definition ESC :: char where "ESC = CHR 0x1B"
definition RED :: string where "RED = ESC # ''[0;31m''"
definition GREEN :: string where "GREEN = ESC # ''[0;32m''"
definition YELLOW :: string where "YELLOW = ESC # ''[1;33m''"
definition CYAN :: string where "CYAN = ESC # ''[0;36m''"
definition BOLD :: string where "BOLD = ESC # ''[1m''"
definition NC :: string where "NC = ESC # ''[0m''"

text \<open>\<open>%-ns\<close> and \<open>%ns\<close>.\<close>

definition left :: "nat \<Rightarrow> string \<Rightarrow> string" where
  "left n s = s @ replicate (n - length s) CHR '' ''"

definition right :: "nat \<Rightarrow> string \<Rightarrow> string" where
  "right n s = replicate (n - length s) CHR '' '' @ s"

text \<open>Columns: padded texts with a blank between them.\<close>

fun columns :: "(nat \<times> string) list \<Rightarrow> string" where
  "columns [] = []"
| "columns [(w, s)] = left w s"
| "columns ((w, s) # c # cs) = left w s @ '' '' @ columns (c # cs)"

definition cli_format_kb :: "nat \<Rightarrow> int \<Rightarrow> string" where
  "cli_format_kb sz kb = bounded_copy sz (kb_text kb)"

definition cli_format_delta :: "nat \<Rightarrow> int \<Rightarrow> string" where
  "cli_format_delta sz delta =
     (let value = cli_format_kb 32 \<bar>delta\<bar>
      in bounded_copy sz
           (if delta > 0 then RED @ ''+'' @ value @ NC else if delta < 0 then GREEN @ ''-'' @ value @ NC else ''0''))"

definition format_delta_plain :: "nat \<Rightarrow> int \<Rightarrow> string" where
  "format_delta_plain sz delta =
     (let value = cli_format_kb 48 \<bar>delta\<bar>
      in bounded_copy sz (if delta > 0 then ''+'' @ value else if delta < 0 then ''-'' @ value else ''0''))"

definition print_delta_col :: "int \<Rightarrow> nat \<Rightarrow> string" where
  "print_delta_col delta width =
     (let plain = format_delta_plain 64 delta
      in if delta > 0 then RED @ left width plain @ NC
         else if delta < 0 then GREEN @ left width plain @ NC
         else left width plain)"

definition print_separator :: string where
  "print_separator = replicate 108 CHR ''='' @ [LF]"

section \<open>One section of the snapshot\<close>

text \<open>The loops that look for the end of an object or array, and of a string; \<open>None\<close> is a step behind the terminator.\<close>

fun skip_nested :: "char \<Rightarrow> char \<Rightarrow> nat \<Rightarrow> string \<Rightarrow> string" where
  "skip_nested opening closing depth [] = []"
| "skip_nested opening closing depth (c # cs) =
     (if depth = 0 then c # cs
      else skip_nested opening closing (if c = opening then depth + 1 else if c = closing then depth - 1 else depth) cs)"

fun skip_string :: "string \<Rightarrow> string option" where
  "skip_string [] = Some []"
| "skip_string (c # cs) =
     (if c = DQ then Some (c # cs)
      else if c = BSL then (case cs of [] \<Rightarrow> None | e # es \<Rightarrow> skip_string es)
      else skip_string cs)"

definition isalnum :: "char \<Rightarrow> bool" where
  "isalnum c \<longleftrightarrow> (let n = (of_char c :: nat) in isdigit c \<or> (65 \<le> n \<and> n \<le> 90) \<or> (97 \<le> n \<and> n \<le> 122))"

text \<open>What follows the value at a position, by the test of the code; the character behind the value is included in it.\<close>

definition section_end :: "string \<Rightarrow> string option" where
  "section_end pos =
     (if starts_with ''{'' pos then Some (tl (skip_nested CHR ''{'' CHR ''}'' 1 (tl pos)))
      else if starts_with ''['' pos then Some (tl (skip_nested CHR ''['' CHR '']'' 1 (tl pos)))
      else if starts_with [DQ] pos then map_option tl (skip_string (tl pos))
      else Some (dropWhile (\<lambda>c. isalnum c \<or> c = CHR ''.'' \<or> c = CHR ''-'') pos))"

definition print_json_section :: "string \<Rightarrow> string \<Rightarrow> string option" where
  "print_json_section json key =
     (case strstr (bounded_copy 128 (DQ # key @ [DQ, CHR '':''])) json of
        None \<Rightarrow> Some (''Service '' @ [CHR 0x27] @ key @ [CHR 0x27] @ '' not found or disabled in snapshot.'' @ [LF])
      | Some pos0 \<Rightarrow>
          (let title = [LF] @ CYAN @ ''=== Status: '' @ key @ '' ==='' @ NC @ [LF, LF]
           in case value_position pos0 of
                None \<Rightarrow> Some title
              | Some pos \<Rightarrow>
                  (case section_end pos of
                     None \<Rightarrow> None
                   | Some rest \<Rightarrow> Some (title @ take (length pos - length rest) pos @ [LF]))))"

end
