(* ===== verification/CliKeys.thy ===== *)
theory CliKeys
  imports CliText
begin

text \<open>
  What the searches of \<open>CliText\<close> find in the text of a tree: the positions of a key are exactly its members, in the order of the
  text, whatever characters the string values contain.
\<close>

section \<open>Occurrences\<close>

text \<open>All positions of \<open>m\<close>, each with the character in front of it; \<open>p\<close> stands in front of the text.\<close>

fun occs :: "string \<Rightarrow> char \<Rightarrow> string \<Rightarrow> (char \<times> string) list" where
  "occs m p [] = []"
| "occs m p (c # cs) = (if starts_with m (c # cs) then [(p, c # cs)] else []) @ occs m c cs"

lemma strstr_occs: "m \<noteq> [] \<Longrightarrow> strstr m s = (case occs m p s of [] \<Rightarrow> None | (q, t) # os \<Rightarrow> Some t)"
  by (induction m p s rule: occs.induct) auto

lemma row_starts_occs: "m \<noteq> [] \<Longrightarrow> row_starts m s = map snd (occs m p s)"
proof (induction m p s rule: occs.induct)
  case (1 m p)
  then show ?case by (simp add: row_starts.simps)
next
  case (2 m p c cs)
  show ?case
  proof (cases "starts_with m (c # cs)")
    case True
    then show ?thesis using 2 by (subst row_starts.simps) simp
  next
    case False
    then have "row_starts m (c # cs) = row_starts m cs" by (subst row_starts.simps) (simp add: row_starts.simps[of m cs])
    then show ?thesis using False 2 by simp
  qed
qed

lemma map_snd_occs: "map snd (occs m p s) = map snd (occs m q s)"
  by (cases s) simp_all

text \<open>The positions of a longer pattern among those of its tail.\<close>

lemma row_starts_Cons:
  assumes "m \<noteq> []"
  shows "map (\<lambda>(q, t). b # t) (filter (\<lambda>(q, t). q = b) (occs m c cs)) =
    (if c = b \<and> starts_with m cs \<and> cs \<noteq> [] then [b # cs] else []) @ row_starts (b # m) cs"
proof (induction cs arbitrary: c)
  case Nil
  then show ?case by (simp add: row_starts.simps)
next
  case (Cons x xs)
  have "row_starts (b # m) (x # xs) = (if x = b \<and> starts_with m xs then [x # xs] else []) @ row_starts (b # m) xs"
    by (simp add: row_starts_occs[of _ _ b] map_snd_occs[of _ x xs b])
  moreover have "starts_with m xs \<longrightarrow> xs \<noteq> []" using assms by (cases m) auto
  ultimately show ?case using Cons.IH[of x] by auto
qed

lemma occs_longer:
  assumes "occs m p s = (q, t) # os" "starts_with (m @ x) t" "m \<noteq> []"
  shows "strstr (m @ x) s = Some t"
  using assms
proof (induction m p s rule: occs.induct)
  case (2 m p c cs)
  have "starts_with (m @ x) (c # cs) \<Longrightarrow> starts_with m (c # cs)" by (auto simp: starts_with_iff dest: append_prefixD)
  then show ?case using 2 by (auto split: if_splits)
qed simp

section \<open>Occurrences of a key in a rendered tree\<close>

definition key_pat :: "string \<Rightarrow> string" where
  "key_pat k = DQ # k @ [DQ, CHR '':'']"

lemma key_pat_quote [simp]: "c \<noteq> DQ \<Longrightarrow> \<not> starts_with (key_pat k) (c # r)"
  by (simp add: key_pat_def)

definition plain_key_text :: "string \<Rightarrow> bool" where
  "plain_key_text k \<longleftrightarrow> (\<forall>c \<in> set k. c \<notin> {DQ, BSL, CHR '','', CHR ''}'', CHR '']'', CHR '':''} \<and> 32 \<le> (of_char c :: nat))"

lemma key_pat_not_Nil [simp]: "key_pat k \<noteq> []"
  by (simp add: key_pat_def)

lemma key_text_plain: "plain_key_text k \<Longrightarrow> key_text k = key_pat k"
proof -
  assume k: "plain_key_text k"
  have "key_char c = [c]" if "c \<in> set k" for c
  proof -
    have c: "c \<noteq> DQ" "c \<noteq> BSL" "32 \<le> (of_char c :: nat)" using k that unfolding plain_key_text_def by blast+
    have "c \<noteq> LF" using c(3) by (rule contrapos_pn) simp
    moreover have "c \<noteq> CR" using c(3) by (rule contrapos_pn) simp
    moreover have "c \<noteq> TAB" using c(3) by (rule contrapos_pn) simp
    ultimately show ?thesis using c(1,2) by (simp add: key_char_def)
  qed
  then have "concat (map key_char k) = k" by (induction k) auto
  then show ?thesis by (simp add: key_text_def key_pat_def)
qed

lemma occs_skip: "DQ \<notin> set a \<Longrightarrow> occs (DQ # m) p (a @ r) = occs (DQ # m) (last (p # a)) r"
  by (induction a arbitrary: p) auto

text \<open>No match starts inside or at the end of a string value.\<close>

lemma value_char_cases:
  obtains "value_char c = [BSL, DQ]" | x y where "value_char c = BSL # x # y" "DQ \<notin> set (x # y)"
  | "value_char c = [c]" "c \<noteq> DQ" "c \<noteq> BSL"
proof -
  have h: "hex_digit n \<noteq> DQ" if "n < 16" for n
  proof -
    have "\<forall>n \<in> set [0..<16]. hex_digit n \<noteq> DQ" by code_simp
    then show ?thesis using that by simp
  qed
  have u: "u_escape c = BSL # CHR ''u'' # [CHR ''0'', CHR ''0'', hex_digit (of_char c div 16), hex_digit (of_char c mod 16)]"
    "DQ \<notin> set (CHR ''u'' # [CHR ''0'', CHR ''0'', hex_digit (of_char c div 16), hex_digit (of_char c mod 16)])"
    if "(of_char c :: nat) < 32"
  proof -
    have d: "of_char c div 16 < (16 :: nat)" "of_char c mod 16 < (16 :: nat)" using that by (simp_all add: less_mult_imp_div_less)
    then show "u_escape c = BSL # CHR ''u'' # [CHR ''0'', CHR ''0'', hex_digit (of_char c div 16), hex_digit (of_char c mod 16)]"
      "DQ \<notin> set (CHR ''u'' # [CHR ''0'', CHR ''0'', hex_digit (of_char c div 16), hex_digit (of_char c mod 16)])"
      using h[OF d(1)] h[OF d(2)] by (auto simp: u_escape_def)
  qed
  show ?thesis
  proof (cases "c = DQ")
    case True
    then show ?thesis using that(1) by (simp add: value_char_def)
  next
    case False
    show ?thesis
    proof (cases "c \<in> {BSL, LF, CR, TAB}")
      case True
      then show ?thesis using that(2)[of "hd (tl (value_char c))" "[]"] by (auto simp: value_char_def)
    next
      case plain: False
      show ?thesis
      proof (cases "(of_char c :: nat) < 32")
        case True
        then have "value_char c = u_escape c" using False plain by (simp add: value_char_def)
        then show ?thesis using that(2) u[OF True] by metis
      next
        case large: False
        then show ?thesis using that(3) False plain by (simp add: value_char_def)
      qed
    qed
  qed
qed

text \<open>What stands behind a value in a rendered tree.\<close>

definition after_value :: "string \<Rightarrow> bool" where
  "after_value r \<longleftrightarrow> r = [] \<or> hd r \<in> {CHR '','', CHR '']'', CHR ''}''}"

lemma after_value_simps [simp]:
  "after_value []" "after_value (CHR '','' # r)" "after_value (CHR '']'' # r)" "after_value (CHR ''}'' # r)"
  by (simp_all add: after_value_def)

lemma no_match_in_value:
  assumes "plain_key_text k" "after_value r"
  shows "\<not> starts_with (k @ [DQ, CHR '':'']) (concat (map value_char s) @ DQ # r)"
  using assms(1)
proof (induction s arbitrary: k)
  case Nil
  then show ?case using assms(2) by (cases k; cases r) (auto simp: plain_key_text_def after_value_def)
next
  case (Cons c s)
  show ?case
  proof (cases k)
    case Nil
    then show ?thesis by (cases c rule: value_char_cases) auto
  next
    case k: (Cons d k')
    then have d: "d \<noteq> BSL" "plain_key_text k'" using Cons.prems by (auto simp: plain_key_text_def)
    show ?thesis using d k Cons.IH[OF d(2)] by (cases c rule: value_char_cases) auto
  qed
qed

lemma occs_value_body:
  assumes "plain_key_text k" "after_value r"
  shows "occs (key_pat k) p (concat (map value_char s) @ DQ # r) = occs (key_pat k) DQ r"
proof (induction s arbitrary: p)
  case Nil
  have "\<not> starts_with (key_pat k) (DQ # r)"
    using assms by (cases k; cases r) (auto simp: key_pat_def plain_key_text_def after_value_def)
  then show ?case by simp
next
  case (Cons c s)
  have skip: "occs (key_pat k) p (a @ x) = occs (key_pat k) (last (p # a)) x" if "DQ \<notin> set a" for a p x
    using occs_skip[OF that] by (simp add: key_pat_def)
  show ?case
  proof (cases c rule: value_char_cases)
    case 1
    have "\<not> starts_with (key_pat k) (DQ # concat (map value_char s) @ DQ # r)"
      using no_match_in_value[OF assms] by (simp add: key_pat_def)
    then show ?thesis using 1 Cons.IH skip[of "[BSL]"] by (simp add: key_pat_def)
  next
    case (2 x y)
    then have "DQ \<notin> set (BSL # x # y)" by auto
    then show ?thesis using 2 Cons.IH skip[of "BSL # x # y"] by simp
  next
    case 3
    then show ?thesis using Cons.IH skip[of "[c]"] by simp
  qed
qed

lemma occs_str_text:
  assumes "plain_key_text k" "after_value r"
  shows "occs (key_pat k) p (str_text s @ r) = occs (key_pat k) DQ r"
proof -
  have "\<not> starts_with (key_pat k) (DQ # concat (map value_char s) @ DQ # r)"
    using no_match_in_value[OF assms] by (simp add: key_pat_def)
  then show ?thesis using occs_value_body[OF assms] by (simp add: str_text_def)
qed

lemma occs_key_text:
  assumes "plain_key_text k" "plain_key_text k'"
  shows "occs (key_pat k) p (key_text k' @ r) = (if k' = k then [(p, key_text k @ r)] else []) @ occs (key_pat k) (CHR '':'') r"
proof -
  have m: "starts_with (k @ [DQ, CHR '':'']) (k' @ DQ # CHR '':'' # r) \<longleftrightarrow> k' = k"
    using assms
  proof (induction k arbitrary: k')
    case Nil
    then show ?case by (cases k') (auto simp: plain_key_text_def)
  next
    case (Cons c k)
    then show ?case by (cases k') (auto simp: plain_key_text_def)
  qed
  have e: "\<not> starts_with (key_pat k) (DQ # CHR '':'' # r)"
    using assms(1) by (cases k) (auto simp: key_pat_def plain_key_text_def)
  have q: "DQ \<notin> set k'" using assms(2) by (auto simp: plain_key_text_def)
  have "occs (key_pat k) DQ (k' @ DQ # CHR '':'' # r) = occs (key_pat k) (CHR '':'') r"
    using occs_skip[OF q, of "k @ [DQ, CHR '':'']" DQ "DQ # CHR '':'' # r"] e by (simp add: key_pat_def)
  then show ?thesis using m by (auto simp: key_text_plain[OF assms(1)] key_text_plain[OF assms(2)] key_pat_def)
qed

section \<open>Whole trees\<close>

text \<open>The keys of a tree are plain and its numbers contain no quote.\<close>

fun plain_tree :: "jval \<Rightarrow> bool" where
  "plain_tree (JNum t) = (DQ \<notin> set t)"
| "plain_tree (JArr vs) = (\<forall>v \<in> set vs. plain_tree v)"
| "plain_tree (JObj kvs) = (\<forall>kv \<in> set kvs. plain_key_text (fst kv) \<and> plain_tree (snd kv))"
| "plain_tree v = True"

text \<open>The text behind the first of some elements, in front of \<open>r\<close>.\<close>

definition more_text :: "string list \<Rightarrow> string \<Rightarrow> string" where
  "more_text ts r = (if ts = [] then r else CHR '','' # join_comma ts @ r)"

lemma join_comma_more: "join_comma (t # ts) @ r = t @ more_text ts r"
  by (simp add: join_comma_Cons more_text_def)

lemma after_value_more [simp]: "after_value r \<Longrightarrow> after_value (more_text ts r)"
  by (simp add: more_text_def)

lemma size_member: "size_prod (\<lambda>x. 0) size = (\<lambda>kv :: string \<times> jval. Suc (size (snd kv)))"
  by (rule ext) (auto simp: size_prod_simp)

text \<open>The members with key \<open>k\<close>, in the order of the text: the character in front and the text from there.\<close>

function key_occs :: "string \<Rightarrow> jval \<Rightarrow> string \<Rightarrow> (char \<times> string) list"
  and elt_occs :: "string \<Rightarrow> jval list \<Rightarrow> string \<Rightarrow> (char \<times> string) list"
  and mem_occs :: "string \<Rightarrow> char \<Rightarrow> (string \<times> jval) list \<Rightarrow> string \<Rightarrow> (char \<times> string) list" where
  "key_occs k (JArr vs) r = elt_occs k vs (CHR '']'' # r)"
| "key_occs k (JObj kvs) r = mem_occs k (CHR ''{'') kvs (CHR ''}'' # r)"
| "key_occs k JNull r = []"
| "key_occs k (JBool b) r = []"
| "key_occs k (JNum t) r = []"
| "key_occs k (JStr s) r = []"
| "elt_occs k [] r = []"
| "elt_occs k (v # vs) r = key_occs k v (more_text (map render vs) r) @ elt_occs k vs r"
| "mem_occs k p [] r = []"
| "mem_occs k p ((k', v) # kvs) r =
     (let t = more_text (map member_text kvs) r
      in (if k' = k then [(p, key_text k @ render v @ t)] else []) @ key_occs k v t @ mem_occs k (CHR '','') kvs r)"
  by pat_completeness auto
termination
  by (relation "measure (\<lambda>x. case x of Inl (k, v, r) \<Rightarrow> size v
      | Inr (Inl (k, vs, r)) \<Rightarrow> size_list size vs | Inr (Inr (k, p, kvs, r)) \<Rightarrow> size_list (\<lambda>kv. Suc (size (snd kv))) kvs)")
    (auto simp: size_list_conv_sum_list size_member)


lemma occs_bracket:
  assumes "c \<noteq> DQ"
  shows "occs (key_pat k) p (c # r) = occs (key_pat k) c r"
  using occs_skip[of "[c]" "k @ [DQ, CHR '':'']" p r] assms by (simp add: key_pat_def)

text \<open>The character in front does not matter where no key starts.\<close>

lemma occs_after_value: "after_value r \<Longrightarrow> occs (key_pat k) p r = occs (key_pat k) q r"
  by (cases r) (auto simp: after_value_def key_pat_def)

lemma occs_plain_text:
  assumes "DQ \<notin> set t" "after_value r"
  shows "occs (key_pat k) p (t @ r) = occs (key_pat k) q r"
proof -
  have "occs (key_pat k) p (t @ r) = occs (key_pat k) (last (p # t)) r" using occs_skip[OF assms(1)] by (simp add: key_pat_def)
  then show ?thesis using occs_after_value[OF assms(2)] by metis
qed

lemma occs_join:
  assumes "\<And>x p r. x \<in> set xs \<Longrightarrow> after_value r \<Longrightarrow> occs (key_pat k) p (render x @ r) = key_occs k x r @ occs (key_pat k) q r"
    and "after_value r"
  shows "occs (key_pat k) p (join_comma (map render xs) @ r) = elt_occs k xs r @ occs (key_pat k) q r"
  using assms(1)
proof (induction xs arbitrary: p)
  case Nil
  then show ?case using occs_after_value[OF assms(2)] by simp
next
  case (Cons x xs)
  have "occs (key_pat k) p (join_comma (map render (x # xs)) @ r) =
      key_occs k x (more_text (map render xs) r) @ occs (key_pat k) q (more_text (map render xs) r)"
    using Cons.prems[of x] assms(2) by (simp add: join_comma_more)
  moreover have "occs (key_pat k) q (more_text (map render xs) r) = elt_occs k xs r @ occs (key_pat k) q r"
    using Cons.IH[of "CHR '',''"] Cons.prems by (cases "xs = []") (simp_all add: more_text_def occs_bracket)
  ultimately show ?case by simp
qed

lemma occs_members:
  assumes "\<And>kv p r. kv \<in> set kvs \<Longrightarrow> after_value r \<Longrightarrow> occs (key_pat k) p (render (snd kv) @ r) = key_occs k (snd kv) r @ occs (key_pat k) q r"
    and "after_value r" "plain_key_text k" "\<forall>kv \<in> set kvs. plain_key_text (fst kv)"
  shows "occs (key_pat k) p (join_comma (map member_text kvs) @ r) = mem_occs k p kvs r @ occs (key_pat k) q r"
  using assms(1,4)
proof (induction kvs arbitrary: p)
  case Nil
  then show ?case using occs_after_value[OF assms(2)] by simp
next
  case (Cons kv kvs)
  obtain k' v where kv: "kv = (k', v)" by (cases kv)
  let ?t = "more_text (map member_text kvs) r"
  have k': "plain_key_text k'" using Cons.prems(2) kv by simp
  have "occs (key_pat k) p (join_comma (map member_text (kv # kvs)) @ r) = occs (key_pat k) p (key_text k' @ render v @ ?t)"
    by (simp add: join_comma_more member_text_def kv)
  also have "\<dots> = (if k' = k then [(p, key_text k @ render v @ ?t)] else []) @ key_occs k v ?t @ occs (key_pat k) q ?t"
    using occs_key_text[OF assms(3) k', of p "render v @ ?t"] Cons.prems(1)[of kv "?t" "CHR '':''"] assms(2) kv by simp
  also have "occs (key_pat k) q ?t = mem_occs k (CHR '','') kvs r @ occs (key_pat k) q r"
    using Cons.IH[of "CHR '',''"] Cons.prems by (cases "kvs = []") (simp_all add: more_text_def occs_bracket)
  finally show ?case by (simp add: kv Let_def)
qed

text \<open>The positions of a key in the text of a tree are those of its members.\<close>

lemma occs_render:
  assumes "plain_key_text k" "plain_tree v" "after_value r"
  shows "occs (key_pat k) p (render v @ r) = key_occs k v r @ occs (key_pat k) q r"
  using assms(2,3)
proof (induction v arbitrary: p r)
  case (JStr s)
  then show ?case using occs_str_text[OF assms(1) JStr(2)] occs_after_value[OF JStr(2)] by auto
next
  case (JArr vs)
  have "occs (key_pat k) p (render (JArr vs) @ r) = occs (key_pat k) CHR ''['' (join_comma (map render vs) @ CHR '']'' # r)"
    by (simp add: occs_bracket)
  also have "\<dots> = elt_occs k vs (CHR '']'' # r) @ occs (key_pat k) q (CHR '']'' # r)"
    using JArr by (intro occs_join) auto
  finally show ?case using occs_after_value[OF JArr.prems(2)] by (simp add: occs_bracket)
next
  case (JObj kvs)
  have "occs (key_pat k) p (render (JObj kvs) @ r) = occs (key_pat k) CHR ''{'' (join_comma (map member_text kvs) @ CHR ''}'' # r)"
    by (simp add: occs_bracket render_JObj del: render.simps)
  also have "\<dots> = mem_occs k CHR ''{'' kvs (CHR ''}'' # r) @ occs (key_pat k) q (CHR ''}'' # r)"
    using JObj assms(1) by (intro occs_members) (auto simp: snds.simps)
  finally show ?case using occs_after_value[OF JObj.prems(2)] by (simp add: occs_bracket)
next
  case (JBool b)
  have "DQ \<notin> set (render (JBool b))" by simp
  from occs_plain_text[OF this JBool(2)] show ?case by simp
next
  case JNull
  have "DQ \<notin> set (render JNull)" by simp
  from occs_plain_text[OF this JNull(2)] show ?case by simp
next
  case (JNum t)
  then show ?case using occs_plain_text[of t r k p q] by simp
qed

section \<open>What the searches find\<close>

lemma find_key_pat: "length k < 124 \<Longrightarrow> json_find_key json k = strstr (key_pat k) json"
  by (simp add: json_find_key_def key_pat_def bounded_copy_fits)

lemma find_key_occs:
  "length k < 124 \<Longrightarrow> json_find_key json k = (case occs (key_pat k) p json of [] \<Rightarrow> None | (q, t) # os \<Rightarrow> Some t)"
  using find_key_pat[of k json] strstr_occs[of "key_pat k" json p] by simp

text \<open>All keys of a tree, at any depth.\<close>

function tree_keys :: "jval \<Rightarrow> string list" where
  "tree_keys (JArr vs) = concat (map tree_keys vs)"
| "tree_keys (JObj kvs) = concat (map (\<lambda>kv. fst kv # tree_keys (snd kv)) kvs)"
| "tree_keys JNull = []"
| "tree_keys (JBool b) = []"
| "tree_keys (JNum t) = []"
| "tree_keys (JStr s) = []"
  by pat_completeness auto
termination
proof (relation "measure size")
  fix vs :: "jval list" and v assume "v \<in> set vs"
  then show "(v, JArr vs) \<in> measure size" using size_list_estimation'[of v vs "size v" size] by auto
next
  fix kvs :: "(string \<times> jval) list" and kv assume "kv \<in> set kvs"
  then have "Suc (size (snd kv)) \<le> size_list (size_prod (\<lambda>x. 0) size) kvs"
    using size_list_estimation'[of kv kvs "Suc (size (snd kv))" "size_prod (\<lambda>x. 0) size"] by (simp add: size_member)
  then show "(snd kv, JObj kvs) \<in> measure size" by simp
qed simp

lemma key_occs_Nil: "key_occs k v r = [] \<longleftrightarrow> k \<notin> set (tree_keys v)"
proof -
  have "(key_occs k v r = [] \<longleftrightarrow> k \<notin> set (tree_keys v))"
    "(elt_occs k vs r = [] \<longleftrightarrow> (\<forall>v \<in> set vs. k \<notin> set (tree_keys v)))"
    "(mem_occs k p kvs r = [] \<longleftrightarrow> (\<forall>kv \<in> set kvs. fst kv \<noteq> k \<and> k \<notin> set (tree_keys (snd kv))))" for vs p kvs
    by (induction k v r and k vs r and k p kvs r rule: key_occs_elt_occs_mem_occs.induct) (auto simp: Let_def)
  then show ?thesis by blast
qed

lemma find_key_iff:
  assumes "plain_key_text k" "length k < 124" "plain_tree v"
  shows "json_find_key (render v) k \<noteq> None \<longleftrightarrow> k \<in> set (tree_keys v)"
proof -
  have "occs (key_pat k) NUL (render v) = key_occs k v []"
    using occs_render[OF assms(1,3), of "[]" NUL NUL] by simp
  then show ?thesis using find_key_occs[OF assms(2), of "render v" NUL] key_occs_Nil[of k v "[]"]
    by (auto split: list.splits)
qed

text \<open>
  C33 (keys). In the text of any tree whose keys are plain, the tool finds a key exactly if the tree has it, at any depth: no string value,
  whatever it contains, is mistaken for a key.
\<close>

theorem json_find_key_exact:
  assumes "plain_key_text k" and "length k < 124" and "plain_tree v"
  shows "json_find_key (render v) k \<noteq> None \<longleftrightarrow> k \<in> set (tree_keys v)"
  using assms by (rule find_key_iff)

theorem json_find_key_exact_witness:
  "json_find_key (render (JObj [(''cmd'', JStr (DQ # ''pid'' @ [DQ, CHR '':'']))])) ''pid'' = None"
  using json_find_key_exact[of "''pid''" "JObj [(''cmd'', JStr (DQ # ''pid'' @ [DQ, CHR '':'']))]"]
  by (auto simp: plain_key_text_def)

section \<open>Rows\<close>

text \<open>Objects of scalars.\<close>

definition flat_obj :: "(string \<times> jval) list \<Rightarrow> bool" where
  "flat_obj kvs \<longleftrightarrow> (\<forall>kv \<in> set kvs. tree_keys (snd kv) = []) \<and> plain_tree (JObj kvs)"

lemma mem_occs_flat:
  assumes "\<forall>kv \<in> set kvs. tree_keys (snd kv) = []" "map_of kvs k = Some v" "after_value r"
  shows "\<exists>q t os. mem_occs k p kvs r = (q, key_text k @ render v @ t) # os \<and> after_value t"
  using assms(1,2)
proof (induction kvs arbitrary: p)
  case (Cons kv kvs)
  obtain k' w where kv: "kv = (k', w)" by (cases kv)
  have e: "key_occs k w t = []" for t using key_occs_Nil[of k w t] Cons.prems(1) kv by simp
  show ?case
  proof (cases "k' = k")
    case True
    then show ?thesis using Cons.prems(2) kv assms(3) after_value_more by (auto simp: Let_def)
  next
    case False
    then show ?thesis using Cons.IH[of "CHR '',''"] Cons.prems kv e by (simp add: Let_def)
  qed
qed simp

lemma mem_occs_absent:
  assumes "\<forall>kv \<in> set kvs. tree_keys (snd kv) = []" "k \<notin> fst ` set kvs"
  shows "mem_occs k p kvs r = []"
  using assms
proof (induction kvs arbitrary: p)
  case (Cons kv kvs)
  then show ?case using key_occs_Nil[of k "snd kv"] by (cases kv) (auto simp: Let_def)
qed simp

lemma row_occs:
  assumes "flat_obj kvs" "plain_key_text k" "after_value r"
  shows "occs (key_pat k) p (render (JObj kvs) @ r) = mem_occs k CHR ''{'' kvs (CHR ''}'' # r) @ occs (key_pat k) q r"
  using occs_render[OF assms(2) _ assms(3), of "JObj kvs" p q] assms(1) by (simp add: flat_obj_def del: render.simps)

lemma row_first:
  assumes "flat_obj kvs" "plain_key_text k" "after_value r" "map_of kvs k = Some v"
  shows "\<exists>q t os. occs (key_pat k) p (render (JObj kvs) @ r) = (q, key_text k @ render v @ t) # os \<and> after_value t"
proof -
  have f: "\<forall>kv \<in> set kvs. tree_keys (snd kv) = []" using assms(1) by (simp add: flat_obj_def)
  show ?thesis using row_occs[OF assms(1-3), of p p] mem_occs_flat[OF f assms(4), of "CHR ''}'' # r" "CHR ''{''"] by auto
qed

lemma value_after_key:
  assumes "plain_key_text k" "x \<noteq> []" "\<not> isspace (hd x)"
  shows "value_position (key_text k @ x @ t) = Some (x @ t)"
proof -
  have "CHR '':'' \<notin> set (DQ # k @ [DQ])" using assms(1) by (auto simp: plain_key_text_def)
  from Prelude.strchr_append[OF this, of "x @ t"] have "strchr (CHR '':'') (key_text k @ x @ t) = Some (CHR '':'' # x @ t)"
    by (simp add: key_text_plain[OF assms(1)] key_pat_def)
  then show ?thesis using assms(2,3) by (cases x) (simp_all add: value_position_def)
qed

lemma strtoll_after_value: "in_int64 i \<Longrightarrow> after_value t \<Longrightarrow> strtoll (int_str i @ t) = i"
  by (rule strtoll_int_str) (auto simp: after_value_def isdigit_def)

lemma int_str_hd: "int_str i \<noteq> [] \<and> \<not> isspace (hd (int_str i))"
proof (cases "i < 0")
  case True
  then show ?thesis by (simp add: int_str_def isspace_def)
next
  case False
  obtain c cs where "nat_str (nat i) = c # cs" "isdigit c" using nat_str_hd by blast
  then show ?thesis using False isdigit_not_isspace by (simp add: int_str_def)
qed

text \<open>A number of a row, and one that the row does not have: it is taken from what follows.\<close>

lemma row_int:
  assumes "flat_obj kvs" "plain_key_text k" "length k < 124" "after_value r" "map_of kvs k = Some (JInt i)" "in_int64 i"
  shows "json_get_int (render (JObj kvs) @ r) k = i"
proof -
  obtain q t os where "occs (key_pat k) NUL (render (JObj kvs) @ r) = (q, key_text k @ render (JInt i) @ t) # os" "after_value t"
    using row_first[OF assms(1,2,4,5)] by blast
  then show ?thesis
    using find_key_occs[OF assms(3), of "render (JObj kvs) @ r" NUL] value_after_key[OF assms(2)] int_str_hd[of i] strtoll_after_value[OF assms(6)]
    by (simp add: json_get_int_def)
qed

lemma row_int_absent:
  assumes "flat_obj kvs" "plain_key_text k" "length k < 124" "after_value r" "k \<notin> fst ` set kvs"
  shows "json_get_int (render (JObj kvs) @ r) k = json_get_int r k"
proof -
  have "\<forall>kv \<in> set kvs. tree_keys (snd kv) = []" using assms(1) by (simp add: flat_obj_def)
  then have "occs (key_pat k) NUL (render (JObj kvs) @ r) = occs (key_pat k) NUL r"
    using row_occs[OF assms(1,2,4), of NUL NUL] mem_occs_absent[OF _ assms(5)] by simp
  then show ?thesis using find_key_occs[OF assms(3), of _ NUL] by (simp add: json_get_int_def)
qed

lemma strstr_longer:
  assumes "m \<noteq> []"
  shows "strstr (m @ x) s = (case filter (\<lambda>(q, t). starts_with (m @ x) t) (occs m p s) of [] \<Rightarrow> None | (q, t) # os \<Rightarrow> Some t)"
proof (induction s arbitrary: p)
  case Nil
  then show ?case using assms by simp
next
  case (Cons c cs)
  have "starts_with (m @ x) (c # cs) \<Longrightarrow> starts_with m (c # cs)" by (auto simp: starts_with_iff dest: append_prefixD)
  then show ?case using Cons.IH[of c] by auto
qed

text \<open>What a string value shows: up to its first quote as it stands in the text, at most \<open>n\<close> characters.\<close>

definition shown :: "nat \<Rightarrow> string \<Rightarrow> string" where
  "shown n s = take n (takeWhile (\<lambda>c. c \<noteq> DQ) (concat (map value_char s)))"

lemma shown_plain: "\<forall>c \<in> set s. value_char c = [c] \<and> c \<noteq> DQ \<Longrightarrow> shown n s = take n s"
proof -
  assume a: "\<forall>c \<in> set s. value_char c = [c] \<and> c \<noteq> DQ"
  then have "concat (map value_char s) = s" by (induction s) auto
  moreover have "takeWhile (\<lambda>c. c \<noteq> DQ) s = s" unfolding takeWhile_eq_all_conv using a by blast
  ultimately show ?thesis by (simp only: shown_def)
qed

definition extract_pat :: "string \<Rightarrow> string" where
  "extract_pat k = key_pat k @ [DQ]"

lemma extract_str_pat:
  "extract_str k n d pos = (case strstr (extract_pat k) pos of None \<Rightarrow> d
     | Some p \<Rightarrow> (let q = drop (length (extract_pat k)) p in case strchr DQ q of None \<Rightarrow> d | Some e \<Rightarrow> take n (takeWhile (\<lambda>c. c \<noteq> DQ) q)))"
proof -
  have "extract_pat k = DQ # k @ [DQ, CHR '':'', DQ]" by (simp add: extract_pat_def key_pat_def)
  then show ?thesis by (simp only: extract_str_def Let_def)
qed

lemma row_str:
  assumes "flat_obj kvs" "plain_key_text k" "after_value r" "map_of kvs k = Some (JStr v)"
  shows "extract_str k n d (render (JObj kvs) @ r) = shown n v"
proof -
  obtain q t os where o: "occs (key_pat k) NUL (render (JObj kvs) @ r) = (q, key_text k @ str_text v @ t) # os"
    using row_first[OF assms(1,2,3,4)] by auto
  have e: "key_text k @ str_text v @ t = extract_pat k @ concat (map value_char v) @ DQ # t"
    by (simp add: key_text_plain[OF assms(2)] extract_pat_def str_text_def)
  have s: "strstr (extract_pat k) (render (JObj kvs) @ r) = Some (extract_pat k @ concat (map value_char v) @ DQ # t)"
    using strstr_longer[of "key_pat k" "[DQ]" "render (JObj kvs) @ r" NUL] unfolding o e
    by (simp add: extract_pat_def[symmetric] del: render.simps)
  have "strchr DQ (concat (map value_char v) @ DQ # t) \<noteq> None" unfolding strchr_None by simp
  moreover have "takeWhile (\<lambda>c. c \<noteq> DQ) (b @ DQ # t) = takeWhile (\<lambda>c. c \<noteq> DQ) b" for b
    by (induction b) auto
  ultimately show ?thesis using s by (auto simp: extract_str_pat shown_def)
qed

lemma row_str_absent:
  assumes "flat_obj kvs" "plain_key_text k" "after_value r" "k \<notin> fst ` set kvs"
  shows "extract_str k n d (render (JObj kvs) @ r) = extract_str k n d r"
proof -
  have "\<forall>kv \<in> set kvs. tree_keys (snd kv) = []" using assms(1) by (simp add: flat_obj_def)
  then have "occs (key_pat k) NUL (render (JObj kvs) @ r) = occs (key_pat k) NUL r"
    using row_occs[OF assms(1-3), of NUL NUL] mem_occs_absent[OF _ assms(4)] by simp
  then have "strstr (extract_pat k) (render (JObj kvs) @ r) = strstr (extract_pat k) r"
    unfolding extract_pat_def strstr_longer[OF key_pat_not_Nil, of k "[DQ]" _ NUL] by (rule arg_cong)
  then show ?thesis by (simp add: extract_str_pat)
qed

section \<open>Tables\<close>

text \<open>The objects whose first key is \<open>f\<close>, as the row loops meet them.\<close>

lemma obj_pat_key: "obj_pat f = CHR ''{'' # key_pat f"
  by (simp add: obj_pat_def key_pat_def)

definition obj_starts :: "(char \<times> string) list \<Rightarrow> string list" where
  "obj_starts os = map (\<lambda>(q, t). CHR ''{'' # t) (filter (\<lambda>(q, t). q = CHR ''{'') os)"

lemma obj_starts_simps [simp]:
  "obj_starts [] = []" "obj_starts (xs @ ys) = obj_starts xs @ obj_starts ys"
  "obj_starts ((q, t) # os) = (if q = CHR ''{'' then [CHR ''{'' # t] else []) @ obj_starts os"
  by (simp_all add: obj_starts_def)

lemma row_starts_obj: "c \<noteq> CHR ''{'' \<Longrightarrow> row_starts (obj_pat f) s = obj_starts (occs (key_pat f) c s)"
  using row_starts_Cons[of "key_pat f" "CHR ''{''" c s] by (simp add: obj_starts_def obj_pat_key)

lemma row_starts_tree:
  assumes "plain_key_text f" "plain_tree v" "after_value r"
  shows "row_starts (obj_pat f) (render v @ r) = obj_starts (key_occs f v r) @ row_starts (obj_pat f) r"
  using occs_render[OF assms, of NUL NUL] row_starts_obj[of NUL f "render v @ r"] row_starts_obj[of NUL f r] by simp

text \<open>A row: an object of scalars with \<open>f\<close> as its first key and nowhere else.\<close>

definition row_ok :: "string \<Rightarrow> (string \<times> jval) list \<Rightarrow> bool" where
  "row_ok f kvs \<longleftrightarrow> flat_obj kvs \<and> kvs \<noteq> [] \<and> fst (hd kvs) = f \<and> f \<notin> fst ` set (tl kvs)"

fun row_texts :: "(string \<times> jval) list list \<Rightarrow> string \<Rightarrow> string list" where
  "row_texts [] r = []"
| "row_texts (kvs # rows) r = (render (JObj kvs) @ more_text (map (\<lambda>k. render (JObj k)) rows) r) # row_texts rows r"

lemma row_key_occs:
  assumes "row_ok f kvs"
  shows "obj_starts (key_occs f (JObj kvs) r) = [render (JObj kvs) @ r]"
proof -
  obtain v kvs' where k: "kvs = (f, v) # kvs'" using assms by (cases kvs) (auto simp: row_ok_def)
  have f: "tree_keys v = []" "\<forall>kv \<in> set kvs'. tree_keys (snd kv) = []" "f \<notin> fst ` set kvs'"
    using assms by (auto simp: k row_ok_def flat_obj_def)
  have "key_occs f v t = []" for t using key_occs_Nil[of f v t] f(1) by simp
  moreover have "render (JObj kvs) @ r = CHR ''{'' # key_text f @ render v @ more_text (map member_text kvs') (CHR ''}'' # r)"
    using join_comma_more[of "member_text (f, v)" "map member_text kvs'" "CHR ''}'' # r"]
    by (simp add: k render_JObj member_text_def[of "(f, v)"] del: render.simps)
  ultimately show ?thesis using mem_occs_absent[OF f(2,3)] by (simp add: k Let_def del: render.simps)
qed

lemma table_key_occs:
  assumes "\<forall>kvs \<in> set rows. row_ok f kvs"
  shows "obj_starts (elt_occs f (map JObj rows) r) = row_texts rows r"
  using assms
proof (induction rows)
  case (Cons kvs rows)
  have "more_text (map render (map JObj rows)) r = more_text (map (\<lambda>k. render (JObj k)) rows) r"
    by (simp add: comp_def del: render.simps)
  then show ?case using Cons row_key_occs[of f kvs] by (simp del: render.simps key_occs.simps)
qed simp

lemma concat_row_texts:
  assumes "\<And>kvs t. kvs \<in> set rows \<Longrightarrow> after_value t \<Longrightarrow> row (render (JObj kvs) @ t) = txt kvs" "after_value r"
  shows "concat (map row (row_texts rows r)) = concat (map txt rows)"
  using assms(1)
proof (induction rows)
  case (Cons kvs rows)
  then show ?case using assms(2) by (simp del: render.simps)
qed simp

text \<open>A table of the tool prints the rows of its array, and then those of everything behind it.\<close>

lemma table_rows_array:
  assumes "plain_key_text f" "\<forall>kvs \<in> set rows. row_ok f kvs" "after_value r"
    and "\<And>kvs t. kvs \<in> set rows \<Longrightarrow> after_value t \<Longrightarrow> row (render (JObj kvs) @ t) = txt kvs"
    and "plain_key_text k" "CHR ''['' \<notin> set k"
  shows "table_rows (obj_pat f) row (key_text k @ render (JArr (map JObj rows)) @ r) =
    concat (map txt rows) @ concat (map row (row_starts (obj_pat f) r))"
proof -
  have "CHR ''['' \<notin> set (key_text k)" using assms(6) by (simp add: key_text_plain[OF assms(5)] key_pat_def)
  then have s: "strchr CHR ''['' (key_text k @ render (JArr (map JObj rows)) @ r) = Some (render (JArr (map JObj rows)) @ r)"
    using Prelude.strchr_append[of "CHR ''[''" "key_text k" "join_comma (map render (map JObj rows)) @ CHR '']'' # r"] by simp
  have "plain_tree (JArr (map JObj rows))" using assms(2) by (auto simp: row_ok_def flat_obj_def)
  then have "row_starts (obj_pat f) (render (JArr (map JObj rows)) @ r) = row_texts rows (CHR '']'' # r) @ row_starts (obj_pat f) r"
    using row_starts_tree[OF assms(1) _ assms(3), of "JArr (map JObj rows)"] table_key_occs[OF assms(2)] by (simp del: render.simps)
  then show ?thesis using s concat_row_texts[of rows row "txt" "CHR '']'' # r"] assms(4) by (simp add: table_rows_def table_starts_def del: render.simps)
qed

end
