(* ===== verification/Commands.thy ===== *)
theory Commands
  imports CliText
begin

text \<open>
  The commands of \<open>qmemctl\<close> (\<open>src/cli/commands.c\<close>, \<open>src/cli/main.c\<close>). A command gets the snapshot text, \<open>None\<close> when the daemon does not answer,
  and gives its exit status, what it prints, and what it prints to the error output. \<open>None\<close> is a read behind the text. The options of
  \<open>getopt_long\<close> are a list of characters with their arguments.
\<close>

type_synonym cli_result = "int \<times> string \<times> string"

definition no_daemon :: "string \<Rightarrow> cli_result" where
  "no_daemon path = (1, [], ''Error: Cannot connect to daemon at '' @ path @ [LF])"

definition heading :: "string \<Rightarrow> string" where
  "heading t = [LF] @ CYAN @ ''=== '' @ t @ '' ==='' @ NC @ [LF]"

section \<open>The memleak report\<close>

definition memory_line :: "string \<Rightarrow> string" where
  "memory_line mem_sum =
     (let total = json_get_int mem_sum ''total_kb''; avail = json_get_int mem_sum ''available_kb'';
          free_kb = json_get_int mem_sum ''free_kb''; cached = json_get_int mem_sum ''cached_kb'';
          used = total - free_kb - cached
      in BOLD @ ''System Memory:'' @ NC @ '' Total: '' @ cli_format_kb 32 total @ ''  Used: '' @ cli_format_kb 32 used @
         ''  Available: '' @ cli_format_kb 32 avail @ [LF, LF])"

definition process_usage_row :: "string \<Rightarrow> string" where
  "process_usage_row pos =
     (let pid = json_get_int pos ''pid''; cmd = extract_str ''cmd'' 127 ''unknown'' pos;
          rss = json_get_int pos ''rss_kb''; initial_rss = json_get_int pos ''initial_rss_kb'';
          heap = json_get_int pos ''heap_rss_kb''; initial_heap = json_get_int pos ''initial_heap_rss_kb'';
          heap_size = json_get_int pos ''heap_size_kb''
      in columns [(8, int_str pid), (12, cli_format_kb 32 rss), (12, cli_format_kb 32 initial_rss)] @ '' '' @
         print_delta_col (rss - initial_rss) 12 @
         columns [(12, cli_format_kb 32 heap), (12, cli_format_kb 32 initial_heap)] @ '' '' @
         print_delta_col (heap - initial_heap) 12 @
         columns [(12, cli_format_kb 32 heap_size), (0, cmd)] @ [LF])"

definition slab_usage_row :: "string \<Rightarrow> string" where
  "slab_usage_row pos =
     (let cache = extract_str ''cache'' 63 ''unknown'' pos; total = json_get_int pos ''total_bytes''; delta = json_get_int pos ''delta_bytes'';
          objs = json_get_int pos ''active_objs''; delta_objs = json_get_int pos ''delta_objs''
      in columns [(24, cache), (12, cli_format_kb 32 (tdiv total 1024))] @ '' '' @ print_delta_col (tdiv delta 1024) 12 @
         columns [(12, int_str objs)] @ '' '' @ print_delta_col delta_objs 12 @ [LF])"

definition or_note :: "string list \<Rightarrow> string \<Rightarrow> string" where
  "or_note rows note_text = (if rows = [] then note_text @ [LF] else [])"

definition memleak_sections :: "string \<Rightarrow> string" where
  "memleak_sections memleak =
     (case find_section memleak ''memory_summary'' of None \<Rightarrow> [] | Some m \<Rightarrow> memory_line m) @
     (case find_section memleak ''process_usage'' of
        None \<Rightarrow> []
      | Some u \<Rightarrow>
          BOLD @ ''Top Process Memory (Absolute)'' @ NC @ [LF] @
          columns [(8, ''PID''), (12, ''Total RSS''), (12, ''Initial''), (12, ''Change''), (12, ''Heap RSS''), (12, ''Initial''),
            (12, ''Change''), (12, ''Heap Size''), (0, ''Command'')] @ [LF] @ print_separator @
          table_rows (obj_pat ''pid'') process_usage_row u @
          or_note (table_starts (obj_pat ''pid'') u) ''(No process data available)'' @ [LF]) @
     (case find_section memleak ''kernel_usage'' of
        None \<Rightarrow> []
      | Some u \<Rightarrow>
          BOLD @ ''Top Slab Cache (Absolute)'' @ NC @ [LF] @
          columns [(24, ''Cache Name''), (12, ''Total Size''), (12, ''Delta''), (12, ''Objects''), (12, ''Obj Delta'')] @ [LF] @ print_separator @
          table_rows (obj_pat ''cache'') slab_usage_row u @
          or_note (table_starts (obj_pat ''cache'') u) ''(No slab data available)'' @ [LF]) @
     (case find_section memleak ''user_leaks'' of
        None \<Rightarrow> []
      | Some u \<Rightarrow>
          (case strchr (CHR ''['') u of
             None \<Rightarrow> []
           | Some bracket \<Rightarrow>
               if strstr (obj_pat ''pid'') bracket \<noteq> None
               then RED @ BOLD @ ''POSSIBLE USER LEAKS DETECTED!'' @ NC @ [LF] @
                 ''(Run '' @ [CHR 0x27] @ ''qmemctl watch memleak'' @ [CHR 0x27] @ '' for detailed leak list if any)'' @ [LF, LF]
               else []))"

definition cmd_memleak :: "(string \<Rightarrow> string option) \<Rightarrow> string \<Rightarrow> cli_result" where
  "cmd_memleak client path =
     (case client path of
        None \<Rightarrow> no_daemon path
      | Some response \<Rightarrow>
          (let title = heading ''Memory Leak / Usage Report'' @ [LF]
           in case find_section response ''memleak'' of
                None \<Rightarrow> (0, title @ ''Service '' @ [CHR 0x27] @ ''memleak'' @ [CHR 0x27] @ '' data not found.'' @ [LF], [])
              | Some memleak \<Rightarrow> (0, title @ memleak_sections memleak, [])))"

section \<open>Processes, slab caches, sockets, descriptors\<close>

definition grower_row :: "string \<Rightarrow> string" where
  "grower_row pos =
     columns [(8, int_str (json_get_int pos ''pid'')), (20, cli_format_delta 64 (json_get_int pos ''rss_delta_kb'')),
       (12, cli_format_kb 32 (json_get_int pos ''rss_kb'')), (0, take 40 (extract_str ''cmd'' 63 ''unknown'' pos))] @ [LF]"

definition top_rss_row :: "string \<Rightarrow> string" where
  "top_rss_row pos =
     columns [(8, int_str (json_get_int pos ''pid'')), (12, cli_format_kb 32 (json_get_int pos ''rss_kb'')),
       (12, cli_format_kb 32 (json_get_int pos ''data_kb'')), (0, take 40 (extract_str ''cmd'' 63 ''unknown'' pos))] @ [LF]"

definition top_rss_table :: "string \<Rightarrow> string" where
  "top_rss_table procmem =
     (case find_section procmem ''top_rss'' of
        None \<Rightarrow> []
      | Some top_rss \<Rightarrow>
          heading ''Top Memory Usage (Absolute)'' @ columns [(8, ''PID''), (12, ''RSS''), (12, ''Data''), (0, ''Command'')] @ [LF] @
          table_rows (obj_pat ''pid'') top_rss_row top_rss)"

definition cmd_top :: "(string \<Rightarrow> string option) \<Rightarrow> string \<Rightarrow> cli_result" where
  "cmd_top client path =
     (case client path of
        None \<Rightarrow> no_daemon path
      | Some response \<Rightarrow>
          (let title = heading ''Top Memory Growers'' @ [LF]
           in case find_section response ''procmem'' of
                None \<Rightarrow> (0, title @ ''No process data available.'' @ [LF], [])
              | Some procmem \<Rightarrow>
                  (case find_section procmem ''top_growers'' of
                     None \<Rightarrow> (0, title @ ''No growers data.'' @ [LF], [])
                   | Some growers \<Rightarrow>
                       (let head = title @ columns [(8, ''PID''), (12, ''RSS Delta''), (12, ''RSS Now''), (0, ''Command'')] @ [LF] @ print_separator
                        in if strchr (CHR ''['') growers = None then (0, head, [])
                           else (0, head @ table_rows (obj_pat ''pid'') grower_row growers @ top_rss_table procmem, [])))))"

definition slab_row :: "string \<Rightarrow> string" where
  "slab_row pos =
     columns [(32, extract_str ''name'' 63 ''unknown'' pos), (20, cli_format_delta 64 (tdiv (json_get_int pos ''delta_bytes'') 1024)),
       (12, cli_format_kb 32 (tdiv (json_get_int pos ''size_bytes'') 1024))] @ [LF]"

definition cmd_slab :: "(string \<Rightarrow> string option) \<Rightarrow> string \<Rightarrow> cli_result" where
  "cmd_slab client path =
     (case client path of
        None \<Rightarrow> no_daemon path
      | Some response \<Rightarrow>
          (let title = heading ''Slab Cache Changes'' @ [LF]
           in case find_section response ''slabinfo'' of
                None \<Rightarrow> (0, title @ ''No slab data available.'' @ [LF], [])
              | Some slabinfo \<Rightarrow>
                  (0, title @ YELLOW @ ''Top Growers:'' @ NC @ [LF] @
                      columns [(32, ''Cache''), (12, ''Delta''), (12, ''Current'')] @ [LF] @ print_separator @
                      (case find_section slabinfo ''top_growers'' of None \<Rightarrow> [] | Some growers \<Rightarrow> table_rows (obj_pat ''name'') slab_row growers), [])))"

definition get_sock_state_name :: "int \<Rightarrow> string" where
  "get_sock_state_name state =
     (if state = 1 then ''ESTAB'' else if state = 2 then ''SYN_SENT'' else if state = 3 then ''SYN_RECV'' else if state = 4 then ''FIN_WAIT1''
      else if state = 5 then ''FIN_WAIT2'' else if state = 6 then ''TIME_WAIT'' else if state = 7 then ''CLOSE'' else if state = 8 then ''CLOSE_WAIT''
      else if state = 9 then ''LAST_ACK'' else if state = 10 then ''LISTEN'' else if state = 11 then ''CLOSING'' else ''UNKNOWN'')"

definition socket_row :: "string \<Rightarrow> string" where
  "socket_row pos =
     columns [(8, int_str (json_get_int pos ''pid'')), (16, extract_str ''cmd'' 31 ''-'' pos), (22, extract_str ''local'' 63 [] pos),
       (22, extract_str ''remote'' 63 [] pos), (10, get_sock_state_name (to_int32 (json_get_int pos ''state''))),
       (8, int_str (json_get_int pos ''tx_q'')), (8, int_str (json_get_int pos ''rx_q''))] @ [LF]"

definition cmd_sockets :: "(string \<Rightarrow> string option) \<Rightarrow> string \<Rightarrow> cli_result" where
  "cmd_sockets client path =
     (case client path of
        None \<Rightarrow> no_daemon path
      | Some response \<Rightarrow>
          (let title = heading ''Active Sockets'' @ [LF]
           in case find_section response ''sockstat'' of
                None \<Rightarrow> (0, title @ ''No socket data available.'' @ [LF], [])
              | Some sockstat \<Rightarrow>
                  (case find_section sockstat ''sockets'' of
                     None \<Rightarrow> (0, title @ ''No detailed socket info available.'' @ [LF], [])
                   | Some sockets \<Rightarrow>
                       (let head = title @ columns [(8, ''PID''), (16, ''Command''), (22, ''Local Address''), (22, ''Remote Address''), (10, ''State''),
                              (8, ''TX_Q''), (8, ''RX_Q'')] @ [LF] @ print_separator
                        in if strchr (CHR ''['') sockets = None then (0, head, [])
                           else (0, head @ table_rows (obj_pat ''local'') socket_row sockets @ [LF], [])))))"

definition fd_row :: "string \<Rightarrow> string" where
  "fd_row pos =
     (let change = json_get_int pos ''fd_change'';
          other = json_get_int pos ''other'' + json_get_int pos ''eventfds'';
          s_change = bounded_copy 32 (if change > 0 then GREEN @ ''+'' @ int_str change @ NC else if change < 0 then RED @ int_str change @ NC else ''0'')
      in columns [(8, int_str (json_get_int pos ''pid'')), (8, int_str (json_get_int pos ''fd_count'')),
           (8, int_str (json_get_int pos ''initial_fd_count'')), (10, s_change), (8, int_str (json_get_int pos ''files'')),
           (8, int_str (json_get_int pos ''sockets'')), (8, int_str (json_get_int pos ''pipes'')), (8, int_str other),
           (0, extract_str ''cmd'' 63 ''unknown'' pos)] @ [LF])"

definition leaker_row :: "string \<Rightarrow> string" where
  "leaker_row pos =
     columns [(8, int_str (json_get_int pos ''pid'')), (8, int_str (json_get_int pos ''fd_count'')),
       (8, int_str (json_get_int pos ''initial_fd_count''))] @ '' '' @ RED @ ''+'' @ left 8 (int_str (json_get_int pos ''fd_change'')) @ NC @ '' '' @
     extract_str ''cmd'' 63 ''unknown'' pos @ [LF]"

definition fdmon_sections :: "string \<Rightarrow> string" where
  "fdmon_sections fdmon =
     (case find_section fdmon ''summary'' of
        None \<Rightarrow> []
      | Some m \<Rightarrow> BOLD @ ''Summary:'' @ NC @ '' Total FDs: '' @ int_str (json_get_int m ''total_fds'') @ ''  Processes: '' @
          int_str (json_get_int m ''proc_count'') @ ''  Potential Leaks: '' @ int_str (json_get_int m ''potential_leaks'') @ [LF, LF]) @
     (case find_section fdmon ''top_consumers'' of
        None \<Rightarrow> []
      | Some consumers \<Rightarrow>
          BOLD @ ''Top FD Consumers'' @ NC @ [LF] @
          columns [(8, ''PID''), (8, ''FDs''), (8, ''Initial''), (10, ''Change''), (8, ''Files''), (8, ''Sockets''), (8, ''Pipes''), (8, ''Other''),
            (0, ''Command'')] @ [LF] @ print_separator @
          concat (map fd_row (take 15 (table_starts (obj_pat ''pid'') consumers))) @ [LF]) @
     (case find_section fdmon ''leakers'' of
        None \<Rightarrow> []
      | Some leakers \<Rightarrow>
          (if table_starts (obj_pat ''pid'') leakers = [] then []
           else BOLD @ YELLOW @ ''Potential FD Leakers (Growing FD Count)'' @ NC @ [LF] @
             columns [(8, ''PID''), (8, ''FDs''), (8, ''Initial''), (10, ''Growth''), (0, ''Command'')] @ [LF] @ print_separator @
             concat (map leaker_row (take 10 (table_starts (obj_pat ''pid'') leakers))) @ [LF]))"

definition cmd_fdmon :: "(string \<Rightarrow> string option) \<Rightarrow> string \<Rightarrow> cli_result" where
  "cmd_fdmon client path =
     (case client path of
        None \<Rightarrow> no_daemon path
      | Some response \<Rightarrow>
          (let title = heading ''File Descriptor Monitor'' @ [LF]
           in case find_section response ''fdmon'' of
                None \<Rightarrow> (0, title @ ''Service '' @ [CHR 0x27] @ ''fdmon'' @ [CHR 0x27] @ '' data not found.'' @ [LF], [])
              | Some fdmon \<Rightarrow> (0, title @ fdmon_sections fdmon, [])))"

definition cmd_raw :: "(string \<Rightarrow> string option) \<Rightarrow> string \<Rightarrow> cli_result" where
  "cmd_raw client path = (case client path of None \<Rightarrow> no_daemon path | Some response \<Rightarrow> (0, response @ [LF], []))"

definition known_services :: "(string \<times> string) list" where
  "known_services =
     [(''meminfo'', ''System Memory''), (''slabinfo'', ''Slab Cache''), (''procmem'', ''Process Memory''), (''heapmon'', ''Heap Analysis''),
      (''vmstat'', ''VM Statistics''), (''cpuload'', ''CPU Load''), (''netstat'', ''Network Stats''), (''procstat'', ''Process States''),
      (''sockstat'', ''Socket Stats''), (''procevent'', ''Process Events'')]"

definition cmd_services :: "(string \<Rightarrow> string option) \<Rightarrow> string \<Rightarrow> cli_result" where
  "cmd_services client path =
     (case client path of
        None \<Rightarrow> no_daemon path
      | Some response \<Rightarrow>
          (0, heading ''Active Services'' @
              concat (map (\<lambda>(name, desc). GREEN @ ''  '' @ left 12 name @ NC @ '' '' @ desc @ [LF])
                (filter (\<lambda>(name, desc). json_find_key response name \<noteq> None) known_services)) @ [LF], []))"

section \<open>The status report\<close>

definition status_meminfo :: "'d doubles \<Rightarrow> string \<Rightarrow> string" where
  "status_meminfo D response =
     (case find_section response ''meminfo'' of
        None \<Rightarrow> []
      | Some meminfo \<Rightarrow>
          [LF] @ YELLOW @ ''=== QMem Memory Status ==='' @ NC @ [LF] @
          ''Memory Usage: '' @ YELLOW @ d_print D 2 (json_get_double D meminfo ''usage_percent'') @ ''%'' @ NC @ [LF, LF] @
          (case find_section meminfo ''memory'' of
             None \<Rightarrow> []
           | Some memory \<Rightarrow>
               ''Total:     '' @ cli_format_kb 32 (json_get_int memory (DQ # ''value'' @ [DQ])) @ [LF] @
               (case find_section memory ''available_kb'' of
                  None \<Rightarrow> []
                | Some avail \<Rightarrow>
                    ''Available: '' @ cli_format_kb 32 (json_get_int avail ''value'') @ '' ('' @
                    cli_format_delta 64 (json_get_int avail ''delta'') @ '')'' @ [LF])))"

definition status_cpu :: "'d doubles \<Rightarrow> string \<Rightarrow> string" where
  "status_cpu D response =
     (case find_section response ''cpuload'' of
        None \<Rightarrow> []
      | Some cpuload \<Rightarrow>
          heading ''CPU'' @
          (case find_section cpuload ''system'' of
             None \<Rightarrow> []
           | Some sys \<Rightarrow>
               ''User: '' @ d_print D 1 (json_get_double D sys ''user_percent'') @ ''%  System: '' @
               d_print D 1 (json_get_double D sys ''system_percent'') @ ''%  Idle: '' @
               d_print D 1 (json_get_double D sys ''idle_percent'') @ ''%  IOWait: '' @
               d_print D 1 (json_get_double D sys ''iowait_percent'') @ ''%'' @ [LF]))"

definition iface_row :: "string \<Rightarrow> string" where
  "iface_row pos =
     (let kb = (\<lambda>key. right 12 (cli_format_kb 32 (tdiv (json_get_int pos key) 1024)))
      in left 10 (extract_str ''name'' 31 [] pos) @ '' '' @ kb ''rx_bytes'' @ '' '' @ kb ''rx_bytes_delta'' @ '' '' @
         kb ''tx_bytes'' @ '' '' @ kb ''tx_bytes_delta'' @ [LF])"

definition status_network :: "string \<Rightarrow> string" where
  "status_network response =
     (case find_section response ''netstat'' of
        None \<Rightarrow> []
      | Some netstat \<Rightarrow>
          heading ''Network'' @ left 10 ''Interface'' @ '' '' @ right 12 ''RX bytes'' @ '' '' @ right 12 ''RX delta'' @ '' '' @
          right 12 ''TX bytes'' @ '' '' @ right 12 ''TX delta'' @ [LF] @
          (case find_section netstat ''interfaces'' of None \<Rightarrow> [] | Some ifaces \<Rightarrow> table_rows (obj_pat ''name'') iface_row ifaces))"

text \<open>A number with its change, if there was one.\<close>

definition with_delta :: "int \<Rightarrow> int \<Rightarrow> string" where
  "with_delta n d = bounded_copy 64 (int_str n @ (if d \<noteq> 0 then (if d > 0 then ''+'' else []) @ int_str d else []))"

definition status_sockets :: "string \<Rightarrow> string" where
  "status_sockets response =
     (case find_section response ''sockstat'' of
        None \<Rightarrow> []
      | Some sockstat \<Rightarrow>
          heading ''Sockets'' @
          (case find_section sockstat ''tcp'' of
             None \<Rightarrow> []
           | Some tcp \<Rightarrow>
               ''TCP: '' @ with_delta (json_get_int tcp ''total'') (json_get_int tcp ''total_delta'') @ '' (ESTAB:'' @
               with_delta (json_get_int tcp ''established'') (json_get_int tcp ''established_delta'') @ '' TIME_WAIT:'' @
               with_delta (json_get_int tcp ''time_wait'') (json_get_int tcp ''time_wait_delta'') @ '' LISTEN:'' @
               int_str (json_get_int tcp ''listen'') @ '')  '') @
          ''UDP: '' @ with_delta (json_get_int sockstat ''udp_total'') (json_get_int sockstat ''udp_total_delta'') @ ''  Unix: '' @
          with_delta (json_get_int sockstat ''unix_total'') (json_get_int sockstat ''unix_total_delta'') @ [LF])"

definition status_processes :: "string \<Rightarrow> string" where
  "status_processes response =
     (case find_section response ''procstat'' of
        None \<Rightarrow> []
      | Some procstat \<Rightarrow>
          heading ''Processes'' @
          (case find_section procstat ''summary'' of
             None \<Rightarrow> []
           | Some sm \<Rightarrow>
               ''Total: '' @ int_str (json_get_int sm ''total'') @ ''  Running: '' @ int_str (json_get_int sm ''running'') @
               ''  Sleeping: '' @ int_str (json_get_int sm ''sleeping'') @ ''  Blocked: '' @ int_str (json_get_int sm ''blocked'') @
               ''  Zombie: '' @ int_str (json_get_int sm ''zombie'') @ [LF]))"

definition event_row :: "string \<Rightarrow> string" where
  "event_row pos =
     ''  '' @ left 6 (extract_str ''type'' 15 ''unknown'' pos) @ '' PID:'' @ left 6 (int_str (json_get_int pos ''pid'')) @ '' '' @
     extract_str ''cmd'' 63 ''unknown'' pos @ [LF]"

definition status_events :: "string \<Rightarrow> string" where
  "status_events response =
     (case find_section response ''procevent'' of
        None \<Rightarrow> []
      | Some procevent \<Rightarrow>
          (case find_section procevent ''counters'' of
             None \<Rightarrow> []
           | Some counters \<Rightarrow>
               ''Events: Forks: '' @ int_str (json_get_int counters ''forks'') @ ''  Exits: '' @ int_str (json_get_int counters ''exits'') @ [LF]) @
          (case find_section procevent ''recent_events'' of
             None \<Rightarrow> []
           | Some events \<Rightarrow>
               ''Recent Events:'' @ [LF] @ concat (map event_row (take 5 (table_starts (obj_pat ''pid'') events)))))"

definition status_summary :: "'d doubles \<Rightarrow> string \<Rightarrow> string" where
  "status_summary D response =
     status_meminfo D response @ status_cpu D response @ status_network response @ status_sockets response @
     status_processes response @ status_events response @ print_separator"

text \<open>A target is a service with a report of its own, or any other section.\<close>

definition cmd_status :: "'d doubles \<Rightarrow> (string \<Rightarrow> string option) \<Rightarrow> string \<Rightarrow> string option \<Rightarrow> cli_result option" where
  "cmd_status D client path target =
     (if target = Some ''sockets'' \<or> target = Some ''sockstat'' then Some (cmd_sockets client path)
      else if target = Some ''top'' \<or> target = Some ''procmem'' then Some (cmd_top client path)
      else if target = Some ''slab'' \<or> target = Some ''slabinfo'' then Some (cmd_slab client path)
      else if target = Some ''memleak'' then Some (cmd_memleak client path)
      else if target = Some ''list'' \<or> target = Some ''services'' then Some (cmd_services client path)
      else case client path of
          None \<Rightarrow> Some (no_daemon path)
        | Some response \<Rightarrow>
            (case target of
               Some t \<Rightarrow> map_option (\<lambda>out. (0, out, [])) (print_json_section response t)
             | None \<Rightarrow> Some (0, status_summary D response, [])))"

section \<open>Watching\<close>

text \<open>One round of the endless loop; the two requests of a round can get different answers.\<close>

definition watch_round ::
    "'d doubles \<Rightarrow> string \<Rightarrow> string option \<Rightarrow> (string \<Rightarrow> string option) \<times> (string \<Rightarrow> string option) \<Rightarrow> (string \<times> string) option" where
  "watch_round D path target clients =
     (case cmd_status D (fst clients) path target of
        None \<Rightarrow> None
      | Some (rc, out, err) \<Rightarrow>
          (let clear = ESC # ''[2J'' @ ESC # ''[H''
           in if target \<noteq> None then Some (clear @ out, err)
              else case cmd_top (snd clients) path of
                  (rc', out', err') \<Rightarrow> Some (clear @ out @ [LF] @ out', err @ err')))"

fun watch_rounds ::
    "'d doubles \<Rightarrow> string \<Rightarrow> string option \<Rightarrow> ((string \<Rightarrow> string option) \<times> (string \<Rightarrow> string option)) list \<Rightarrow> (string \<times> string) option" where
  "watch_rounds D path target [] = Some ([], [])"
| "watch_rounds D path target (c # cs) =
     (case watch_round D path target c of
        None \<Rightarrow> None
      | Some (out, err) \<Rightarrow> map_option (\<lambda>(out', err'). (out @ out', err @ err')) (watch_rounds D path target cs))"

text \<open>What has been printed after some rounds; the command never returns.\<close>

definition cmd_watch ::
    "'d doubles \<Rightarrow> string \<Rightarrow> int \<Rightarrow> string option \<Rightarrow> ((string \<Rightarrow> string option) \<times> (string \<Rightarrow> string option)) list \<Rightarrow> (string \<times> string) option" where
  "cmd_watch D path interval target rounds =
     map_option (\<lambda>(out, err). (''Watching memory changes (Ctrl+C to stop)...'' @ [LF] @ ''Interval: '' @ int_str interval @ '' seconds'' @ [LF, LF] @ out, err))
       (watch_rounds D path target rounds)"

section \<open>The program\<close>

definition DEFAULT_SOCKET :: string where "DEFAULT_SOCKET = ''/run/qmem.sock''"

definition print_usage :: "string \<Rightarrow> string" where
  "print_usage prog =
     ''Usage: '' @ prog @ '' [options] <command>'' @ [LF, LF] @ ''Commands:'' @ [LF] @
     ''  status [svc] Show current memory status (or specific service)'' @ [LF] @
     ''  top       Show top memory consumers/growers'' @ [LF] @
     ''  slab      Show slab cache changes'' @ [LF] @
     ''  sockets   Show detailed socket connections'' @ [LF] @
     ''  fdmon     Show file descriptor usage and leaks'' @ [LF] @
     ''  watch     Continuously monitor (like top)'' @ [LF] @
     ''            Usage: watch [list]|[svc]'' @ [LF] @
     ''  raw       Dump raw JSON snapshot'' @ [LF] @
     [LF] @ ''Options:'' @ [LF] @
     ''  -s, --socket PATH   Unix socket path (default: '' @ DEFAULT_SOCKET @ '')'' @ [LF] @
     ''  -i, --interval SEC  Watch interval in seconds (default: 2, memleak: 10)'' @ [LF] @
     ''  -h, --help          Show this help'' @ [LF]"

text \<open>The program ends with a result, or watches: with the socket, the interval and the target.\<close>

datatype cli_run = Cli_exit cli_result | Cli_undefined | Cli_watch string int "string option"

definition run_of :: "cli_result option \<Rightarrow> cli_run" where
  "run_of r = (case r of None \<Rightarrow> Cli_undefined | Some x \<Rightarrow> Cli_exit x)"

text \<open>The loop over the options: it ends the program, or gives the socket and the interval.\<close>

fun cli_options :: "string \<Rightarrow> (char \<times> string) list \<Rightarrow> string \<times> int \<Rightarrow> cli_result + (string \<times> int)" where
  "cli_options prog [] s = Inr s"
| "cli_options prog ((opt, arg) # opts) (path, interval) =
     (if opt = CHR ''s'' then cli_options prog opts (arg, interval)
      else if opt = CHR ''i'' then cli_options prog opts (path, atoi arg)
      else if opt = CHR ''h'' then Inl (0, print_usage prog, [])
      else if opt = CHR ''v'' then Inl (0, ''qmemctl v1.0.11'' @ [LF], [])
      else Inl (1, print_usage prog, []))"

text \<open>\<open>args\<close> are the arguments that are no options.\<close>

definition cli_main ::
    "'d doubles \<Rightarrow> (string \<Rightarrow> string option) \<Rightarrow> string \<Rightarrow> bool \<Rightarrow> (char \<times> string) list \<Rightarrow> string list \<Rightarrow> cli_run" where
  "cli_main D client prog root opts args =
     (case cli_options prog opts (DEFAULT_SOCKET, 0) of
        Inl r \<Rightarrow> Cli_exit r
      | Inr (path, interval) \<Rightarrow>
          if \<not> root then Cli_exit (1, [], ''Error: qmemctl must be run as root'' @ [LF])
          else case args of
              [] \<Rightarrow> run_of (cmd_status D client path None)
            | command # rest \<Rightarrow>
                (let target = (case rest of [] \<Rightarrow> None | t # ts \<Rightarrow> Some t)
                 in if command = ''status'' then run_of (cmd_status D client path target)
                    else if command = ''top'' then Cli_exit (cmd_top client path)
                    else if command = ''slab'' then Cli_exit (cmd_slab client path)
                    else if command = ''sockets'' then Cli_exit (cmd_sockets client path)
                    else if command = ''watch''
                    then if target = Some ''list'' then Cli_exit (cmd_services client path)
                         else Cli_watch path (if interval = 0 then (if target = Some ''memleak'' then 10 else 2) else interval) target
                    else if command = ''raw'' then Cli_exit (cmd_raw client path)
                    else if command = ''fdmon'' \<or> command = ''fd'' then Cli_exit (cmd_fdmon client path)
                    else Cli_exit (1, print_usage prog, ''Unknown command: '' @ command @ [LF])))"

end
