(* ===== verification/CliProps.thy ===== *)
theory CliProps
  imports CliKeys Commands Procmem Sockstat Meminfo Daemon
begin

text \<open>
  What the commands print for the snapshots the daemon writes: the sections they find, the rows of their tables, and the
  behaviour of the program without a daemon. The snapshot is the text of a tree in which other services stand in front of
  the one of interest (\<open>pre\<close>) and behind it (\<open>post\<close>).
\<close>

section \<open>Sections of a snapshot\<close>

abbreviation reply :: "int \<Rightarrow> (string \<times> jval) list \<Rightarrow> jval" where
  "reply now svcs \<equiv> JObj [(''timestamp'', JInt now), (''services'', JObj svcs)]"

lemma int_str_plain [simp]: "DQ \<notin> set (int_str i)"
  using int_str_chars[of DQ i] by (auto simp: isdigit_def)

lemma find_section_occs: "find_section json k = (case occs (key_pat k) p json of [] \<Rightarrow> None | (q, t) # os \<Rightarrow> Some t)"
  unfolding find_section_def key_pat_def[symmetric] by (rule strstr_occs) simp

lemma mem_occs_append:
  "mem_occs k p (xs @ kv # ys) r = mem_occs k p xs (more_text (map member_text (kv # ys)) r) @
     mem_occs k (if xs = [] then p else CHR '','') (kv # ys) r"
proof (induction xs arbitrary: p)
  case Nil
  then show ?case by simp
next
  case (Cons x xs)
  have m: "more_text (map member_text (xs @ kv # ys)) r = more_text (map member_text xs) (more_text (map member_text (kv # ys)) r)"
    using join_comma_append[of "map member_text xs" "map member_text (kv # ys)"] by (cases "xs = []") (simp_all add: more_text_def)
  show ?case using Cons[of "CHR '',''"] by (cases x) (simp add: Let_def m[simplified])
qed

lemma mem_occs_none:
  assumes "k \<notin> set (tree_keys (JObj kvs))"
  shows "mem_occs k p kvs r = []"
  using assms
proof (induction kvs arbitrary: p)
  case (Cons kv kvs)
  then show ?case using key_occs_Nil[of k "snd kv"] by (cases kv) (auto simp: Let_def)
qed simp

lemma elt_occs_none: "k \<notin> set (tree_keys (JArr vs)) \<Longrightarrow> elt_occs k vs r = []"
  using key_occs_Nil[of k "JArr vs" "[]"] by (induction vs) (auto simp: key_occs_Nil)

lemma occs_more_members:
  assumes "plain_key_text k" "plain_tree (JObj kvs)" "after_value r"
  shows "occs (key_pat k) p (more_text (map member_text kvs) r) = mem_occs k CHR '','' kvs r @ occs (key_pat k) q r"
proof (cases "kvs = []")
  case True
  then show ?thesis using occs_after_value[OF assms(3)] by (simp add: more_text_def)
next
  case False
  have "occs (key_pat k) CHR '','' (join_comma (map member_text kvs) @ r) = mem_occs k CHR '','' kvs r @ occs (key_pat k) q r"
    using assms by (intro occs_members) (auto intro!: occs_render)
  then show ?thesis using False by (simp add: more_text_def occs_bracket)
qed

text \<open>What stands behind a service in the snapshot.\<close>

abbreviation behind :: "(string \<times> jval) list \<Rightarrow> string" where
  "behind post \<equiv> more_text (map member_text post) (CHR ''}'' # ''}'')"

lemma section_in_snapshot:
  assumes "plain_tree (JObj (pre @ (k, v) # post))" "k \<notin> set (tree_keys (JObj pre))" "k \<notin> {''timestamp'', ''services''}"
  shows "find_section (render (reply now (pre @ (k, v) # post))) k = Some (key_text k @ render v @ behind post)"
proof -
  have k: "plain_key_text k" using assms(1) by simp
  have t: "plain_tree (reply now (pre @ (k, v) # post))"
    using assms(1) by (auto simp: plain_key_text_def)
  have n: "key_occs k (JInt now) s = []" for s by simp
  have "key_occs k (reply now (pre @ (k, v) # post)) [] = mem_occs k CHR ''{'' (pre @ (k, v) # post) (CHR ''}'' # ''}'')"
    using assms(3) by (auto simp: Let_def more_text_def)
  moreover have "\<exists>q os. mem_occs k CHR ''{'' (pre @ (k, v) # post) (CHR ''}'' # ''}'') = (q, key_text k @ render v @ behind post) # os"
    using mem_occs_none[OF assms(2)] by (simp add: mem_occs_append Let_def)
  ultimately have "\<exists>q os. occs (key_pat k) NUL (render (reply now (pre @ (k, v) # post)) @ []) = (q, key_text k @ render v @ behind post) # os"
    using occs_render[OF k t, of "[]" NUL NUL] by auto
  then show ?thesis using find_section_occs[of "render (reply now (pre @ (k, v) # post))" k NUL] by auto
qed

text \<open>A member of the object of a section, found from the key of the section.\<close>

lemma section_in_section:
  assumes "plain_key_text k" "k \<noteq> f" "plain_tree (JObj (pre @ (f, w) # post))" "f \<notin> set (tree_keys (JObj pre))" "after_value r"
  shows "find_section (key_text k @ render (JObj (pre @ (f, w) # post)) @ r) f =
    Some (key_text f @ render w @ more_text (map member_text post) (CHR ''}'' # r))"
proof -
  have f: "plain_key_text f" using assms(3) by simp
  let ?s = "render (JObj (pre @ (f, w) # post)) @ r"
  have o: "occs (key_pat f) NUL (key_text k @ ?s) = mem_occs f CHR ''{'' (pre @ (f, w) # post) (CHR ''}'' # r) @ occs (key_pat f) NUL r"
    using occs_key_text[OF f assms(1), of NUL "?s"] assms(2) occs_render[OF f assms(3,5), of "CHR '':''" NUL] by (simp del: render.simps)
  have "\<exists>q os. occs (key_pat f) NUL (key_text k @ ?s) = (q, key_text f @ render w @ more_text (map member_text post) (CHR ''}'' # r)) # os"
    unfolding o using mem_occs_none[OF assms(4)] by (simp add: mem_occs_append Let_def)
  then show ?thesis using find_section_occs[of "key_text k @ ?s" f NUL] by auto
qed

section \<open>Processes\<close>

definition delta_row :: "procmem_entry \<Rightarrow> (string \<times> jval) list" where
  "delta_row e = [(''pid'', JInt (pe_pid e)), (''cmd'', JStr (pe_cmd e)), (''rss_kb'', JInt (pe_rss e)),
     (''data_kb'', JInt (pe_data e)), (''rss_delta_kb'', JInt (pe_rss_delta e)), (''data_delta_kb'', JInt (pe_data_delta e))]"

definition rss_row :: "procmem_entry \<Rightarrow> (string \<times> jval) list" where
  "rss_row e = [(''pid'', JInt (pe_pid e)), (''cmd'', JStr (pe_cmd e)), (''rss_kb'', JInt (pe_rss e)),
     (''data_kb'', JInt (pe_data e)), (''rss_delta_kb'', JInt (pe_rss_delta e))]"

lemma row_trees: "map delta_tree es = map JObj (map delta_row es)" "map rss_tree es = map JObj (map rss_row es)"
  by (simp_all add: delta_tree_def rss_tree_def delta_row_def rss_row_def)

lemma plain_keys [simp]:
  "plain_key_text ''pid''" "plain_key_text ''cmd''" "plain_key_text ''rss_kb''" "plain_key_text ''data_kb''"
  "plain_key_text ''rss_delta_kb''" "plain_key_text ''data_delta_kb''" "plain_key_text ''top_growers''"
  "plain_key_text ''top_shrinkers''" "plain_key_text ''top_rss''" "plain_key_text ''procmem''"
  "plain_key_text ''local''" "plain_key_text ''remote''" "plain_key_text ''state''" "plain_key_text ''tx_q''" "plain_key_text ''rx_q''"
  "plain_key_text ''inode''" "plain_key_text ''sockets''" "plain_key_text ''sockstat''"
  by (simp_all add: plain_key_text_def)

lemma rows_ok: "row_ok ''pid'' (delta_row e)" "row_ok ''pid'' (rss_row e)"
  by (auto simp: row_ok_def flat_obj_def delta_row_def rss_row_def)

lemma procmem_tree_plain [simp]: "plain_tree (procmem_tree s)"
  by (auto simp: procmem_tree_def delta_tree_def rss_tree_def)

text \<open>The numbers of an entry fit the type of the tool.\<close>

definition entry_fits :: "procmem_entry \<Rightarrow> bool" where
  "entry_fits e \<longleftrightarrow> in_int64 (pe_pid e) \<and> in_int64 (pe_rss e) \<and> in_int64 (pe_data e) \<and> in_int64 (pe_rss_delta e)"

definition grower_text :: "procmem_entry \<Rightarrow> string" where
  "grower_text e = columns [(8, int_str (pe_pid e)), (20, cli_format_delta 64 (pe_rss_delta e)), (12, cli_format_kb 32 (pe_rss e)),
     (0, shown 40 (pe_cmd e))] @ [LF]"

definition top_rss_text :: "procmem_entry \<Rightarrow> string" where
  "top_rss_text e = columns [(8, int_str (pe_pid e)), (12, cli_format_kb 32 (pe_rss e)), (12, cli_format_kb 32 (pe_data e)),
     (0, shown 40 (pe_cmd e))] @ [LF]"

lemma take_shown: "take 40 (shown 63 s) = shown 40 s"
  by (simp add: shown_def)

lemma grower_row_text:
  assumes "entry_fits e" "after_value t" "row = delta_row e \<or> row = rss_row e"
  shows "grower_row (render (JObj row) @ t) = grower_text e" and "top_rss_row (render (JObj row) @ t) = top_rss_text e"
proof -
  have f: "flat_obj row" using rows_ok[of e] assms(3) by (auto simp: row_ok_def)
  have "json_get_int (render (JObj row) @ t) k = i"
    if "(k, i) \<in> {(''pid'', pe_pid e), (''rss_kb'', pe_rss e), (''data_kb'', pe_data e), (''rss_delta_kb'', pe_rss_delta e)}" for k i
    by (rule row_int[OF f _ _ assms(2)]) (use that assms(1,3) in \<open>auto simp: delta_row_def rss_row_def entry_fits_def\<close>)
  moreover have "extract_str ''cmd'' 63 ''unknown'' (render (JObj row) @ t) = shown 63 (pe_cmd e)"
    by (rule row_str[OF f _ assms(2)]) (use assms(3) in \<open>auto simp: delta_row_def rss_row_def\<close>)
  ultimately show "grower_row (render (JObj row) @ t) = grower_text e" "top_rss_row (render (JObj row) @ t) = top_rss_text e"
    by (simp_all add: grower_row_def top_rss_row_def grower_text_def top_rss_text_def take_shown del: render.simps)
qed

text \<open>The rows behind a table, in the arrays that follow it.\<close>

lemma row_starts_members:
  assumes "plain_tree (JObj kvs)" "plain_key_text f" "after_value r"
  shows "row_starts (obj_pat f) (more_text (map member_text kvs) r) = obj_starts (mem_occs f CHR '','' kvs r) @ row_starts (obj_pat f) r"
  using occs_more_members[OF assms(2,1,3), of NUL NUL] row_starts_obj[of NUL f "more_text (map member_text kvs) r"] row_starts_obj[of NUL f r] by simp

lemma row_starts_behind:
  assumes "plain_tree (JObj post)" "plain_key_text f" "f \<notin> set (tree_keys (JObj post))"
  shows "row_starts (obj_pat f) (CHR ''}'' # behind post) = []"
proof -
  have "row_starts (obj_pat f) (CHR ''}'' # behind post) = row_starts (obj_pat f) (behind post)"
    using row_starts_obj[of NUL f "CHR ''}'' # behind post"] row_starts_obj[of "CHR ''}''" f "behind post"] by (simp add: occs_bracket)
  also have "\<dots> = row_starts (obj_pat f) (CHR ''}'' # ''}'')"
    using row_starts_members[OF assms(1,2), of "CHR ''}'' # ''}''"] mem_occs_none[OF assms(3)] by simp
  also have "\<dots> = []" using row_starts_obj[of NUL f "CHR ''}'' # ''}''"] by (simp add: occs_bracket)
  finally show ?thesis .
qed

lemma table_members:
  assumes "k \<noteq> f" "list_all (row_ok f) rows"
  shows "obj_starts (mem_occs f p ((k, JArr (map JObj rows)) # kvs) r) =
    row_texts rows (CHR '']'' # more_text (map member_text kvs) r) @ obj_starts (mem_occs f CHR '','' kvs r)"
  using assms table_key_occs[of rows f] by (auto simp: Let_def list_all_iff)

definition growers_head :: string where
  "growers_head = heading ''Top Memory Growers'' @ [LF] @
     columns [(8, ''PID''), (12, ''RSS Delta''), (12, ''RSS Now''), (0, ''Command'')] @ [LF] @ print_separator"

definition top_rss_head :: string where
  "top_rss_head = heading ''Top Memory Usage (Absolute)'' @ columns [(8, ''PID''), (12, ''RSS''), (12, ''Data''), (0, ''Command'')] @ [LF]"

lemma row_texts_after: "after_value r \<Longrightarrow> t \<in> set (row_texts rows r) \<Longrightarrow> \<exists>kvs \<in> set rows. \<exists>r'. t = render (JObj kvs) @ r' \<and> after_value r'"
proof (induction rows)
  case (Cons kvs rows)
  then show ?case using after_value_more by (auto simp del: render.simps)
qed simp

lemma rows_printed:
  assumes "\<And>e t. e \<in> set es \<Longrightarrow> after_value t \<Longrightarrow> row (render (JObj (g e)) @ t) = shows_as e" "after_value r"
  shows "concat (map row (row_texts (map g es) r)) = concat (map shows_as es)"
  using assms(1)
proof (induction es)
  case (Cons e es)
  then show ?case using assms(2) by (simp del: render.simps)
qed simp

lemma rows_fit: "list_all (row_ok ''pid'') (map delta_row es)" "list_all (row_ok ''pid'') (map rss_row es)"
  by (simp_all add: list_all_iff rows_ok)

lemma growers_table:
  fixes s :: procmem
  assumes "\<forall>e \<in> set (pm_growers s @ pm_shrinkers s @ pm_top_rss s). entry_fits e"
    and "plain_tree (JObj post)" "''pid'' \<notin> set (tree_keys (JObj post))"
  shows "table_rows (obj_pat ''pid'') grower_row (key_text ''top_growers'' @ render (JArr (map delta_tree (pm_growers s))) @
      more_text (map member_text [(''top_shrinkers'', JArr (map delta_tree (pm_shrinkers s))), (''top_rss'', JArr (map rss_tree (pm_top_rss s)))])
        (CHR ''}'' # behind post)) =
    concat (map grower_text (pm_growers s @ pm_shrinkers s @ pm_top_rss s))"
proof -
  let ?m = "[(''top_shrinkers'', JArr (map JObj (map delta_row (pm_shrinkers s)))), (''top_rss'', JArr (map JObj (map rss_row (pm_top_rss s))))]"
  let ?r = "more_text (map member_text ?m) (CHR ''}'' # behind post)"
  have p: "plain_tree (JObj ?m)" using procmem_tree_plain[of s] by (simp only: procmem_tree_def row_trees) simp
  have g: "grower_row (render (JObj row) @ t) = grower_text e"
    if "e \<in> set (pm_growers s @ pm_shrinkers s @ pm_top_rss s)" "after_value t" "row = delta_row e \<or> row = rss_row e" for e t row
    using grower_row_text(1)[OF _ that(2,3)] assms(1) that(1) by blast
  have d: "concat (map grower_row (row_texts (map delta_row es) r)) = concat (map grower_text es)"
    "concat (map grower_row (row_texts (map rss_row es) r)) = concat (map grower_text es)"
    if "set es \<subseteq> set (pm_growers s @ pm_shrinkers s @ pm_top_rss s)" "after_value r" for es r
    by (rule rows_printed[OF _ that(2)]; rule g; use that(1) in auto)+
  have "row_starts (obj_pat ''pid'') ?r = obj_starts (mem_occs ''pid'' CHR '','' ?m (CHR ''}'' # behind post))"
    using row_starts_members[OF p plain_keys(1), of "CHR ''}'' # behind post"] row_starts_behind[OF assms(2) plain_keys(1) assms(3)] by simp
  also have "\<dots> = row_texts (map delta_row (pm_shrinkers s)) (CHR '']'' # more_text (map member_text (tl ?m)) (CHR ''}'' # behind post)) @
      row_texts (map rss_row (pm_top_rss s)) (CHR '']'' # CHR ''}'' # behind post)"
    using table_members[of "''top_shrinkers''" "''pid''" "map delta_row (pm_shrinkers s)" "CHR '',''" "tl ?m" "CHR ''}'' # behind post"]
      table_members[of "''top_rss''" "''pid''" "map rss_row (pm_top_rss s)" "CHR '',''" "[]" "CHR ''}'' # behind post"] rows_fit
    by (simp del: map_map mem_occs.simps(2) render.simps) (simp add: more_text_def del: map_map render.simps)
  finally have rest: "concat (map grower_row (row_starts (obj_pat ''pid'') ?r)) = concat (map grower_text (pm_shrinkers s @ pm_top_rss s))"
    using d(1)[of "pm_shrinkers s"] d(2)[of "pm_top_rss s"] by (simp only: map_append concat_append) (simp add: subset_iff)
  have "table_rows (obj_pat ''pid'') grower_row (key_text ''top_growers'' @ render (JArr (map JObj (map delta_row (pm_growers s)))) @ ?r) =
      concat (map (\<lambda>kvs. concat (map grower_row (row_texts [kvs] []))) (map delta_row (pm_growers s))) @
      concat (map grower_row (row_starts (obj_pat ''pid'') ?r))"
  proof (rule table_rows_array)
    show "\<forall>kvs \<in> set (map delta_row (pm_growers s)). row_ok ''pid'' kvs" by (auto simp: rows_ok)
    fix kvs t assume "kvs \<in> set (map delta_row (pm_growers s))" "after_value t"
    then obtain e where e: "e \<in> set (pm_growers s)" "kvs = delta_row e" by auto
    then show "grower_row (render (JObj kvs) @ t) = concat (map grower_row (row_texts [kvs] []))"
      using g[of e t kvs] g[of e "[]" kvs] \<open>after_value t\<close> by (simp add: more_text_def del: render.simps)
  qed simp_all
  moreover have "concat (map (\<lambda>kvs. concat (map grower_row (row_texts [kvs] []))) (map delta_row (pm_growers s))) = concat (map grower_text (pm_growers s))"
  proof -
    have "concat (map (\<lambda>e. grower_row (render (JObj (delta_row e)))) (pm_growers s)) = concat (map grower_text (pm_growers s))"
      using g[of _ "[]"] by (intro arg_cong[where f = concat] map_cong) (simp_all del: render.simps)
    then show ?thesis by (simp add: more_text_def comp_def del: render.simps)
  qed
  ultimately show ?thesis using rest by (simp only: row_trees) simp
qed

lemma top_table:
  fixes s :: procmem
  assumes "\<forall>e \<in> set (pm_top_rss s). entry_fits e"
    and "plain_tree (JObj post)" "''pid'' \<notin> set (tree_keys (JObj post))"
  shows "table_rows (obj_pat ''pid'') top_rss_row (key_text ''top_rss'' @ render (JArr (map rss_tree (pm_top_rss s))) @ CHR ''}'' # behind post) =
    concat (map top_rss_text (pm_top_rss s))"
proof -
  have g: "top_rss_row (render (JObj (rss_row e)) @ t) = top_rss_text e" if "e \<in> set (pm_top_rss s)" "after_value t" for e t
    using grower_row_text(2)[OF _ that(2), of e "rss_row e"] assms(1) that(1) by blast
  have "table_rows (obj_pat ''pid'') top_rss_row (key_text ''top_rss'' @ render (JArr (map JObj (map rss_row (pm_top_rss s)))) @ CHR ''}'' # behind post) =
      concat (map (\<lambda>kvs. top_rss_row (render (JObj kvs) @ [])) (map rss_row (pm_top_rss s))) @
      concat (map top_rss_row (row_starts (obj_pat ''pid'') (CHR ''}'' # behind post)))"
  proof (rule table_rows_array)
    show "\<forall>kvs \<in> set (map rss_row (pm_top_rss s)). row_ok ''pid'' kvs" by (auto simp: rows_ok)
    fix kvs t assume "kvs \<in> set (map rss_row (pm_top_rss s))" "after_value t"
    then show "top_rss_row (render (JObj kvs) @ t) = top_rss_row (render (JObj kvs) @ [])"
      using g[of _ t] g[of _ "[]"] by (auto simp del: render.simps append_Nil2)
  qed simp_all
  moreover have "concat (map (\<lambda>e. top_rss_row (render (JObj (rss_row e)))) (pm_top_rss s)) = concat (map top_rss_text (pm_top_rss s))"
    using g[of _ "[]"] by (intro arg_cong[where f = concat] map_cong) (simp_all del: render.simps)
  ultimately show ?thesis
    using row_starts_behind[OF assms(2) plain_keys(1) assms(3)] by (simp only: row_trees) (simp add: comp_def del: render.simps)
qed

lemma bracket_found: "strchr CHR ''['' (a @ render (JArr vs) @ r) \<noteq> None"
  unfolding strchr_None by simp

text \<open>
  C34 (top). With the snapshot of a process monitor whose numbers fit, and no other service behind it that lists processes,
  \<open>qmemctl top\<close> prints as the rows of "Top Memory Growers" the growers, and then also every shrinker and every process of the
  absolute table: the loop over the rows does not stop at the end of its array.
\<close>

theorem cmd_top_mixes_tables:
  assumes "client path = Some (render (reply now (pre @ (''procmem'', procmem_tree s) # post)))"
    and "plain_tree (JObj pre)" and "plain_tree (JObj post)" and "''procmem'' \<notin> set (tree_keys (JObj pre))"
    and "''pid'' \<notin> set (tree_keys (JObj post))" and "list_all entry_fits (pm_growers s @ pm_shrinkers s @ pm_top_rss s)"
  shows "cmd_top client path =
    (0, growers_head @ concat (map grower_text (pm_growers s @ pm_shrinkers s @ pm_top_rss s)) @
        top_rss_head @ concat (map top_rss_text (pm_top_rss s)), [])"
proof -
  let ?g = "(''top_growers'', JArr (map delta_tree (pm_growers s)))" and ?h = "(''top_shrinkers'', JArr (map delta_tree (pm_shrinkers s)))"
  let ?t = "(''top_rss'', JArr (map rss_tree (pm_top_rss s)))"
  have p: "plain_tree (JObj (pre @ (''procmem'', procmem_tree s) # post))" using assms(2,3) by auto
  have pt: "plain_tree (JObj [?g, ?h, ?t])" using procmem_tree_plain[of s] by (simp only: procmem_tree_def)
  have b: "after_value (behind post)" by simp
  have f0: "find_section (render (reply now (pre @ (''procmem'', procmem_tree s) # post))) ''procmem'' =
      Some (key_text ''procmem'' @ render (JObj [?g, ?h, ?t]) @ behind post)"
    using section_in_snapshot[OF p assms(4)] by (simp add: procmem_tree_def del: render.simps)
  have f1: "find_section (key_text ''procmem'' @ render (JObj [?g, ?h, ?t]) @ behind post) ''top_growers'' =
      Some (key_text ''top_growers'' @ render (JArr (map delta_tree (pm_growers s))) @ more_text (map member_text [?h, ?t]) (CHR ''}'' # behind post))"
    using section_in_section[of "''procmem''" "''top_growers''" "[]" _ "[?h, ?t]", OF _ _ _ _ b] pt by (simp del: render.simps)
  have "''top_rss'' \<notin> set (tree_keys (JObj [?g, ?h]))" by (auto simp: delta_tree_def)
  then have f2: "find_section (key_text ''procmem'' @ render (JObj [?g, ?h, ?t]) @ behind post) ''top_rss'' =
      Some (key_text ''top_rss'' @ render (JArr (map rss_tree (pm_top_rss s))) @ CHR ''}'' # behind post)"
    using section_in_section[of "''procmem''" "''top_rss''" "[?g, ?h]" _ "[]", OF _ _ _ _ b] pt by (simp add: more_text_def del: render.simps tree_keys.simps)
  have e: "\<forall>e \<in> set (pm_growers s @ pm_shrinkers s @ pm_top_rss s). entry_fits e" using assms(6) by (simp only: list_all_iff)
  then have e3: "\<forall>e \<in> set (pm_top_rss s). entry_fits e" by auto
  show ?thesis
    unfolding cmd_top_def top_rss_table_def assms(1) option.case f0 f1 f2 Let_def growers_table[OF e assms(3,5)] top_table[OF e3 assms(3,5)]
    using bracket_found by (simp add: growers_head_def top_rss_head_def del: render.simps)
qed

definition demo_entry :: "int \<Rightarrow> int \<Rightarrow> procmem_entry" where
  "demo_entry pid delta = \<lparr>pe_pid = pid, pe_cmd = ''c'', pe_rss = 9, pe_data = 4, pe_rss_delta = delta, pe_data_delta = 0\<rparr>"

definition demo_procs :: procmem where
  "demo_procs = procmem_init\<lparr>pm_growers := [demo_entry 1 5], pm_shrinkers := [demo_entry 2 (- 5)], pm_top_rss := [demo_entry 1 5]\<rparr>"

theorem cmd_top_mixes_tables_witness:
  "cmd_top (\<lambda>p. Some (render (reply 7 [(''procmem'', procmem_tree demo_procs)]))) ''/s'' =
    (0, growers_head @ concat (map grower_text [demo_entry 1 5, demo_entry 2 (- 5), demo_entry 1 5]) @
        top_rss_head @ concat (map top_rss_text [demo_entry 1 5]), [])"
proof -
  have "list_all entry_fits (pm_growers demo_procs @ pm_shrinkers demo_procs @ pm_top_rss demo_procs)"
    by (simp add: demo_procs_def demo_entry_def entry_fits_def in_int64_def)
  then show ?thesis
    using cmd_top_mixes_tables[of "\<lambda>p. Some (render (reply 7 [(''procmem'', procmem_tree demo_procs)]))" "''/s''" 7 "[]" demo_procs "[]"]
    by (simp add: demo_procs_def del: render.simps)
qed

section \<open>Sockets\<close>

definition sock_row :: "socket_entry \<Rightarrow> (string \<times> jval) list" where
  "sock_row s = [(''local'', JStr (so_local_addr s)), (''remote'', JStr (so_rem_addr s)), (''state'', JInt (so_state s)),
     (''tx_q'', JUint (word_of_int (so_tx_queue s))), (''rx_q'', JUint (word_of_int (so_rx_queue s))),
     (''inode'', JUint (word_of_int (so_inode s)))] @
     (if so_pid s > 0 then [(''pid'', JInt (so_pid s)), (''cmd'', JStr (so_cmd s))] else [])"

lemma sock_tree_row: "map socket_tree ss = map JObj (map sock_row ss)"
  by (simp add: socket_tree_def sock_row_def)

lemma nat_str_plain [simp]: "DQ \<notin> set (nat_str n)"
  using int_str_plain[of "int n"] by (simp add: int_str_def)

lemma sock_row_ok: "row_ok ''local'' (sock_row s)"
  by (auto simp: row_ok_def flat_obj_def sock_row_def)

definition socket_fits :: "socket_entry \<Rightarrow> bool" where
  "socket_fits s \<longleftrightarrow> in_int64 (so_state s) \<and> in_int64 (so_pid s) \<and> 0 \<le> so_tx_queue s \<and> so_tx_queue s \<le> INT64_MAX \<and>
     0 \<le> so_rx_queue s \<and> so_rx_queue s \<le> INT64_MAX"

lemma uint_text: "0 \<le> q \<Longrightarrow> q \<le> INT64_MAX \<Longrightarrow> JUint (word_of_int q) = JInt q"
  by (simp add: int_str_def unsigned_of_int take_bit_int_eq_self nat_take_bit_eq)

text \<open>The first of some sockets that has an owner.\<close>

definition owned :: "socket_entry list \<Rightarrow> socket_entry option" where
  "owned ss = find (\<lambda>s. so_pid s > 0) ss"

definition socket_text :: "socket_entry option \<Rightarrow> socket_entry \<Rightarrow> string" where
  "socket_text owner s =
     columns [(8, int_str (case owner of None \<Rightarrow> 0 | Some w \<Rightarrow> so_pid w)), (16, case owner of None \<Rightarrow> ''-'' | Some w \<Rightarrow> shown 31 (so_cmd w)),
       (22, shown 63 (so_local_addr s)), (22, shown 63 (so_rem_addr s)), (10, get_sock_state_name (to_int32 (so_state s))),
       (8, int_str (so_tx_queue s)), (8, int_str (so_rx_queue s))] @ [LF]"

text \<open>The rows of a list of sockets: each with the owner of the first owned socket from it on.\<close>

fun socket_lines :: "socket_entry list \<Rightarrow> string" where
  "socket_lines [] = []"
| "socket_lines (s # ss) = socket_text (owned (s # ss)) s @ socket_lines ss"

lemma find_key_more:
  assumes "length k < 124"
  shows "json_get_int (CHR '','' # x) k = json_get_int x k"
  using find_key_occs[OF assms(1), of "CHR '','' # x" NUL] find_key_occs[OF assms(1), of x "CHR '',''"]
  by (simp add: json_get_int_def occs_bracket)

lemma extract_more: "extract_str k n d (CHR '','' # x) = extract_str k n d x"
  by (simp add: extract_str_def)

lemma sockets_owner:
  assumes "list_all socket_fits ss" "after_value r" "json_get_int r ''pid'' = 0" "extract_str ''cmd'' 31 ''-'' r = ''-''"
  shows "json_get_int (more_text (map (\<lambda>s. render (JObj (sock_row s))) ss) r) ''pid'' = (case owned ss of None \<Rightarrow> 0 | Some w \<Rightarrow> so_pid w) \<and>
    extract_str ''cmd'' 31 ''-'' (more_text (map (\<lambda>s. render (JObj (sock_row s))) ss) r) = (case owned ss of None \<Rightarrow> ''-'' | Some w \<Rightarrow> shown 31 (so_cmd w))"
  using assms(1)
proof (induction ss)
  case Nil
  then show ?case using assms(3,4) by (simp add: more_text_def owned_def)
next
  case (Cons s ss)
  let ?t = "more_text (map (\<lambda>s. render (JObj (sock_row s))) ss) r"
  have f: "flat_obj (sock_row s)" using sock_row_ok[of s] by (simp add: row_ok_def)
  have t: "after_value ?t" using assms(2) by simp
  have m: "more_text (map (\<lambda>s. render (JObj (sock_row s))) (s # ss)) r = CHR '','' # render (JObj (sock_row s)) @ ?t"
    using join_comma_more[of "render (JObj (sock_row s))" "map (\<lambda>s. render (JObj (sock_row s))) ss" r] by (simp add: more_text_def del: render.simps)
  have c: "json_get_int (CHR '','' # x) ''pid'' = json_get_int x ''pid''" for x by (rule find_key_more) simp_all
  show ?case
  proof (cases "so_pid s > 0")
    case True
    have "json_get_int (render (JObj (sock_row s)) @ ?t) ''pid'' = so_pid s"
      by (rule row_int[OF f _ _ t]) (use True Cons.prems in \<open>auto simp: sock_row_def socket_fits_def\<close>)
    moreover have "extract_str ''cmd'' 31 ''-'' (render (JObj (sock_row s)) @ ?t) = shown 31 (so_cmd s)"
      by (rule row_str[OF f _ t]) (use True in \<open>auto simp: sock_row_def\<close>)
    ultimately show ?thesis using True unfolding m c extract_more by (simp add: owned_def)
  next
    case False
    have "json_get_int (render (JObj (sock_row s)) @ ?t) ''pid'' = json_get_int ?t ''pid''"
      by (rule row_int_absent[OF f _ _ t]) (use False in \<open>auto simp: sock_row_def\<close>)
    moreover have "extract_str ''cmd'' 31 ''-'' (render (JObj (sock_row s)) @ ?t) = extract_str ''cmd'' 31 ''-'' ?t"
      by (rule row_str_absent[OF f _ t]) (use False in \<open>auto simp: sock_row_def\<close>)
    ultimately show ?thesis using False Cons unfolding m c extract_more by (simp add: owned_def)
  qed
qed

lemma socket_rows:
  assumes "list_all socket_fits ss" "after_value r" "json_get_int r ''pid'' = 0" "extract_str ''cmd'' 31 ''-'' r = ''-''"
  shows "concat (map socket_row (row_texts (map sock_row ss) r)) = socket_lines ss"
  using assms(1)
proof (induction ss)
  case (Cons s ss)
  let ?t = "more_text (map (\<lambda>s. render (JObj (sock_row s))) ss) r" and ?x = "render (JObj (sock_row s))"
  have f: "flat_obj (sock_row s)" using sock_row_ok[of s] by (simp add: row_ok_def)
  have t: "after_value ?t" using assms(2) by simp
  have u: "JUint (word_of_int (so_tx_queue s)) = JInt (so_tx_queue s)" "JUint (word_of_int (so_rx_queue s)) = JInt (so_rx_queue s)"
    using Cons.prems by (simp_all only: list.pred_inject socket_fits_def uint_text)
  have m: "more_text (map (\<lambda>s. render (JObj (sock_row s))) (s # ss)) r = CHR '','' # ?x @ ?t"
    using join_comma_more[of ?x "map (\<lambda>s. render (JObj (sock_row s))) ss" r] by (simp add: more_text_def del: render.simps)
  have c: "json_get_int (CHR '','' # y) ''pid'' = json_get_int y ''pid''" for y by (rule find_key_more) simp
  have w: "json_get_int (?x @ ?t) ''pid'' = (case owned (s # ss) of None \<Rightarrow> 0 | Some w \<Rightarrow> so_pid w)"
    "extract_str ''cmd'' 31 ''-'' (?x @ ?t) = (case owned (s # ss) of None \<Rightarrow> ''-'' | Some w \<Rightarrow> shown 31 (so_cmd w))"
    using sockets_owner[OF Cons.prems assms(2-4)] unfolding m c extract_more by blast+
  have i: "json_get_int (?x @ ?t) k = i" if "(k, i) \<in> {(''state'', so_state s), (''tx_q'', so_tx_queue s), (''rx_q'', so_rx_queue s)}" for k i
    by (rule row_int[OF f _ _ t]) (use that Cons.prems in \<open>auto simp: sock_row_def u socket_fits_def in_int64_def\<close>)
  have a: "extract_str k 63 [] (?x @ ?t) = shown 63 v" if "(k, v) \<in> {(''local'', so_local_addr s), (''remote'', so_rem_addr s)}" for k v
    by (rule row_str[OF f _ t]) (use that in \<open>auto simp: sock_row_def\<close>)
  have "socket_row (?x @ ?t) = socket_text (owned (s # ss)) s"
    using i a by (simp add: socket_row_def socket_text_def w del: render.simps)
  moreover have "map (\<lambda>k. render (JObj k)) (map sock_row ss) = map (\<lambda>s. render (JObj (sock_row s))) ss" by (simp del: render.simps)
  ultimately show ?case using Cons by (simp del: render.simps map_map)
qed simp

definition sockets_head :: string where
  "sockets_head = heading ''Active Sockets'' @ [LF] @ columns [(8, ''PID''), (16, ''Command''), (22, ''Local Address''), (22, ''Remote Address''),
     (10, ''State''), (8, ''TX_Q''), (8, ''RX_Q'')] @ [LF] @ print_separator"

lemma key_behind:
  assumes "plain_tree (JObj post)" "plain_key_text k" "k \<notin> set (tree_keys (JObj post))" "\<forall>c \<in> set x. c \<noteq> DQ"
  shows "occs (key_pat k) p (x @ behind post) = []"
proof -
  have "DQ \<notin> set x" using assms(4) by blast
  from occs_skip[OF this, of "k @ [DQ, CHR '':'']" p "behind post"]
  have "occs (key_pat k) p (x @ behind post) = occs (key_pat k) (last (p # x)) (behind post)" by (simp add: key_pat_def)
  also have "\<dots> = occs (key_pat k) NUL (CHR ''}'' # ''}'')"
    using occs_more_members[OF assms(2,1), of "CHR ''}'' # ''}''" _ NUL] mem_occs_none[OF assms(3)] by simp
  finally show ?thesis by (simp add: occs_bracket)
qed

text \<open>
  C35 (sockets). With the snapshot of a socket monitor whose numbers fit, and no later service with processes, the command
  \<open>qmemctl sockets\<close> prints a row for every socket, with its addresses, state and queues; but a socket that nobody owns is
  shown with the process of the next owned socket of the list, because the search for the key does not stop at the end of its object.
\<close>

theorem cmd_sockets_owner:
  assumes "client path = Some (render (reply now (pre @ (''sockstat'', sockstat_tree s) # post)))"
    and "plain_tree (JObj pre)" and "plain_tree (JObj post)" and "''sockstat'' \<notin> set (tree_keys (JObj pre))"
    and "{''pid'', ''cmd'', ''local''} \<inter> set (tree_keys (JObj post)) = {}" and "list_all socket_fits (sk_sockets s)"
  shows "cmd_sockets client path = (0, sockets_head @ socket_lines (sk_sockets s) @ [LF], [])"
proof -
  let ?b = "CHR ''}'' # behind post" and ?arr = "JArr (map JObj (map sock_row (sk_sockets s)))"
  have st: "plain_tree (sockstat_tree s)"
    by (auto simp: sockstat_tree_def socket_tree_def plain_key_text_def Let_def)
  have p: "plain_tree (JObj (pre @ (''sockstat'', sockstat_tree s) # post))" using assms(2,3) st by auto
  obtain ms where ms: "sockstat_tree s = JObj (ms @ [(''sockets'', ?arr)])" "''sockets'' \<notin> set (tree_keys (JObj ms))"
    by (rule that[of "butlast (case sockstat_tree s of JObj kvs \<Rightarrow> kvs)"]) (simp_all add: sockstat_tree_def Let_def sock_tree_row[symmetric] del: map_map)
  have b: "after_value (behind post)" by simp
  have f0: "find_section (render (reply now (pre @ (''sockstat'', sockstat_tree s) # post))) ''sockstat'' =
      Some (key_text ''sockstat'' @ render (JObj (ms @ [(''sockets'', ?arr)])) @ behind post)"
    using section_in_snapshot[OF p assms(4)] by (simp add: ms(1) del: render.simps)
  have f1: "find_section (key_text ''sockstat'' @ render (JObj (ms @ [(''sockets'', ?arr)])) @ behind post) ''sockets'' =
      Some (key_text ''sockets'' @ render ?arr @ ?b)"
    using section_in_section[of "''sockstat''" "''sockets''" ms ?arr "[]", OF _ _ _ ms(2) b] st by (simp add: ms(1) more_text_def del: render.simps)
  have "json_get_int (CHR '']'' # ?b) ''pid'' = 0"
    using find_key_occs[of "''pid''" "'']}'' @ behind post" NUL] key_behind[OF assms(3), of "''pid''" "'']}''" NUL] assms(5)
    by (simp add: json_get_int_def)
  moreover have "extract_str ''cmd'' 31 ''-'' (CHR '']'' # ?b) = ''-''"
    using strstr_longer[OF key_pat_not_Nil, of "''cmd''" "[DQ]" "'']}'' @ behind post" NUL] key_behind[OF assms(3), of "''cmd''" "'']}''" NUL] assms(5)
    by (simp add: extract_str_pat extract_pat_def)
  ultimately have rows: "concat (map socket_row (row_texts (map sock_row (sk_sockets s)) (CHR '']'' # ?b))) = socket_lines (sk_sockets s)"
    by (intro socket_rows[OF assms(6)]) simp_all
  have at: "plain_tree ?arr" using st by (simp add: ms(1))
  have "row_starts (obj_pat ''local'') (render ?arr @ ?b) = row_texts (map sock_row (sk_sockets s)) (CHR '']'' # ?b)"
    using row_starts_tree[OF _ at, of "''local''" ?b] table_key_occs[of "map sock_row (sk_sockets s)" "''local''" "CHR '']'' # ?b"]
      row_starts_behind[OF assms(3), of "''local''"] assms(5) sock_row_ok by (simp del: render.simps map_map)
  moreover have "strchr CHR ''['' (key_text ''sockets'' @ render ?arr @ ?b) = Some (render ?arr @ ?b)"
    using Prelude.strchr_append[of "CHR ''[''" "key_text ''sockets''" "render ?arr @ ?b"] by (simp add: key_text_plain key_pat_def)
  ultimately have "table_rows (obj_pat ''local'') socket_row (key_text ''sockets'' @ render ?arr @ ?b) = socket_lines (sk_sockets s)"
    using rows by (simp add: table_rows_def table_starts_def del: render.simps)
  then show ?thesis
    unfolding cmd_sockets_def assms(1) option.case f0 f1 Let_def using bracket_found by (simp add: sockets_head_def del: render.simps map_map)
qed

definition demo_socket :: "int \<Rightarrow> string \<Rightarrow> socket_entry" where
  "demo_socket pid cmd = \<lparr>so_local_addr = ''0.0.0.0:22'', so_rem_addr = ''0.0.0.0:0'', so_state = 10, so_tx_queue = 0, so_rx_queue = 0,
     so_inode = 5, so_pid = pid, so_cmd = cmd\<rparr>"

text \<open>A socket without owner in front of one of \<open>sshd\<close>: both rows show process 9.\<close>

theorem cmd_sockets_owner_witness:
  "cmd_sockets (\<lambda>p. Some (render (reply 7 [(''sockstat'', sockstat_tree (sockstat_init\<lparr>sk_sockets := [demo_socket 0 [], demo_socket 9 ''sshd'']\<rparr>))]))) ''/s'' =
    (0, sockets_head @ socket_text (Some (demo_socket 9 ''sshd'')) (demo_socket 0 []) @
        socket_text (Some (demo_socket 9 ''sshd'')) (demo_socket 9 ''sshd'') @ [LF], [])"
proof -
  let ?s = "sockstat_init\<lparr>sk_sockets := [demo_socket 0 [], demo_socket 9 ''sshd'']\<rparr>"
  have "list_all socket_fits (sk_sockets ?s)" by (simp add: demo_socket_def socket_fits_def in_int64_def)
  then show ?thesis
    using cmd_sockets_owner[of "\<lambda>p. Some (render (reply 7 [(''sockstat'', sockstat_tree ?s)]))" "''/s''" 7 "[]" ?s "[]"]
    by (simp add: owned_def demo_socket_def del: render.simps)
qed

end
