(* ===== verification/CliMain.thy ===== *)
theory CliMain
  imports CliProps
begin

text \<open>
  The rest of the command line tool: the section that \<open>status\<close> with a target prints, the list of services, the memory report of
  \<open>status\<close>, and the program from its arguments to its exit status.
\<close>

section \<open>One section\<close>

text \<open>No brackets of objects in the strings and keys of a value.\<close>

definition no_braces :: "string \<Rightarrow> bool" where
  "no_braces t \<longleftrightarrow> CHR ''{'' \<notin> set t \<and> CHR ''}'' \<notin> set t"

fun brace_free :: "jval \<Rightarrow> bool" where
  "brace_free (JNum t) = no_braces t"
| "brace_free (JStr s) = no_braces s"
| "brace_free (JArr vs) = (\<forall>v \<in> set vs. brace_free v)"
| "brace_free (JObj kvs) = (\<forall>kv \<in> set kvs. no_braces (fst kv) \<and> brace_free (snd kv))"
| "brace_free v = True"

lemma skip_plain: "no_braces a \<Longrightarrow> skip_nested CHR ''{'' CHR ''}'' (Suc d) (a @ r) = skip_nested CHR ''{'' CHR ''}'' (Suc d) r"
  by (induction a) (auto simp: no_braces_def)

lemma no_braces_append [simp]:
  "no_braces (a @ b) \<longleftrightarrow> no_braces a \<and> no_braces b"
  "no_braces (c # b) \<longleftrightarrow> c \<noteq> CHR ''{'' \<and> c \<noteq> CHR ''}'' \<and> no_braces b" "no_braces []"
  by (auto simp: no_braces_def)

lemma no_braces_chars: "(\<And>c. c \<in> set s \<Longrightarrow> no_braces (f c)) \<Longrightarrow> no_braces (concat (map f s))"
  by (induction s) auto

lemma no_braces_value: "no_braces s \<Longrightarrow> no_braces (str_text s)"
proof -
  assume s: "no_braces s"
  have u: "no_braces (u_escape c)" if "(of_char c :: nat) < 32" for c
  proof -
    have "\<forall>n \<in> set [0..<16]. no_braces [hex_digit n]" by code_simp
    moreover have "of_char c div 16 < (16 :: nat)" "of_char c mod 16 < (16 :: nat)" using that by (simp_all add: less_mult_imp_div_less)
    ultimately show ?thesis by (auto simp: u_escape_def)
  qed
  have "no_braces (value_char c)" if "c \<in> set s" for c
    using s that u[of c] by (auto simp: value_char_def no_braces_def)
  then show ?thesis by (simp add: str_text_def no_braces_chars)
qed

lemma no_braces_key: "no_braces k \<Longrightarrow> no_braces (key_text k)"
proof -
  assume k: "no_braces k"
  have "no_braces (key_char c)" if "c \<in> set k" for c
    using k that by (auto simp: key_char_def no_braces_def)
  then show ?thesis by (simp add: key_text_def no_braces_chars)
qed

lemma skip_join:
  assumes "\<And>t r. t \<in> set ts \<Longrightarrow> skip_nested CHR ''{'' CHR ''}'' (Suc d) (t @ r) = skip_nested CHR ''{'' CHR ''}'' (Suc d) r"
  shows "skip_nested CHR ''{'' CHR ''}'' (Suc d) (join_comma ts @ r) = skip_nested CHR ''{'' CHR ''}'' (Suc d) r"
  using assms
proof (induction ts)
  case (Cons t ts)
  then show ?case by (cases "ts = []") (simp_all add: join_comma_Cons)
qed simp

lemma skip_value:
  assumes "brace_free v"
  shows "skip_nested CHR ''{'' CHR ''}'' (Suc d) (render v @ r) = skip_nested CHR ''{'' CHR ''}'' (Suc d) r"
  using assms
proof (induction v arbitrary: d r)
  case (JArr vs)
  have "skip_nested CHR ''{'' CHR ''}'' (Suc d) (join_comma (map render vs) @ CHR '']'' # r) = skip_nested CHR ''{'' CHR ''}'' (Suc d) (CHR '']'' # r)"
    using JArr by (intro skip_join) auto
  then show ?case by simp
next
  case (JObj kvs)
  have m: "skip_nested CHR ''{'' CHR ''}'' (Suc (Suc d)) (join_comma (map member_text kvs) @ CHR ''}'' # r) =
      skip_nested CHR ''{'' CHR ''}'' (Suc (Suc d)) (CHR ''}'' # r)"
  proof (rule skip_join)
    fix t r assume "t \<in> set (map member_text kvs)"
    then obtain k v where kv: "(k, v) \<in> set kvs" "t = key_text k @ render v" by (auto simp: member_text_def)
    then have "no_braces k" "brace_free v" using JObj.prems by (fastforce, fastforce)
    then show "skip_nested CHR ''{'' CHR ''}'' (Suc (Suc d)) (t @ r) = skip_nested CHR ''{'' CHR ''}'' (Suc (Suc d)) r"
      using JObj.IH[OF kv(1), of v] skip_plain[OF no_braces_key, of k "Suc d" "render v @ r"] kv(2) by (simp add: snds.simps)
  qed
  then show ?case by (simp add: render_JObj del: render.simps)
next
  case (JStr s)
  then show ?case using skip_plain[OF no_braces_value, of s d r] by simp
next
  case (JNum t)
  then show ?case using skip_plain[of t d r] by simp
next
  case (JBool b)
  then show ?case using skip_plain[of "render (JBool b)" d r] by simp
next
  case JNull
  then show ?case using skip_plain[of "render JNull" d r] by simp
qed

lemma skip_object:
  assumes "brace_free (JObj kvs)"
  shows "section_end (render (JObj kvs) @ r) = Some (tl r)"
proof -
  have "skip_nested CHR ''{'' CHR ''}'' 1 (join_comma (map member_text kvs) @ CHR ''}'' # r) = skip_nested CHR ''{'' CHR ''}'' 1 (CHR ''}'' # r)"
  proof -
    have "skip_nested CHR ''{'' CHR ''}'' (Suc 0) (t @ x) = skip_nested CHR ''{'' CHR ''}'' (Suc 0) x" if t: "t \<in> set (map member_text kvs)" for t x
    proof -
      obtain k v where kv: "(k, v) \<in> set kvs" "t = key_text k @ render v" using t by (auto simp: member_text_def)
      then have "no_braces k" "brace_free v" using assms by (fastforce, fastforce)
      then show ?thesis using skip_value[of v 0 x] skip_plain[OF no_braces_key, of k 0 "render v @ x"] kv(2) by simp
    qed
    then show ?thesis unfolding One_nat_def by (rule skip_join)
  qed
  moreover have "skip_nested CHR ''{'' CHR ''}'' 0 r = r" by (cases r) simp_all
  ultimately show ?thesis by (simp add: section_end_def render_JObj starts_with_iff del: render.simps)
qed

text \<open>
  Also (status of one service). For a service whose tree is an object without brackets in its strings, \<open>qmemctl status SERVICE\<close> prints
  the text of its object and one character more, the comma or bracket that follows it in the snapshot: the loop already stands behind
  the closing bracket when \<open>if (*end) end++\<close> is reached.
\<close>

theorem status_section_extra:
  assumes "client path = Some (render (reply now (pre @ (k, JObj kvs) # post)))"
    and "plain_tree (JObj (pre @ (k, JObj kvs) # post))" and "k \<notin> set (tree_keys (JObj pre))" and "brace_free (JObj kvs)" and "length k < 124"
    and "k \<notin> {''timestamp'', ''services'', ''sockets'', ''sockstat'', ''top'', ''procmem'', ''slab'', ''slabinfo'', ''memleak'', ''list''}"
  shows "cmd_status D client path (Some k) =
    Some (0, [LF] @ CYAN @ ''=== Status: '' @ k @ '' ==='' @ NC @ [LF, LF] @
      render (JObj kvs) @ [if post = [] then CHR ''}'' else CHR '',''] @ [LF], [])"
proof -
  have k: "plain_key_text k" using assms(2) by simp
  have f: "find_section (render (reply now (pre @ (k, JObj kvs) # post))) k = Some (key_text k @ render (JObj kvs) @ behind post)"
    by (rule section_in_snapshot[OF assms(2,3)]) (use assms(6) in simp)
  have s: "strstr (bounded_copy 128 (DQ # k @ [DQ, CHR '':''])) x = find_section x k" for x
    using assms(5) by (simp add: find_section_def bounded_copy_fits)
  have v: "value_position (key_text k @ render (JObj kvs) @ behind post) = Some (render (JObj kvs) @ behind post)"
    by (rule value_after_key[OF k]) (simp_all add: isspace_def)
  have b: "behind post = (if post = [] then CHR ''}'' else CHR '','') # tl (behind post)" by (simp add: more_text_def)
  have t: "take (length (render (JObj kvs) @ behind post) - length (tl (behind post))) (render (JObj kvs) @ behind post) =
      render (JObj kvs) @ [if post = [] then CHR ''}'' else CHR '','']"
    by (subst (1 3) b) (simp del: render.simps)
  have "print_json_section (render (reply now (pre @ (k, JObj kvs) # post))) k = Some ([LF] @ CYAN @ ''=== Status: '' @ k @ '' ==='' @ NC @ [LF, LF] @
      render (JObj kvs) @ [if post = [] then CHR ''}'' else CHR '',''] @ [LF])"
    unfolding print_json_section_def s f v option.case Let_def skip_object[OF assms(4)] t by simp
  then show ?thesis using assms(1,6) by (simp add: cmd_status_def del: render.simps)
qed

text \<open>Numbers as their own texts.\<close>

definition text_doubles :: "string doubles" where
  "text_doubles = \<lparr>d_zero = ''0'', d_strtod = takeWhile isdigit, d_print = (\<lambda>n x. x)\<rparr>"

theorem status_section_extra_witness:
  "cmd_status text_doubles (\<lambda>p. Some (render (reply 7 [(''vmstat'', JObj [(''pid'', JNull)])]))) ''/s'' (Some ''vmstat'') =
    Some (0, [LF] @ CYAN @ ''=== Status: vmstat ==='' @ NC @ [LF, LF] @ render (JObj [(''pid'', JNull)]) @ ''}'' @ [LF], [])"
  using status_section_extra[of "\<lambda>p. Some (render (reply 7 [(''vmstat'', JObj [(''pid'', JNull)])]))" "''/s''" 7 "[]" "''vmstat''" "[(''pid'', JNull)]" "[]" text_doubles]
  by (simp add: plain_key_text_def no_braces_def del: render.simps)

section \<open>The list of services\<close>

lemma known_plain: "list_all (\<lambda>(n, d). plain_key_text n \<and> length n < 124) known_services"
  by (simp add: known_services_def plain_key_text_def)

text \<open>
  Also (services). For any snapshot whose keys are plain, \<open>qmemctl watch list\<close> lists exactly the known services whose name is a key of the
  snapshot, in the fixed order of the tool, whatever the string values contain.
\<close>

theorem cmd_services_exact:
  assumes "client path = Some (render v)" and "plain_tree v"
  shows "cmd_services client path =
    (0, heading ''Active Services'' @
        concat (map (\<lambda>(name, desc). GREEN @ ''  '' @ left 12 name @ NC @ '' '' @ desc @ [LF])
          (filter (\<lambda>(name, desc). name \<in> set (tree_keys v)) known_services)) @ [LF], [])"
proof -
  have "filter (\<lambda>(name, desc). json_find_key (render v) name \<noteq> None) known_services = filter (\<lambda>(name, desc). name \<in> set (tree_keys v)) known_services"
  proof (rule filter_cong[OF refl])
    fix x assume "x \<in> set known_services"
    then have "plain_key_text (fst x) \<and> length (fst x) < 124" using known_plain by (auto simp: list_all_iff)
    then show "(case x of (name, desc) \<Rightarrow> json_find_key (render v) name \<noteq> None) = (case x of (name, desc) \<Rightarrow> name \<in> set (tree_keys v))"
      using find_key_iff[OF _ _ assms(2), of "fst x"] by (cases x) simp
  qed
  then show ?thesis by (simp only: cmd_services_def assms(1) option.case)
qed

theorem cmd_services_exact_witness:
  "cmd_services (\<lambda>p. Some (render (reply 7 [(''vmstat'', JStr (DQ # ''netstat'' @ [DQ, CHR '':'']))]))) ''/s'' =
    (0, heading ''Active Services'' @ GREEN @ ''  vmstat      '' @ NC @ '' VM Statistics'' @ [LF] @ [LF], [])"
proof -
  let ?v = "reply 7 [(''vmstat'', JStr (DQ # ''netstat'' @ [DQ, CHR '':'']))]"
  have "plain_tree ?v" by (simp add: plain_key_text_def)
  moreover have "left 12 ''vmstat'' = ''vmstat      ''" by (simp add: left_def numeral_eq_Suc)
  ultimately show ?thesis using cmd_services_exact[of "\<lambda>p. Some (render ?v)" "''/s''" ?v] by (simp add: known_services_def del: render.simps)
qed

section \<open>The program\<close>

text \<open>The argument of the last option \<open>c\<close>.\<close>

definition last_arg :: "char \<Rightarrow> (char \<times> string) list \<Rightarrow> string option" where
  "last_arg c opts = map_of (rev opts) c"

lemma options_result:
  "cli_options prog opts (path, i) =
    (case List.find (\<lambda>(c, a). c \<noteq> CHR ''s'' \<and> c \<noteq> CHR ''i'') opts of
       Some (c, a) \<Rightarrow> Inl (if c = CHR ''h'' then (0, print_usage prog, []) else if c = CHR ''v'' then (0, ''qmemctl v1.0.11'' @ [LF], [])
         else (1, print_usage prog, []))
     | None \<Rightarrow> Inr (case last_arg CHR ''s'' opts of None \<Rightarrow> path | Some p \<Rightarrow> p, case last_arg CHR ''i'' opts of None \<Rightarrow> i | Some t \<Rightarrow> atoi t))"
proof (induction prog opts "(path, i)" arbitrary: path i rule: cli_options.induct)
  case (2 prog opt arg opts path i)
  consider "opt = CHR ''s''" | "opt = CHR ''i''" | "opt \<noteq> CHR ''s''" "opt \<noteq> CHR ''i''" by blast
  then show ?case
    by cases (auto simp: 2 last_arg_def map_add_def split: option.splits)
qed (simp add: last_arg_def)

lemma no_daemon_commands:
  assumes "client path = None"
  shows "cmd_status D client path target = Some (no_daemon path)" "cmd_top client path = no_daemon path" "cmd_slab client path = no_daemon path"
    "cmd_sockets client path = no_daemon path" "cmd_services client path = no_daemon path" "cmd_raw client path = no_daemon path"
    "cmd_fdmon client path = no_daemon path"
  using assms by (auto simp: cmd_status_def cmd_top_def cmd_slab_def cmd_sockets_def cmd_memleak_def cmd_services_def cmd_raw_def cmd_fdmon_def)

text \<open>The commands of the tool.\<close>

definition cli_commands :: "string list" where
  "cli_commands = [''status'', ''top'', ''slab'', ''sockets'', ''watch'', ''raw'', ''fdmon'', ''fd'']"

text \<open>
  C40 (no daemon, no rights). What the program does for every list of options and arguments when no daemon answers. The first option that is
  neither the socket nor the interval ends it, with the help, the version, or the usage and status 1. Else, without root, every command ends with status 1
  and an error. As root an unknown command ends with status 1, the usage and an error; \<open>watch\<close> with anything but \<open>list\<close> goes on for ever, and each round
  clears the screen and reports the socket it tried, twice without a target; every other command, \<open>status\<close> of any service included, ends with status 1, prints nothing
  and reports the socket, which is the last one given.
\<close>

theorem cli_fails_clean:
  assumes "\<And>p. client p = None"
  shows "case List.find (\<lambda>(c, a). c \<noteq> CHR ''s'' \<and> c \<noteq> CHR ''i'') opts of
      Some (c, a) \<Rightarrow> cli_main D client prog root opts args =
        Cli_exit (if c = CHR ''h'' then (0, print_usage prog, []) else if c = CHR ''v'' then (0, ''qmemctl v1.0.11'' @ [LF], [])
          else (1, print_usage prog, []))
    | None \<Rightarrow>
        (let path = (case last_arg CHR ''s'' opts of None \<Rightarrow> ''/run/qmem.sock'' | Some p \<Rightarrow> p);
             message = ''Error: Cannot connect to daemon at '' @ path @ [LF];
             target = (if length args < 2 then None else Some (args ! 1))
         in if \<not> root then cli_main D client prog root opts args = Cli_exit (1, [], ''Error: qmemctl must be run as root'' @ [LF])
            else if args \<noteq> [] \<and> hd args \<notin> set cli_commands
            then cli_main D client prog root opts args = Cli_exit (1, print_usage prog, ''Unknown command: '' @ hd args @ [LF])
            else if args \<noteq> [] \<and> hd args = ''watch'' \<and> target \<noteq> Some ''list''
            then \<exists>i. cli_main D client prog root opts args = Cli_watch path i target \<and>
              watch_rounds D path target (replicate n (client, client)) =
                Some (concat (replicate n (ESC # ''[2J'' @ ESC # ''[H'' @ (if target = None then [LF] else []))),
                      concat (replicate n (message @ (if target = None then message else []))))
            else cli_main D client prog root opts args = Cli_exit (1, [], message))"
proof (cases "List.find (\<lambda>(c, a). c \<noteq> CHR ''s'' \<and> c \<noteq> CHR ''i'') opts")
  case (Some x)
  then show ?thesis by (cases x) (simp add: cli_main_def options_result)
next
  case None
  define path where "path = (case last_arg CHR ''s'' opts of None \<Rightarrow> ''/run/qmem.sock'' | Some p \<Rightarrow> p)"
  obtain i where o: "cli_options prog opts (DEFAULT_SOCKET, 0) = Inr (path, i)"
    by (simp add: options_result None path_def DEFAULT_SOCKET_def)
  note nd = no_daemon_commands[of client path, OF assms]
  have rounds: "watch_rounds D path target (replicate n (client, client)) =
      Some (concat (replicate n (ESC # ''[2J'' @ ESC # ''[H'' @ (if target = None then [LF] else []))),
            concat (replicate n (''Error: Cannot connect to daemon at '' @ path @ [LF] @
              (if target = None then ''Error: Cannot connect to daemon at '' @ path @ [LF] else []))))" for target
    by (cases target; induction n; simp add: watch_round_def nd no_daemon_def Let_def)
  show ?thesis
    unfolding None option.case Let_def path_def[symmetric]
    using rounds[of None] rounds[of "Some (args ! 1)"]
    by (cases args; cases "tl args") (auto simp: cli_main_def o nd run_of_def no_daemon_def cli_commands_def Let_def)
qed

theorem cli_fails_clean_witness:
  "cli_main text_doubles (\<lambda>p. None) ''qmemctl'' True [(CHR ''s'', ''/y''), (CHR ''s'', ''/x'')] [''status'', ''vmstat''] =
    Cli_exit (1, [], ''Error: Cannot connect to daemon at /x'' @ [LF])"
  using cli_fails_clean[where client = "\<lambda>p. None" and opts = "[(CHR ''s'', ''/y''), (CHR ''s'', ''/x'')]" and D = text_doubles and prog = "''qmemctl''"
      and root = True and args = "[''status'', ''vmstat'']"]
  by (simp add: cli_commands_def last_arg_def Let_def)

text \<open>
  C4 (raw, end to end). After a turn of the daemon, \<open>qmemctl raw\<close> run as root prints the text of all enabled services' trees
  and a line feed, and the text parses back to them, when the snapshot fits the message size less the header;
  a longer one that still fits the daemon's buffer is printed as an empty line, with exit status 0.
\<close>

theorem cli_raw_end_to_end:
  fixes d :: "'w daemon" and junk hist
  assumes "daemon_inv d" and "daemon_turn e d = Some d'"
    and "snapshots_wf (turn_collect e d) tr" and "snapshots_ok (turn_collect e d) tr"
  defines "tree \<equiv> snapshot_tree (te_now e) (turn_collect e d) tr"
    and "client \<equiv> \<lambda>path. client_get_snapshot (Some (serve junk (Some (Some (get_snapshot_callback d'))) hist)) True False"
  assumes "length (render tree) < 256 * 1024"
  shows "cli_main D client prog True [] [''raw''] = Cli_exit (0, (if length (render tree) < 256 * 1024 - 16 then render tree else []) @ [LF], []) \<and>
    json_parse (render tree) = Some tree"
proof -
  note written = snapshot_text_of_turn[OF assms(1-4) assms(7)[unfolded tree_def], folded tree_def]
  have "client path = Some (if length (render tree) < 256 * 1024 - 16 then render tree else [])" for path
    unfolding client_def written(1) using get_snapshot_text[OF render_not_nul[OF written(2)], of junk hist] by blast
  then show ?thesis using json_parse_render[OF written(2)] by (simp add: cli_main_def cmd_raw_def)
qed

theorem cli_raw_end_to_end_witness:
  "\<exists>d'. daemon_turn (demo_turn []) demo_ready = Some d' \<and>
     cli_main text_doubles (\<lambda>path. client_get_snapshot (Some (serve [] (Some (Some (get_snapshot_callback d'))) None)) True False) ''qmemctl'' True [] [''raw''] =
       Cli_exit (0, render (reply 7 []) @ [LF], [])"
proof -
  obtain d' where d': "daemon_turn (demo_turn []) demo_ready = Some d'"
    using daemon_turn_state[OF demo_ready_inv] by blast
  have t: "snapshot_tree (te_now (demo_turn [])) (turn_collect (demo_turn []) demo_ready) (\<lambda>s. JNull) = reply 7 []"
    by (simp add: snapshot_tree_def demo_registered) (simp add: demo_turn_def)
  have "length (render (reply 7 [])) < 256 * 1024 - 16"
    by (simp add: key_text_def key_char_def int_str_def nat_str.simps)
  then show ?thesis
    using cli_raw_end_to_end[OF demo_ready_inv d', of "\<lambda>s. JNull" text_doubles "[]" None "''qmemctl''"] d'
    unfolding t by (simp add: snapshots_wf_def snapshots_ok_def demo_registered)
qed

section \<open>The memory report\<close>

text \<open>The text searched for by \<open>json_get_int(memory, "\"value\"")\<close>: the key with quotes around its quotes.\<close>

definition value_pat :: string where
  "value_pat = DQ # DQ # ''value'' @ [DQ, DQ, CHR '':'']"

lemma pat_skip [simp]:
  "c \<noteq> DQ \<Longrightarrow> \<not> starts_with value_pat (c # r)"
  "\<not> starts_with [DQ, CHR ''v''] r \<Longrightarrow> \<not> starts_with value_pat (DQ # r)"
  by (auto simp: value_pat_def starts_with_iff prefix_def)

lemma pat_skips: "DQ \<notin> set a \<Longrightarrow> strstr value_pat (a @ r) = strstr value_pat r"
  by (induction a) auto

lemma no_quoted_v: "after_value r \<Longrightarrow> \<not> starts_with [DQ, CHR ''v''] (concat (map value_char s) @ DQ # r)"
proof (cases s)
  case Nil
  assume "after_value r"
  then show ?thesis using Nil by (cases r) (auto simp: after_value_def)
next
  case (Cons c cs)
  then show ?thesis by (cases c rule: value_char_cases) auto
qed

lemma pat_string: "after_value r \<Longrightarrow> strstr value_pat (concat (map value_char s) @ DQ # r) = strstr value_pat r"
proof (induction s)
  case Nil
  then show ?case by (cases r) (auto simp: after_value_def)
next
  case (Cons c s)
  show ?case
  proof (cases c rule: value_char_cases)
    case 1
    then show ?thesis using Cons no_quoted_v[OF Cons.prems, of s] by simp
  next
    case (2 x y)
    then show ?thesis using Cons pat_skips[of "BSL # x # y"] by simp
  next
    case 3
    then show ?thesis using Cons by simp
  qed
qed

lemma pat_key: "plain_key_text k \<Longrightarrow> strstr value_pat (key_text k @ r) = strstr value_pat r"
proof -
  assume k: "plain_key_text k"
  then have q: "DQ \<notin> set k" by (auto simp: plain_key_text_def)
  have "\<not> starts_with [DQ, CHR ''v''] (k @ DQ # CHR '':'' # r)" using q by (cases k) auto
  then show ?thesis using pat_skips[OF q, of "DQ # CHR '':'' # r"] by (simp add: key_text_plain[OF k] key_pat_def)
qed

lemma pat_join:
  assumes "\<And>t r. t \<in> set ts \<Longrightarrow> after_value r \<Longrightarrow> strstr value_pat (t @ r) = strstr value_pat r" "after_value r"
  shows "strstr value_pat (join_comma ts @ r) = strstr value_pat r"
  using assms(1)
proof (induction ts)
  case (Cons t ts)
  then show ?case using assms(2) by (cases "ts = []") (simp_all add: join_comma_Cons)
qed simp

lemma pat_render: "plain_tree v \<Longrightarrow> after_value r \<Longrightarrow> strstr value_pat (render v @ r) = strstr value_pat r"
proof (induction v arbitrary: r)
  case (JStr s)
  then show ?case using no_quoted_v[of r s] pat_string[of r s] by (simp add: str_text_def)
next
  case (JArr vs)
  have "strstr value_pat (join_comma (map render vs) @ CHR '']'' # r) = strstr value_pat (CHR '']'' # r)"
    using JArr by (intro pat_join) auto
  then show ?case by simp
next
  case (JObj kvs)
  have "strstr value_pat (join_comma (map member_text kvs) @ CHR ''}'' # r) = strstr value_pat (CHR ''}'' # r)"
  proof (rule pat_join)
    fix t r assume t: "t \<in> set (map member_text kvs)" "after_value r"
    then obtain k v where kv: "(k, v) \<in> set kvs" "t = key_text k @ render v" by (auto simp: member_text_def)
    then show "strstr value_pat (t @ r) = strstr value_pat r"
      using JObj.IH[OF kv(1), of v r] JObj.prems(1) pat_key[of k "render v @ r"] t(2) by (fastforce simp: snds.simps)
  qed simp
  then show ?case by (simp add: render_JObj del: render.simps)
next
  case (JNum t)
  then show ?case using pat_skips[of t r] by simp
next
  case (JBool b)
  then show ?case using pat_skips[of "render (JBool b)" r] by simp
next
  case JNull
  then show ?case using pat_skips[of "render JNull" r] by simp
qed

lemma pat_members:
  assumes "plain_tree (JObj kvs)" "after_value r"
  shows "strstr value_pat (more_text (map member_text kvs) r) = strstr value_pat r"
proof -
  have "strstr value_pat (join_comma (map member_text kvs) @ r) = strstr value_pat r"
  proof (rule pat_join[OF _ assms(2)])
    fix t r assume t: "t \<in> set (map member_text kvs)" "after_value r"
    then obtain k v where kv: "(k, v) \<in> set kvs" "t = key_text k @ render v" by (auto simp: member_text_def)
    then have "plain_key_text k" "plain_tree v" using assms(1) by (fastforce, fastforce)
    then show "strstr value_pat (t @ r) = strstr value_pat r"
      using pat_render[of v r] pat_key[of k "render v @ r"] t(2) kv(2) by simp
  qed
  then show ?thesis by (simp add: more_text_def)
qed

lemma no_value_key:
  assumes "plain_tree v" "plain_key_text k" "plain_tree (JObj kvs)" "plain_tree (JObj post)"
  shows "json_get_int (key_text k @ render v @ more_text (map member_text kvs) (CHR ''}'' # behind post)) (DQ # ''value'' @ [DQ]) = 0"
proof -
  have "strstr value_pat (key_text k @ render v @ more_text (map member_text kvs) (CHR ''}'' # behind post)) = None"
    using pat_key[OF assms(2)] pat_render[OF assms(1)] pat_members[OF assms(3)] pat_members[OF assms(4)]
    by (simp add: value_pat_def[THEN arg_cong[where f = "\<lambda>m. m = []"]])
  moreover have "bounded_copy 128 (DQ # (DQ # ''value'' @ [DQ]) @ [DQ, CHR '':'']) = value_pat"
    by (simp add: bounded_copy_fits value_pat_def)
  ultimately show ?thesis unfolding json_get_int_def json_find_key_def by simp
qed

lemma get_int_key:
  assumes "plain_key_text k" "plain_key_text f" "f \<noteq> k" "length f < 124"
  shows "json_get_int (key_text k @ x) f = json_get_int x f"
  using find_key_occs[OF assms(4), of "key_text k @ x" NUL] find_key_occs[OF assms(4), of x "CHR '':''"]
    occs_key_text[OF assms(2,1), of NUL x] assms(3) by (simp add: json_get_int_def)

lemma meminfo_keys [simp]:
  "plain_key_text ''meminfo''" "plain_key_text ''memory''" "plain_key_text ''available_kb''" "plain_key_text ''total_kb''"
  "plain_key_text ''value''" "plain_key_text ''delta''" "plain_key_text ''usage_percent''" "plain_key_text ''free_kb''"
  "plain_key_text ''buffers_kb''" "plain_key_text ''cached_kb''" "plain_key_text ''kernel''" "plain_key_text ''activity''"
  by (simp_all add: plain_key_text_def)

lemma delta_member_tree [simp]: "plain_tree (snd (delta_member n c p))" "fst (delta_member n c p) = n"
  by (cases p; simp add: delta_member_def)+

lemma meminfo_shape:
  assumes "mi_has_previous s"
  obtains tot rest more where
    "meminfo_tree fmt s = JObj ((''usage_percent'', JNum (fmt (usage_percent (mi_current s)))) #
      (''memory'', JObj ((''total_kb'', tot) # (''available_kb'', JObj [(''value'', JInt (mem_available_kb (mi_current s))),
        (''delta'', JInt (mem_available_kb (mi_current s) - mem_available_kb (mi_previous s)))]) # rest)) # more)"
    "set (tree_keys tot) = {''value'', ''delta''}"
proof (rule that)
  show "set (tree_keys (JObj [(''value'', JInt (mem_total_kb (mi_current s))),
      (''delta'', JInt (mem_total_kb (mi_current s) - mem_total_kb (mi_previous s)))])) = {''value'', ''delta''}" by simp
qed (use assms in \<open>simp add: meminfo_tree_def meminfo_view_def Let_def delta_member_def meminfo_get_simps\<close>)

text \<open>
  Also (memory report). For the snapshot of a memory monitor that has collected twice and whose numbers fit, the memory report of
  \<open>qmemctl status\<close> shows the usage, the available memory and its change, and a total of 0 KB whatever the total is: the key it looks for is
  quoted twice and occurs in no snapshot.
\<close>

theorem status_total_zero:
  assumes "plain_tree (JObj (pre @ (''meminfo'', meminfo_tree fmt s) # post))" and "''meminfo'' \<notin> set (tree_keys (JObj pre))"
    and "mi_has_previous s" and "in_int64 (mem_available_kb (mi_current s))"
    and "in_int64 (mem_available_kb (mi_current s) - mem_available_kb (mi_previous s))"
    and "num_ok (fmt (usage_percent (mi_current s)))" and "\<And>t. after_value t \<Longrightarrow> d_strtod D (fmt (usage_percent (mi_current s)) @ t) = u"
  shows "status_meminfo D (render (reply now (pre @ (''meminfo'', meminfo_tree fmt s) # post))) =
    [LF] @ YELLOW @ ''=== QMem Memory Status ==='' @ NC @ [LF] @ ''Memory Usage: '' @ YELLOW @ d_print D 2 u @ ''%'' @ NC @ [LF, LF] @
    ''Total:     0 KB'' @ [LF] @ ''Available: '' @ cli_format_kb 32 (mem_available_kb (mi_current s)) @ '' ('' @
    cli_format_delta 64 (mem_available_kb (mi_current s) - mem_available_kb (mi_previous s)) @ '')'' @ [LF]"
proof -
  let ?a = "mem_available_kb (mi_current s)" and ?d = "mem_available_kb (mi_current s) - mem_available_kb (mi_previous s)"
  let ?u = "fmt (usage_percent (mi_current s))" and ?b = "behind post"
  obtain tot rest more where tree: "meminfo_tree fmt s = JObj ((''usage_percent'', JNum ?u) #
      (''memory'', JObj ((''total_kb'', tot) # (''available_kb'', JObj [(''value'', JInt ?a), (''delta'', JInt ?d)]) # rest)) # more)"
    and tot: "set (tree_keys tot) = {''value'', ''delta''}"
    using meminfo_shape[OF assms(3), of fmt] by metis
  let ?mem = "JObj ((''total_kb'', tot) # (''available_kb'', JObj [(''value'', JInt ?a), (''delta'', JInt ?d)]) # rest)"
  let ?r = "more_text (map member_text more) (CHR ''}'' # ?b)"
  have plain: "plain_tree (meminfo_tree fmt s)" "plain_tree (JObj post)" using assms(1) by auto
  have pm: "plain_tree ?mem" "plain_tree (JObj more)" "plain_tree (JObj rest)" "plain_tree tot" using plain(1) tree by auto
  have f0: "find_section (render (reply now (pre @ (''meminfo'', meminfo_tree fmt s) # post))) ''meminfo'' =
      Some (key_text ''meminfo'' @ render (meminfo_tree fmt s) @ ?b)"
    using section_in_snapshot[OF assms(1,2)] by simp
  have f1: "find_section (key_text ''meminfo'' @ render (meminfo_tree fmt s) @ ?b) ''memory'' = Some (key_text ''memory'' @ render ?mem @ ?r)"
    using section_in_section[of "''meminfo''" "''memory''" "[(''usage_percent'', JNum ?u)]" ?mem more ?b] plain(1) tree by (simp del: render.simps)
  have r: "after_value ?r" by simp
  have f2: "find_section (key_text ''memory'' @ render ?mem @ ?r) ''available_kb'' =
      Some (key_text ''available_kb'' @ render (JObj [(''value'', JInt ?a), (''delta'', JInt ?d)]) @ more_text (map member_text rest) (CHR ''}'' # ?r))"
    using section_in_section[of "''memory''" "''available_kb''" "[(''total_kb'', tot)]" "JObj [(''value'', JInt ?a), (''delta'', JInt ?d)]" rest ?r, OF _ _ _ _ r] pm(1) tot
    by (simp del: render.simps)
  have fo: "flat_obj [(''value'', JInt ?a), (''delta'', JInt ?d)]" by (simp add: flat_obj_def)
  have v: "json_get_int (key_text ''available_kb'' @ render (JObj [(''value'', JInt ?a), (''delta'', JInt ?d)]) @ x) ''value'' = ?a"
    "json_get_int (key_text ''available_kb'' @ render (JObj [(''value'', JInt ?a), (''delta'', JInt ?d)]) @ x) ''delta'' = ?d"
    if "after_value x" for x
    using row_int[OF fo, of "''value''" x ?a] row_int[OF fo, of "''delta''" x ?d] that assms(4,5) get_int_key[of "''available_kb''"]
    by (simp_all del: render.simps)
  have z: "json_get_int (key_text ''memory'' @ render ?mem @ ?r) (DQ # ''value'' @ [DQ]) = 0"
    by (rule no_value_key) (use pm plain in simp_all)
  have u: "json_get_double D (key_text ''meminfo'' @ render (meminfo_tree fmt s) @ ?b) ''usage_percent'' = u"
  proof -
    have "find_section (key_text ''meminfo'' @ render (meminfo_tree fmt s) @ ?b) ''usage_percent'' =
        Some (key_text ''usage_percent'' @ ?u @ more_text (map member_text ((''memory'', ?mem) # more)) (CHR ''}'' # ?b))"
      using section_in_section[of "''meminfo''" "''usage_percent''" "[]" "JNum ?u" "(''memory'', ?mem) # more" ?b] plain(1) tree by (simp del: render.simps(5,6))
    moreover have "?u \<noteq> [] \<and> \<not> isspace (hd ?u)" using assms(6) by (cases ?u) (auto simp: num_ok_def num_char_def isspace_def isdigit_def Let_def)
    ultimately show ?thesis
      using assms(7) value_after_key[of "''usage_percent''" ?u]
      by (simp add: json_get_double_def json_find_key_def find_section_def bounded_copy_fits)
  qed
  have k: "cli_format_kb 32 0 = ''0 KB''" by (simp add: cli_format_kb_def kb_text_def int_str_def nat_str.simps bounded_copy_fits)
  show ?thesis
    unfolding status_meminfo_def f0 f1 f2 option.case z u k Let_def
    using v[of "more_text (map member_text rest) (CHR ''}'' # ?r)"] by (simp del: render.simps)
qed

definition demo_memory :: "string meminfo" where
  "demo_memory = (let d = (meminfo_zero ''7'')\<lparr>mem_total_kb := 9, mem_available_kb := 5\<rparr>
     in \<lparr>mi_current = d, mi_previous = d\<lparr>mem_available_kb := 6\<rparr>, mi_has_previous = True\<rparr>)"

theorem status_total_zero_witness:
  "status_meminfo text_doubles (render (reply 7 [(''meminfo'', meminfo_tree (\<lambda>x. x) demo_memory)])) =
    [LF] @ YELLOW @ ''=== QMem Memory Status ==='' @ NC @ [LF] @ ''Memory Usage: '' @ YELLOW @ ''7%'' @ NC @ [LF, LF] @
    ''Total:     0 KB'' @ [LF] @ ''Available: '' @ cli_format_kb 32 5 @ '' ('' @ cli_format_delta 64 (- 1) @ '')'' @ [LF]"
proof -
  have d: "mi_has_previous demo_memory" "mem_available_kb (mi_current demo_memory) = 5" "mem_available_kb (mi_previous demo_memory) = 6"
    "usage_percent (mi_current demo_memory) = ''7''"
    by (simp_all add: demo_memory_def Let_def meminfo_zero_def)
  have p: "plain_tree (JObj ([] @ (''meminfo'', meminfo_tree (\<lambda>x. x) demo_memory) # []))"
    by (simp add: meminfo_tree_def meminfo_view_def Let_def d(4)) (simp add: plain_key_text_def)
  have u: "d_strtod text_doubles (''7'' @ t) = ''7''" if "after_value t" for t
    using that by (cases t) (auto simp: text_doubles_def isdigit_def after_value_def)
  show ?thesis
    using status_total_zero[OF p _ d(1), of text_doubles "''7''" 7, unfolded d(2-4)] u
    by (simp add: in_int64_def num_ok_def num_char_def isdigit_def text_doubles_def del: render.simps)
qed

end
