(* ===== verification/CliMemleak.thy ===== *)
theory CliMemleak
  imports CliMain Memleak
begin

text \<open>
  The memory report of the command line tool (\<open>cmd_memleak\<close>) for the report of the memleak service: every part of what it prints.
\<close>

section \<open>Keys that do not occur\<close>

lemma occs_more_elts:
  assumes "plain_key_text k" "\<forall>v \<in> set vs. plain_tree v" "after_value r"
  shows "occs (key_pat k) p (more_text (map render vs) r) = elt_occs k vs r @ occs (key_pat k) q r"
proof (cases "vs = []")
  case True
  then show ?thesis using occs_after_value[OF assms(3)] by (simp add: more_text_def)
next
  case False
  have "occs (key_pat k) CHR '','' (join_comma (map render vs) @ r) = elt_occs k vs r @ occs (key_pat k) q r"
    using assms by (intro occs_join) (auto intro!: occs_render)
  then show ?thesis using False by (simp add: more_text_def occs_bracket)
qed

lemma absent_int: "length k < 124 \<Longrightarrow> occs (key_pat k) p x = [] \<Longrightarrow> json_get_int x k = 0"
  using find_key_occs[of k x p] by (simp add: json_get_int_def)

section \<open>Rows\<close>

definition usage_row :: "heap_usage \<Rightarrow> (string \<times> jval) list" where
  "usage_row e = [(''pid'', JInt (he_pid e)), (''cmd'', JStr (he_cmd e)), (''rss_kb'', JInt (he_rss e)),
     (''rss_delta_kb'', JInt (he_rss_delta e)), (''heap_rss_kb'', JInt (he_heap_rss e)), (''heap_delta_kb'', JInt (he_heap_rss_delta e)),
     (''heap_pd_kb'', JInt (he_heap_pd e)), (''heap_size_kb'', JInt (he_heap_size e))]"

definition cache_row :: "slab_entry \<Rightarrow> (string \<times> jval) list" where
  "cache_row e = [(''cache'', JStr (se_name e)), (''total_bytes'', JInt (se_size_bytes e)), (''delta_bytes'', JInt (se_delta_bytes e)),
     (''active_objs'', JInt (se_num_objs e)), (''delta_objs'', JInt (se_delta_objs e))]"

lemma memleak_rows: "map process_usage_tree es = map JObj (map usage_row es)" "map kernel_usage_tree cs = map JObj (map cache_row cs)"
  by (simp_all add: process_usage_tree_def usage_row_def kernel_usage_tree_def cache_row_def)

lemma memleak_keys [simp]:
  "plain_key_text ''heap_rss_kb''" "plain_key_text ''heap_delta_kb''" "plain_key_text ''heap_pd_kb''" "plain_key_text ''heap_size_kb''"
  "plain_key_text ''heap_pd_delta_kb''" "plain_key_text ''initial_rss_kb''" "plain_key_text ''initial_heap_rss_kb''"
  "plain_key_text ''cache''" "plain_key_text ''total_bytes''" "plain_key_text ''delta_bytes''" "plain_key_text ''active_objs''"
  "plain_key_text ''delta_objs''" "plain_key_text ''memleak''" "plain_key_text ''memory_summary''" "plain_key_text ''kernel_leaks''"
  "plain_key_text ''user_leaks''" "plain_key_text ''process_usage''" "plain_key_text ''kernel_usage''"
  by (simp_all add: plain_key_text_def)

lemma memleak_tree_plain [simp]: "plain_tree (memleak_tree w)"
  by (cases w) (auto simp: memleak_tree_def memory_summary_tree_def kernel_leak_tree_def user_leak_tree_def process_usage_tree_def kernel_usage_tree_def)

lemma memleak_rows_ok: "row_ok ''pid'' (usage_row e)" "row_ok ''cache'' (cache_row c)"
  by (auto simp: row_ok_def flat_obj_def usage_row_def cache_row_def)

definition usage_fits :: "heap_usage \<Rightarrow> bool" where
  "usage_fits e \<longleftrightarrow> list_all in_int64 [he_pid e, he_rss e, he_heap_rss e, he_heap_size e]"

definition cache_fits :: "slab_entry \<Rightarrow> bool" where
  "cache_fits e \<longleftrightarrow> list_all in_int64 [se_size_bytes e, se_delta_bytes e, se_num_objs e, se_delta_objs e]"

text \<open>What a row shows: the initial sizes are 0, so each change is the whole size.\<close>

definition usage_text :: "heap_usage \<Rightarrow> string" where
  "usage_text e =
     columns [(8, int_str (he_pid e)), (12, cli_format_kb 32 (he_rss e)), (12, cli_format_kb 32 0)] @ '' '' @ print_delta_col (he_rss e) 12 @
     columns [(12, cli_format_kb 32 (he_heap_rss e)), (12, cli_format_kb 32 0)] @ '' '' @ print_delta_col (he_heap_rss e) 12 @
     columns [(12, cli_format_kb 32 (he_heap_size e)), (0, shown 127 (he_cmd e))] @ [LF]"

definition cache_text :: "slab_entry \<Rightarrow> string" where
  "cache_text e =
     columns [(24, shown 63 (se_name e)), (12, cli_format_kb 32 (tdiv (se_size_bytes e) 1024))] @ '' '' @
     print_delta_col (tdiv (se_delta_bytes e) 1024) 12 @ columns [(12, int_str (se_num_objs e))] @ '' '' @ print_delta_col (se_delta_objs e) 12 @ [LF]"

lemma usage_row_text:
  assumes "usage_fits e" "after_value t" "\<forall>k \<in> {''initial_rss_kb'', ''initial_heap_rss_kb''}. occs (key_pat k) NUL t = []"
  shows "process_usage_row (render (JObj (usage_row e)) @ t) = usage_text e"
proof -
  have f: "flat_obj (usage_row e)" using memleak_rows_ok(1)[of e] by (simp add: row_ok_def)
  have i: "json_get_int (render (JObj (usage_row e)) @ t) k = i"
    if "(k, i) \<in> {(''pid'', he_pid e), (''rss_kb'', he_rss e), (''heap_rss_kb'', he_heap_rss e), (''heap_size_kb'', he_heap_size e)}" for k i
    by (rule row_int[OF f _ _ assms(2)]) (use that assms(1) in \<open>auto simp: usage_row_def usage_fits_def\<close>)
  have n: "json_get_int (render (JObj (usage_row e)) @ t) k = 0" if "k \<in> {''initial_rss_kb'', ''initial_heap_rss_kb''}" for k
  proof -
    have "json_get_int (render (JObj (usage_row e)) @ t) k = json_get_int t k"
      by (rule row_int_absent[OF f _ _ assms(2)]) (use that in \<open>auto simp: usage_row_def\<close>)
    then show ?thesis using that assms(3) absent_int[of k NUL t] by auto
  qed
  have "extract_str ''cmd'' 127 ''unknown'' (render (JObj (usage_row e)) @ t) = shown 127 (he_cmd e)"
    by (rule row_str[OF f _ assms(2)]) (auto simp: usage_row_def)
  then show ?thesis using i n by (simp add: process_usage_row_def usage_text_def Let_def del: render.simps)
qed

lemma usage_rows:
  assumes "list_all usage_fits es" "after_value r" "\<forall>k \<in> {''initial_rss_kb'', ''initial_heap_rss_kb''}. occs (key_pat k) NUL r = []"
  shows "concat (map process_usage_row (row_texts (map usage_row es) r)) = concat (map usage_text es)"
  using assms(1)
proof (induction es)
  case (Cons e es)
  let ?t = "more_text (map (\<lambda>k. render (JObj k)) (map usage_row es)) r"
  have "occs (key_pat k) NUL ?t = []" if k: "k \<in> {''initial_rss_kb'', ''initial_heap_rss_kb''}" for k
  proof -
    have "occs (key_pat k) NUL (more_text (map render (map (\<lambda>e. JObj (usage_row e)) es)) r) =
        elt_occs k (map (\<lambda>e. JObj (usage_row e)) es) r @ occs (key_pat k) NUL r"
      using k assms(2) by (intro occs_more_elts) (auto simp: usage_row_def)
    moreover have "elt_occs k (map (\<lambda>e. JObj (usage_row e)) es) r = []"
      using k by (intro elt_occs_none) (auto simp: usage_row_def)
    ultimately show ?thesis using assms(3) k by (auto simp add: comp_def simp del: render.simps)
  qed
  then have "process_usage_row (render (JObj (usage_row e)) @ ?t) = usage_text e"
    using Cons.prems assms(2) by (intro usage_row_text) auto
  then show ?case using Cons by (simp del: render.simps)
qed simp

lemma cache_row_text: "cache_fits e \<Longrightarrow> after_value t \<Longrightarrow> slab_usage_row (render (JObj (cache_row e)) @ t) = cache_text e"
proof -
  assume e: "cache_fits e" and t: "after_value t"
  have f: "flat_obj (cache_row e)" using memleak_rows_ok(2)[of e] by (simp add: row_ok_def)
  have "json_get_int (render (JObj (cache_row e)) @ t) k = i"
    if "(k, i) \<in> {(''total_bytes'', se_size_bytes e), (''delta_bytes'', se_delta_bytes e), (''active_objs'', se_num_objs e), (''delta_objs'', se_delta_objs e)}" for k i
    by (rule row_int[OF f _ _ t]) (use that e in \<open>auto simp: cache_row_def cache_fits_def\<close>)
  moreover have "extract_str ''cache'' 63 ''unknown'' (render (JObj (cache_row e)) @ t) = shown 63 (se_name e)"
    by (rule row_str[OF f _ t]) (auto simp: cache_row_def)
  ultimately show ?thesis by (simp add: slab_usage_row_def cache_text_def del: render.simps)
qed

section \<open>The report\<close>

definition memory_text :: "meminfo_status \<Rightarrow> string" where
  "memory_text st = BOLD @ ''System Memory:'' @ NC @ '' Total: '' @ cli_format_kb 32 (st_total_kb st) @ ''  Used: '' @
     cli_format_kb 32 (st_total_kb st - st_free_kb st - st_cached_kb st) @ ''  Available: '' @ cli_format_kb 32 (st_available_kb st) @ [LF, LF]"

definition status_fits :: "meminfo_status \<Rightarrow> bool" where
  "status_fits st \<longleftrightarrow> list_all in_int64 [st_total_kb st, st_free_kb st, st_available_kb st, st_cached_kb st]"

definition usage_head :: string where
  "usage_head = BOLD @ ''Top Process Memory (Absolute)'' @ NC @ [LF] @
     columns [(8, ''PID''), (12, ''Total RSS''), (12, ''Initial''), (12, ''Change''), (12, ''Heap RSS''), (12, ''Initial''),
       (12, ''Change''), (12, ''Heap Size''), (0, ''Command'')] @ [LF] @ print_separator"

definition cache_head :: string where
  "cache_head = BOLD @ ''Top Slab Cache (Absolute)'' @ NC @ [LF] @
     columns [(24, ''Cache Name''), (12, ''Total Size''), (12, ''Delta''), (12, ''Objects''), (12, ''Obj Delta'')] @ [LF] @ print_separator"

definition leak_warning :: string where
  "leak_warning = RED @ BOLD @ ''POSSIBLE USER LEAKS DETECTED!'' @ NC @ [LF] @
     ''(Run '' @ [CHR 0x27] @ ''qmemctl watch memleak'' @ [CHR 0x27] @ '' for detailed leak list if any)'' @ [LF, LF]"

lemma memory_line_text:
  assumes "status_fits st" "after_value r"
  shows "memory_line (key_text ''memory_summary'' @ render (memory_summary_tree st) @ r) = memory_text st"
proof -
  let ?o = "[(''total_kb'', JInt (st_total_kb st)), (''free_kb'', JInt (st_free_kb st)), (''available_kb'', JInt (st_available_kb st)),
    (''cached_kb'', JInt (st_cached_kb st))]"
  have f: "flat_obj ?o" by (simp add: flat_obj_def)
  have "json_get_int (key_text ''memory_summary'' @ render (JObj ?o) @ r) k = i"
    if "(k, i) \<in> {(''total_kb'', st_total_kb st), (''free_kb'', st_free_kb st), (''available_kb'', st_available_kb st), (''cached_kb'', st_cached_kb st)}" for k i
  proof -
    have "json_get_int (key_text ''memory_summary'' @ render (JObj ?o) @ r) k = json_get_int (render (JObj ?o) @ r) k"
      by (rule get_int_key) (use that in auto)
    also have "\<dots> = i" by (rule row_int[OF f _ _ assms(2)]) (use that assms(1) in \<open>auto simp: status_fits_def\<close>)
    finally show ?thesis .
  qed
  then show ?thesis by (simp add: memory_line_def memory_text_def memory_summary_tree_def Let_def del: render.simps)
qed

lemma table_starts_array:
  assumes "plain_key_text f" "\<forall>kvs \<in> set rows. row_ok f kvs" "after_value r" "plain_key_text k" "CHR ''['' \<notin> set k"
  shows "table_starts (obj_pat f) (key_text k @ render (JArr (map JObj rows)) @ r) = row_texts rows (CHR '']'' # r) @ row_starts (obj_pat f) r"
proof -
  have "CHR ''['' \<notin> set (key_text k)" using assms(5) by (simp add: key_text_plain[OF assms(4)] key_pat_def)
  then have "strchr CHR ''['' (key_text k @ render (JArr (map JObj rows)) @ r) = Some (render (JArr (map JObj rows)) @ r)"
    using Prelude.strchr_append[of "CHR ''[''" "key_text k" "join_comma (map render (map JObj rows)) @ CHR '']'' # r"] by simp
  moreover have "plain_tree (JArr (map JObj rows))" using assms(2) by (auto simp: row_ok_def flat_obj_def)
  ultimately show ?thesis
    using row_starts_tree[OF assms(1) _ assms(3), of "JArr (map JObj rows)"] table_key_occs[OF assms(2)] by (simp add: table_starts_def del: render.simps)
qed

lemma row_texts_Nil: "row_texts rows r = [] \<longleftrightarrow> rows = []"
  by (cases rows) simp_all

text \<open>The member \<open>f\<close> of an object whose text stands behind a key.\<close>

lemma members_after:
  assumes "plain_tree (JObj ms)" "plain_tree (JObj post)" "f \<notin> set (tree_keys (JObj ms))" "f \<notin> set (tree_keys (JObj post))" "plain_key_text f"
  shows "row_starts (obj_pat f) (more_text (map member_text ms) (CHR ''}'' # behind post)) = []"
    and "occs (key_pat f) p (more_text (map member_text ms) (CHR ''}'' # behind post)) = []"
  using row_starts_members[OF assms(1,5), of "CHR ''}'' # behind post"] mem_occs_none[OF assms(3)] row_starts_behind[OF assms(2,5,4)]
    occs_more_members[OF assms(5,1), of "CHR ''}'' # behind post" p NUL] key_behind[OF assms(2,5,4), of "''}''" NUL] by simp_all

lemma strstr_rows: "m \<noteq> [] \<Longrightarrow> strstr m s = None \<longleftrightarrow> row_starts m s = []"
  using strstr_occs[of m s NUL] row_starts_occs[of m s NUL] by (auto split: list.splits)

definition leak_row :: "heapmon_entry \<Rightarrow> (string \<times> jval) list" where
  "leak_row e = [(''pid'', JInt (he_pid e)), (''cmd'', JStr (he_cmd e)), (''rss_kb'', JInt (he_rss e)),
     (''rss_delta_kb'', JInt (he_rss_delta e)), (''heap_rss_kb'', JInt (he_heap_rss e)), (''heap_delta_kb'', JInt (he_heap_rss_delta e)),
     (''heap_pd_kb'', JInt (he_heap_pd e)), (''heap_pd_delta_kb'', JInt (he_heap_pd_delta e)), (''heap_size_kb'', JInt (he_heap_size e))]"

lemma leak_rows: "map user_leak_tree es = map JObj (map leak_row es)" "row_ok ''pid'' (leak_row e)"
  by (auto simp: user_leak_tree_def leak_row_def row_ok_def flat_obj_def)

abbreviation usage_members :: "heap_usage list \<Rightarrow> slab_entry list \<Rightarrow> (string \<times> jval) list" where
  "usage_members consumers caches \<equiv>
     [(''process_usage'', JArr (map JObj (map usage_row consumers))), (''kernel_usage'', JArr (map JObj (map cache_row caches)))]"

lemma usage_members_plain: "plain_tree (JObj (usage_members us cs))" "plain_tree (JObj (tl (usage_members us cs)))"
  by (auto simp: usage_row_def cache_row_def)

lemma kernel_keys: "{''pid'', ''initial_rss_kb'', ''initial_heap_rss_kb''} \<inter> set (tree_keys (JObj (tl (usage_members us cs)))) = {}"
  by (auto simp: cache_row_def)

text \<open>The table of processes ends with its array, the one of caches too, and the search for leaks goes through the processes.\<close>

lemma usage_table:
  fixes cs
  assumes "list_all usage_fits us" "plain_tree (JObj post)" "{''pid'', ''initial_rss_kb'', ''initial_heap_rss_kb''} \<inter> set (tree_keys (JObj post)) = {}"
  defines "u \<equiv> key_text ''process_usage'' @ render (JArr (map JObj (map usage_row us))) @ more_text (map member_text (tl (usage_members us cs))) (CHR ''}'' # behind post)"
  shows "table_rows (obj_pat ''pid'') process_usage_row u = concat (map usage_text us)" "table_starts (obj_pat ''pid'') u = [] \<longleftrightarrow> us = []"
proof -
  let ?r = "more_text (map member_text (tl (usage_members us cs))) (CHR ''}'' # behind post)"
  note m = members_after[OF usage_members_plain(2) assms(2), where us1 = us and cs1 = cs]
  have n: "row_starts (obj_pat ''pid'') ?r = []" using kernel_keys[of us cs] assms(3) by (intro m) (blast, blast, simp)
  have "occs (key_pat k) CHR '']'' ?r = []" if "k \<in> {''initial_rss_kb'', ''initial_heap_rss_kb''}" for k
    using kernel_keys[of us cs] assms(3) that by (intro m) (blast, blast, auto)
  then have o: "\<forall>k \<in> {''initial_rss_kb'', ''initial_heap_rss_kb''}. occs (key_pat k) NUL (CHR '']'' # ?r) = []" by (simp add: occs_bracket)
  have t: "table_starts (obj_pat ''pid'') u = row_texts (map usage_row us) (CHR '']'' # ?r)"
    unfolding u_def using table_starts_array[of "''pid''" "map usage_row us" ?r "''process_usage''"] memleak_rows_ok(1) n by (simp del: render.simps map_map)
  then show "table_starts (obj_pat ''pid'') u = [] \<longleftrightarrow> us = []" by (simp add: row_texts_Nil)
  show "table_rows (obj_pat ''pid'') process_usage_row u = concat (map usage_text us)"
    unfolding table_rows_def t by (rule usage_rows[OF assms(1) _ o]) simp
qed

lemma cache_table:
  assumes "list_all cache_fits cs" "plain_tree (JObj post)" "''cache'' \<notin> set (tree_keys (JObj post))"
  defines "u \<equiv> key_text ''kernel_usage'' @ render (JArr (map JObj (map cache_row cs))) @ CHR ''}'' # behind post"
  shows "table_rows (obj_pat ''cache'') slab_usage_row u = concat (map cache_text cs)" "table_starts (obj_pat ''cache'') u = [] \<longleftrightarrow> cs = []"
proof -
  have t: "table_starts (obj_pat ''cache'') u = row_texts (map cache_row cs) (CHR '']'' # CHR ''}'' # behind post)"
    unfolding u_def using table_starts_array[of "''cache''" "map cache_row cs" "CHR ''}'' # behind post" "''kernel_usage''"] memleak_rows_ok(2)
      row_starts_behind[OF assms(2) _ assms(3)] by (simp del: render.simps map_map)
  then show "table_starts (obj_pat ''cache'') u = [] \<longleftrightarrow> cs = []" by (simp add: row_texts_Nil)
  show "table_rows (obj_pat ''cache'') slab_usage_row u = concat (map cache_text cs)"
    unfolding table_rows_def t by (rule rows_printed) (use assms(1) cache_row_text in \<open>auto simp: list_all_iff simp del: render.simps\<close>)
qed

lemma leak_search:
  fixes es us cs
  assumes "plain_tree (JObj post)" "''pid'' \<notin> set (tree_keys (JObj post))"
  defines "u \<equiv> key_text ''user_leaks'' @ render (JArr (map JObj (map leak_row es))) @ more_text (map member_text (usage_members us cs)) (CHR ''}'' # behind post)"
  shows "\<exists>bracket. strchr CHR ''['' u = Some bracket \<and> (strstr (obj_pat ''pid'') bracket = None \<longleftrightarrow> es = [] \<and> us = [])"
proof -
  let ?r = "more_text (map member_text (usage_members us cs)) (CHR ''}'' # behind post)"
  have "row_starts (obj_pat ''pid'') ?r = row_texts (map usage_row us) (CHR '']'' # more_text (map member_text (tl (usage_members us cs))) (CHR ''}'' # behind post)) @
      obj_starts (mem_occs ''pid'' CHR '','' (tl (usage_members us cs)) (CHR ''}'' # behind post))"
    using row_starts_members[OF usage_members_plain(1)[of us cs], of "''pid''" "CHR ''}'' # behind post"] row_starts_behind[OF assms(1) _ assms(2)]
      table_members[of "''process_usage''" "''pid''" "map usage_row us" "CHR '',''" "tl (usage_members us cs)" "CHR ''}'' # behind post"] memleak_rows_ok(1)
    by (simp add: list_all_iff del: render.simps map_map mem_occs.simps(2))
  moreover have "mem_occs ''pid'' CHR '','' (tl (usage_members us cs)) (CHR ''}'' # behind post) = []"
    by (rule mem_occs_none) (use kernel_keys in blast)
  ultimately have r: "row_starts (obj_pat ''pid'') ?r = [] \<longleftrightarrow> us = []" by (simp add: row_texts_Nil)
  have ts: "table_starts (obj_pat ''pid'') u = row_texts (map leak_row es) (CHR '']'' # ?r) @ row_starts (obj_pat ''pid'') ?r"
    unfolding u_def using table_starts_array[of "''pid''" "map leak_row es" ?r "''user_leaks''"] leak_rows(2) by (simp del: render.simps map_map)
  obtain b where b: "strchr CHR ''['' u = Some b"
    using bracket_found[of "key_text ''user_leaks''" "map JObj (map leak_row es)" ?r] unfolding u_def by blast
  then have "strstr (obj_pat ''pid'') b = None \<longleftrightarrow> table_starts (obj_pat ''pid'') u = []"
    using strstr_rows[of "obj_pat ''pid''" b] by (simp add: table_starts_def obj_pat_def)
  then show ?thesis using b ts r by (auto simp: row_texts_Nil)
qed

text \<open>
  C13 (memleak report). For the report of the memleak service, with numbers that fit and no later service with processes or caches,
  \<open>qmemctl status memleak\<close> prints the memory summary and every row of the two tables. But the initial sizes of the processes are not part of the
  snapshot: they are shown as 0 and the whole size of a process as its growth; and the warning of possible leaks is printed as soon as any process is
  listed, because the search behind \<open>user_leaks\<close> runs on into the table of the largest processes.
\<close>

theorem cmd_memleak_report:
  assumes "client path = Some (render (reply now (pre @ (''memleak'', memleak_tree (st, growers, entries, consumers, caches)) # post)))"
    and "plain_tree (JObj pre)" and "plain_tree (JObj post)" and "''memleak'' \<notin> set (tree_keys (JObj pre))"
    and "{''pid'', ''cache'', ''initial_rss_kb'', ''initial_heap_rss_kb''} \<inter> set (tree_keys (JObj post)) = {}"
    and "status_fits st" and "list_all usage_fits consumers" and "list_all cache_fits caches"
  shows "cmd_memleak client path = (0, heading ''Memory Leak / Usage Report'' @ [LF] @ memory_text st @
      usage_head @ concat (map usage_text consumers) @ (if consumers = [] then ''(No process data available)'' @ [LF] else []) @ [LF] @
      cache_head @ concat (map cache_text caches) @ (if caches = [] then ''(No slab data available)'' @ [LF] else []) @ [LF] @
      (if entries = [] \<and> consumers = [] then [] else leak_warning), [])"
proof -
  let ?t = "memleak_tree (st, growers, entries, consumers, caches)" and ?b = "behind post"
  let ?ms = "(''memory_summary'', memory_summary_tree st)" and ?kl = "(''kernel_leaks'', JArr (map kernel_leak_tree growers))"
  let ?ul = "(''user_leaks'', JArr (map JObj (map leak_row entries)))"
  let ?pu = "(''process_usage'', JArr (map JObj (map usage_row consumers)))" and ?ku = "(''kernel_usage'', JArr (map JObj (map cache_row caches)))"
  let ?m = "key_text ''memleak'' @ render ?t @ ?b"
  have t: "?t = JObj [?ms, ?kl, ?ul, ?pu, ?ku]" by (simp add: memleak_tree_def memleak_rows leak_rows(1) del: map_map)
  have pt: "plain_tree (JObj [?ms, ?kl, ?ul, ?pu, ?ku])" using memleak_tree_plain[of "(st, growers, entries, consumers, caches)"] by (simp only: t)
  have p: "plain_tree (JObj (pre @ (''memleak'', ?t) # post))" using assms(2,3) by auto
  have b: "after_value ?b" by simp
  have keys: "set (tree_keys (JObj [?ms, ?kl, ?ul])) \<inter> {''process_usage'', ''kernel_usage''} = {}"
    "set (tree_keys (JObj [?ms, ?kl])) \<inter> {''user_leaks''} = {}" "''kernel_usage'' \<notin> set (tree_keys (JObj [?pu]))"
    by (auto simp: memory_summary_tree_def kernel_leak_tree_def leak_row_def usage_row_def)
  have f0: "find_section (render (reply now (pre @ (''memleak'', ?t) # post))) ''memleak'' = Some ?m"
    by (rule section_in_snapshot[OF p assms(4)]) simp
  have f1: "find_section ?m ''memory_summary'' = Some (key_text ''memory_summary'' @ render (memory_summary_tree st) @ more_text (map member_text [?kl, ?ul, ?pu, ?ku]) (CHR ''}'' # ?b))"
    unfolding t using section_in_section[of "''memleak''" "''memory_summary''" "[]" _ "[?kl, ?ul, ?pu, ?ku]", OF _ _ _ _ b] pt by (simp del: render.simps)
  have f2: "find_section ?m ''process_usage'' = Some (key_text ''process_usage'' @ render (snd ?pu) @ more_text (map member_text [?ku]) (CHR ''}'' # ?b))"
    unfolding t using section_in_section[of "''memleak''" "''process_usage''" "[?ms, ?kl, ?ul]" _ "[?ku]", OF _ _ _ _ b] pt keys by (simp del: render.simps tree_keys.simps)
  have "''kernel_usage'' \<notin> set (tree_keys (JObj [?ms, ?kl, ?ul, ?pu]))" using keys(1,3) by auto
  then have f3: "find_section ?m ''kernel_usage'' = Some (key_text ''kernel_usage'' @ render (snd ?ku) @ CHR ''}'' # ?b)"
    unfolding t using section_in_section[of "''memleak''" "''kernel_usage''" "[?ms, ?kl, ?ul, ?pu]" _ "[]", OF _ _ _ _ b] pt
    by (simp add: more_text_def del: render.simps tree_keys.simps)
  have f4: "find_section ?m ''user_leaks'' = Some (key_text ''user_leaks'' @ render (snd ?ul) @ more_text (map member_text [?pu, ?ku]) (CHR ''}'' # ?b))"
    unfolding t using section_in_section[of "''memleak''" "''user_leaks''" "[?ms, ?kl]" _ "[?pu, ?ku]", OF _ _ _ _ b] pt keys by (simp del: render.simps tree_keys.simps)
  have posts: "{''pid'', ''initial_rss_kb'', ''initial_heap_rss_kb''} \<inter> set (tree_keys (JObj post)) = {}" "''cache'' \<notin> set (tree_keys (JObj post))"
    "''pid'' \<notin> set (tree_keys (JObj post))" using assms(5) by auto
  have ml: "memory_line (key_text ''memory_summary'' @ render (memory_summary_tree st) @ more_text (map member_text [?kl, ?ul, ?pu, ?ku]) (CHR ''}'' # ?b)) = memory_text st"
    by (rule memory_line_text[OF assms(6)]) simp
  note us = usage_table[OF assms(7,3) posts(1), of caches, simplified list.sel] and cs = cache_table[OF assms(8,3) posts(2)]
  obtain br where br: "strchr CHR ''['' (key_text ''user_leaks'' @ render (JArr (map JObj (map leak_row entries))) @
      more_text (map member_text [?pu, ?ku]) (CHR ''}'' # ?b)) = Some br" "strstr (obj_pat ''pid'') br = None \<longleftrightarrow> entries = [] \<and> consumers = []"
    using leak_search[OF assms(3) posts(3), of entries consumers caches] by (elim exE conjE)
  show ?thesis
    unfolding cmd_memleak_def assms(1) option.case f0 Let_def memleak_sections_def f1 f2 f3 f4 ml snd_conv br(1) us(1) cs(1) or_note_def us(2) cs(2)
    using br(2) by (simp add: usage_head_def cache_head_def leak_warning_def del: render.simps map_map)
qed

definition demo_usage :: heap_usage where
  "demo_usage = \<lparr>he_pid = 9, he_cmd = ''c'', he_heap_size = 4, he_heap_rss = 2, he_heap_pd = 1, he_rss = 3, he_rss_delta = 0,
     he_heap_rss_delta = 0, he_heap_pd_delta = 0\<rparr>"

text \<open>A process that has not grown: its 3 KB are shown as growth, and the warning is printed.\<close>

theorem cmd_memleak_report_witness:
  "cmd_memleak (\<lambda>p. Some (render (reply 7 [(''memleak'', memleak_tree (\<lparr>st_total_kb = 9, st_free_kb = 1, st_available_kb = 5, st_buffers_kb = 0,
       st_cached_kb = 2\<rparr>, [], [], [demo_usage], []))]))) ''/s'' =
    (0, heading ''Memory Leak / Usage Report'' @ [LF] @
      memory_text \<lparr>st_total_kb = 9, st_free_kb = 1, st_available_kb = 5, st_buffers_kb = 0, st_cached_kb = 2\<rparr> @
      usage_head @ usage_text demo_usage @ [LF] @ cache_head @ ''(No slab data available)'' @ [LF, LF] @ leak_warning, [])"
proof -
  let ?st = "\<lparr>st_total_kb = 9, st_free_kb = 1, st_available_kb = 5, st_buffers_kb = 0, st_cached_kb = 2\<rparr>"
  have "status_fits ?st" "usage_fits demo_usage" by (simp_all add: status_fits_def usage_fits_def demo_usage_def in_int64_def)
  then show ?thesis
    using cmd_memleak_report[of "\<lambda>p. Some (render (reply 7 [(''memleak'', memleak_tree (?st, [], [], [demo_usage], []))]))" "''/s''" 7 "[]"
        ?st "[]" "[]" "[demo_usage]" "[]" "[]"]
    by (simp del: render.simps)
qed

end
