(* ===== verification/Plugins.thy ===== *)
theory Plugins
  imports Daemon Memleak Vmstat Netstat Procstat Fdmon Sockstat Procevent CliMain
begin

text \<open>
  The plugins that are built from \<open>src/services/\<close>: their service structures over one world, which has what the services see of the system
  and the statics of each shared library, and the plugin information each library exports.
\<close>

section \<open>The world\<close>

text \<open>What the services see: files, directories, links, stale stack contents, the time, the clock.\<close>

record kernel =
  k_fs :: proc_fs
  k_dirs :: proc_dirs
  k_links :: proc_links
  k_stack :: "nat \<Rightarrow> string"
  k_now :: int
  k_clock :: "nat \<Rightarrow> 64 word"

text \<open>Floating point as the services use it.\<close>

record 'd floats =
  f_zero :: 'd
  f_pct :: "int \<Rightarrow> int \<Rightarrow> 'd"
  f_rate :: "int \<Rightarrow> int \<Rightarrow> 'd"
  f_print :: "'d \<Rightarrow> string"

text \<open>Every library has statics of its own; a collection without a defined outcome is marked.\<close>

record 'd world =
  w_kernel :: kernel
  w_undefined :: bool
  w_procmem :: procmem
  w_meminfo :: "'d meminfo"
  w_vmstat :: vmstat_data
  w_slabinfo :: slabinfo
  w_heapmon :: heapmon
  w_netstat :: "'d netstat"
  w_procstat :: procstat
  w_fdmon :: fdmon
  w_sockstat :: sockstat
  w_procevent :: procevent
  w_memleak :: "'d memleak"

definition ran :: "'d world \<Rightarrow> (int \<times> 'd world) option \<Rightarrow> int \<times> 'd world" where
  "ran w r = (case r of None \<Rightarrow> (0, w\<lparr>w_undefined := True\<rparr>) | Some x \<Rightarrow> x)"

type_synonym 'd service = "(qmem_config, 'd world) qmem_service"

text \<open>A service structure with its operations and its \<open>enabled\<close> flag; every destroy function only logs.\<close>

definition service ::
    "string \<Rightarrow> string \<Rightarrow> bool \<Rightarrow> ('d world \<Rightarrow> 'd world) \<Rightarrow> ('d world \<Rightarrow> int \<times> 'd world) \<Rightarrow> ('d world \<Rightarrow> json_builder \<Rightarrow> json_builder) \<Rightarrow> 'd service" where
  "service name desc enabled init collect snapshot =
     \<lparr>svc_name = name, svc_description = desc, svc_init = Some (\<lambda>cfg w. (0, init w)), svc_collect = Some collect,
      svc_snapshot = Some snapshot, svc_destroy = Some (\<lambda>w. w), svc_enabled = enabled, svc_collect_count = 0\<rparr>"

section \<open>The services\<close>

definition procmem_service :: "'d floats \<Rightarrow> 'd service" where
  "procmem_service F = service ''procmem'' ''Per-process memory tracking'' True (\<lambda>w. w\<lparr>w_procmem := procmem_init\<rparr>)
     (\<lambda>w. ran w (map_option (\<lambda>s. (0, w\<lparr>w_procmem := s\<rparr>)) (procmem_collect (k_fs (w_kernel w)) (k_dirs (w_kernel w) ''/proc'') (w_procmem w))))
     (\<lambda>w. procmem_snapshot (w_procmem w))"

definition meminfo_service :: "'d floats \<Rightarrow> 'd service" where
  "meminfo_service F = service ''meminfo'' ''System memory info from /proc/meminfo'' True (\<lambda>w. w\<lparr>w_meminfo := meminfo_init (f_zero F)\<rparr>)
     (\<lambda>w. (case meminfo_collect (f_pct F) (f_zero F) (k_fs (w_kernel w)) (w_meminfo w) of (r, s) \<Rightarrow> (r, w\<lparr>w_meminfo := s\<rparr>)))
     (\<lambda>w. meminfo_snapshot (f_print F) (w_meminfo w))"

definition vmstat_service :: "'d floats \<Rightarrow> 'd service" where
  "vmstat_service F = service ''vmstat'' ''Kernel VM stats from /proc/vmstat'' True (\<lambda>w. w\<lparr>w_vmstat := vmstat_init\<rparr>)
     (\<lambda>w. (case vmstat_collect (k_fs (w_kernel w)) (w_vmstat w) of (r, s) \<Rightarrow> (r, w\<lparr>w_vmstat := s\<rparr>)))
     (\<lambda>w. vmstat_snapshot (w_vmstat w))"

definition slabinfo_service :: "'d floats \<Rightarrow> 'd service" where
  "slabinfo_service F = service ''slabinfo'' ''Slab cache info from /proc/slabinfo'' True (\<lambda>w. w\<lparr>w_slabinfo := slabinfo_init\<rparr>)
     (\<lambda>w. (case slabinfo_collect (k_fs (w_kernel w)) (w_slabinfo w) of (r, s) \<Rightarrow> (r, w\<lparr>w_slabinfo := s\<rparr>)))
     (\<lambda>w. slabinfo_snapshot (w_slabinfo w))"

text \<open>The heap monitor is disabled in its source, and nothing enables it.\<close>

definition heapmon_service :: "'d floats \<Rightarrow> 'd service" where
  "heapmon_service F = service ''heapmon'' ''Heap analysis via /proc/pid/smaps'' False (\<lambda>w. w\<lparr>w_heapmon := heapmon_init\<rparr>)
     (\<lambda>w. ran w (map_option (\<lambda>s. (0, w\<lparr>w_heapmon := s\<rparr>)) (heapmon_collect (k_fs (w_kernel w)) procmem_init (w_heapmon w))))
     (\<lambda>w. heapmon_snapshot (w_heapmon w))"

definition netstat_service :: "'d floats \<Rightarrow> 'd service" where
  "netstat_service F = service ''netstat'' ''Network interface statistics from /proc/net/dev'' True (\<lambda>w. w\<lparr>w_netstat := netstat_init\<rparr>)
     (\<lambda>w. (case netstat_collect (f_rate F) (f_zero F) (k_now (w_kernel w)) (k_fs (w_kernel w)) (w_netstat w) of (r, s) \<Rightarrow> (r, w\<lparr>w_netstat := s\<rparr>)))
     (\<lambda>w. netstat_snapshot (f_print F) (w_netstat w))"

definition procstat_service :: "'d floats \<Rightarrow> 'd service" where
  "procstat_service F = service ''procstat'' ''Process/thread status (active/blocked)'' True (\<lambda>w. w\<lparr>w_procstat := procstat_init\<rparr>)
     (\<lambda>w. ran w (map_option (\<lambda>(r, s). (r, w\<lparr>w_procstat := s\<rparr>)) (procstat_collect (k_fs (w_kernel w)) (k_dirs (w_kernel w)) (w_procstat w))))
     (\<lambda>w. procstat_snapshot (w_procstat w))"

definition fdmon_service :: "'d floats \<Rightarrow> 'd service" where
  "fdmon_service F = service ''fdmon'' ''File descriptor monitoring and leak detection'' True (\<lambda>w. w\<lparr>w_fdmon := fdmon_init\<rparr>)
     (\<lambda>w. (case fdmon_collect (k_fs (w_kernel w)) (k_dirs (w_kernel w)) (k_links (w_kernel w)) (k_stack (w_kernel w)) (w_fdmon w) of
       (r, s) \<Rightarrow> (r, w\<lparr>w_fdmon := s\<rparr>)))
     (\<lambda>w. fdmon_snapshot (w_fdmon w))"

definition sockstat_service :: "'d floats \<Rightarrow> 'd service" where
  "sockstat_service F = service ''sockstat'' ''Socket statistics from /proc/net/tcp,udp,unix'' True (\<lambda>w. w\<lparr>w_sockstat := sockstat_init\<rparr>)
     (\<lambda>w. (case sockstat_collect (k_fs (w_kernel w)) (k_dirs (w_kernel w)) (k_links (w_kernel w)) (w_sockstat w) of
       (r, s) \<Rightarrow> (r, w\<lparr>w_sockstat := s\<rparr>)))
     (\<lambda>w. sockstat_snapshot (w_sockstat w))"

definition procevent_service :: "'d floats \<Rightarrow> 'd service" where
  "procevent_service F = service ''procevent'' ''Process fork/exit events via /proc scanning'' True (\<lambda>w. w\<lparr>w_procevent := procevent_init\<rparr>)
     (\<lambda>w. ran w (map_option (\<lambda>(r, s). (r, w\<lparr>w_procevent := s\<rparr>))
       (procevent_collect (k_clock (w_kernel w)) (k_fs (w_kernel w)) (k_dirs (w_kernel w) ''/proc'') (w_procevent w))))
     (\<lambda>w. procevent_snapshot (w_procevent w))"

definition memleak_service :: "'d floats \<Rightarrow> 'd service" where
  "memleak_service F = service ''memleak'' ''Unified memory leak detection (Kernel Slabs + User Processes)'' True (\<lambda>w. w\<lparr>w_memleak := memleak_init (f_zero F)\<rparr>)
     (\<lambda>w. ran w (map_option (\<lambda>(r, s). (r, w\<lparr>w_memleak := s\<rparr>))
       (memleak_collect (f_pct F) (f_zero F) (k_fs (w_kernel w)) (k_dirs (w_kernel w) ''/proc'') (w_memleak w))))
     (\<lambda>w. (\<lambda>j. case memleak_snapshot (w_memleak w) j of None \<Rightarrow> j | Some j' \<Rightarrow> j'))"

text \<open>The memory service inside the heap plugin keeps its zeroed state. The addresses of the structures, in this order.\<close>

definition all_services :: "'d floats \<Rightarrow> 'd service list" where
  "all_services F = [procmem_service F, meminfo_service F, vmstat_service F, slabinfo_service F, heapmon_service F, netstat_service F, procstat_service F, fdmon_service F, sockstat_service F, procevent_service F, memleak_service F]"

definition service_names :: "string list" where
  "service_names = [''procmem'', ''meminfo'', ''vmstat'', ''slabinfo'', ''heapmon'', ''netstat'', ''procstat'', ''fdmon'', ''sockstat'', ''procevent'', ''memleak'']"

definition no_service :: "'d service" where
  "no_service = \<lparr>svc_name = [], svc_description = [], svc_init = None, svc_collect = None, svc_snapshot = None, svc_destroy = None,
     svc_enabled = False, svc_collect_count = 0\<rparr>"

definition plugin_store :: "'d floats \<Rightarrow> nat \<Rightarrow> 'd service" where
  "plugin_store F s = (if s < 11 then all_services F ! s else no_service)"

section \<open>The shared libraries\<close>

text \<open>
  The libraries in the directory, by the name of their source file. Each exports its plugin information except \<open>cpuload\<close>, whose source has
  no \<open>QMEM_PLUGIN_DEFINE\<close>.
\<close>

definition plugin_names :: "string list" where
  "plugin_names = service_names @ [''cpuload'']"

definition library :: "string \<Rightarrow> plugin_info option option" where
  "library n =
     (case find_index (\<lambda>m. m = n) service_names of
        Some i \<Rightarrow> Some (Some \<lparr>pi_api_version = PLUGIN_API_VERSION, pi_name = n, pi_service = i\<rparr>)
      | None \<Rightarrow> if n = ''cpuload'' then Some None else None)"

text \<open>The dynamic linker on a directory that holds these libraries.\<close>

definition built_plugins :: "string \<Rightarrow> linker" where
  "built_plugins dir path =
     (case find (\<lambda>n. path = dir @ ''/'' @ n @ ''.so'') plugin_names of None \<Rightarrow> None | Some n \<Rightarrow> library n)"

section \<open>Collections keep the world well formed\<close>

definition world_ok :: "'d world \<Rightarrow> bool" where
  "world_ok w \<longleftrightarrow> \<not> w_undefined w \<and> procmem_inv (w_procmem w) \<and> heapmon_inv (w_heapmon w) \<and> ev_inv (w_procevent w) \<and> memleak_inv (w_memleak w)"

text \<open>At most as many processes as the tables have cells, and every \<open>stat\<close> file one on which the code has a defined behaviour.\<close>

definition kernel_ok :: "kernel \<Rightarrow> bool" where
  "kernel_ok K \<longleftrightarrow> length (stored_pids (k_fs K) (k_dirs K ''/proc'')) \<le> 8192 \<and> defined_stats (k_fs K)"

text \<open>The manager passes over a disabled service.\<close>

definition run_service :: "'d service \<Rightarrow> 'd world \<Rightarrow> 'd world" where
  "run_service S w = (if svc_enabled S then case svc_collect S of None \<Rightarrow> w | Some f \<Rightarrow> snd (f w) else w)"

text \<open>What one collection may change: its own part of the world.\<close>

definition keeps_world :: "'d service \<Rightarrow> bool" where
  "keeps_world S \<longleftrightarrow> (\<forall>w. w_kernel (run_service S w) = w_kernel w \<and> (svc_name S \<noteq> ''procmem'' \<longrightarrow> w_procmem (run_service S w) = w_procmem w) \<and>
     (svc_name S \<noteq> ''memleak'' \<longrightarrow> w_memleak (run_service S w) = w_memleak w) \<and>
     (world_ok w \<and> kernel_ok (w_kernel w) \<longrightarrow> world_ok (run_service S w)))"

lemma run_service_simps [simp]: "run_service (service n d b i c sn) w = (if b then snd (c w) else w)" "svc_name (service n d b i c sn) = n"
  by (simp_all add: run_service_def service_def)

lemma ran_simps [simp]: "ran w None = (0, w\<lparr>w_undefined := True\<rparr>)" "ran w (Some x) = x"
  by (simp_all add: ran_def)

lemma world_ok_fields [simp]:
  "world_ok (w\<lparr>w_meminfo := a\<rparr>) = world_ok w" "world_ok (w\<lparr>w_vmstat := b\<rparr>) = world_ok w" "world_ok (w\<lparr>w_slabinfo := c\<rparr>) = world_ok w"
  "world_ok (w\<lparr>w_netstat := e\<rparr>) = world_ok w" "world_ok (w\<lparr>w_procstat := f\<rparr>) = world_ok w" "world_ok (w\<lparr>w_fdmon := g\<rparr>) = world_ok w"
  "world_ok (w\<lparr>w_sockstat := h\<rparr>) = world_ok w"
  by (simp_all add: world_ok_def)

lemma simple_services_keep:
  "keeps_world (meminfo_service F)" "keeps_world (vmstat_service F)" "keeps_world (slabinfo_service F)" "keeps_world (netstat_service F)"
  "keeps_world (fdmon_service F)" "keeps_world (sockstat_service F)"
  by (simp_all add: keeps_world_def meminfo_service_def vmstat_service_def slabinfo_service_def netstat_service_def fdmon_service_def
      sockstat_service_def split: prod.splits)

lemma procmem_keeps: "keeps_world (procmem_service F)"
  unfolding keeps_world_def
proof (intro allI conjI impI)
  fix w :: "'a world"
  assume w: "world_ok w \<and> kernel_ok (w_kernel w)"
  then obtain s where "procmem_collect (k_fs (w_kernel w)) (k_dirs (w_kernel w) ''/proc'') (w_procmem w) = Some s" "procmem_inv s"
    using collect_inv[of "w_procmem w" "k_fs (w_kernel w)" "k_dirs (w_kernel w) ''/proc''"] by (auto simp: world_ok_def kernel_ok_def)
  then show "world_ok (run_service (procmem_service F) w)" using w by (simp add: procmem_service_def world_ok_def)
qed (simp_all add: procmem_service_def ran_def split: option.splits)

lemma heapmon_keeps: "keeps_world (heapmon_service F)"
  by (simp add: keeps_world_def heapmon_service_def)

lemma memleak_keeps: "keeps_world (memleak_service F)"
  unfolding keeps_world_def
proof (intro allI conjI impI)
  fix w :: "'a world"
  assume w: "world_ok w \<and> kernel_ok (w_kernel w)"
  then obtain s where "memleak_collect (f_pct F) (f_zero F) (k_fs (w_kernel w)) (k_dirs (w_kernel w) ''/proc'') (w_memleak w) = Some (0, s)" "memleak_inv s"
    using memleak_collect_returns[of "w_memleak w" "k_fs (w_kernel w)" "k_dirs (w_kernel w) ''/proc''"] by (auto simp: world_ok_def kernel_ok_def)
  then show "world_ok (run_service (memleak_service F) w)" using w by (simp add: memleak_service_def world_ok_def)
qed (simp_all add: memleak_service_def ran_def split: option.splits prod.splits)

lemma procstat_keeps: "keeps_world (procstat_service F)"
  unfolding keeps_world_def
proof (intro allI conjI impI)
  fix w :: "'a world"
  assume w: "world_ok w \<and> kernel_ok (w_kernel w)"
  then have "procstat_collect (k_fs (w_kernel w)) (k_dirs (w_kernel w)) (w_procstat w) \<noteq> None"
    using scan_states_result[of "k_fs (w_kernel w)" "\<lparr>st_summary = procstat_zero, st_blocked = []\<rparr>"]
    by (auto simp: procstat_collect_def kernel_ok_def Let_def split: option.splits)
  then obtain r where "procstat_collect (k_fs (w_kernel w)) (k_dirs (w_kernel w)) (w_procstat w) = Some r" by blast
  then show "world_ok (run_service (procstat_service F) w)" using w by (cases r) (simp add: procstat_service_def)
qed (simp_all add: procstat_service_def ran_def split: option.splits prod.splits)

lemma procevent_returns:
  assumes "ev_inv s"
  shows "\<exists>r s'. procevent_collect clock fs dir s = Some (r, s') \<and> ev_inv s'"
proof (cases dir)
  case None
  then show ?thesis using assms by (simp add: procevent_collect_def ev_inv_def ev_ring_inv_def)
next
  case (Some names)
  obtain s' fe xe where "procevent_collect clock fs (Some names) s = Some (0, s')" "pt_inv (ev_tab s')" "logged (fe @ xe) s s'"
    using collect_names[of s clock fs names] assms unfolding ev_inv_def by blast
  then show ?thesis using logged_effect(1)[of "fe @ xe" s s'] assms Some by (auto simp: ev_inv_def)
qed

lemma procevent_keeps: "keeps_world (procevent_service F)"
  unfolding keeps_world_def
proof (intro allI conjI impI)
  fix w :: "'a world"
  assume w: "world_ok w \<and> kernel_ok (w_kernel w)"
  then obtain r s where "procevent_collect (k_clock (w_kernel w)) (k_fs (w_kernel w)) (k_dirs (w_kernel w) ''/proc'') (w_procevent w) = Some (r, s)" "ev_inv s"
    using procevent_returns[of "w_procevent w"] unfolding world_ok_def by blast
  then show "world_ok (run_service (procevent_service F) w)" using w by (simp add: procevent_service_def world_ok_def)
qed (simp_all add: procevent_service_def ran_def split: option.splits prod.splits)

lemma services_keep: "list_all keeps_world (all_services F)"
  by (simp add: all_services_def simple_services_keep procmem_keeps heapmon_keeps memleak_keeps procstat_keeps procevent_keeps)

lemma all_services_length [simp]: "length (all_services F) = 11"
  by (simp add: all_services_def)

lemma store_keeps: "s < 11 \<Longrightarrow> keeps_world (plugin_store F s)"
  using services_keep[of F] by (simp add: plugin_store_def list_all_length)

lemma store_names: "s < 11 \<Longrightarrow> svc_name (plugin_store F s) = service_names ! s"
proof -
  assume s: "s < 11"
  have "map svc_name (all_services F) = service_names"
    by (simp add: all_services_def service_names_def procmem_service_def meminfo_service_def vmstat_service_def slabinfo_service_def
        heapmon_service_def netstat_service_def procstat_service_def fdmon_service_def sockstat_service_def procevent_service_def memleak_service_def)
  then have "service_names ! s = svc_name (all_services F ! s)" using s nth_map[of s "all_services F" svc_name] by simp
  then show ?thesis using s by (simp add: plugin_store_def)
qed

section \<open>A round of collections\<close>

text \<open>The store holds the services of the libraries; only their counters move.\<close>

definition plugins_in :: "'d floats \<Rightarrow> (qmem_config, 'd world) svc_manager \<Rightarrow> bool" where
  "plugins_in F m \<longleftrightarrow> (\<forall>s. \<exists>c. sm_store m s = (plugin_store F s)\<lparr>svc_collect_count := c\<rparr>)"

lemma store_fields:
  assumes "s < 11"
  shows "svc_collect (plugin_store F s) \<noteq> None" "svc_snapshot (plugin_store F s) \<noteq> None" "svc_init (plugin_store F s) \<noteq> None"
proof -
  have "list_all (\<lambda>S. svc_collect S \<noteq> None \<and> svc_snapshot S \<noteq> None \<and> svc_init S \<noteq> None) (all_services F)"
    by (simp add: all_services_def procmem_service_def meminfo_service_def vmstat_service_def slabinfo_service_def service_def
        heapmon_service_def netstat_service_def procstat_service_def fdmon_service_def sockstat_service_def procevent_service_def memleak_service_def)
  then show "svc_collect (plugin_store F s) \<noteq> None" "svc_snapshot (plugin_store F s) \<noteq> None" "svc_init (plugin_store F s) \<noteq> None"
    using assms by (simp_all add: plugin_store_def list_all_length)
qed

text \<open>Every service but the heap monitor is enabled.\<close>

lemma store_enabled: "s < 11 \<Longrightarrow> svc_enabled (plugin_store F s) \<longleftrightarrow> service_names ! s \<noteq> ''heapmon''"
proof -
  assume s: "s < 11"
  have "list_all (\<lambda>S. svc_enabled S \<longleftrightarrow> svc_name S \<noteq> ''heapmon'') (all_services F)"
    by (simp add: all_services_def procmem_service_def meminfo_service_def vmstat_service_def slabinfo_service_def service_def
        heapmon_service_def netstat_service_def procstat_service_def fdmon_service_def sockstat_service_def procevent_service_def memleak_service_def)
  then show ?thesis using s store_names[OF s, of F] by (simp add: plugin_store_def list_all_length)
qed

lemma collect_one_world:
  assumes "plugins_in F m" "s < 11"
  shows "sm_world (snd (collect_one s (e, m))) = run_service (plugin_store F s) (sm_world m) \<and> plugins_in F (snd (collect_one s (e, m)))"
proof -
  obtain c where c: "sm_store m s = (plugin_store F s)\<lparr>svc_collect_count := c\<rparr>" using assms(1) by (auto simp: plugins_in_def)
  obtain f where f: "svc_collect (plugin_store F s) = Some f" using store_fields(1)[OF assms(2), of F] by blast
  obtain r w where w: "f (sm_world m) = (r, w)" by fastforce
  have "plugins_in F (m\<lparr>sm_world := w\<rparr>)" using assms(1) by (simp add: plugins_in_def)
  moreover have "plugins_in F (m\<lparr>sm_world := w, sm_store := (sm_store m)(s := (sm_store m s)\<lparr>svc_collect_count := svc_collect_count (sm_store m s) + 1\<rparr>)\<rparr>)"
    using assms(1) c by (auto simp: plugins_in_def)
  ultimately show ?thesis using c f w assms(1) by (cases "svc_enabled (plugin_store F s)") (simp_all add: collect_one_def run_service_def)
qed

lemma collect_fold_world:
  assumes "plugins_in F m" "\<forall>s \<in> set ss. s < 11"
  shows "sm_world (snd (fold collect_one ss (e, m))) = fold (\<lambda>s. run_service (plugin_store F s)) ss (sm_world m) \<and>
    plugins_in F (snd (fold collect_one ss (e, m)))"
  using assms
proof (induction ss arbitrary: e m)
  case (Cons s ss)
  obtain e1 m1 where 1: "collect_one s (e, m) = (e1, m1)" by fastforce
  then show ?case using collect_one_world[OF Cons.prems(1), of s e] Cons.IH[of m1 e1] Cons.prems(2) by simp
qed simp

text \<open>After the round the world is well formed, and a part that one service keeps is what that service makes of it.\<close>

lemma round_world:
  assumes "\<forall>s \<in> set ss. s < 11" "world_ok w" "kernel_ok (w_kernel w)"
  shows "world_ok (fold (\<lambda>s. run_service (plugin_store F s)) ss w) \<and> w_kernel (fold (\<lambda>s. run_service (plugin_store F s)) ss w) = w_kernel w"
  using assms
proof (induction ss arbitrary: w)
  case (Cons s ss)
  have "world_ok (run_service (plugin_store F s) w)" "w_kernel (run_service (plugin_store F s) w) = w_kernel w"
    using store_keeps[of s F] Cons.prems by (auto simp: keeps_world_def)
  then show ?case using Cons.IH[of "run_service (plugin_store F s) w"] Cons.prems by simp
qed simp

lemma round_procmem:
  assumes "distinct ss" "\<forall>s \<in> set ss. s < 11" "world_ok w" "kernel_ok (w_kernel w)"
    and "procmem_collect (k_fs (w_kernel w)) (k_dirs (w_kernel w) ''/proc'') (w_procmem w) = Some p"
  shows "w_procmem (fold (\<lambda>s. run_service (plugin_store F s)) ss w) = (if 0 \<in> set ss then p else w_procmem w)"
  using assms
proof (induction ss arbitrary: w)
  case (Cons s ss)
  let ?w = "run_service (plugin_store F s) w"
  have k: "w_kernel ?w = w_kernel w" "world_ok ?w" using store_keeps[of s F] Cons.prems by (auto simp: keeps_world_def)
  show ?case
  proof (cases "s = 0")
    case True
    have "plugin_store F 0 = procmem_service F" by (simp add: plugin_store_def all_services_def)
    then have "w_procmem ?w = p" using True Cons.prems(5) by (simp add: procmem_service_def)
    moreover have "w_procmem (fold (\<lambda>s. run_service (plugin_store F s)) ts v) = w_procmem v" if "0 \<notin> set ts" "\<forall>t \<in> set ts. t < 11" for ts and v :: "'a world"
      using that
    proof (induction ts arbitrary: v)
      case (Cons t ts)
      have "service_names ! t \<noteq> ''procmem''"
        using Cons.prems by (auto simp: service_names_def nth_Cons' less_Suc_eq numeral_eq_Suc)
      then have "w_procmem (run_service (plugin_store F t) v) = w_procmem v"
        using store_keeps[of t F] store_names[of t F] Cons.prems by (auto simp: keeps_world_def)
      then show ?case using Cons by simp
    qed simp
    ultimately show ?thesis using True Cons.prems by simp
  next
    case False
    then have "service_names ! s \<noteq> ''procmem''"
      using Cons.prems(2) by (auto simp: service_names_def nth_Cons' less_Suc_eq numeral_eq_Suc)
    then have "w_procmem ?w = w_procmem w"
      using store_keeps[of s F] store_names[of s F] Cons.prems by (auto simp: keeps_world_def)
    then show ?thesis using Cons.IH[of ?w] Cons.prems k False by simp
  qed
qed simp

section \<open>The snapshot of the services\<close>

definition service_trees_of :: "'d floats \<Rightarrow> 'd world \<Rightarrow> jval list" where
  "service_trees_of F w = [procmem_tree (w_procmem w), meminfo_tree (f_print F) (w_meminfo w), vmstat_tree (w_vmstat w), slabinfo_tree (w_slabinfo w),
     heapmon_tree (w_heapmon w), netstat_tree (f_print F) (w_netstat w), procstat_tree (w_procstat w), fdmon_tree (w_fdmon w),
     sockstat_tree (w_sockstat w), procevent_tree (w_procevent w),
     memleak_tree (meminfo_get_status (ml_meminfo (w_memleak w)), the (memleak_lists (w_memleak w)))]"

definition floats_ok :: "'d floats \<Rightarrow> bool" where
  "floats_ok F \<longleftrightarrow> (\<forall>x. num_ok (f_print F x))"

definition shows_tree :: "'d world \<Rightarrow> 'd service \<Rightarrow> jval \<Rightarrow> bool" where
  "shows_tree w S v \<longleftrightarrow> (\<exists>f. svc_snapshot S = Some f \<and> emits_val (f w) v) \<and> jval_ok v"

lemma shows_service: "shows_tree w (service n d b i c sn) v \<longleftrightarrow> emits_val (sn w) v \<and> jval_ok v"
  by (simp add: shows_tree_def service_def)

lemma services_show:
  assumes "world_ok w" "floats_ok F"
  shows "list_all2 (shows_tree w) (all_services F) (service_trees_of F w)"
proof -
  have f: "num_ok (f_print F x)" for x using assms(2) by (simp add: floats_ok_def)
  have i: "ev_ring_inv (w_procevent w)" "memleak_inv (w_memleak w)" using assms(1) by (simp_all add: world_ok_def ev_inv_def)
  obtain l where l: "memleak_lists (w_memleak w) = Some l" using memleak_lists_return[OF i(2)] by blast
  have m: "shows_tree w (memleak_service F) (memleak_tree (meminfo_get_status (ml_meminfo (w_memleak w)), the (memleak_lists (w_memleak w))))"
    using memleak_out.emits[of "(meminfo_get_status (ml_meminfo (w_memleak w)), l)"] memleak_out.tree_ok
    by (simp add: memleak_service_def shows_service memleak_snapshot_def l)
  show ?thesis
    unfolding all_services_def service_trees_of_def list.rel_inject(2)
    using m i(1) f
    by (simp add: procmem_service_def meminfo_service_def vmstat_service_def slabinfo_service_def heapmon_service_def netstat_service_def
        procstat_service_def fdmon_service_def sockstat_service_def procevent_service_def shows_service
        procmem_out.emits procmem_out.tree_ok meminfo_out.emits meminfo_out.tree_ok vmstat_out.emits vmstat_out.tree_ok
        slabinfo_out.emits slabinfo_out.tree_ok heapmon_out.emits heapmon_out.tree_ok netstat_out.emits netstat_out.tree_ok
        procstat_out.emits procstat_out.tree_ok fdmon_out.emits fdmon_out.tree_ok sockstat_out.emits sockstat_out.tree_ok
        procevent_out.emits procevent_out.tree_ok)
qed

lemma names_ok: "s < 11 \<Longrightarrow> key_ok (service_names ! s) \<and> plain_key_text (service_names ! s)"
proof -
  assume "s < 11"
  moreover have "length service_names = 11" by (simp add: service_names_def)
  ultimately have "service_names ! s \<in> set service_names" by (intro nth_mem) simp
  moreover have "list_all (\<lambda>n. key_ok n \<and> plain_key_text n) service_names"
    by (simp add: service_names_def key_ok_def plain_key_text_def)
  ultimately show ?thesis by (simp only: list_all_iff)
qed

lemma plugins_snapshots:
  assumes "plugins_in F m" "\<forall>s \<in> set (registered m). s < 11" "world_ok (sm_world m)" "floats_ok F"
  shows "snapshots_wf m (\<lambda>s. service_trees_of F (sm_world m) ! s)" "snapshots_ok m (\<lambda>s. service_trees_of F (sm_world m) ! s)"
    "snapshot_tree now m (\<lambda>s. service_trees_of F (sm_world m) ! s) =
      reply now (map (\<lambda>s. (service_names ! s, service_trees_of F (sm_world m) ! s)) (filter (\<lambda>s. svc_enabled (plugin_store F s)) (registered m)))"
proof -
  have s: "shows_tree (sm_world m) (plugin_store F s) (service_trees_of F (sm_world m) ! s)" if "s < 11" for s
    using services_show[OF assms(3,4)] that by (simp add: list_all2_conv_all_nth plugin_store_def)
  have f: "svc_snapshot (sm_store m s) = svc_snapshot (plugin_store F s)" "svc_name (sm_store m s) = svc_name (plugin_store F s)"
    "svc_enabled (sm_store m s) = svc_enabled (plugin_store F s)" for s
  proof -
    obtain c where "sm_store m s = (plugin_store F s)\<lparr>svc_collect_count := c\<rparr>" using assms(1) by (auto simp: plugins_in_def)
    then show "svc_snapshot (sm_store m s) = svc_snapshot (plugin_store F s)" "svc_name (sm_store m s) = svc_name (plugin_store F s)"
      "svc_enabled (sm_store m s) = svc_enabled (plugin_store F s)" by simp_all
  qed
  show "snapshots_wf m (\<lambda>s. service_trees_of F (sm_world m) ! s)"
    using s assms(2) by (fastforce simp: snapshots_wf_def f shows_tree_def)
  show "snapshots_ok m (\<lambda>s. service_trees_of F (sm_world m) ! s)"
    using s assms(2) names_ok by (auto simp: snapshots_ok_def f shows_tree_def store_names)
  show "snapshot_tree now m (\<lambda>s. service_trees_of F (sm_world m) ! s) =
      reply now (map (\<lambda>s. (service_names ! s, service_trees_of F (sm_world m) ! s)) (filter (\<lambda>s. svc_enabled (plugin_store F s)) (registered m)))"
    using assms(2) store_fields(2)[of _ F] by (simp add: snapshot_tree_def f store_names cong: map_cong) fastforce
qed

end
