(* ===== verification/System.thy ===== *)
theory System
  imports Plugins
begin

text \<open>
  The whole program: the daemon loads the libraries of its plugin directory, each turn runs the services of the libraries over the state of the
  system, and the command line tool shows what they found.
\<close>

section \<open>Loading the libraries\<close>

definition addr :: "string \<Rightarrow> nat" where
  "addr n = the (find_index (\<lambda>m. m = n) service_names)"

lemma service_names_facts: "distinct service_names" "length service_names = 11" "''cpuload'' \<notin> set service_names"
  "list_all (\<lambda>n. length n < 10) service_names"
  by (simp_all add: service_names_def)

lemma addr_found: "n \<in> set service_names \<Longrightarrow> find_index (\<lambda>m. m = n) service_names = Some (addr n) \<and> addr n < 11 \<and> service_names ! addr n = n"
proof -
  assume "n \<in> set service_names"
  then obtain i where i: "find_index (\<lambda>m. m = n) service_names = Some i"
    using find_index_None[of "\<lambda>m. m = n" service_names] by (cases "find_index (\<lambda>m. m = n) service_names") auto
  then show ?thesis using find_index_Some[OF i] service_names_facts(2) by (simp add: addr_def)
qed

lemma library_simps:
  "n \<in> set service_names \<Longrightarrow> library n = Some (Some \<lparr>pi_api_version = PLUGIN_API_VERSION, pi_name = n, pi_service = addr n\<rparr>)"
  "library ''cpuload'' = Some None"
proof -
  show "n \<in> set service_names \<Longrightarrow> library n = Some (Some \<lparr>pi_api_version = PLUGIN_API_VERSION, pi_name = n, pi_service = addr n\<rparr>)"
    using addr_found by (simp add: library_def)
  have "find_index (\<lambda>m. m = ''cpuload'') service_names = None" using service_names_facts(3) by (auto simp: find_index_None)
  then show "library ''cpuload'' = Some None" by (simp add: library_def)
qed

lemma built_plugins_path: "n \<in> set plugin_names \<Longrightarrow> built_plugins dir (dir @ ''/'' @ n @ ''.so'') = library n"
proof -
  assume n: "n \<in> set plugin_names"
  have "find (\<lambda>m. dir @ ''/'' @ n @ ''.so'' = dir @ ''/'' @ m @ ''.so'') xs = Some n" if "n \<in> set xs" for xs
    using that by (induction xs) auto
  then show ?thesis using n by (simp add: built_plugins_def)
qed

text \<open>The slot of a loaded library.\<close>

definition slot_of :: "string \<Rightarrow> (string \<Rightarrow> int) \<Rightarrow> string \<Rightarrow> loaded_plugin" where
  "slot_of dir mtime n = \<lparr>lp_path = dir @ ''/'' @ n @ ''.so'', lp_name = n, lp_handle = True, lp_service = addr n,
     lp_mtime = mtime (dir @ ''/'' @ n @ ''.so''), lp_loaded = True\<rparr>"

definition exported :: "string list \<Rightarrow> string list" where
  "exported ns = filter (\<lambda>n. n \<noteq> ''cpuload'') ns"

text \<open>The state of the loader after some libraries.\<close>

definition start_service :: "'d service \<Rightarrow> 'd world \<Rightarrow> 'd world" where
  "start_service S w = (case svc_init S of None \<Rightarrow> w | Some f \<Rightarrow> snd (f None w))"

definition start_world :: "'d floats \<Rightarrow> string list \<Rightarrow> 'd world \<Rightarrow> 'd world" where
  "start_world F ns w = fold (\<lambda>n. start_service (plugin_store F (addr n))) ns w"

definition after_loading ::
    "'d floats \<Rightarrow> 'd world \<Rightarrow> string \<Rightarrow> (string \<Rightarrow> int) \<Rightarrow> string list \<Rightarrow> (qmem_config, 'd world) plugin_loader \<Rightarrow> bool" where
  "after_loading F w dir mtime ns L \<longleftrightarrow> pl_dir L = dir \<and> pl_plugins L = map (slot_of dir mtime) (exported ns) \<and> sm_inv (pl_mgr L) \<and>
     registered (pl_mgr L) = map addr (exported ns) \<and> sm_store (pl_mgr L) = plugin_store F \<and>
     sm_world (pl_mgr L) = start_world F (exported ns) w \<and> world_ok (sm_world (pl_mgr L))"

lemma find_slot_name: "find_index (\<lambda>p. lp_name p = n) (map (slot_of dir mtime) ns) = find_index (\<lambda>m. m = n) ns"
  by (induction ns) (simp_all add: slot_of_def)

lemma find_slot_path: "find_index (\<lambda>p. lp_path p = dir @ ''/'' @ n @ ''.so'') (map (slot_of dir mtime) ns) = find_index (\<lambda>m. m = n) ns"
  by (induction ns) (simp_all add: slot_of_def)

lemma init_keeps_world:
  assumes "s < 11" "svc_init (plugin_store F s) = Some f" "world_ok w"
  shows "f c w = (0, start_service (plugin_store F s) w) \<and> world_ok (start_service (plugin_store F s) w)"
proof -
  have "list_all (\<lambda>S. \<forall>f. svc_init S = Some f \<longrightarrow> f c w = (0, start_service S w) \<and> world_ok (start_service S w)) (all_services F)"
    using assms(3) memleak_inv_init
    by (simp add: all_services_def procmem_service_def meminfo_service_def vmstat_service_def slabinfo_service_def service_def world_ok_def
        heapmon_service_def netstat_service_def procstat_service_def fdmon_service_def sockstat_service_def procevent_service_def memleak_service_def
        procmem_inv_init heapmon_inv_init start_service_def)
  then have "\<forall>f. svc_init (all_services F ! s) = Some f \<longrightarrow>
      f c w = (0, start_service (all_services F ! s) w) \<and> world_ok (start_service (all_services F ! s) w)"
    using assms(1) unfolding list_all_length by simp
  then show ?thesis using assms(1,2) by (simp add: plugin_store_def)
qed

lemma register_plugin:
  assumes "sm_inv m" "length (registered m) < 16" "sm_store m = plugin_store F" "s < 11" "world_ok (sm_world m)"
  shows "\<exists>m'. svc_manager_register s m = (0, m') \<and> sm_inv m' \<and> registered m' = registered m @ [s] \<and>
    sm_store m' = plugin_store F \<and> sm_world m' = start_service (plugin_store F s) (sm_world m) \<and> world_ok (sm_world m')"
proof -
  obtain f where f: "svc_init (plugin_store F s) = Some f" using store_fields(3)[OF assms(4), of F] by blast
  have i: "f (sm_config m) (sm_world m) = (0, start_service (plugin_store F s) (sm_world m))"
    "world_ok (start_service (plugin_store F s) (sm_world m))"
    using init_keeps_world[OF assms(4) f assms(5), of "sm_config m"] by simp_all
  have c: "sm_count m < 16" using assms(1,2) length_registered by metis
  obtain r' m' where m': "svc_manager_register s m = (r', m')" by fastforce
  then have "r' = 0" "sm_world m' = start_service (plugin_store F s) (sm_world m)"
    using c f i(1) assms(3) by (auto simp: svc_manager_register_def MAX_SERVICES_def)
  then show ?thesis using registry_refines_aux[OF assms(1), of s] m' i(2) register_store[of s m] assms(3) by auto
qed

lemma names_short: "n \<in> set plugin_names \<Longrightarrow> length n < 10"
  using service_names_facts(4) by (auto simp: plugin_names_def list_all_iff)

lemma exported_snoc: "exported (ns @ [n]) = (if n = ''cpuload'' then exported ns else exported ns @ [n])"
  by (simp add: exported_def)

lemma exported_names: "set ns \<subseteq> set plugin_names \<Longrightarrow> set (exported ns) \<subseteq> set service_names"
  by (auto simp: exported_def plugin_names_def)

lemma exported_few:
  assumes "distinct ns" "set ns \<subseteq> set plugin_names"
  shows "length (exported ns) \<le> 11"
proof -
  have "length (exported ns) = card (set (exported ns))"
    unfolding exported_def by (rule distinct_card[OF distinct_filter[OF assms(1)], symmetric])
  also have "\<dots> \<le> card (set service_names)" by (rule card_mono[OF finite_set exported_names[OF assms(2)]])
  finally show ?thesis using service_names_facts(1,2) by (simp add: distinct_card)
qed

text \<open>One library that is not loaded yet.\<close>

lemma load_library:
  assumes L: "after_loading F w dir mtime ns L" and dir: "length dir \<le> 490"
    and n: "n \<in> set plugin_names" "n \<notin> set ns" "distinct ns" "set ns \<subseteq> set plugin_names"
  shows "\<exists>L'. plugin_loader_load (built_plugins dir) mtime (dir @ ''/'' @ n @ ''.so'') L = ((if n = ''cpuload'' then -1 else 0), L') \<and>
    after_loading F w dir mtime (ns @ [n]) L'"
proof -
  let ?path = "dir @ ''/'' @ n @ ''.so''"
  have new: "n \<notin> set (exported ns)" using n(2) by (simp add: exported_def)
  have p: "pl_plugins L = map (slot_of dir mtime) (exported ns)" using L by (simp add: after_loading_def)
  have none: "find_plugin_by_path ?path L = None" "find_plugin_by_name n L = None"
    unfolding find_plugin_by_path_def find_plugin_by_name_def p find_slot_path find_slot_name using new by (auto simp: find_index_None)
  have few: "length (exported ns) \<le> 11" using exported_few n(3,4) .
  have len: "length (pl_plugins L) < MAX_PLUGINS" using few by (simp add: p MAX_PLUGINS_def)
  show ?thesis
  proof (cases "n = ''cpuload''")
    case True
    have "built_plugins dir ?path = Some None" using built_plugins_path[OF n(1)] library_simps(2) True by simp
    then have "plugin_loader_load (built_plugins dir) mtime ?path L = (-1, L)"
      using none len by (simp add: plugin_loader_load_def Let_def loaded_at_def)
    moreover have "after_loading F w dir mtime (ns @ [n]) L" using L True by (auto simp: after_loading_def exported_snoc)
    ultimately show ?thesis using True by auto
  next
    case False
    then have s: "n \<in> set service_names" using n(1) by (simp add: plugin_names_def)
    have d: "built_plugins dir ?path = Some (Some \<lparr>pi_api_version = PLUGIN_API_VERSION, pi_name = n, pi_service = addr n\<rparr>)"
      using built_plugins_path[OF n(1)] library_simps(1)[OF s] by simp
    obtain m where m: "svc_manager_register (addr n) (pl_mgr L) = (0, m)" "sm_inv m" "registered m = registered (pl_mgr L) @ [addr n]"
      "sm_store m = plugin_store F" "sm_world m = start_service (plugin_store F (addr n)) (sm_world (pl_mgr L))" "world_ok (sm_world m)"
      using register_plugin[of "pl_mgr L" F "addr n"] L few addr_found[OF s] by (auto simp: after_loading_def)
    have b: "bounded_copy 512 ?path = ?path" "bounded_copy 64 n = n"
      using dir names_short[OF n(1)] by (simp_all add: bounded_copy_def)
    let ?L = "L\<lparr>pl_mgr := m, pl_handles := pl_handles L + 1, pl_plugins := pl_plugins L @ [slot_of dir mtime n]\<rparr>"
    have "plugin_loader_load (built_plugins dir) mtime ?path L = (0, ?L)"
      using none len d m(1) b by (simp add: plugin_loader_load_def Let_def loaded_at_def slot_of_def)
    moreover have "after_loading F w dir mtime (ns @ [n]) ?L"
      using L m False by (simp add: after_loading_def exported_snoc start_world_def)
    ultimately show ?thesis using False by auto
  qed
qed

lemma library_file: "is_so (n @ ''.so'')" if "n \<in> set plugin_names"
proof -
  have "list_all (\<lambda>n. is_so (n @ ''.so'')) plugin_names" by (simp add: plugin_names_def service_names_def is_so_def)
  then show ?thesis using that by (simp add: list_all_iff)
qed

text \<open>The entries of the directory, in its order; files with other endings are passed over.\<close>

lemma load_libraries:
  assumes "after_loading F w dir mtime old L" "length dir \<le> 490" "filter is_so es = map (\<lambda>n. n @ ''.so'') ns"
    and "distinct (old @ ns)" "set (old @ ns) \<subseteq> set plugin_names"
  shows "\<exists>L'. load_entries (built_plugins dir) mtime es c L = (c + int (length (exported ns)), L') \<and> after_loading F w dir mtime (old @ ns) L'"
  using assms
proof (induction es arbitrary: ns old c L)
  case Nil
  then show ?case by (auto simp: exported_def)
next
  case (Cons e es)
  show ?case
  proof (cases "is_so e")
    case False
    then show ?thesis using Cons.IH[OF Cons.prems(1,2)] Cons.prems(3-5) by auto
  next
    case True
    then obtain n ms where ns: "ns = n # ms" "e = n @ ''.so''" "filter is_so es = map (\<lambda>n. n @ ''.so'') ms"
      using Cons.prems(3) by (cases ns) auto
    have n: "n \<in> set plugin_names" using Cons.prems(5) ns(1) by simp
    obtain L1 where L1: "plugin_loader_load (built_plugins dir) mtime (dir @ ''/'' @ n @ ''.so'') L = ((if n = ''cpuload'' then -1 else 0), L1)"
      "after_loading F w dir mtime (old @ [n]) L1"
      using load_library[OF Cons.prems(1,2), of n] Cons.prems(4,5) ns(1) by auto
    have path: "plugin_path L e = dir @ ''/'' @ n @ ''.so''"
      using Cons.prems(1,2) names_short[OF n] ns(2) by (simp add: plugin_path_def after_loading_def bounded_copy_def)
    obtain L2 where L2: "load_entries (built_plugins dir) mtime es (if n = ''cpuload'' then c else c + 1) L1 =
        ((if n = ''cpuload'' then c else c + 1) + int (length (exported ms)), L2)" "after_loading F w dir mtime ((old @ [n]) @ ms) L2"
      using Cons.IH[OF L1(2) Cons.prems(2) ns(3), of "if n = ''cpuload'' then c else c + 1"] Cons.prems(4,5) ns(1) by auto
    have "load_entries (built_plugins dir) mtime (e # es) c L = (c + int (length (exported ns)), L2)"
      using True path L1(1) L2(1) ns(1) by (simp add: exported_def split: if_splits)
    then show ?thesis using L2(2) ns(1) by auto
  qed
qed

lemma after_loading_start:
  assumes "plugin_dir cfg \<noteq> []" "length (plugin_dir cfg) \<le> 490" "sm_inv m" "registered m = []" "sm_store m = plugin_store F" "world_ok (sm_world m)"
  shows "after_loading F (sm_world m) (plugin_dir cfg) mtime [] (plugin_loader_init cfg m)"
  using assms by (simp add: after_loading_def plugin_loader_init_def exported_def bounded_copy_def start_world_def)

text \<open>
  C9 (every shipped library but one becomes a service). When the plugin directory holds any of the libraries the build makes, among other
  files, the loader registers exactly those that export their information, in the order of the directory, and counts them. The library of
  \<open>cpuload.c\<close> exports none: wherever it is, it is never loaded, and the daemon has no CPU service.
\<close>

theorem plugins_loaded:
  assumes "filter is_so es = map (\<lambda>n. n @ ''.so'') ns" and "distinct ns" and "set ns \<subseteq> set plugin_names"
    and "plugin_dir cfg \<noteq> []" "length (plugin_dir cfg) \<le> 490"
    and "sm_inv m" "registered m = []" "sm_store m = plugin_store F" "world_ok (sm_world m)"
  shows "case plugin_loader_load_all (built_plugins (plugin_dir cfg)) mtime (Entries es) (plugin_loader_init cfg m) of (r, L) \<Rightarrow>
    r = int (length (filter (\<lambda>n. n \<noteq> ''cpuload'') ns)) \<and> map lp_name (pl_plugins L) = filter (\<lambda>n. n \<noteq> ''cpuload'') ns \<and>
    map (\<lambda>s. svc_name (sm_store (pl_mgr L) s)) (registered (pl_mgr L)) = filter (\<lambda>n. n \<noteq> ''cpuload'') ns"
proof -
  obtain L where L: "load_entries (built_plugins (plugin_dir cfg)) mtime es 0 (plugin_loader_init cfg m) = (int (length (exported ns)), L)"
    "after_loading F (sm_world m) (plugin_dir cfg) mtime ns L"
    using load_libraries[OF after_loading_start[OF assms(4-9), of mtime] assms(5,1), of 0] assms(2,3) by auto
  have "map (\<lambda>n. svc_name (plugin_store F (addr n))) (exported ns) = map (\<lambda>n. n) (exported ns)"
    using exported_names[OF assms(3)] addr_found by (intro map_cong) (auto simp: store_names)
  then show ?thesis using L by (simp add: plugin_loader_load_all_def after_loading_def o_def slot_of_def exported_def[symmetric])
qed

section \<open>The daemon over the system\<close>

text \<open>A daemon whose registry has services of the libraries, each once, over a world in which nothing undefined has happened.\<close>

definition system_ready :: "'d floats \<Rightarrow> 'd world daemon \<Rightarrow> bool" where
  "system_ready F d \<longleftrightarrow> daemon_inv d \<and> plugins_in F (pl_mgr (dm_loader d)) \<and> distinct (registered (pl_mgr (dm_loader d))) \<and>
     (\<forall>s \<in> set (registered (pl_mgr (dm_loader d))). s < 11) \<and> world_ok (sm_world (pl_mgr (dm_loader d)))"

text \<open>A turn on a system in state \<open>K\<close>, in which no library of the directory changes.\<close>

definition turn_on :: "kernel \<Rightarrow> 'd world turn_env \<Rightarrow> bool" where
  "turn_on K e \<longleftrightarrow> te_world e = (\<lambda>w. w\<lparr>w_kernel := K\<rparr>) \<and> kernel_ok K \<and> list_all (\<lambda>ev. \<not> is_so (event_name ev)) (te_events e)"

text \<open>The world after the collections of a turn.\<close>

definition world_after :: "'d floats \<Rightarrow> kernel \<Rightarrow> 'd world daemon \<Rightarrow> 'd world" where
  "world_after F K d = fold (\<lambda>s. run_service (plugin_store F s)) (registered (pl_mgr (dm_loader d))) ((sm_world (pl_mgr (dm_loader d)))\<lparr>w_kernel := K\<rparr>)"

text \<open>What a reply shows of the registered services: all but the heap monitor, in their order.\<close>

definition system_tree :: "'d floats \<Rightarrow> int \<Rightarrow> nat list \<Rightarrow> 'd world \<Rightarrow> jval" where
  "system_tree F now ss w = reply now (map (\<lambda>s. (service_names ! s, service_trees_of F w ! s)) (filter (\<lambda>s. service_names ! s \<noteq> ''heapmon'') ss))"

lemma world_ok_kernel [simp]: "world_ok (w\<lparr>w_kernel := K\<rparr>) = world_ok w"
  by (simp add: world_ok_def)

lemma events_quiet: "list_all (\<lambda>ev. \<not> is_so (event_name ev)) evs \<Longrightarrow> plugin_loader_check_updates dl mt evs L = L"
proof -
  assume "list_all (\<lambda>ev. \<not> is_so (event_name ev)) evs"
  then have "fold (handle_event dl mt) evs L = L" by (induction evs) (simp_all add: handle_event_def)
  then show ?thesis by (simp add: plugin_loader_check_updates_def)
qed

lemma turn_collect_world:
  assumes "system_ready F d" "turn_on K e"
  shows "sm_world (turn_collect e d) = world_after F K d" "plugins_in F (turn_collect e d)"
    "registered (turn_collect e d) = registered (pl_mgr (dm_loader d))" "world_ok (world_after F K d)"
proof -
  let ?m = "(pl_mgr (dm_loader d))\<lparr>sm_world := (sm_world (pl_mgr (dm_loader d)))\<lparr>w_kernel := K\<rparr>\<rparr>"
  have m: "plugins_in F ?m" "registered ?m = registered (pl_mgr (dm_loader d))" "\<forall>s \<in> set (registered (pl_mgr (dm_loader d))). s < 11"
    using assms(1) by (simp_all add: system_ready_def plugins_in_def registered_def)
  have t: "turn_collect e d = snd (fold collect_one (registered ?m) (0, ?m))"
    using assms(2) by (simp add: turn_collect_def turn_on_def svc_manager_collect_all_def Let_def)
  show "sm_world (turn_collect e d) = world_after F K d" "plugins_in F (turn_collect e d)"
    using collect_fold_world[OF m(1), of "registered ?m" 0] m(2,3) by (simp_all add: t world_after_def)
  show "registered (turn_collect e d) = registered (pl_mgr (dm_loader d))" by (simp add: registered_def turn_collect_keeps)
  show "world_ok (world_after F K d)"
    using round_world[of "registered (pl_mgr (dm_loader d))" "(sm_world (pl_mgr (dm_loader d)))\<lparr>w_kernel := K\<rparr>" F] assms
    by (simp add: world_after_def system_ready_def turn_on_def)
qed

lemma turn_loader:
  assumes "turn_on K e" "daemon_turn e d = Some d'"
  shows "dm_loader d' = (dm_loader d)\<lparr>pl_mgr := turn_collect e d\<rparr>"
  using assms events_quiet[of "te_events e"]
  by (auto simp: turn_on_def daemon_turn_def Let_def split: option.splits prod.splits if_splits)

lemma system_turn:
  assumes "system_ready F d" "turn_on K e"
  shows "\<exists>d'. daemon_turn e d = Some d' \<and> system_ready F d' \<and> sm_world (pl_mgr (dm_loader d')) = world_after F K d \<and>
    registered (pl_mgr (dm_loader d')) = registered (pl_mgr (dm_loader d)) \<and> dm_config d' = dm_config d"
proof -
  obtain d' where d': "daemon_turn e d = Some d'" "daemon_inv d'" "dm_config d' = dm_config d"
    using daemon_turn_state[of d e] assms(1) by (auto simp: system_ready_def)
  show ?thesis using d' turn_loader[OF assms(2) d'(1)] turn_collect_world[OF assms] assms(1)
    by (auto simp: system_ready_def)
qed

lemma system_text:
  assumes "system_ready F d" "turn_on K e" "floats_ok F" "daemon_turn e d = Some d'"
    and "length (render (system_tree F (te_now e) (registered (pl_mgr (dm_loader d))) (world_after F K d))) < 256 * 1024"
  shows "get_snapshot_callback d' = render (system_tree F (te_now e) (registered (pl_mgr (dm_loader d))) (world_after F K d)) \<and>
    jval_ok (system_tree F (te_now e) (registered (pl_mgr (dm_loader d))) (world_after F K d))"
proof -
  note w = turn_collect_world[OF assms(1,2)]
  have r: "\<forall>s \<in> set (registered (turn_collect e d)). s < 11" using assms(1) w(3) by (simp add: system_ready_def)
  note s = plugins_snapshots[OF w(2) r _ assms(3)]
  have i: "daemon_inv d" using assms(1) by (simp add: system_ready_def)
  have e: "filter (\<lambda>s. svc_enabled (plugin_store F s)) (registered (turn_collect e d)) =
      filter (\<lambda>s. service_names ! s \<noteq> ''heapmon'') (registered (turn_collect e d))"
    using r store_enabled by (intro filter_cong) auto
  have t: "snapshot_tree (te_now e) (turn_collect e d) (\<lambda>s. service_trees_of F (world_after F K d) ! s) =
      system_tree F (te_now e) (registered (pl_mgr (dm_loader d))) (world_after F K d)"
    using s(3)[unfolded e] w(1,3,4) by (simp add: system_tree_def)
  show ?thesis using snapshot_text_of_turn[OF i assms(4) s(1,2)] w(1,4) assms(5) t by simp
qed

section \<open>Whole runs\<close>

text \<open>What the services make of a sequence of states of the system.\<close>

definition system_run :: "'d floats \<Rightarrow> nat list \<Rightarrow> kernel list \<Rightarrow> 'd world \<Rightarrow> 'd world" where
  "system_run F ss Ks w = fold (\<lambda>K w. fold (\<lambda>s. run_service (plugin_store F s)) ss (w\<lparr>w_kernel := K\<rparr>)) Ks w"

abbreviation daemon_world :: "'d world daemon \<Rightarrow> 'd world" where
  "daemon_world d \<equiv> sm_world (pl_mgr (dm_loader d))"

abbreviation daemon_services :: "'d world daemon \<Rightarrow> nat list" where
  "daemon_services d \<equiv> registered (pl_mgr (dm_loader d))"

lemma system_loop:
  assumes "system_ready F d" "list_all2 turn_on Ks es" "dm_running d" "\<forall>e \<in> set es. \<not> terminates (dm_config d) e"
  shows "\<exists>d'. run_loop es d = Some d' \<and> system_ready F d' \<and> daemon_world d' = system_run F (daemon_services d) Ks (daemon_world d) \<and>
    daemon_services d' = daemon_services d \<and> dm_running d' \<and> dm_config d' = dm_config d"
  using assms
proof (induction es arbitrary: Ks d)
  case (Cons e es)
  obtain K Ks' where K: "Ks = K # Ks'" "turn_on K e" "list_all2 turn_on Ks' es"
    using Cons.prems(2) by (auto simp: list_all2_Cons2)
  obtain d1 where d1: "daemon_turn e d = Some d1" "system_ready F d1" "daemon_world d1 = world_after F K d"
    "daemon_services d1 = daemon_services d" "dm_config d1 = dm_config d"
    using system_turn[OF Cons.prems(1) K(2)] by blast
  have r: "dm_running d1" using turn_running[OF d1(1) Cons.prems(3)] Cons.prems(4) by (auto simp: terminates_def)
  show ?case using Cons.IH[OF d1(2) K(3) r] Cons.prems(3,4) d1 K(1) by (simp add: system_run_def world_after_def)
qed (simp add: system_run_def)

lemma run_loop_snoc:
  "run_loop (es @ [e]) d = (case run_loop es d of None \<Rightarrow> None | Some d' \<Rightarrow> if dm_running d' then daemon_turn e d' else Some d')"
  by (induction es arbitrary: d) (auto split: option.splits)

text \<open>A start with the libraries in the directory: what the program finds in its environment.\<close>

definition ships :: "init_env \<Rightarrow> qmem_config \<Rightarrow> string list \<Rightarrow> bool" where
  "ships env cfg ns \<longleftrightarrow> enable_plugins cfg \<and> plugin_dir cfg \<noteq> [] \<and> length (plugin_dir cfg) \<le> 490 \<and> ie_dl env = built_plugins (plugin_dir cfg) \<and>
     (\<exists>es. ie_dir env = Entries es \<and> filter is_so es = map (\<lambda>n. n @ ''.so'') ns) \<and> distinct ns \<and> set ns \<subseteq> set plugin_names \<and>
     0 < max_snapshots cfg \<and> ie_malloc env \<and> ie_calloc env \<and> daemonize env cfg = Forked 0"

lemma init_loader:
  assumes "daemon_init env cfg d = Init_returns 0 d'" "enable_plugins cfg"
  shows "pl_mgr (dm_loader d') = pl_mgr (snd (plugin_loader_load_all (ie_dl env) (ie_mtime env) (ie_dir env)
    (plugin_loader_init cfg (snd (svc_manager_init cfg (pl_mgr (dm_loader d)))))))"
  using assms
  by (auto simp: daemon_init_def init_services_def Let_def svc_manager_init_def plugin_loader_start_watcher_def init_prepare_fields
      split: fork_result.splits if_splits option.splits)

lemma addr_distinct:
  assumes "distinct ns" "set ns \<subseteq> set plugin_names"
  shows "distinct (map addr (exported ns))" "\<forall>s \<in> set (map addr (exported ns)). s < 11"
proof -
  have "inj_on addr (set (exported ns))"
    using exported_names[OF assms(2)] addr_found by (intro inj_on_inverseI[where g = "(!) service_names"]) blast
  then show "distinct (map addr (exported ns))" using assms(1) by (simp add: distinct_map) (simp add: exported_def)
  show "\<forall>s \<in> set (map addr (exported ns)). s < 11" using exported_names[OF assms(2)] addr_found by auto
qed

section \<open>The calls of the snapshots\<close>

text \<open>Whatever its state, a service only makes calls of the builder.\<close>

lemma jb_safe_seq: "jb_safe (jseq [])" "jb_safe f \<Longrightarrow> jb_safe (jseq fs) \<Longrightarrow> jb_safe (jseq (f # fs))"
proof -
  show "jb_safe (jseq [])" by (rule jb_safe_jseq) simp
  assume "jb_safe f" "jb_safe (jseq fs)"
  then show "jb_safe (jseq (f # fs))" by (simp add: jb_safe_def) (blast intro: jb_frame_trans)
qed

lemma jb_safe_arr: "jb_safe (jseq fs) \<Longrightarrow> jb_safe (jarr fs)"
  unfolding jarr_def[abs_def]
  by (rule jb_safe_comp[OF jb_safe_comp[OF jb_safe_brackets(3)] jb_safe_brackets(4)])

lemma jb_safe_if: "jb_safe f \<Longrightarrow> jb_safe g \<Longrightarrow> jb_safe (if b then f else g)"
  by simp

lemma jb_safe_skip: "jb_safe jskip"
  unfolding jskip_def[abs_def] by (rule jb_safe_id)

lemmas safe_calls = jb_safe_obj jb_safe_arr jb_safe_member jb_safe_seq jb_safe_kv jb_safe_fold jb_safe_if jb_safe_skip

lemma entries_safe:
  "jb_safe (delta_obj a)" "jb_safe (rss_obj a)" "jb_safe (slab_obj b)" "jb_safe (heap_obj c)" "jb_safe (iface_obj fmt d)" "jb_safe (blocked_obj e)"
  "jb_safe (consumer_obj f)" "jb_safe (leaker_obj f)" "jb_safe (socket_obj g)" "jb_safe (event_obj h)" "jb_safe (write_delta k x y p)"
  "jb_safe (kernel_leak_obj b)" "jb_safe (user_leak_obj c)" "jb_safe (process_usage_obj i)" "jb_safe (kernel_usage_obj b)" "jb_safe (memory_summary_obj l)"
  unfolding delta_obj_def rss_obj_def slab_obj_def heap_obj_def iface_obj_def blocked_obj_def consumer_obj_def leaker_obj_def socket_obj_def
    event_obj_def write_delta_def kernel_leak_obj_def user_leak_obj_def process_usage_obj_def kernel_usage_obj_def memory_summary_obj_def
  by (intro safe_calls)+

lemma snapshots_safe:
  "jb_safe (procmem_snapshot a)" "jb_safe (meminfo_snapshot fmt b)" "jb_safe (vmstat_snapshot c)" "jb_safe (slabinfo_snapshot d)"
  "jb_safe (heapmon_snapshot e)" "jb_safe (netstat_snapshot fmt f)" "jb_safe (procstat_snapshot g)" "jb_safe (fdmon_snapshot h)"
  "jb_safe (sockstat_snapshot i)" "jb_safe (procevent_snapshot k)"
  unfolding procmem_snapshot_def meminfo_snapshot_def vmstat_snapshot_def slabinfo_snapshot_def heapmon_snapshot_def netstat_snapshot_def
    procstat_snapshot_def fdmon_snapshot_def sockstat_snapshot_def procevent_snapshot_def Let_def
  by (intro safe_calls entries_safe)+

lemma memleak_json_safe: "jb_safe (memleak_json st l)"
  unfolding memleak_json_def by (cases l) (simp, intro safe_calls entries_safe)

lemma memleak_safe: "jb_safe (\<lambda>j. case memleak_snapshot s j of None \<Rightarrow> j | Some j' \<Rightarrow> j')"
  by (cases "memleak_lists s") (simp_all add: memleak_snapshot_def jb_safe_id memleak_json_safe)

lemma plugin_store_safe: "svc_snapshot (plugin_store F s) = Some f \<Longrightarrow> jb_safe (f w)"
proof -
  have "list_all (\<lambda>S. \<forall>f. svc_snapshot S = Some f \<longrightarrow> jb_safe (f w)) (all_services F)"
    unfolding all_services_def
    by (simp add: procmem_service_def meminfo_service_def vmstat_service_def slabinfo_service_def service_def heapmon_service_def
        netstat_service_def procstat_service_def fdmon_service_def sockstat_service_def procevent_service_def memleak_service_def
        snapshots_safe memleak_safe)
  then show "svc_snapshot (plugin_store F s) = Some f \<Longrightarrow> jb_safe (f w)"
    by (auto simp: plugin_store_def no_service_def list_all_length split: if_splits)
qed

section \<open>The program on the system\<close>

lemma count_as_it_is: "\<exists>c. S = S\<lparr>svc_collect_count := c\<rparr>"
  by (rule exI[of _ "svc_collect_count S"]) simp

lemma system_start:
  assumes "ships env cfg ns" "world_ok w"
  shows "\<exists>d. daemon_init env cfg ((daemon_statics (plugin_store F) w files pids)\<lparr>dm_log := lg\<rparr>) = Init_returns 0 d \<and> system_ready F d \<and>
    dm_config d = cfg \<and> daemon_services d = map addr (exported ns) \<and> daemon_world d = start_world F (exported ns) w"
proof -
  let ?d = "(daemon_statics (plugin_store F) w files pids)\<lparr>dm_log := lg\<rparr>"
  let ?m = "snd (svc_manager_init cfg (pl_mgr (dm_loader ?d)))"
  have f: "store_safe (pl_mgr (dm_loader ?d))" "pl_plugins (dm_loader ?d) = []" "pl_handles (dm_loader ?d) = 0"
    "length (dm_snapshot ?d) = SNAPSHOT_SIZE" "NUL \<in> set (dm_snapshot ?d)" "\<not> srv_running (dm_ipc ?d) \<and> \<not> srv_thread (dm_ipc ?d)"
    "\<not> ws_running (dm_web ?d) \<and> \<not> ws_thread (dm_web ?d)"
    using statics_facts[of "plugin_store F" w files pids] plugin_store_safe[of F] by (auto simp: store_safe_def)
  have c: "0 < max_snapshots cfg" "daemonize env cfg = Forked 0" "ie_malloc env" "ie_calloc env" using assms(1) by (simp_all add: ships_def)
  obtain d where d: "daemon_init env cfg ?d = Init_returns 0 d" "daemon_inv d" "dm_config d = cfg"
    using daemon_init_state[OF f(1-6) c(1,2) f(7) c(3,4)] by blast
  obtain es where es: "ie_dir env = Entries es" "filter is_so es = map (\<lambda>n. n @ ''.so'') ns" "plugin_dir cfg \<noteq> []" "length (plugin_dir cfg) \<le> 490"
    "ie_dl env = built_plugins (plugin_dir cfg)" "distinct ns" "set ns \<subseteq> set plugin_names" "enable_plugins cfg"
    using assms(1) by (auto simp: ships_def)
  have m: "sm_inv ?m" "registered ?m = []" "sm_store ?m = plugin_store F" "sm_world ?m = w"
    using manager_init_inv(1-3)[of cfg "pl_mgr (dm_loader ?d)"] by (simp_all add: svc_manager_init_def) (simp_all add: daemon_statics_def)
  have w: "world_ok (sm_world ?m)" using m(4) assms(2) by simp
  obtain r L where L: "load_entries (ie_dl env) (ie_mtime env) es 0 (plugin_loader_init cfg ?m) = (r, L)"
    "after_loading F w (plugin_dir cfg) (ie_mtime env) ns L"
    using load_libraries[OF after_loading_start[OF es(3,4) m(1-3) w, of "ie_mtime env"] es(4,2), of 0] es(5-7) m(4) by auto
  have "pl_mgr (dm_loader d) = pl_mgr L"
    using init_loader[OF d(1) es(8)] L(1) es(1) by (simp add: plugin_loader_load_all_def)
  then show ?thesis using d L(2) addr_distinct[OF es(6,7)] by (auto simp: system_ready_def after_loading_def plugins_in_def count_as_it_is)
qed

lemma qmemd_system:
  assumes "config_parse_args fs opts config_init_defaults = Parsed cfg" "ships env cfg ns" "world_ok w"
    and "list_all2 turn_on Ks es" "\<forall>e \<in> set es. \<not> terminates cfg e"
  shows "\<exists>d. qmemd_main True fs opts env es (daemon_statics (plugin_store F) w files pids) = Main_running d \<and> system_ready F d \<and>
    daemon_services d = map addr (exported ns) \<and> daemon_world d = system_run F (map addr (exported ns)) Ks (start_world F (exported ns) w) \<and>
    (\<forall>es' e Ks' K. es = es' @ [e] \<and> Ks = Ks' @ [K] \<longrightarrow> (\<exists>d1. system_ready F d1 \<and> daemon_turn e d1 = Some d \<and> turn_on K e \<and>
      daemon_services d1 = daemon_services d \<and> world_after F K d1 = daemon_world d))"
proof -
  let ?s = "daemon_statics (plugin_store F) w files pids" and ?ss = "map addr (exported ns)" and ?w = "start_world F (exported ns) w"
  obtain d where d: "daemon_init env cfg (?s\<lparr>dm_log := log_init (log_level cfg) False (dm_log ?s)\<rparr>) = Init_returns 0 d" "system_ready F d"
    "dm_config d = cfg" "daemon_services d = ?ss" "daemon_world d = ?w"
    using system_start[OF assms(2,3)] by blast
  let ?d = "d\<lparr>dm_running := True\<rparr>"
  have r: "system_ready F ?d" "dm_running ?d" "dm_config ?d = cfg" "daemon_services ?d = ?ss" "daemon_world ?d = ?w"
    using d(2-5) by (simp_all add: system_ready_def)
  obtain d' where d': "run_loop es ?d = Some d'" "system_ready F d'" "daemon_world d' = system_run F ?ss Ks ?w" "daemon_services d' = ?ss" "dm_running d'"
    using system_loop[OF r(1) assms(4) r(2)] assms(5) r(3-5) by auto
  have main: "qmemd_main True fs opts env es ?s = Main_running d'"
    using assms(1) d(1) d'(1,5) by (simp add: qmemd_main_def daemon_run_def)
  have last: "\<exists>d1. system_ready F d1 \<and> daemon_turn e d1 = Some d' \<and> turn_on K e \<and> daemon_services d1 = daemon_services d' \<and>
      world_after F K d1 = daemon_world d'"
    if s: "es = es' @ [e]" "Ks = Ks' @ [K]" for es' e Ks' K
  proof -
    have "length Ks' = length es'" using list_all2_lengthD[OF assms(4)] s by simp
    then have l: "list_all2 turn_on Ks' es'" "turn_on K e" using assms(4) s by (simp_all add: list_all2_append)
    obtain d1 where d1: "run_loop es' ?d = Some d1" "system_ready F d1" "daemon_world d1 = system_run F ?ss Ks' ?w" "daemon_services d1 = ?ss" "dm_running d1"
      using system_loop[OF r(1) l(1) r(2)] assms(5) r(3-5) s by auto
    have "daemon_turn e d1 = Some d'" using d'(1) s(1) d1(1,5) run_loop_snoc[of es' e ?d] by simp
    moreover have "world_after F K d1 = daemon_world d'" using d'(3) d1(3,4) s(2) by (simp add: system_run_def world_after_def)
    ultimately show ?thesis using d1(2,4) d'(4) l(2) by auto
  qed
  show ?thesis using main d'(2-4) last by blast
qed

text \<open>
  C3 (the program on the system). Started as root with any of the libraries of the build in its plugin directory, with memory for its history
  and its snapshot, \<open>qmemd\<close> runs through every sequence of states of the system without a termination signal; nothing in a service is
  undefined; and after the last turn a client receives exactly the JSON text of what the services make of the sequence, started together
  and run in the order of the directory. The heap monitor is loaded and started with the others, but it is disabled: it never collects, and
  the text has no member for it.
\<close>

theorem qmemd_serves_system:
  fixes F :: "'d floats"
  assumes "config_parse_args fs opts config_init_defaults = Parsed cfg" and "ships env cfg ns" and "world_ok w" and "floats_ok F"
    and "list_all2 turn_on (Ks @ [K]) (es @ [e])" and "\<forall>e \<in> set (es @ [e]). \<not> terminates cfg e"
  defines "ss \<equiv> map addr (filter (\<lambda>n. n \<noteq> ''cpuload'') ns)"
  defines "tree \<equiv> system_tree F (te_now e) ss (system_run F ss (Ks @ [K]) (start_world F (filter (\<lambda>n. n \<noteq> ''cpuload'') ns) w))"
  assumes "length (render tree) < 256 * 1024 - 16"
  shows "\<exists>d. qmemd_main True fs opts env (es @ [e]) (daemon_statics (plugin_store F) w files pids) = Main_running d \<and>
    \<not> w_undefined (daemon_world d) \<and>
    client_get_snapshot (Some (serve junk (Some (Some (get_snapshot_callback d))) hist)) True False = Some (render tree) \<and>
    json_parse (render tree) = Some tree"
proof -
  obtain d d1 where d: "qmemd_main True fs opts env (es @ [e]) (daemon_statics (plugin_store F) w files pids) = Main_running d" "system_ready F d"
    "daemon_services d = ss" "daemon_world d = system_run F ss (Ks @ [K]) (start_world F (filter (\<lambda>n. n \<noteq> ''cpuload'') ns) w)"
    "system_ready F d1" "daemon_turn e d1 = Some d" "turn_on K e" "daemon_services d1 = daemon_services d" "world_after F K d1 = daemon_world d"
    using qmemd_system[OF assms(1-3,5,6)] unfolding ss_def exported_def[symmetric] by blast
  have t: "get_snapshot_callback d = render tree" "jval_ok tree"
    using system_text[OF d(5,7) assms(4) d(6)] assms(9) d(3,4,8,9) by (simp_all add: tree_def)
  have "\<not> w_undefined (daemon_world d)" using d(2) by (simp add: system_ready_def world_ok_def)
  then show ?thesis using d(1) get_snapshot_text[OF render_not_nul[OF t(2)], of junk hist] assms(9) t(1) json_parse_render[OF t(2)] by auto
qed

section \<open>What the memory monitor of the daemon reports\<close>

lemma system_run_ok:
  assumes "\<forall>K \<in> set Ks. kernel_ok K" "\<forall>s \<in> set ss. s < 11" "world_ok w"
  shows "world_ok (system_run F ss Ks w)"
  using assms
proof (induction Ks arbitrary: w)
  case (Cons K Ks)
  have "world_ok (fold (\<lambda>s. run_service (plugin_store F s)) ss (w\<lparr>w_kernel := K\<rparr>))"
    using round_world[OF Cons.prems(2), of "w\<lparr>w_kernel := K\<rparr>" F] Cons.prems by simp
  then show ?case using Cons.IH Cons.prems by (simp add: system_run_def)
qed (simp add: system_run_def)

lemma system_run_procmem:
  assumes "\<forall>K \<in> set (Ks @ [K]). kernel_ok K" "\<forall>s \<in> set ss. s < 11" "distinct ss" "0 \<in> set ss" "world_ok w"
  shows "procmem_inv (w_procmem (system_run F ss Ks w)) \<and>
    procmem_collect (k_fs K) (k_dirs K ''/proc'') (w_procmem (system_run F ss Ks w)) = Some (w_procmem (system_run F ss (Ks @ [K]) w))"
proof -
  let ?v = "system_run F ss Ks w"
  have v: "world_ok ?v" using system_run_ok[OF _ assms(2,5)] assms(1) by simp
  then have i: "procmem_inv (w_procmem ?v)" by (simp add: world_ok_def)
  then obtain p where p: "procmem_collect (k_fs K) (k_dirs K ''/proc'') (w_procmem ?v) = Some p"
    using collect_inv[OF i, of "k_fs K" "k_dirs K ''/proc''"] assms(1) by (auto simp: kernel_ok_def)
  have "w_procmem (fold (\<lambda>s. run_service (plugin_store F s)) ss (?v\<lparr>w_kernel := K\<rparr>)) = p"
    using round_procmem[OF assms(3,2), of "?v\<lparr>w_kernel := K\<rparr>" p F] v p assms(1,4) by simp
  then show ?thesis using i p by (simp add: system_run_def)
qed

lemma turns_ok: "list_all2 turn_on Ks es \<Longrightarrow> \<forall>K \<in> set Ks. kernel_ok K"
  by (induction rule: list_all2_induct) (auto simp: turn_on_def)

text \<open>
  C11 (growth the daemon cannot see). Run with the process monitor among its libraries, on a system whose \<open>/proc\<close> directory lists the same
  processes, each once and in the same order, in the last two turns, the daemon ends with no grower and no shrinker to report, however much
  memory the processes gained or lost between the two turns and whatever happened before.
\<close>

theorem daemon_misses_growth:
  fixes F :: "'d floats"
  assumes "config_parse_args fs opts config_init_defaults = Parsed cfg" and "ships env cfg ns" and "world_ok w" and "''procmem'' \<in> set ns"
    and "list_all2 turn_on (Ks @ [K1, K2]) es" and "\<forall>e \<in> set es. \<not> terminates cfg e"
    and "stored_pids (k_fs K1) (k_dirs K1 ''/proc'') = P" and "stored_pids (k_fs K2) (k_dirs K2 ''/proc'') = P" and "distinct P"
  shows "\<exists>d. qmemd_main True fs opts env es (daemon_statics (plugin_store F) w files pids) = Main_running d \<and>
    pm_growers (w_procmem (daemon_world d)) = [] \<and> pm_shrinkers (w_procmem (daemon_world d)) = []"
proof -
  let ?ss = "map addr (exported ns)" and ?w = "start_world F (exported ns) w"
  obtain d where d: "qmemd_main True fs opts env es (daemon_statics (plugin_store F) w files pids) = Main_running d"
    "daemon_world d = system_run F ?ss (Ks @ [K1, K2]) ?w"
    using qmemd_system[OF assms(1-3,5,6)] by blast
  have ns: "distinct ns" "set ns \<subseteq> set plugin_names" using assms(2) by (simp_all add: ships_def)
  have w: "world_ok ?w" using system_start[OF assms(2,3), where F = F and files = files and pids = pids and lg = "dm_log (daemon_statics (plugin_store F) w files pids)"] by (auto simp: system_ready_def)
  have K: "\<forall>K \<in> set (Ks @ [K1, K2]). kernel_ok K"
    using assms(5) by (rule turns_ok)
  have "addr ''procmem'' = 0" by (simp add: addr_def service_names_def)
  moreover have "''procmem'' \<in> set (exported ns)" using assms(4) by (simp add: exported_def)
  ultimately have z: "0 \<in> set ?ss" using image_eqI[of 0 addr "''procmem''" "set (exported ns)"] by simp
  note step = system_run_procmem[OF _ addr_distinct(2)[OF ns] addr_distinct(1)[OF ns] z w, of _ _ F]
  have 1: "procmem_inv (w_procmem (system_run F ?ss Ks ?w))"
    "procmem_collect (k_fs K1) (k_dirs K1 ''/proc'') (w_procmem (system_run F ?ss Ks ?w)) = Some (w_procmem (system_run F ?ss (Ks @ [K1]) ?w))"
    using step[of Ks K1] K by auto
  have 2: "procmem_collect (k_fs K2) (k_dirs K2 ''/proc'') (w_procmem (system_run F ?ss (Ks @ [K1]) ?w)) =
      Some (w_procmem (system_run F ?ss (Ks @ [K1, K2]) ?w))"
    using step[of "Ks @ [K1]" K2] K by auto
  have "length P \<le> 8192" using K assms(7) by (auto simp: kernel_ok_def)
  then show ?thesis using procmem_stable_zero[OF 1(1) assms(7-9) _ 1(2) 2] d by auto
qed

section \<open>A concrete system\<close>

definition demo_floats :: "unit floats" where
  "demo_floats = \<lparr>f_zero = (), f_pct = (\<lambda>a b. ()), f_rate = (\<lambda>a b. ()), f_print = (\<lambda>x. ''7'')\<rparr>"

text \<open>Two processes, the first with \<open>r\<close> kB resident.\<close>

definition demo_kernel :: "nat \<Rightarrow> kernel" where
  "demo_kernel r = \<lparr>k_fs = demo_proc r 7, k_dirs = (\<lambda>p. if p = ''/proc'' then Some [''1'', ''self'', ''2''] else None), k_links = (\<lambda>p. None),
     k_stack = (\<lambda>n. []), k_now = 0, k_clock = (\<lambda>n. 0)\<rparr>"

definition demo_world :: "unit world" where
  "demo_world = \<lparr>w_kernel = demo_kernel 0, w_undefined = False, w_procmem = procmem_init, w_meminfo = meminfo_init (), w_vmstat = vmstat_init,
     w_slabinfo = slabinfo_init, w_heapmon = heapmon_init, w_netstat = netstat_init, w_procstat = procstat_init, w_fdmon = fdmon_init,
     w_sockstat = sockstat_init, w_procevent = procevent_init, w_memleak = memleak_init ()\<rparr>"

definition demo_step :: "nat \<Rightarrow> unit world turn_env" where
  "demo_step r = \<lparr>te_world = (\<lambda>w. w\<lparr>w_kernel := demo_kernel r\<rparr>), te_now = 7, te_push_now = 8, te_malloc = True, te_dl = (\<lambda>p. None),
     te_mtime = (\<lambda>p. 0), te_events = [Changed ''README''], te_work = [], te_check = [], te_sleep = []\<rparr>"

definition demo_boot :: "string list \<Rightarrow> init_env" where
  "demo_boot names = demo_init\<lparr>ie_dl := built_plugins ''/usr/lib/qmem/plugins'', ie_dir := Entries (''README'' # map (\<lambda>n. n @ ''.so'') names)\<rparr>"

lemma demo_world_ok: "world_ok demo_world"
  by (simp add: world_ok_def demo_world_def procmem_inv_init heapmon_inv_init memleak_inv_init ev_inv_def)
    (simp add: procevent_init_def ev_ring_inv_def)

lemma demo_kernel_pids: "int r \<le> INT64_MAX \<Longrightarrow> stored_pids (k_fs (demo_kernel r)) (k_dirs (demo_kernel r) ''/proc'') = [1, 2]"
  by (simp add: demo_kernel_def demo_proc_stored)

lemma demo_kernel_ok: "int r \<le> INT64_MAX \<Longrightarrow> kernel_ok (demo_kernel r)"
proof -
  assume r: "int r \<le> INT64_MAX"
  have "demo_proc r 7 (task_dir pid tid @ ''/stat'') = None" for pid tid
  proof -
    have "p \<noteq> ''/proc/1/status'' \<and> p \<noteq> ''/proc/2/status''" if "last p = CHR ''t''" for p using that by auto
    from this[of "task_dir pid tid @ ''/stat''"] show ?thesis by (simp add: demo_proc_def)
  qed
  then have "defined_stats (demo_proc r 7)" by (simp add: defined_stats_def read_proc_state_def proc_read_file_def)
  then show ?thesis using demo_kernel_pids[OF r] by (simp add: kernel_ok_def) (simp add: demo_kernel_def)
qed

lemma demo_step_on: "int r \<le> INT64_MAX \<Longrightarrow> turn_on (demo_kernel r) (demo_step r)" "\<not> terminates cfg (demo_step r)"
  by (simp_all add: turn_on_def demo_step_def demo_kernel_ok is_so_def terminates_def stops_def)

abbreviation demo_config :: qmem_config where
  "demo_config \<equiv> config_init_defaults\<lparr>max_snapshots := 3, foreground := True\<rparr>"

lemma demo_config_args: "config_parse_args (demo_file ''3'') [(CHR ''c'', ''q.conf''), (CHR ''f'', [])] config_init_defaults = Parsed demo_config"
  using demo_file_args[of "''3''"] demo_values by simp

lemma demo_ships:
  assumes "distinct ns" "set ns \<subseteq> set plugin_names"
  shows "ships (demo_boot ns) demo_config ns"
proof -
  have "list_all is_so (map (\<lambda>n. n @ ''.so'') ns)" using assms(2) library_file by (auto simp: list_all_iff)
  then have f: "filter is_so (''README'' # map (\<lambda>n. n @ ''.so'') ns) = map (\<lambda>n. n @ ''.so'') ns"
    by (simp add: filter_id_conv list_all_iff is_so_def)
  have d: "plugin_dir demo_config = ''/usr/lib/qmem/plugins''" "enable_plugins demo_config"
    by (simp_all add: config_init_defaults_def bounded_copy_def)
  show ?thesis
    unfolding ships_def d(1) using assms d(2) f by (simp add: demo_boot_def daemonize_def) (simp add: demo_init_def)
qed

theorem plugins_loaded_witness:
  "case plugin_loader_load_all (built_plugins ''/usr/lib/qmem/plugins'') (\<lambda>p. 0) (Entries [''meminfo.so'', ''cpuload.so'', ''vmstat.so''])
     (plugin_loader_init config_init_defaults (snd (svc_manager_init config_init_defaults (pl_mgr (dm_loader (daemon_statics (plugin_store demo_floats) demo_world {} (\<lambda>p. None))))))) of
     (r, L) \<Rightarrow> r = 2 \<and> map lp_name (pl_plugins L) = [''meminfo'', ''vmstat'']"
proof -
  let ?m = "snd (svc_manager_init config_init_defaults (pl_mgr (dm_loader (daemon_statics (plugin_store demo_floats) demo_world {} (\<lambda>p. None)))))"
  have m: "sm_inv ?m" "registered ?m = []" "sm_store ?m = plugin_store demo_floats" "sm_world ?m = demo_world"
    using manager_init_inv(1-3)[of config_init_defaults "pl_mgr (dm_loader (daemon_statics (plugin_store demo_floats) demo_world {} (\<lambda>p. None)))"]
    by (simp_all add: svc_manager_init_def) (simp_all add: daemon_statics_def)
  have d: "plugin_dir config_init_defaults = ''/usr/lib/qmem/plugins''" by (simp add: config_init_defaults_def bounded_copy_def)
  show ?thesis
    using plugins_loaded[of "[''meminfo.so'', ''cpuload.so'', ''vmstat.so'']" "[''meminfo'', ''cpuload'', ''vmstat'']" config_init_defaults ?m demo_floats "\<lambda>p. 0"]
      m demo_world_ok unfolding d by (auto simp: is_so_def plugin_names_def service_names_def)
qed

theorem daemon_misses_growth_witness:
  "\<exists>d. qmemd_main True (demo_file ''3'') [(CHR ''c'', ''q.conf''), (CHR ''f'', [])] (demo_boot [''memleak'', ''procmem'']) [demo_step 1, demo_step 5, demo_step 500000]
     (daemon_statics (plugin_store demo_floats) demo_world {} (\<lambda>p. None)) = Main_running d \<and> pm_growers (w_procmem (daemon_world d)) = []"
proof -
  have s: "ships (demo_boot [''memleak'', ''procmem'']) demo_config [''memleak'', ''procmem'']"
    by (rule demo_ships) (simp_all add: plugin_names_def service_names_def)
  have P: "stored_pids (k_fs (demo_kernel 5)) (k_dirs (demo_kernel 5) ''/proc'') = [1, 2]"
    "stored_pids (k_fs (demo_kernel 500000)) (k_dirs (demo_kernel 500000) ''/proc'') = [1, 2]"
    by (simp_all add: demo_kernel_pids)
  show ?thesis
    using daemon_misses_growth[OF demo_config_args s demo_world_ok _ _ _ P, of "[demo_kernel 1]" "[demo_step 1, demo_step 5, demo_step 500000]" demo_floats "{}" "\<lambda>p. None"]
      demo_step_on by auto
qed

theorem qmemd_serves_system_witness:
  "\<exists>d. qmemd_main True (demo_file ''3'') [(CHR ''c'', ''q.conf''), (CHR ''f'', [])] (demo_boot [''cpuload'', ''heapmon'', ''vmstat'']) [demo_step 1, demo_step 5]
     (daemon_statics (plugin_store demo_floats) demo_world {} (\<lambda>p. None)) = Main_running d \<and>
     client_get_snapshot (Some (serve [] (Some (Some (get_snapshot_callback d))) None)) True False = Some (render (reply 7 [(''vmstat'', vmstat_tree vmstat_init)]))"
proof -
  have s: "ships (demo_boot [''cpuload'', ''heapmon'', ''vmstat'']) demo_config [''cpuload'', ''heapmon'', ''vmstat'']"
    by (rule demo_ships) (simp_all add: plugin_names_def service_names_def)
  have a: "addr ''vmstat'' = 2" "addr ''heapmon'' = 4" by (simp_all add: addr_def service_names_def)
  have p: "plugin_store F 2 = vmstat_service F" "plugin_store F 4 = heapmon_service F" for F :: "unit floats"
    by (simp_all add: plugin_store_def all_services_def)
  have c: "vmstat_collect (k_fs (demo_kernel r)) v = (-1, v)" for r v
    by (simp add: vmstat_collect_def parse_vmstat_def demo_kernel_def demo_proc_def proc_read_file_def)
  have w: "w_vmstat (system_run demo_floats [4, 2] [demo_kernel 1, demo_kernel 5] (start_world demo_floats [''heapmon'', ''vmstat''] demo_world)) = vmstat_init"
    by (simp add: system_run_def start_world_def a p vmstat_service_def heapmon_service_def start_service_def c) (simp add: service_def)
  have t: "system_tree demo_floats 7 [4, 2] (system_run demo_floats [4, 2] [demo_kernel 1, demo_kernel 5] (start_world demo_floats [''heapmon'', ''vmstat''] demo_world)) =
      reply 7 [(''vmstat'', vmstat_tree vmstat_init)]"
    by (simp add: system_tree_def service_trees_of_def service_names_def w[simplified])
  have l: "length (render (reply 7 [(''vmstat'', vmstat_tree vmstat_init)])) < 256 * 1024 - 16"
    by (simp add: vmstat_tree_def vmstat_init_def vmstat_zero_def key_text_def key_char_def int_str_def nat_str.simps)
  have "floats_ok demo_floats" by (simp add: floats_ok_def demo_floats_def num_ok_def num_char_def isdigit_def)
  then show ?thesis
    using qmemd_serves_system[OF demo_config_args s demo_world_ok, of demo_floats "[demo_kernel 1]" "demo_kernel 5" "[demo_step 1]" "demo_step 5" "{}" "\<lambda>p. None" "[]" None]
      demo_step_on t l a by (simp add: demo_step_def[THEN arg_cong[where f = te_now], simplified] cong: if_cong) blast
qed

end
