(* ===== verification/Spec2Isabelle.thy ===== *)
theory Spec2Isabelle
  imports JsonProps ProcUtils Format Ringbuf JsonObj Config Ipc ServiceManager PluginLoader Procmem Procevent Daemon Memleak Vmstat Netstat Procstat
    Fdmon Cpuload Sockstat WebApi CliMemleak System
begin

text \<open>
  qmem: a memory monitor for Linux. The daemon \<open>qmemd\<close> loads services from shared libraries; every few seconds each service reads \<open>/proc\<close>,
  and all of them write one JSON snapshot. The snapshot is kept in a history and served over a Unix socket to the tool \<open>qmemctl\<close> and over HTTP
  to a dashboard.

  \<^bold>\<open>Parts and theories\<close> (paths under \<open>src/src/\<close> unless they begin with \<open>include\<close>)

  \<^item> \<open>Prelude\<close>, \<open>Sorting\<close>, \<open>Scanf\<close>: the C library as far as the sources use it: strings and bounded copies, \<open>strtol\<close>, \<open>atoi\<close>, \<open>strstr\<close>,
    \<open>qsort\<close> (the contract \<open>qsort_contract\<close> and one function that satisfies it), \<open>sscanf\<close>.
  \<^item> \<open>Json\<close>, \<open>JsonText\<close>, \<open>JsonParse\<close>, \<open>JsonProps\<close>, \<open>JsonObj\<close>: the builder of \<open>common/json.c\<close> over a byte buffer, the text its calls denote, a strict
    reader as its specification, and trees \<open>jval\<close>; the contract \<open>snapshot_writer\<close> of every snapshot function.
  \<^item> \<open>Format\<close>, \<open>ProcUtils\<close>, \<open>ProcFields\<close>, \<open>StatFile\<close>: \<open>common/format.c\<close>, \<open>common/log.c\<close>, \<open>common/proc_utils.c\<close>, and what the readers of
    name-value files and of \<open>stat\<close> files share.
  \<^item> \<open>PidHash\<close>: the pool with hash chains that \<open>procmem.c\<close>, \<open>cpuload.c\<close> and \<open>procevent.c\<close> each contain.
  \<^item> \<open>Config\<close>, \<open>Ringbuf\<close>, \<open>Ipc\<close>, \<open>ServiceManager\<close>, \<open>PluginLoader\<close>: \<open>daemon/config.c\<close>, \<open>daemon/ringbuffer.c\<close>, \<open>include/qmem/protocol.h\<close> with
    \<open>daemon/ipc_server.c\<close> and \<open>cli/client.c\<close>, \<open>daemon/service_manager.c\<close>, \<open>daemon/plugin_loader.c\<close> with \<open>include/qmem/plugin.h\<close>.
  \<^item> \<open>Procmem\<close>, \<open>Heapmon\<close>, \<open>Memleak\<close>, \<open>Meminfo\<close>, \<open>Vmstat\<close>, \<open>Slabinfo\<close>, \<open>Cpuload\<close>, \<open>Netstat\<close>, \<open>Procstat\<close>, \<open>Fdmon\<close>, \<open>Sockstat\<close>, \<open>Procevent\<close>: the
    file of the same name in \<open>services/\<close>. Each has the state of the file's statics as a record and \<open>X_init\<close>, \<open>X_collect\<close>, \<open>X_snapshot\<close> and the accessors.
  \<^item> \<open>Http\<close>, \<open>StaticFiles\<close>, \<open>WebApi\<close>: \<open>web/http_server.c\<close>, \<open>web/static_files.c\<close>, \<open>web/api.c\<close>.
  \<^item> \<open>Daemon\<close>: \<open>daemon/daemon.c\<close> and \<open>daemon/main.c\<close>: start-up, the loop, signals, shutdown, the callbacks of the servers.
  \<^item> \<open>CliText\<close>, \<open>Commands\<close>: \<open>cli/commands.c\<close> and \<open>cli/main.c\<close>. \<open>CliKeys\<close>, \<open>CliProps\<close>, \<open>CliMain\<close>, \<open>CliMemleak\<close>: what the commands print for
    the snapshots of the daemon.
  \<^item> \<open>Plugins\<close>, \<open>System\<close>: the libraries the build makes of \<open>services/\<close>, over one world that has the statics of each, and the program that loads them.

  \<^bold>\<open>How the model corresponds to the code.\<close> A struct is a record, an enumeration a datatype, a function a definition of the same name; a static is
  a field of the state that is passed in and returned. \<open>uint64_t\<close> counters are \<open>64 word\<close>; \<open>int\<close> and \<open>int64_t\<close> values are \<open>int\<close> with the
  conversions of the C library written out (\<open>to_int32\<close>, \<open>clamp64\<close>), and signed differences of readings are taken as mathematical integers.
  A \<open>char[n]\<close> member is the C string it holds, cut by \<open>bounded_copy\<close>; buffers whose bytes matter (the snapshot, messages) are lists of all bytes.
  A pointer into a table is an index, a service structure an address in a store. A traversal of hash chains might not end, because chains of a previous
  round point into the pool that the current round overwrites: it is a partial function whose value \<open>None\<close> is not returning, no fuel is used, and the invariant
  \<open>pt_inv\<close> (every pointer of a cell leads to an earlier cell) proves that every traversal ends. An access outside an array or a string is
  \<open>None\<close> or \<open>Stat_undefined\<close> as well; in \<open>System\<close> it marks the world as undefined, which is proved not to happen.

  \<^bold>\<open>What the theorems show\<close>

  \<^item> The builder stays in its buffer for every sequence of calls, keeps its overflow flag, and its text parses back to the tree it
    was asked to write; every service fulfils the contract \<open>snapshot_writer\<close>, so the whole snapshot does.
  \<^item> The registry refines a list, the history a bounded queue (locale \<open>bounded_history\<close>), the loader keeps
    linker, table and registry in agreement through loads, unloads, reloads, events and shutdown.
  \<^item> The services report what the files say, on every input: the best entries in their order, differences to the previous collection, counts of each state,
    bounds of the tables; the optimised selection by exchanges equals \<open>qsort\<close>.
  \<^item> The daemon ends with the first termination signal and not before, stops its servers, empties the registry and removes its pidfile; it never leaves
    an array; the history holds the latest turns; clients and browsers get exactly the text of the latest turn.
  \<^item> \<open>System\<close> puts the parts together: started on its libraries, the program is a function of the sequence of the states of the system, and the client receives its value.
    \<open>system_run\<close> is that function; \<open>qmemd_serves_system\<close> the refinement.
  \<^item> The text search of the tool finds a key exactly if the tree has it; the complete outputs of \<open>top\<close>, \<open>sockets\<close>, \<open>memleak\<close>, \<open>raw\<close>, \<open>services\<close>; errors end with status 1.
  \<^item> Several theorems state a behaviour that is not what the code means to do; \<open>daemon_misses_growth\<close> is the most far-reaching of them.

  \<^bold>\<open>Parameters.\<close> The outcome of each system call of a start; the files, directories and links below \<open>/proc\<close>, with the pieces in which reads return;
  the time; the dynamic linker; inotify events and signals, as the input of each turn; what a stack buffer held before; \<open>getopt_long\<close>, as the list of options it returns;
  doubles: the type, the computation of percentages and rates and their printed form, which is assumed to be a number where a theorem needs it.
  In \<open>System\<close> all services of a turn see the same state of the system, at most 8192 readable processes (the size of the pool), and no library is replaced.

  \<^bold>\<open>Not modelled.\<close> Text written to the log: no state depends on it. The threads of the servers run between the steps of the loop, except for
  \<open>snapshot_read_race\<close>, which reads the buffer in the middle of one. \<open>include/qmem/types.h\<close>: declarations no other file uses.
  \<open>qmem_service_init\<close> and its like in \<open>services/service.h\<close> are declared and nowhere defined. The usage texts of \<open>qmemd\<close>, the tests and the test programs.
\<close>

section \<open>The snapshots and the text search\<close>

lemmas service_trees = procmem_tree_def delta_tree_def rss_tree_def meminfo_tree_def meminfo_view_def delta_member_def vmstat_tree_def slabinfo_tree_def
  slab_tree_def heapmon_tree_def heap_tree_def netstat_tree_def iface_tree_def procstat_tree_def blocked_tree_def fdmon_tree_def consumer_tree_def
  leaker_tree_def cpuload_tree_def cpu_tree_def sockstat_tree_def socket_tree_def procevent_tree_def event_tree_def Let_def

lemma num_ok_no_quote: "num_ok t \<Longrightarrow> DQ \<notin> set t"
  by (auto simp: num_ok_def num_char_def isdigit_def)

lemma plain_trees:
  assumes "\<And>x. num_ok (fmt x)"
  shows "plain_tree (meminfo_tree fmt b)" "plain_tree (vmstat_tree c)" "plain_tree (slabinfo_tree d)"
    "plain_tree (heapmon_tree e)" "plain_tree (netstat_tree fmt f)" "plain_tree (procstat_tree g)" "plain_tree (fdmon_tree h)"
    "plain_tree (cpuload_tree fmt i)" "plain_tree (sockstat_tree j)" "plain_tree (procevent_tree k)"
  using num_ok_no_quote[OF assms]
  by (auto simp: service_trees plain_key_text_def split: option.splits)

text \<open>Calls of the builder that write one tree of JSON values, with plain keys.\<close>

definition writes_plain :: "(json_builder \<Rightarrow> json_builder) \<Rightarrow> jval \<Rightarrow> bool" where
  "writes_plain w v \<longleftrightarrow> emits_val w v \<and> jval_ok v \<and> plain_tree v"

text \<open>
  C16 (types of the snapshots). Whatever their state, the twelve services write one JSON value each, and the text search of the command line
  tool can tell its keys from its values: no key contains a quote, a separator or a bracket, and no number a quote. For the process events
  the ring of the service is assumed well formed, and for the services with percentages and rates that a double is printed as a number.
\<close>

theorem services_write_plain_trees:
  assumes "\<And>x. num_ok (fmt x)" and "ev_ring_inv k"
  shows "list_all (\<lambda>(w, v). writes_plain w v)
    [(procmem_snapshot a, procmem_tree a), (meminfo_snapshot fmt b, meminfo_tree fmt b), (vmstat_snapshot c, vmstat_tree c),
     (slabinfo_snapshot d, slabinfo_tree d), (heapmon_snapshot e, heapmon_tree e), (netstat_snapshot fmt f, netstat_tree fmt f),
     (procstat_snapshot g, procstat_tree g), (fdmon_snapshot h, fdmon_tree h), (cpuload_snapshot fmt i, cpuload_tree fmt i),
     (sockstat_snapshot j, sockstat_tree j), (procevent_snapshot k, procevent_tree k), (memleak_json (fst l) (snd l), memleak_tree l)]"
  using plain_trees[OF assms(1)] assms
  by (auto simp: writes_plain_def procmem_out.emits procmem_out.tree_ok meminfo_out.emits meminfo_out.tree_ok vmstat_out.emits vmstat_out.tree_ok
      slabinfo_out.emits slabinfo_out.tree_ok heapmon_out.emits heapmon_out.tree_ok netstat_out.emits netstat_out.tree_ok
      procstat_out.emits procstat_out.tree_ok fdmon_out.emits fdmon_out.tree_ok cpuload_out.emits cpuload_out.tree_ok
      sockstat_out.emits sockstat_out.tree_ok procevent_out.emits procevent_out.tree_ok memleak_out.emits memleak_out.tree_ok)

theorem services_write_plain_trees_witness:
  "writes_plain (meminfo_snapshot (\<lambda>x. ''7'') demo_memory) (meminfo_tree (\<lambda>x. ''7'') demo_memory) \<and>
   writes_plain (procevent_snapshot procevent_init) (procevent_tree procevent_init)"
proof -
  have "num_ok ''7''" by (simp add: num_ok_def num_char_def isdigit_def)
  moreover have "ev_ring_inv procevent_init" by (simp add: ev_ring_inv_def procevent_init_def)
  ultimately show ?thesis
    using services_write_plain_trees[of "\<lambda>x. ''7''" procevent_init procmem_init demo_memory] by simp
qed

end
